(* ===== verification/Prelude.thy ===== *)
theory Prelude
  imports Main "HOL-Library.Word"
begin

text \<open>
  Shared vocabulary of the development: machine integers at the width of the Rust source, the
  \<open>Result\<close> type and its sequencing operator (the \<open>?\<close> of the source), the state-and-error
  sequencing used where a method takes \<open>&mut self\<close>, slices, little-endian encoding, UTF-8
  validation as \<open>String::from_utf8\<close> performs it, and the generic lemmas on them.

  Conventions: \<open>u8\<close>, \<open>u16\<close>, \<open>u32\<close>, \<open>u64\<close> are words; \<open>i32\<close> and \<open>i64\<close> are words read by
  \<open>sint\<close>, so that an \<open>as\<close> cast between the signed and the unsigned type of one width is the
  identity; \<open>usize\<close> (a 64-bit count or index) is \<open>nat\<close>, with the 64-bit bound written out where
  the source checks it. A Rust \<open>String\<close> is the list of its UTF-8 bytes.
\<close>

unbundle bit_operations_syntax

type_synonym u8 = "8 word"
type_synonym u16 = "16 word"
type_synonym u32 = "32 word"
type_synonym u64 = "64 word"
type_synonym i32 = "32 word"
type_synonym i64 = "64 word"
type_synonym bytes = "u8 list"

named_theorems codec_defs "unfolding rules of the encoders and decoders"
named_theorems step_defs "unfolding rules of the state-changing operations"

subsection \<open>Results\<close>

datatype ('a, 'e) result = Ok 'a | Err 'e

fun and_then :: "('a, 'e) result \<Rightarrow> ('a \<Rightarrow> ('b, 'e) result) \<Rightarrow> ('b, 'e) result" where
  "and_then (Ok x) f = f x"
| "and_then (Err e) f = Err e"

fun map_err :: "('e \<Rightarrow> 'f) \<Rightarrow> ('a, 'e) result \<Rightarrow> ('a, 'f) result" where
  "map_err f (Ok x) = Ok x"
| "map_err f (Err e) = Err (f e)"

fun map_ok :: "('a \<Rightarrow> 'b) \<Rightarrow> ('a, 'e) result \<Rightarrow> ('b, 'e) result" where
  "map_ok f (Ok x) = Ok (f x)"
| "map_ok f (Err e) = Err e"

fun ok_or :: "'e \<Rightarrow> 'a option \<Rightarrow> ('a, 'e) result" where
  "ok_or e (Some x) = Ok x"
| "ok_or e None = Err e"

fun is_ok :: "('a, 'e) result \<Rightarrow> bool" where
  "is_ok (Ok x) = True"
| "is_ok (Err e) = False"

lemma and_then_eq_Ok: "(and_then r f = Ok y) = (\<exists>x. r = Ok x \<and> f x = Ok y)"
  by (cases r) auto

lemma and_then_eq_Err: "(and_then r f = Err e) = (r = Err e \<or> (\<exists>x. r = Ok x \<and> f x = Err e))"
  by (cases r) auto

lemma map_ok_eq_Ok: "(map_ok f r = Ok y) = (\<exists>x. r = Ok x \<and> y = f x)"
  by (cases r) auto

lemma map_ok_eq_Err [simp]: "(map_ok f r = Err e) = (r = Err e)"
  by (cases r) auto

lemmas result_iffs = and_then_eq_Ok and_then_eq_Err map_ok_eq_Ok

lemma map_err_eq_Ok [simp]: "(map_err f r = Ok y) = (r = Ok y)"
  by (cases r) auto

lemma map_err_eq_Err [simp]: "(map_err f r = Err e) = (\<exists>e'. r = Err e' \<and> e = f e')"
  by (cases r) auto

lemma ok_or_eq_Ok [simp]: "(ok_or e opt = Ok x) = (opt = Some x)"
  by (cases opt) auto

lemma ok_or_eq_Err [simp]: "(ok_or e opt = Err e') = (opt = None \<and> e' = e)"
  by (cases opt) auto

lemma is_ok_iff: "is_ok r = (\<exists>x. r = Ok x)"
  by (cases r) auto

text \<open>\<open>collect::<Result<Vec<_>, _>>()\<close>: the values up to the first error.\<close>

fun collect_results :: "('a, 'e) result list \<Rightarrow> ('a list, 'e) result" where
  "collect_results [] = Ok []"
| "collect_results (r # rs) = and_then r (\<lambda>x. map_ok ((#) x) (collect_results rs))"

lemma collect_results_map_Ok [simp]: "collect_results (map Ok xs) = Ok xs"
  by (induction xs) auto

lemma collect_results_append_Err:
  "collect_results (map Ok xs @ Err e # rs) = Err e"
  by (induction xs) auto

subsection \<open>State and errors\<close>

text \<open>
  A method on \<open>&mut self\<close> that returns a \<open>Result\<close> changes the state even when it fails half way,
  so it is a function from the state to the result and the state it leaves behind.
\<close>

type_synonym ('s, 'a, 'e) st = "'s \<Rightarrow> ('a, 'e) result \<times> 's"

definition st_return :: "'a \<Rightarrow> ('s, 'a, 'e) st" where
  "st_return x = (\<lambda>s. (Ok x, s))"

definition st_fail :: "'e \<Rightarrow> ('s, 'a, 'e) st" where
  "st_fail e = (\<lambda>s. (Err e, s))"

definition st_bind :: "('s, 'a, 'e) st \<Rightarrow> ('a \<Rightarrow> ('s, 'b, 'e) st) \<Rightarrow> ('s, 'b, 'e) st" where
  "st_bind m f = (\<lambda>s. case m s of (Ok x, s') \<Rightarrow> f x s' | (Err e, s') \<Rightarrow> (Err e, s'))"

definition st_get :: "('s \<Rightarrow> 'a) \<Rightarrow> ('s, 'a, 'e) st" where
  "st_get f = (\<lambda>s. (Ok (f s), s))"

definition st_modify :: "('s \<Rightarrow> 's) \<Rightarrow> ('s, unit, 'e) st" where
  "st_modify f = (\<lambda>s. (Ok (), f s))"

definition st_lift :: "('a, 'e) result \<Rightarrow> ('s, 'a, 'e) st" where
  "st_lift r = (\<lambda>s. (r, s))"

text \<open>Sequencing of computations that may not return.\<close>

definition opt_bind :: "('s \<Rightarrow> (('a, 'e) result \<times> 's) option) \<Rightarrow> ('a \<Rightarrow> 's \<Rightarrow> (('b, 'e) result \<times> 's) option)
    \<Rightarrow> 's \<Rightarrow> (('b, 'e) result \<times> 's) option" where
  "opt_bind m f = (\<lambda>s. case m s of
       None \<Rightarrow> None
     | Some (Ok x, s') \<Rightarrow> f x s'
     | Some (Err e, s') \<Rightarrow> Some (Err e, s'))"

definition opt_lift :: "('s, 'a, 'e) st \<Rightarrow> 's \<Rightarrow> (('a, 'e) result \<times> 's) option" where
  "opt_lift m = (\<lambda>s. Some (m s))"

lemmas st_defs = st_return_def st_fail_def st_bind_def st_get_def st_modify_def st_lift_def

lemma st_bind_Ok:
  "st_bind m f s = (Ok y, t) \<longleftrightarrow> (\<exists>x u. m s = (Ok x, u) \<and> f x u = (Ok y, t))"
  by (auto simp: st_bind_def split: prod.splits result.splits)

lemma st_bind_assoc: "st_bind (st_bind m f) g = st_bind m (\<lambda>x. st_bind (f x) g)"
  by (auto simp: st_bind_def fun_eq_iff split: prod.splits result.splits)

subsection \<open>Slices and checked arithmetic\<close>

text \<open>\<open>buf.get(a..b)\<close>.\<close>

definition slice_get :: "nat \<Rightarrow> nat \<Rightarrow> 'a list \<Rightarrow> 'a list option" where
  "slice_get a b xs = (if a \<le> b \<and> b \<le> length xs then Some (take (b - a) (drop a xs)) else None)"

lemma slice_get_length: "slice_get a b xs = Some ys \<Longrightarrow> length ys = b - a"
  by (auto simp: slice_get_def split: if_splits)

lemma slice_get_append:
  "a = length xs \<Longrightarrow> b = a + length ys \<Longrightarrow> slice_get a b (xs @ ys @ zs) = Some ys"
  by (simp add: slice_get_def)

definition usize_max :: nat where
  "usize_max = 2 ^ 64 - 1"

definition usize_checked_add :: "nat \<Rightarrow> nat \<Rightarrow> nat option" where
  "usize_checked_add a b = (if a + b \<le> usize_max then Some (a + b) else None)"

definition u64_saturating_add :: "u64 \<Rightarrow> u64 \<Rightarrow> u64" where
  "u64_saturating_add a b = (if unat a + unat b < 2 ^ 64 then a + b else - 1)"

lemma unat_u64_saturating_add:
  "unat (u64_saturating_add a b) = min (unat a + unat b) (2 ^ 64 - 1)"
  by (auto simp: u64_saturating_add_def unat_word_ariths unsigned_minus_1_eq_mask mask_eq_exp_minus_1)

subsection \<open>Little-endian encoding\<close>

text \<open>\<open>to_le_bytes\<close> of an \<open>n\<close>-byte integer and \<open>from_le_bytes\<close> of a byte slice.\<close>

fun to_le :: "nat \<Rightarrow> 'a::len word \<Rightarrow> bytes" where
  "to_le 0 w = []"
| "to_le (Suc n) w = ucast w # to_le n (drop_bit 8 w)"

fun from_le :: "bytes \<Rightarrow> 'a::len word" where
  "from_le [] = 0"
| "from_le (b # bs) = ucast b OR push_bit 8 (from_le bs)"

definition le_u16 :: "u16 \<Rightarrow> bytes" where "le_u16 = to_le 2"
definition le_u32 :: "u32 \<Rightarrow> bytes" where "le_u32 = to_le 4"
definition le_u64 :: "u64 \<Rightarrow> bytes" where "le_u64 = to_le 8"

lemma length_to_le [simp]: "length (to_le n w) = n"
  by (induction n arbitrary: w) auto

lemma length_le_u16 [simp]: "length (le_u16 w) = 2" by (simp add: le_u16_def)
lemma length_le_u32 [simp]: "length (le_u32 w) = 4" by (simp add: le_u32_def)
lemma length_le_u64 [simp]: "length (le_u64 w) = 8" by (simp add: le_u64_def)

lemma take_bit_byte_split:
  fixes w :: "'a::len word"
  shows "take_bit 8 w OR push_bit 8 (take_bit m (drop_bit 8 w)) = take_bit (8 + m) w"
  by (rule bit_word_eqI) (auto simp: bit_simps)

lemma ucast_ucast_byte: "ucast (ucast w :: u8) = take_bit 8 (w :: 'a::len word)"
  by (rule bit_word_eqI) (auto simp: bit_simps)

lemma from_le_to_le_take: "from_le (to_le n w) = take_bit (8 * n) (w :: 'a::len word)"
proof (induction n arbitrary: w)
  case 0
  then show ?case by simp
next
  case (Suc n)
  have "from_le (to_le (Suc n) w) = take_bit 8 w OR push_bit 8 (take_bit (8 * n) (drop_bit 8 w))"
    by (simp add: Suc.IH ucast_ucast_byte)
  also have "\<dots> = take_bit (8 * Suc n) w"
    using take_bit_byte_split [of w "8 * n"] by (simp add: add.commute)
  finally show ?case .
qed

lemma from_le_to_le [simp]:
  "LENGTH('a) \<le> 8 * n \<Longrightarrow> from_le (to_le n w) = (w :: 'a::len word)"
  by (simp add: from_le_to_le_take take_bit_word_eq_self)

lemma from_le_u16 [simp]: "from_le (le_u16 w) = w" by (simp add: le_u16_def)
lemma from_le_u32 [simp]: "from_le (le_u32 w) = w" by (simp add: le_u32_def)
lemma from_le_u64 [simp]: "from_le (le_u64 w) = w" by (simp add: le_u64_def)

lemma from_le_Cons_low: "(ucast (from_le (b # bs) :: 'a::len word) :: u8) = b"
  if "8 \<le> LENGTH('a)"
  using that by (intro bit_word_eqI) (auto simp: bit_simps)

lemma from_le_bits: "bit (from_le cs :: 'a::len word) k \<Longrightarrow> k < 8 * length cs"
proof (induction cs arbitrary: k)
  case (Cons c cs)
  from Cons.prems consider "bit (ucast c :: 'a word) k"
    | "8 \<le> k" "bit (from_le cs :: 'a word) (k - 8)"
    by (auto simp: bit_simps)
  then show ?case
  proof cases
    case 1
    then show ?thesis using bit_imp_le_length [of c k] by (simp add: bit_simps)
  next
    case 2
    then show ?thesis using Cons.IH [of "k - 8"] by simp
  qed
qed simp

lemma from_le_Cons_high:
  "drop_bit 8 (from_le (b # bs) :: 'a::len word) = from_le bs"
  if "8 * Suc (length bs) \<le> LENGTH('a)"
proof (rule bit_word_eqI)
  fix k assume "k < LENGTH('a)"
  have "\<not> bit (ucast b :: 'a word) (8 + k)"
    using bit_imp_le_length [of b "8 + k"] by (auto simp: bit_simps)
  moreover have "bit (from_le bs :: 'a word) k \<Longrightarrow> 8 + k < LENGTH('a)"
    using from_le_bits [where 'a = 'a, of bs k] that by simp
  ultimately show "bit (drop_bit 8 (from_le (b # bs) :: 'a word)) k = bit (from_le bs :: 'a word) k"
    by (auto simp: bit_simps)
qed

lemma ucast_from_le:
  assumes "LENGTH('b) \<le> LENGTH('a)"
  shows "8 * length bs \<le> LENGTH('b) \<Longrightarrow> (ucast (from_le bs :: 'b::len word) :: 'a::len word) = from_le bs"
proof (induction bs)
  case (Cons b bs)
  then have ih: "(from_le bs :: 'a word) = ucast (from_le bs :: 'b word)" by simp
  show ?case
  proof (rule bit_word_eqI)
    fix k assume "k < LENGTH('a)"
    moreover have "k < LENGTH('b)" if "8 \<le> k" "bit (from_le bs :: 'b word) (k - 8)"
      using from_le_bits [OF that(2)] that(1) Cons.prems by simp
    moreover have "k < LENGTH('b)" if "bit b k" using bit_imp_le_length [OF that] Cons.prems by simp
    ultimately show "bit (ucast (from_le (b # bs) :: 'b word) :: 'a word) k = bit (from_le (b # bs) :: 'a word) k"
      using assms by (auto simp: ih bit_simps)
  qed
qed simp

text \<open>The loop that collects bytes with shifts is little-endian decoding.\<close>

lemma fold_le_bytes:
  fixes v :: "'a::len word"
  shows "8 * (k + length bs) \<le> LENGTH('a) \<Longrightarrow>
   fold (\<lambda>(i, b) v. v OR push_bit ((8 * i) mod LENGTH('a)) (ucast b)) (enumerate k bs) v = v OR push_bit (8 * k) (from_le bs)"
proof (induction bs arbitrary: k v)
  case (Cons b bs)
  have "fold (\<lambda>(i, b) v. v OR push_bit ((8 * i) mod LENGTH('a)) (ucast b)) (enumerate (Suc k) bs) (v OR push_bit (8 * k) (ucast b))
      = (v OR push_bit (8 * k) (ucast b)) OR push_bit (8 * Suc k) (from_le bs)"
    using Cons.prems by (intro Cons.IH) simp
  moreover have "(8 * k) mod LENGTH('a) = 8 * k" using Cons.prems by simp
  moreover have "(from_le (b # bs) :: 'a word) = ucast b OR push_bit 8 (from_le bs)" by (simp add: or.commute)
  ultimately show ?case by (simp add: or.assoc push_bit_or push_bit_push_bit add.commute del: from_le.simps)
qed simp

lemma to_le_from_le:
  "length bs = n \<Longrightarrow> 8 * n \<le> LENGTH('a) \<Longrightarrow> to_le n (from_le bs :: 'a::len word) = bs"
proof (induction bs arbitrary: n)
  case Nil
  then show ?case by simp
next
  case (Cons b bs)
  then show ?case
    by (auto simp del: from_le.simps simp: from_le_Cons_low from_le_Cons_high)
qed

lemma le_u16_from_le: "length bs = 2 \<Longrightarrow> le_u16 (from_le bs) = bs"
  by (simp add: le_u16_def to_le_from_le)
lemma le_u32_from_le: "length bs = 4 \<Longrightarrow> le_u32 (from_le bs) = bs"
  by (simp add: le_u32_def to_le_from_le)
lemma le_u64_from_le: "length bs = 8 \<Longrightarrow> le_u64 (from_le bs) = bs"
  by (simp add: le_u64_def to_le_from_le)

lemma unat_of_nat_len: "n < 2 ^ LENGTH('a) \<Longrightarrow> unat (of_nat n :: 'a::len word) = n"
  by (simp add: unsigned_of_nat take_bit_nat_eq_self)

lemma unat_less_len: "unat (w :: 'a::len word) < 2 ^ LENGTH('a)"
  by (rule unsigned_less)

subsection \<open>UTF-8\<close>

text \<open>
  The validity check of \<open>String::from_utf8\<close>: the well-formed byte sequences of the Unicode
  standard (no overlong forms, no surrogates, nothing above U+10FFFF).
\<close>

definition utf8_cont :: "u8 \<Rightarrow> bool" where
  "utf8_cont b = (0x80 \<le> b \<and> b \<le> 0xBF)"

definition utf8_second3 :: "u8 \<Rightarrow> u8 \<Rightarrow> bool" where
  "utf8_second3 b c = (if b = 0xE0 then 0xA0 \<le> c \<and> c \<le> 0xBF
     else if b = 0xED then 0x80 \<le> c \<and> c \<le> 0x9F else utf8_cont c)"

definition utf8_second4 :: "u8 \<Rightarrow> u8 \<Rightarrow> bool" where
  "utf8_second4 b c = (if b = 0xF0 then 0x90 \<le> c \<and> c \<le> 0xBF
     else if b = 0xF4 then 0x80 \<le> c \<and> c \<le> 0x8F else utf8_cont c)"

fun utf8_valid :: "bytes \<Rightarrow> bool" where
  "utf8_valid [] = True"
| "utf8_valid (b # bs) =
     (if b < 0x80 then utf8_valid bs
      else if 0xC2 \<le> b \<and> b \<le> 0xDF then
        (case bs of c # r \<Rightarrow> utf8_cont c \<and> utf8_valid r | _ \<Rightarrow> False)
      else if 0xE0 \<le> b \<and> b \<le> 0xEF then
        (case bs of c # d # r \<Rightarrow> utf8_second3 b c \<and> utf8_cont d \<and> utf8_valid r | _ \<Rightarrow> False)
      else if 0xF0 \<le> b \<and> b \<le> 0xF4 then
        (case bs of c # d # e # r \<Rightarrow>
           utf8_second4 b c \<and> utf8_cont d \<and> utf8_cont e \<and> utf8_valid r | _ \<Rightarrow> False)
      else False)"

lemma utf8_valid_ascii: "(\<forall>b \<in> set bs. b < 0x80) \<Longrightarrow> utf8_valid bs"
  by (induction bs) auto

subsection \<open>White space\<close>

text \<open>
  \<open>str::trim\<close> and \<open>trim_end\<close>: the UTF-8 encodings of the code points that Rust counts as white space,
  removed from the ends of a string given by its bytes.
\<close>

definition WHITE_SPACE :: "bytes list" where
  "WHITE_SPACE = [[9], [10], [11], [12], [13], [32], [0xC2, 0x85], [0xC2, 0xA0], [0xE1, 0x9A, 0x80]]
     @ map (\<lambda>b. [0xE2, 0x80, b]) [0x80, 0x81, 0x82, 0x83, 0x84, 0x85, 0x86, 0x87, 0x88, 0x89, 0x8A, 0xA8, 0xA9, 0xAF]
     @ [[0xE2, 0x81, 0x9F], [0xE3, 0x80, 0x80]]"

lemma find_prefix_nonempty:
  assumes "List.find (\<lambda>w. w \<noteq> [] \<and> take (length w) s = w) ws = Some w"
  shows "w \<noteq> [] \<and> s \<noteq> []"
proof -
  from assms have "w \<noteq> [] \<and> take (length w) s = w" by (auto simp: find_Some_iff)
  then show ?thesis by auto
qed

function strip_any :: "bytes list \<Rightarrow> bytes \<Rightarrow> bytes" where
  "strip_any ws s = (case List.find (\<lambda>w. w \<noteq> [] \<and> take (length w) s = w) ws of
       None \<Rightarrow> s
     | Some w \<Rightarrow> strip_any ws (drop (length w) s))"
  by pat_completeness auto
termination
  by (relation "measure (\<lambda>(_, s). length s)") (auto dest!: find_prefix_nonempty)

declare strip_any.simps [simp del]

definition trim_start :: "bytes \<Rightarrow> bytes" where
  "trim_start s = strip_any WHITE_SPACE s"

definition trim_end :: "bytes \<Rightarrow> bytes" where
  "trim_end s = rev (strip_any (map rev WHITE_SPACE) (rev s))"

definition trim_both :: "bytes \<Rightarrow> bytes" where
  "trim_both s = trim_start (trim_end s)"

lemma strip_any_stop: "\<forall>w \<in> set ws. w \<noteq> [] \<longrightarrow> hd w \<noteq> b \<Longrightarrow> strip_any ws (b # s) = b # s"
proof -
  assume *: "\<forall>w \<in> set ws. w \<noteq> [] \<longrightarrow> hd w \<noteq> b"
  have "List.find (\<lambda>w. w \<noteq> [] \<and> take (length w) (b # s) = w) ws = None"
    using * by (auto simp: find_None_iff neq_Nil_conv)
  then show ?thesis by (simp add: strip_any.simps)
qed

end
