(* ===== verification/TraceFormat.thy ===== *)
theory TraceFormat
  imports Prelude
begin

text \<open>
  The trace log format of \<open>crates/recorder/src/trace/format.rs\<close>: the constants, the embedded
  command line and its codec, the event kinds and their wire numbers, the record body codec at
  every format version, and the errors of the reader and writer.
\<close>

definition MAGIC :: bytes where
  "MAGIC = [0x4D, 0x53, 0x43, 0x4F, 0x50, 0x45, 0x54, 0x52]"

definition FORMAT_VERSION :: u16 where "FORMAT_VERSION = 3"
definition BASE_HEADER_LEN :: nat where "BASE_HEADER_LEN = 12"
definition CMDLINE_MIN_VERSION :: u16 where "CMDLINE_MIN_VERSION = 2"
definition TID_MIN_VERSION :: u16 where "TID_MIN_VERSION = 3"
definition MAX_BODY_LEN :: nat where "MAX_BODY_LEN = 16 * 1024 * 1024"
definition BODY_PREFIX_LEN :: nat where "BODY_PREFIX_LEN = 18"
definition BODY_PREFIX_LEN_V3 :: nat where "BODY_PREFIX_LEN_V3 = 22"

lemmas format_consts = MAGIC_def FORMAT_VERSION_def BASE_HEADER_LEN_def CMDLINE_MIN_VERSION_def
  TID_MIN_VERSION_def MAX_BODY_LEN_def BODY_PREFIX_LEN_def BODY_PREFIX_LEN_V3_def

record cmdline =
  cmd_program :: bytes
  cmd_args :: "bytes list"

datatype event_kind =
    SyscallEnter | SyscallExit | SchedSwitch | Signal | SyncAcquire | SyncRelease
  | Fork | Checkpoint | ThreadSpawn | ThreadExit | UnknownKind u16

record event =
  ev_kind :: event_kind
  ev_timestamp_ns :: u64
  ev_tid :: "u32 option"
  ev_payload :: bytes

record trace_record =
  rec_seq :: u64
  rec_event :: event

datatype io_error = UnexpectedEof | Interrupted | StorageFull | InvalidData | OtherIo nat

text \<open>
  The variants of \<open>TraceError\<close>, and one value more: \<open>DecodePanic\<close> stands for the panic of
  \<open>decode_body\<close> on a body shorter than its fixed prefix. The source rules it out by the length
  check of the caller; the reader's lemmas show that it is never produced.
\<close>

datatype trace_error =
    BadMagic
  | UnsupportedVersion u16 u16
  | ChecksumMismatch u64
  | Truncated
  | BodyTooLarge nat nat
  | MalformedHeader
  | NonMonotonicSequence u64 u64
  | TraceIo io_error
  | DecodePanic

subsection \<open>Event constructors and kinds\<close>

definition event_new :: "event_kind \<Rightarrow> u64 \<Rightarrow> bytes \<Rightarrow> event" where
  "event_new k ts p = \<lparr>ev_kind = k, ev_timestamp_ns = ts, ev_tid = None, ev_payload = p\<rparr>"

definition event_new_with_tid :: "event_kind \<Rightarrow> u64 \<Rightarrow> u32 \<Rightarrow> bytes \<Rightarrow> event" where
  "event_new_with_tid k ts tid p =
     \<lparr>ev_kind = k, ev_timestamp_ns = ts, ev_tid = Some tid, ev_payload = p\<rparr>"

fun kind_to_u16 :: "event_kind \<Rightarrow> u16" where
  "kind_to_u16 SyscallEnter = 1"
| "kind_to_u16 SyscallExit = 2"
| "kind_to_u16 SchedSwitch = 3"
| "kind_to_u16 Signal = 4"
| "kind_to_u16 SyncAcquire = 5"
| "kind_to_u16 SyncRelease = 6"
| "kind_to_u16 Fork = 7"
| "kind_to_u16 Checkpoint = 8"
| "kind_to_u16 ThreadSpawn = 9"
| "kind_to_u16 ThreadExit = 10"
| "kind_to_u16 (UnknownKind raw) = raw"

definition kind_from_u16 :: "u16 \<Rightarrow> event_kind" where
  "kind_from_u16 raw =
     (if raw = 1 then SyscallEnter else if raw = 2 then SyscallExit
      else if raw = 3 then SchedSwitch else if raw = 4 then Signal
      else if raw = 5 then SyncAcquire else if raw = 6 then SyncRelease
      else if raw = 7 then Fork else if raw = 8 then Checkpoint
      else if raw = 9 then ThreadSpawn else if raw = 10 then ThreadExit
      else UnknownKind raw)"

text \<open>A kind that its wire number determines: every kind but \<open>Unknown\<close> at a number in use.\<close>

fun kind_wf :: "event_kind \<Rightarrow> bool" where
  "kind_wf (UnknownKind raw) = (raw = 0 \<or> 10 < raw)"
| "kind_wf k = True"

lemma kind_to_from [simp]: "kind_to_u16 (kind_from_u16 raw) = raw"
  by (simp add: kind_from_u16_def)

lemma kind_from_to: "kind_wf k \<Longrightarrow> kind_from_u16 (kind_to_u16 k) = k"
  by (cases k) (auto simp: kind_from_u16_def)

lemma kind_wf_from [simp]: "kind_wf (kind_from_u16 raw)"
proof -
  have "raw = 0 \<or> 10 < raw" if "raw \<notin> {1, 2, 3, 4, 5, 6, 7, 8, 9, 10}"
  proof (rule ccontr)
    assume "\<not> (raw = 0 \<or> 10 < raw)"
    then have n: "raw \<noteq> 0" "unat raw \<le> 10"
      by (auto simp: word_le_nat_alt not_less)
    have "raw = of_nat (unat raw)" by simp
    moreover from n(2) have "unat raw \<in> {0, 1, 2, 3, 4, 5, 6, 7, 8, 9, 10}" by (simp; arith)
    ultimately have "raw \<in> of_nat ` {0, 1, 2, 3, 4, 5, 6, 7, 8, 9, 10}" by blast
    with n(1) that show False by auto
  qed
  then show ?thesis by (auto simp: kind_from_u16_def)
qed

subsection \<open>The embedded command line\<close>

definition push_str :: "bytes \<Rightarrow> bytes \<Rightarrow> bytes" where
  "push_str out s = out @ le_u32 (of_nat (length s)) @ s"

definition encode_cmdline :: "bytes \<Rightarrow> bytes list \<Rightarrow> bytes" where
  "encode_cmdline prog args =
     foldl push_str (push_str [] prog @ le_u32 (of_nat (length args))) args"

definition header_read_u32 :: "bytes \<Rightarrow> nat \<Rightarrow> (u32 \<times> nat, trace_error) result" where
  "header_read_u32 buf pos =
     and_then (ok_or MalformedHeader (usize_checked_add pos 4)) (\<lambda>end'.
     and_then (ok_or MalformedHeader (slice_get pos end' buf)) (\<lambda>slice.
     Ok (from_le slice, end')))"

definition header_read_str :: "bytes \<Rightarrow> nat \<Rightarrow> (bytes \<times> nat, trace_error) result" where
  "header_read_str buf pos =
     and_then (header_read_u32 buf pos) (\<lambda>(len, pos').
     and_then (ok_or MalformedHeader (usize_checked_add pos' (unat len))) (\<lambda>end'.
     and_then (ok_or MalformedHeader (slice_get pos' end' buf)) (\<lambda>slice.
     if utf8_valid slice then Ok (slice, end') else Err MalformedHeader)))"

fun read_strs :: "nat \<Rightarrow> bytes \<Rightarrow> nat \<Rightarrow> (bytes list, trace_error) result" where
  "read_strs 0 buf pos = Ok []"
| "read_strs (Suc n) buf pos =
     and_then (header_read_str buf pos) (\<lambda>(s, pos').
     map_ok ((#) s) (read_strs n buf pos'))"

definition decode_cmdline :: "bytes \<Rightarrow> (cmdline, trace_error) result" where
  "decode_cmdline buf =
     and_then (header_read_str buf 0) (\<lambda>(prog, pos).
     and_then (header_read_u32 buf pos) (\<lambda>(count, pos').
     and_then (read_strs (unat count) buf pos') (\<lambda>args.
     Ok \<lparr>cmd_program = prog, cmd_args = args\<rparr>)))"

text \<open>What a Rust \<open>String\<close> that can be length-prefixed by a \<open>u32\<close> satisfies.\<close>

definition str_wf :: "bytes \<Rightarrow> bool" where
  "str_wf s \<longleftrightarrow> utf8_valid s \<and> length s < 2 ^ 32"

lemma push_strs: "foldl push_str out args = out @ concat (map (push_str []) args)"
  by (induction args arbitrary: out) (auto simp: push_str_def)

lemma length_push_str [simp]: "length (push_str out s) = length out + 4 + length s"
  by (simp add: push_str_def)

lemma header_read_u32_at:
  "pos = length xs \<Longrightarrow> pos + 4 \<le> usize_max \<Longrightarrow>
   header_read_u32 (xs @ le_u32 w @ zs) pos = Ok (w, pos + 4)"
  by (simp add: header_read_u32_def usize_checked_add_def slice_get_append)

lemma header_read_str_at:
  assumes "pos = length xs" and "str_wf s" and "length xs + 4 + length s \<le> usize_max"
  shows "header_read_str (xs @ push_str [] s @ zs) pos = Ok (s, pos + 4 + length s)"
proof -
  have u: "header_read_u32 (xs @ push_str [] s @ zs) pos = Ok (of_nat (length s), pos + 4)"
    using header_read_u32_at [of pos xs "of_nat (length s)" "s @ zs"] assms
    by (simp add: push_str_def)
  have n: "unat (of_nat (length s) :: u32) = length s"
    using assms by (simp add: str_wf_def unat_of_nat_len)
  have sl: "slice_get (pos + 4) (pos + 4 + length s) (xs @ push_str [] s @ zs) = Some s"
    using slice_get_append [of "pos + 4" "xs @ le_u32 (of_nat (length s))" _ s zs] assms
    by (simp add: push_str_def)
  show ?thesis
    using assms(2,3)
    by (simp add: header_read_str_def u n sl usize_checked_add_def str_wf_def assms(1) [symmetric])
qed

lemma read_strs_at:
  assumes "pos = length xs" and "\<forall>s \<in> set args. str_wf s"
    and "length (xs @ concat (map (push_str []) args)) \<le> usize_max"
  shows "read_strs (length args) (xs @ concat (map (push_str []) args) @ zs) pos = Ok args"
  using assms
proof (induction args arbitrary: xs pos)
  case Nil
  then show ?case by simp
next
  case (Cons a args)
  from Cons.prems have s: "header_read_str (xs @ push_str [] a @
      concat (map (push_str []) args) @ zs) pos = Ok (a, pos + 4 + length a)"
    by (intro header_read_str_at) auto
  from Cons.prems have "read_strs (length args) ((xs @ push_str [] a) @
      concat (map (push_str []) args) @ zs) (pos + 4 + length a) = Ok args"
    by (intro Cons.IH) auto
  then show ?case by (simp add: s)
qed

lemma decode_encode_cmdline:
  assumes "str_wf prog" and "\<forall>s \<in> set args. str_wf s" and "length args < 2 ^ 32"
    and "length (encode_cmdline prog args) \<le> usize_max"
  shows "decode_cmdline (encode_cmdline prog args @ zs)
    = Ok \<lparr>cmd_program = prog, cmd_args = args\<rparr>"
proof -
  let ?n = "le_u32 (of_nat (length args))" and ?as = "concat (map (push_str []) args)"
  have enc: "encode_cmdline prog args = push_str [] prog @ ?n @ ?as"
    by (simp add: encode_cmdline_def push_strs)
  have p: "header_read_str (push_str [] prog @ ?n @ ?as @ zs) 0 = Ok (prog, 4 + length prog)"
    using header_read_str_at [of 0 "[]" prog "?n @ ?as @ zs"] assms enc by simp
  have c: "header_read_u32 (push_str [] prog @ ?n @ ?as @ zs) (4 + length prog)
      = Ok (of_nat (length args), 8 + length prog)"
    using header_read_u32_at [of "4 + length prog" "push_str [] prog" "of_nat (length args)"
        "?as @ zs"] assms enc by simp
  have a: "read_strs (length args) (push_str [] prog @ ?n @ ?as @ zs) (8 + length prog) = Ok args"
    using read_strs_at [of "8 + length prog" "push_str [] prog @ ?n" args zs] assms enc by simp
  from p c a assms(3) show ?thesis
    by (simp add: decode_cmdline_def enc unat_of_nat_len)
qed

lemma header_read_u32_err: "header_read_u32 buf pos = Err e \<Longrightarrow> e = MalformedHeader"
  by (auto simp: header_read_u32_def and_then_eq_Err)

lemma header_read_str_err: "header_read_str buf pos = Err e \<Longrightarrow> e = MalformedHeader"
  by (auto simp: header_read_str_def and_then_eq_Err split: if_splits dest: header_read_u32_err)

lemma read_strs_err: "read_strs n buf pos = Err e \<Longrightarrow> e = MalformedHeader"
  by (induction n arbitrary: pos)
     (auto simp: and_then_eq_Err split: prod.splits dest: header_read_str_err)

lemma decode_cmdline_err: "decode_cmdline buf = Err e \<Longrightarrow> e = MalformedHeader"
  by (auto simp: decode_cmdline_def and_then_eq_Err split: prod.splits
      dest: header_read_str_err header_read_u32_err read_strs_err)

subsection \<open>Record bodies\<close>

definition min_body_len :: "u16 \<Rightarrow> nat" where
  "min_body_len version =
     (if version \<ge> TID_MIN_VERSION then BODY_PREFIX_LEN_V3 else BODY_PREFIX_LEN)"

definition encode_body :: "u64 \<Rightarrow> event \<Rightarrow> bytes" where
  "encode_body seq e =
     le_u64 seq @ le_u64 (ev_timestamp_ns e)
     @ le_u32 (case ev_tid e of Some tid \<Rightarrow> tid | None \<Rightarrow> 0)
     @ le_u16 (kind_to_u16 (ev_kind e)) @ ev_payload e"

definition decode_body :: "u16 \<Rightarrow> bytes \<Rightarrow> (trace_record, trace_error) result" where
  "decode_body version body =
     and_then (ok_or DecodePanic (slice_get 0 8 body)) (\<lambda>seq.
     and_then (ok_or DecodePanic (slice_get 8 16 body)) (\<lambda>ts.
     and_then
       (if version \<ge> TID_MIN_VERSION
        then map_ok (\<lambda>t. (Some (from_le t), 20)) (ok_or DecodePanic (slice_get 16 20 body))
        else Ok (None, 16)) (\<lambda>(tid, kind_at).
     and_then (ok_or DecodePanic (slice_get kind_at (kind_at + 2) body)) (\<lambda>kind.
     Ok \<lparr>rec_seq = from_le seq,
         rec_event = \<lparr>ev_kind = kind_from_u16 (from_le kind), ev_timestamp_ns = from_le ts,
                       ev_tid = tid, ev_payload = drop (kind_at + 2) body\<rparr>\<rparr>))))"

text \<open>What a v3 trace keeps of an event: a missing thread id reads back as thread 0.\<close>

definition event_norm :: "event \<Rightarrow> event" where
  "event_norm e = e\<lparr>ev_tid := Some (case ev_tid e of Some tid \<Rightarrow> tid | None \<Rightarrow> 0)\<rparr>"

lemma length_encode_body [simp]: "length (encode_body seq e) = 22 + length (ev_payload e)"
  by (simp add: encode_body_def)

lemma slice_get_head: "slice_get 0 n (take n xs @ ys) = Some (take n xs)" if "n \<le> length xs"
  using that by (simp add: slice_get_def)

lemma decode_encode_body:
  assumes "kind_wf (ev_kind e)"
  shows "decode_body FORMAT_VERSION (encode_body seq e)
    = Ok \<lparr>rec_seq = seq, rec_event = event_norm e\<rparr>"
proof -
  define tid where "tid = (case ev_tid e of Some tid \<Rightarrow> tid | None \<Rightarrow> 0)"
  let ?b = "encode_body seq e"
  have b: "?b = le_u64 seq @ le_u64 (ev_timestamp_ns e) @ le_u32 tid
      @ le_u16 (kind_to_u16 (ev_kind e)) @ ev_payload e"
    by (simp add: encode_body_def tid_def)
  have "slice_get 0 8 ?b = Some (le_u64 seq)"
    "slice_get 8 16 ?b = Some (le_u64 (ev_timestamp_ns e))"
    "slice_get 16 20 ?b = Some (le_u32 tid)"
    "slice_get 20 22 ?b = Some (le_u16 (kind_to_u16 (ev_kind e)))"
    "drop 22 ?b = ev_payload e"
    by (simp_all add: b slice_get_def)
  with assms show ?thesis
    by (simp add: decode_body_def format_consts kind_from_to event_norm_def tid_def)
qed

lemma decode_body_total:
  assumes "min_body_len version \<le> length body"
  shows "\<exists>r. decode_body version body = Ok r"
  using assms
  by (auto simp: decode_body_def min_body_len_def format_consts slice_get_def split: if_splits)

lemma decode_body_panic_iff:
  "decode_body version body = Err e \<longleftrightarrow> e = DecodePanic \<and> length body < min_body_len version"
  by (auto simp: decode_body_def min_body_len_def format_consts slice_get_def split: if_splits)

lemma decode_body_reencode:
  assumes "decode_body FORMAT_VERSION body = Ok r"
  shows "encode_body (rec_seq r) (rec_event r) = body"
proof -
  from assms have len: "22 \<le> length body"
    using decode_body_panic_iff [of FORMAT_VERSION body DecodePanic]
    by (auto simp: min_body_len_def format_consts not_less [symmetric])
  with assms have r: "r = \<lparr>rec_seq = from_le (take 8 body),
      rec_event = \<lparr>ev_kind = kind_from_u16 (from_le (take 2 (drop 20 body))),
        ev_timestamp_ns = from_le (take 8 (drop 8 body)),
        ev_tid = Some (from_le (take 4 (drop 16 body))), ev_payload = drop 22 body\<rparr>\<rparr>"
    by (simp add: decode_body_def slice_get_def format_consts)
  have "take 8 body @ take 8 (drop 8 body) @ take 4 (drop 16 body) @ take 2 (drop 20 body)
      @ drop 22 body = body"
    using append_take_drop_id [of 8 body] append_take_drop_id [of 8 "drop 8 body"]
      append_take_drop_id [of 4 "drop 16 body"] append_take_drop_id [of 2 "drop 20 body"]
    by simp
  with len show ?thesis
    by (simp add: r encode_body_def le_u64_from_le le_u32_from_le le_u16_from_le)
qed

end
