(* ===== verification/Payload.thy ===== *)
theory Payload
  imports TraceFormat
begin

text \<open>
  The payload encodings of trace records (\<open>recorder/src/capture/payload.rs\<close>) and the ring-buffer
  record of the eBPF capture backend (\<open>recorder-ebpf-common/src/lib.rs\<close>). Their contracts are
  locales: a codec decodes what it encodes; a canonical codec accepts nothing else; a prefix codec
  reads its fixed-size value and ignores what follows. Every payload type interprets the strongest
  of them that its code satisfies.
\<close>

subsection \<open>Codec contracts\<close>

locale byte_codec =
  fixes wf :: "'a \<Rightarrow> bool" and encode :: "'a \<Rightarrow> bytes" and decode :: "bytes \<Rightarrow> ('a, 'e) result"
  assumes dec_enc: "wf x \<Longrightarrow> decode (encode x) = Ok x"
begin

lemma enc_inj: "wf x \<Longrightarrow> wf y \<Longrightarrow> encode x = encode y \<Longrightarrow> x = y"
  by (metis dec_enc result.inject(1))

end

locale canonical_codec = byte_codec +
  assumes dec_wf: "decode bs = Ok x \<Longrightarrow> wf x" and enc_dec: "decode bs = Ok x \<Longrightarrow> encode x = bs"
begin

lemma decode_iff: "decode bs = Ok x \<longleftrightarrow> wf x \<and> bs = encode x"
  using dec_enc dec_wf enc_dec by auto

lemma decode_inj: "decode bs = Ok x \<Longrightarrow> decode cs = Ok x \<Longrightarrow> bs = cs"
  using enc_dec by blast

end

locale prefix_codec =
  fixes wf :: "'a \<Rightarrow> bool" and encode :: "'a \<Rightarrow> bytes" and decode :: "bytes \<Rightarrow> ('a, 'e) result"
    and width :: nat
  assumes length_enc: "wf x \<Longrightarrow> length (encode x) = width"
    and dec_prefix: "wf x \<Longrightarrow> decode (encode x @ zs) = Ok x"
    and dec_ok_iff: "is_ok (decode bs) \<longleftrightarrow> width \<le> length bs"
begin

lemma decode_ignores_tail: "wf x \<Longrightarrow> decode (encode x @ zs) = decode (encode x)"
  using dec_prefix [of x zs] dec_prefix [of x "[]"] by simp

lemma prefix_free: "wf x \<Longrightarrow> wf y \<Longrightarrow> encode x @ a = encode y @ b \<Longrightarrow> x = y"
  by (metis dec_prefix result.inject(1))

end

sublocale prefix_codec \<subseteq> byte_codec
  using dec_prefix [of _ "[]"] by unfold_locales simp

subsection \<open>Payload types\<close>

record syscall_enter =
  se_nr :: u64
  se_args :: "u64 list"

record syscall_exit =
  sx_nr :: u64
  sx_ret :: i64
  sx_data :: bytes

record sched_switch =
  ss_tid :: u32

record thread_spawn =
  ts_parent_tid :: u32
  ts_child_tid :: u32

record thread_exit =
  te_tid :: u32

record signal_delivery =
  sd_signum :: i32

datatype payload_error = TooShort nat nat | LengthMismatch

definition payload_read_i32 :: "bytes \<Rightarrow> nat \<Rightarrow> (i32, payload_error) result" where
  "payload_read_i32 payload offset = (let end' = offset + 4 in
     map_ok from_le (ok_or (TooShort (length payload) end') (slice_get offset end' payload)))"

definition payload_read_u32 :: "bytes \<Rightarrow> nat \<Rightarrow> (u32, payload_error) result" where
  "payload_read_u32 payload offset = (let end' = offset + 4 in
     map_ok from_le (ok_or (TooShort (length payload) end') (slice_get offset end' payload)))"

definition sched_switch_encode :: "sched_switch \<Rightarrow> bytes" where
  [codec_defs]: "sched_switch_encode s = le_u32 (ss_tid s)"

definition sched_switch_decode :: "bytes \<Rightarrow> (sched_switch, payload_error) result" where
  [codec_defs]: "sched_switch_decode payload =
     and_then (payload_read_u32 payload 0) (\<lambda>tid. Ok \<lparr>ss_tid = tid\<rparr>)"

definition thread_spawn_encode :: "thread_spawn \<Rightarrow> bytes" where
  [codec_defs]: "thread_spawn_encode t = le_u32 (ts_parent_tid t) @ le_u32 (ts_child_tid t)"

definition thread_spawn_decode :: "bytes \<Rightarrow> (thread_spawn, payload_error) result" where
  [codec_defs]: "thread_spawn_decode payload =
     and_then (payload_read_u32 payload 0) (\<lambda>p.
     and_then (payload_read_u32 payload 4) (\<lambda>c.
     Ok \<lparr>ts_parent_tid = p, ts_child_tid = c\<rparr>))"

definition thread_exit_encode :: "thread_exit \<Rightarrow> bytes" where
  [codec_defs]: "thread_exit_encode t = le_u32 (te_tid t)"

definition thread_exit_decode :: "bytes \<Rightarrow> (thread_exit, payload_error) result" where
  [codec_defs]: "thread_exit_decode payload =
     and_then (payload_read_u32 payload 0) (\<lambda>tid. Ok \<lparr>te_tid = tid\<rparr>)"

definition signal_delivery_encode :: "signal_delivery \<Rightarrow> bytes" where
  [codec_defs]: "signal_delivery_encode s = le_u32 (sd_signum s)"

definition signal_delivery_decode :: "bytes \<Rightarrow> (signal_delivery, payload_error) result" where
  [codec_defs]: "signal_delivery_decode payload =
     and_then (payload_read_i32 payload 0) (\<lambda>n. Ok \<lparr>sd_signum = n\<rparr>)"

definition ENTER_LEN :: nat where "ENTER_LEN = 8 + 6 * 8"
definition EXIT_PREFIX_LEN :: nat where "EXIT_PREFIX_LEN = 8 + 8 + 4"

text \<open>The array \<open>[u64; 6]\<close>: a list of six words.\<close>

definition args6 :: "u64 list \<Rightarrow> bool" where
  "args6 args \<longleftrightarrow> length args = 6"

definition syscall_enter_encode :: "syscall_enter \<Rightarrow> bytes" where
  "syscall_enter_encode s = foldl (\<lambda>out arg. out @ le_u64 arg) (le_u64 (se_nr s)) (se_args s)"

definition syscall_enter_decode :: "bytes \<Rightarrow> (syscall_enter, payload_error) result" where
  "syscall_enter_decode payload =
     (if length payload \<noteq> ENTER_LEN then Err (TooShort (length payload) ENTER_LEN)
      else Ok \<lparr>se_nr = from_le (take 8 payload),
              se_args = map (\<lambda>i. from_le (take 8 (drop (8 + i * 8) payload))) [0..<6]\<rparr>)"

definition syscall_exit_encode :: "syscall_exit \<Rightarrow> bytes" where
  "syscall_exit_encode s =
     le_u64 (sx_nr s) @ le_u64 (sx_ret s) @ le_u32 (of_nat (length (sx_data s))) @ sx_data s"

definition syscall_exit_decode :: "bytes \<Rightarrow> (syscall_exit, payload_error) result" where
  "syscall_exit_decode payload =
     (if length payload < EXIT_PREFIX_LEN then Err (TooShort (length payload) EXIT_PREFIX_LEN)
      else let nr = from_le (take 8 payload);
               ret = from_le (take 8 (drop 8 payload));
               data_len = (from_le (take 4 (drop 16 payload)) :: u32);
               data = drop EXIT_PREFIX_LEN payload in
        if length data \<noteq> unat data_len then Err LengthMismatch
        else Ok \<lparr>sx_nr = nr, sx_ret = ret, sx_data = data\<rparr>)"

subsection \<open>The fixed-size payloads\<close>

lemma payload_read_u32_eq:
  "payload_read_u32 bs off = (if off + 4 \<le> length bs then Ok (from_le (take 4 (drop off bs)))
     else Err (TooShort (length bs) (off + 4)))"
  "payload_read_i32 bs off = (if off + 4 \<le> length bs then Ok (from_le (take 4 (drop off bs)))
     else Err (TooShort (length bs) (off + 4)))"
  by (simp_all add: payload_read_u32_def payload_read_i32_def slice_get_def)

interpretation sched_switch_codec: prefix_codec "\<lambda>_. True" sched_switch_encode sched_switch_decode 4
  by unfold_locales (auto simp: codec_defs payload_read_u32_eq)

interpretation thread_spawn_codec: prefix_codec "\<lambda>_. True" thread_spawn_encode thread_spawn_decode 8
  by unfold_locales (auto simp: codec_defs payload_read_u32_eq)

interpretation thread_exit_codec: prefix_codec "\<lambda>_. True" thread_exit_encode thread_exit_decode 4
  by unfold_locales (auto simp: codec_defs payload_read_u32_eq)

interpretation signal_delivery_codec:
  prefix_codec "\<lambda>_. True" signal_delivery_encode signal_delivery_decode 4
  by unfold_locales (auto simp: codec_defs payload_read_u32_eq)

subsection \<open>Syscall payloads\<close>

lemma foldl_le_u64: "foldl (\<lambda>out arg. out @ le_u64 arg) out args = out @ concat (map le_u64 args)"
  by (induction args arbitrary: out) auto

lemma length_concat_le_u64 [simp]: "length (concat (map le_u64 args)) = 8 * length args"
  by (induction args) auto

lemma args6_cases:
  assumes "args6 args"
  obtains a b c d e f where "args = [a, b, c, d, e, f]"
  using assms by (auto simp: args6_def length_Suc_conv eval_nat_numeral)

lemma upt6: "[0..<6] = [0, 1, 2, 3, 4, 5]" by (simp add: upt_rec)

lemma concat_le_u64_chunks:
  "concat (map (\<lambda>i. le_u64 (from_le (take 8 (drop (n + i * 8) bs)))) [0..<k]) = take (8 * k) (drop n bs)"
  if "n + 8 * k \<le> length bs"
  using that
proof (induction k)
  case 0
  then show ?case by simp
next
  case (Suc k)
  have "take (8 * Suc k) (drop n bs) = take (8 * k) (drop n bs) @ take 8 (drop (n + k * 8) bs)"
    using take_add [of "8 * k" 8 "drop n bs"] by (simp add: add.commute mult.commute)
  with Suc show ?case by (simp add: le_u64_from_le)
qed

interpretation syscall_enter_codec:
  canonical_codec "\<lambda>s. args6 (se_args s)" syscall_enter_encode syscall_enter_decode
proof unfold_locales
  fix x :: syscall_enter assume "args6 (se_args x)"
  then show "syscall_enter_decode (syscall_enter_encode x) = Ok x"
    by (elim args6_cases)
       (simp add: syscall_enter_decode_def syscall_enter_encode_def foldl_le_u64 ENTER_LEN_def upt6)
next
  fix bs x assume d: "syscall_enter_decode bs = Ok x"
  then show "args6 (se_args x)"
    by (auto simp: syscall_enter_decode_def args6_def split: if_splits)
  from d have len: "length bs = 56" and x: "x = \<lparr>se_nr = from_le (take 8 bs),
      se_args = map (\<lambda>i. from_le (take 8 (drop (8 + i * 8) bs))) [0..<6]\<rparr>"
    by (auto simp: syscall_enter_decode_def ENTER_LEN_def split: if_splits)
  have "syscall_enter_encode x = take 8 bs @ take 48 (drop 8 bs)"
    using len concat_le_u64_chunks [of 8 6 bs]
    by (simp add: x syscall_enter_encode_def foldl_le_u64 le_u64_from_le comp_def)
  then show "syscall_enter_encode x = bs" using len by simp
qed

interpretation syscall_exit_codec:
  canonical_codec "\<lambda>s. length (sx_data s) < 2 ^ 32" syscall_exit_encode syscall_exit_decode
proof unfold_locales
  fix x :: syscall_exit assume "length (sx_data x) < 2 ^ 32"
  then show "syscall_exit_decode (syscall_exit_encode x) = Ok x"
    by (simp add: syscall_exit_decode_def syscall_exit_encode_def EXIT_PREFIX_LEN_def Let_def
        unat_of_nat_len)
next
  fix bs x assume "syscall_exit_decode bs = Ok x"
  then have len: "20 \<le> length bs" "unat (from_le (take 4 (drop 16 bs)) :: u32) = length bs - 20"
    and x: "x = \<lparr>sx_nr = from_le (take 8 bs), sx_ret = from_le (take 8 (drop 8 bs)), sx_data = drop 20 bs\<rparr>"
    by (auto simp: syscall_exit_decode_def EXIT_PREFIX_LEN_def Let_def split: if_splits)
  show "length (sx_data x) < 2 ^ 32"
    using len(2) unat_less_len [of "from_le (take 4 (drop 16 bs)) :: u32"] by (simp add: x)
  have n: "le_u32 (of_nat (length bs - 20)) = take 4 (drop 16 bs)"
    using len by (simp add: len(2) [symmetric] le_u32_from_le)
  have "take 8 bs @ take 8 (drop 8 bs) @ take 4 (drop 16 bs) @ drop 20 bs = bs"
    using append_take_drop_id [of 8 bs] append_take_drop_id [of 8 "drop 8 bs"]
      append_take_drop_id [of 4 "drop 16 bs"] by simp
  with len n show "syscall_exit_encode x = bs"
    by (simp add: x syscall_exit_encode_def le_u64_from_le)
qed

subsection \<open>The eBPF ring-buffer record\<close>

definition KIND_ENTER :: u8 where "KIND_ENTER = 0"
definition KIND_EXIT :: u8 where "KIND_EXIT = 1"
definition RAW_EVENT_LEN :: nat where "RAW_EVENT_LEN = 1 + 3 + 4 + 4 + 8 + 8 + 6 * 8 + 8"

record raw_syscall_event =
  raw_kind :: u8
  raw_tgid :: u32
  raw_tid :: u32
  raw_timestamp_ns :: u64
  raw_nr :: u64
  raw_args :: "u64 list"
  raw_ret :: i64

text \<open>\<open>out[pos..pos + n].copy_from_slice(bs)\<close> for a slice that is in range.\<close>

definition copy_at :: "nat \<Rightarrow> bytes \<Rightarrow> bytes \<Rightarrow> bytes" where
  "copy_at pos bs out = take pos out @ bs @ drop (pos + length bs) out"

definition raw_write_u32 :: "u32 \<Rightarrow> bytes \<times> nat \<Rightarrow> bytes \<times> nat" where
  "raw_write_u32 v = (\<lambda>(out, pos). (copy_at pos (le_u32 v) out, pos + 4))"

definition raw_write_u64 :: "u64 \<Rightarrow> bytes \<times> nat \<Rightarrow> bytes \<times> nat" where
  "raw_write_u64 v = (\<lambda>(out, pos). (copy_at pos (le_u64 v) out, pos + 8))"

definition raw_write_i64 :: "i64 \<Rightarrow> bytes \<times> nat \<Rightarrow> bytes \<times> nat" where
  "raw_write_i64 v = (\<lambda>(out, pos). (copy_at pos (le_u64 v) out, pos + 8))"

definition raw_encode :: "raw_syscall_event \<Rightarrow> bytes" where
  "raw_encode e =
     (let out = (replicate RAW_EVENT_LEN 0)[0 := raw_kind e];
          c = raw_write_u32 (raw_tgid e) (out, 1 + 3);
          c = raw_write_u32 (raw_tid e) c;
          c = raw_write_u64 (raw_timestamp_ns e) c;
          c = raw_write_u64 (raw_nr e) c;
          c = foldl (\<lambda>c arg. raw_write_u64 arg c) c (raw_args e)
      in fst (raw_write_i64 (raw_ret e) c))"

definition raw_read_u32 :: "bytes \<Rightarrow> nat \<Rightarrow> u32 \<times> nat" where
  "raw_read_u32 buf pos = (from_le (take 4 (drop pos buf)), pos + 4)"

definition raw_read_u64 :: "bytes \<Rightarrow> nat \<Rightarrow> u64 \<times> nat" where
  "raw_read_u64 buf pos = (from_le (take 8 (drop pos buf)), pos + 8)"

fun raw_read_args :: "nat \<Rightarrow> bytes \<Rightarrow> nat \<Rightarrow> u64 list \<times> nat" where
  "raw_read_args 0 buf pos = ([], pos)"
| "raw_read_args (Suc n) buf pos =
     (let (a, p) = raw_read_u64 buf pos; (as, q) = raw_read_args n buf p in (a # as, q))"

definition raw_decode :: "bytes \<Rightarrow> raw_syscall_event option" where
  "raw_decode buf = (if length buf < RAW_EVENT_LEN then None else
     (let kind = buf ! 0; pos = 1 + 3;
          (tgid, pos) = raw_read_u32 buf pos;
          (tid, pos) = raw_read_u32 buf pos;
          (ts, pos) = raw_read_u64 buf pos;
          (nr, pos) = raw_read_u64 buf pos;
          (args, pos) = raw_read_args 6 buf pos;
          (ret, pos) = raw_read_u64 buf pos
      in Some \<lparr>raw_kind = kind, raw_tgid = tgid, raw_tid = tid, raw_timestamp_ns = ts, raw_nr = nr,
               raw_args = args, raw_ret = ret\<rparr>))"

text \<open>Writing at the end of what has been written into a zeroed buffer.\<close>

lemma raw_write_zeros:
  "pos = length xs \<Longrightarrow> 4 \<le> n \<Longrightarrow> raw_write_u32 v (xs @ replicate n 0, pos)
     = ((xs @ le_u32 v) @ replicate (n - 4) 0, pos + 4)"
  "pos = length xs \<Longrightarrow> 8 \<le> n \<Longrightarrow> raw_write_u64 w (xs @ replicate n 0, pos)
     = ((xs @ le_u64 w) @ replicate (n - 8) 0, pos + 8)"
  by (simp_all add: raw_write_u32_def raw_write_u64_def copy_at_def)

lemma raw_write_i64_eq: "raw_write_i64 = raw_write_u64"
  by (simp add: raw_write_i64_def raw_write_u64_def fun_eq_iff)

lemma raw_write_args_zeros:
  "pos = length xs \<Longrightarrow> 8 * length args \<le> n \<Longrightarrow>
   foldl (\<lambda>c arg. raw_write_u64 arg c) (xs @ replicate n 0, pos) args
     = ((xs @ concat (map le_u64 args)) @ replicate (n - 8 * length args) 0, pos + 8 * length args)"
proof (induction args arbitrary: xs n pos)
  case Nil
  then show ?case by simp
next
  case (Cons a args)
  have "raw_write_u64 a (xs @ replicate n 0, pos) = ((xs @ le_u64 a) @ replicate (n - 8) 0, pos + 8)"
    using Cons.prems by (intro raw_write_zeros) auto
  with Cons.IH [of "pos + 8" "xs @ le_u64 a" "n - 8"] Cons.prems show ?case by simp
qed

lemma raw_encode_flat:
  assumes "args6 (raw_args e)"
  shows "raw_encode e = [raw_kind e, 0, 0, 0] @ le_u32 (raw_tgid e) @ le_u32 (raw_tid e)
    @ le_u64 (raw_timestamp_ns e) @ le_u64 (raw_nr e) @ concat (map le_u64 (raw_args e)) @ le_u64 (raw_ret e)"
proof -
  let ?k = "[raw_kind e, 0, 0, 0]"
  have "(replicate RAW_EVENT_LEN 0)[0 := raw_kind e] = ?k @ replicate 80 0"
    by (simp add: RAW_EVENT_LEN_def numeral_eq_Suc)
  then show ?thesis
    using assms
    by (simp add: raw_encode_def Let_def raw_write_zeros raw_write_args_zeros raw_write_i64_eq args6_def
        del: append_assoc append.simps)
qed

lemma raw_read_args_eq:
  "raw_read_args n buf pos = (map (\<lambda>i. from_le (take 8 (drop (pos + i * 8) buf))) [0..<n], pos + 8 * n)"
proof (induction n arbitrary: pos)
  case 0
  then show ?case by simp
next
  case (Suc n)
  have "map (\<lambda>i. f (pos + 8 + i * 8)) [0..<n] = map (\<lambda>i. f (pos + i * 8)) [Suc 0..<Suc n]"
    for f :: "nat \<Rightarrow> u64"
    by (simp add: map_Suc_upt [symmetric] comp_def add.assoc del: map_Suc_upt upt_Suc)
  with Suc show ?case by (simp add: raw_read_u64_def upt_conv_Cons del: upt_Suc)
qed

text \<open>\<open>decode\<close> returns an \<open>Option\<close>; as a codec its only failure is a short buffer.\<close>

definition raw_decode_result :: "bytes \<Rightarrow> (raw_syscall_event, unit) result" where
  "raw_decode_result buf = ok_or () (raw_decode buf)"

interpretation raw_event_codec:
  prefix_codec "\<lambda>e. args6 (raw_args e)" raw_encode raw_decode_result RAW_EVENT_LEN
proof unfold_locales
  fix e :: raw_syscall_event and zs assume a: "args6 (raw_args e)"
  then show "length (raw_encode e) = RAW_EVENT_LEN"
    by (subst raw_encode_flat [OF a]) (elim args6_cases, simp add: RAW_EVENT_LEN_def)
  from a obtain a1 a2 a3 a4 a5 a6 where as: "raw_args e = [a1, a2, a3, a4, a5, a6]"
    by (rule args6_cases)
  show "raw_decode_result (raw_encode e @ zs) = Ok e"
    by (simp add: raw_encode_flat [OF a] as raw_decode_result_def raw_decode_def RAW_EVENT_LEN_def
        raw_read_u32_def raw_read_u64_def raw_read_args_eq upt6)
next
  fix bs show "is_ok (raw_decode_result bs) \<longleftrightarrow> RAW_EVENT_LEN \<le> length bs"
    by (auto simp: raw_decode_result_def raw_decode_def split: prod.splits)
qed

end
