(* ===== verification/SyscallCapture.thy ===== *)
theory SyscallCapture
  imports Payload
begin

text \<open>
  Turning a stopped thread's registers into trace events (\<open>recorder/src/capture/syscall.rs\<close>), and
  what a well-formed syscall stream is: per thread, entries and exits alternate and each exit
  carries the number of the entry it answers. The syscall numbers of \<open>libc\<close>, the architecture's
  register file and \<open>process_vm_readv\<close> are parameters.
\<close>

type_synonym pid = i32
type_synonym errno = nat

datatype capture_error =
    Spawn io_error
  | Ptrace errno
  | Affinity i32 nat errno
  | TraceeRead u64 nat errno
  | CaptureTrace trace_error

record syscall_regs =
  sr_nr :: u64
  sr_ret :: i64
  sr_args :: "u64 list"

text \<open>The constants of \<open>libc\<close> the source matches on (their values differ per architecture).\<close>

record syscall_numbers =
  SYS_read :: u64
  SYS_pread64 :: u64
  SYS_recvfrom :: u64
  SYS_getrandom :: u64
  SYS_clock_gettime :: u64

definition TIMESPEC_LEN :: nat where "TIMESPEC_LEN = 16"

definition enter_event :: "u64 \<Rightarrow> u32 \<Rightarrow> syscall_regs \<Rightarrow> event" where
  "enter_event ts tid regs = event_new_with_tid SyscallEnter ts tid
     (syscall_enter_encode \<lparr>se_nr = sr_nr regs, se_args = sr_args regs\<rparr>)"

definition kernel_written_region ::
  "syscall_numbers \<Rightarrow> u64 \<Rightarrow> u64 list \<Rightarrow> i64 \<Rightarrow> (u64 \<times> nat) option" where
  "kernel_written_region abi nr args ret =
     (if nr \<in> {SYS_read abi, SYS_pread64 abi, SYS_recvfrom abi} \<and> 0 <s ret
      then Some (args ! 1, unat ret)
      else if nr = SYS_getrandom abi \<and> 0 <s ret then Some (args ! 0, unat ret)
      else if nr = SYS_clock_gettime abi \<and> ret = 0 then Some (args ! 1, TIMESPEC_LEN)
      else None)"

text \<open>
  \<open>process_vm_readv\<close> copies at most \<open>len\<close> bytes and reports how many; the source ignores the count,
  so that what was not copied stays zero.
\<close>

type_synonym vm_read = "pid \<Rightarrow> u64 \<Rightarrow> nat \<Rightarrow> (bytes, errno) result"

definition read_tracee_memory ::
  "vm_read \<Rightarrow> pid \<Rightarrow> u64 \<Rightarrow> nat \<Rightarrow> (bytes, capture_error) result" where
  "read_tracee_memory vm pid addr len =
     map_err (TraceeRead addr len)
       (map_ok (\<lambda>got. take len got @ replicate (len - length got) 0) (vm pid addr len))"

definition exit_event ::
  "syscall_numbers \<Rightarrow> vm_read \<Rightarrow> u64 \<Rightarrow> u32 \<Rightarrow> pid \<Rightarrow> syscall_regs \<Rightarrow> i64 \<Rightarrow> (event, capture_error) result"
where
  "exit_event abi vm ts tid pid enter ret =
     and_then (case kernel_written_region abi (sr_nr enter) (sr_args enter) ret of
                 Some (addr, len) \<Rightarrow> read_tracee_memory vm pid addr len
               | None \<Rightarrow> Ok []) (\<lambda>data.
     Ok (event_new_with_tid SyscallExit ts tid
           (syscall_exit_encode \<lparr>sx_nr = sr_nr enter, sx_ret = ret, sx_data = data\<rparr>)))"

text \<open>The two register files the source reads, by the names of their fields.\<close>

record x86_64_regs =
  orig_rax :: u64
  rax :: u64
  rdi :: u64
  rsi :: u64
  rdx :: u64
  r10 :: u64
  r8 :: u64
  r9 :: u64

definition read_syscall_regs_x86_64 :: "x86_64_regs \<Rightarrow> syscall_regs" where
  "read_syscall_regs_x86_64 r = \<lparr>sr_nr = orig_rax r, sr_ret = rax r,
     sr_args = [rdi r, rsi r, rdx r, r10 r, r8 r, r9 r]\<rparr>"

definition read_syscall_regs_aarch64 :: "u64 list \<Rightarrow> syscall_regs" where
  "read_syscall_regs_aarch64 regs = \<lparr>sr_nr = regs ! 8, sr_ret = regs ! 0,
     sr_args = [regs ! 0, regs ! 1, regs ! 2, regs ! 3, regs ! 4, regs ! 5]\<rparr>"

lemma args6_read_syscall_regs [simp]:
  "args6 (sr_args (read_syscall_regs_x86_64 x))" "args6 (sr_args (read_syscall_regs_aarch64 y))"
  by (simp_all add: args6_def read_syscall_regs_x86_64_def read_syscall_regs_aarch64_def)

lemma length_read_tracee_memory:
  "read_tracee_memory vm pid addr len = Ok data \<Longrightarrow> length data = len"
  by (auto simp: read_tracee_memory_def map_ok_eq_Ok)

text \<open>The data of an exit event is exactly as long as the region the syscall wrote.\<close>

lemma exit_event_payload:
  assumes "exit_event abi vm ts tid pid enter ret = Ok e"
  obtains data where "e = event_new_with_tid SyscallExit ts tid
      (syscall_exit_encode \<lparr>sx_nr = sr_nr enter, sx_ret = ret, sx_data = data\<rparr>)"
    and "length data = (case kernel_written_region abi (sr_nr enter) (sr_args enter) ret of
           Some (addr, len) \<Rightarrow> len | None \<Rightarrow> 0)"
  using assms
  by (auto simp: exit_event_def and_then_eq_Ok split: option.splits dest: length_read_tracee_memory)

text \<open>
  Linux transfers at most \<open>0x7ffff000\<close> bytes per call, so that a transfer count fits the 32-bit
  length of an exit payload.
\<close>

definition ret_small :: "i64 \<Rightarrow> bool" where
  "ret_small ret \<longleftrightarrow> (0 <s ret \<longrightarrow> unat ret < 2 ^ 32)"

lemma kernel_written_region_len:
  "kernel_written_region abi nr args ret = Some (addr, len) \<Longrightarrow> ret_small ret \<Longrightarrow> len < 2 ^ 32"
  by (auto simp: kernel_written_region_def ret_small_def TIMESPEC_LEN_def split: if_splits)

subsection \<open>Well-formed syscall streams\<close>

text \<open>The numbers of the syscalls in progress, by thread.\<close>

type_synonym in_flight = "u32 \<Rightarrow> u64 option"

definition pair_step :: "in_flight \<Rightarrow> event \<Rightarrow> in_flight option" where
  "pair_step m e = (case ev_kind e of
       SyscallEnter \<Rightarrow> (case (ev_tid e, syscall_enter_decode (ev_payload e)) of
           (Some t, Ok en) \<Rightarrow> (if m t = None then Some (m(t := Some (se_nr en))) else None)
         | _ \<Rightarrow> None)
     | SyscallExit \<Rightarrow> (case (ev_tid e, syscall_exit_decode (ev_payload e)) of
           (Some t, Ok ex) \<Rightarrow> (if m t = Some (sx_nr ex) then Some (m(t := None)) else None)
         | _ \<Rightarrow> None)
     | ThreadExit \<Rightarrow> (case thread_exit_decode (ev_payload e) of
           Ok te \<Rightarrow> Some (m(te_tid te := None)) | Err _ \<Rightarrow> None)
     | _ \<Rightarrow> Some m)"

fun pair_run :: "in_flight \<Rightarrow> event list \<Rightarrow> in_flight option" where
  "pair_run m [] = Some m"
| "pair_run m (e # es) = (case pair_step m e of Some m' \<Rightarrow> pair_run m' es | None \<Rightarrow> None)"

lemma pair_run_append:
  "pair_run m (xs @ ys) = (case pair_run m xs of Some m' \<Rightarrow> pair_run m' ys | None \<Rightarrow> None)"
  by (induction xs arbitrary: m) (auto split: option.splits)

lemma pair_step_enter:
  assumes "args6 (sr_args regs)"
  shows "pair_step m (enter_event ts tid regs)
    = (if m tid = None then Some (m(tid := Some (sr_nr regs))) else None)"
  using syscall_enter_codec.dec_enc [of "\<lparr>se_nr = sr_nr regs, se_args = sr_args regs\<rparr>"] assms
  by (simp add: pair_step_def enter_event_def event_new_with_tid_def)

lemma pair_step_exit:
  assumes "exit_event abi vm ts tid pid enter ret = Ok e" and "ret_small ret"
  shows "pair_step m e = (if m tid = Some (sr_nr enter) then Some (m(tid := None)) else None)"
proof -
  obtain data where e: "e = event_new_with_tid SyscallExit ts tid
      (syscall_exit_encode \<lparr>sx_nr = sr_nr enter, sx_ret = ret, sx_data = data\<rparr>)"
    and "length data = (case kernel_written_region abi (sr_nr enter) (sr_args enter) ret of
           Some (addr, len) \<Rightarrow> len | None \<Rightarrow> 0)"
    using assms(1) by (rule exit_event_payload)
  then have "length data < 2 ^ 32" using assms(2) kernel_written_region_len
    by (auto split: option.splits)
  then show ?thesis
    using syscall_exit_codec.dec_enc [of "\<lparr>sx_nr = sr_nr enter, sx_ret = ret, sx_data = data\<rparr>"]
    by (simp add: pair_step_def e event_new_with_tid_def)
qed

lemma pair_step_thread_exit:
  "pair_step m (event_new_with_tid ThreadExit ts t (thread_exit_encode \<lparr>te_tid = tid\<rparr>)) = Some (m(tid := None))"
  using thread_exit_codec.dec_prefix [of "\<lparr>te_tid = tid\<rparr>" "[]"]
  by (simp add: pair_step_def event_new_with_tid_def)

lemma pair_step_other:
  "k \<in> {SchedSwitch, Signal, ThreadSpawn} \<Longrightarrow> pair_step m (event_new_with_tid k ts t p) = Some m"
  by (auto simp: pair_step_def event_new_with_tid_def)

end
