(* ===== verification/OrdMap.thy ===== *)
theory OrdMap
  imports Prelude
begin

text \<open>
  The ordered map \<open>std::collections::BTreeMap\<close>: an association list with strictly ascending keys.
  Iteration is the list itself, so that the order the source iterates in is the order of the model.
  The laws of insertion, removal and lookup are collected in a locale, interpreted here on the
  operations; an entry updated in place is an insertion at its own key.
\<close>

type_synonym ('k, 'v) btree_map = "('k \<times> 'v) list"

definition bt_wf :: "('k::linorder, 'v) btree_map \<Rightarrow> bool" where
  "bt_wf m \<longleftrightarrow> sorted_wrt (<) (map fst m)"

definition bt_get :: "('k::linorder, 'v) btree_map \<Rightarrow> 'k \<Rightarrow> 'v option" where
  "bt_get m = map_of m"

fun bt_insert :: "'k::linorder \<Rightarrow> 'v \<Rightarrow> ('k, 'v) btree_map \<Rightarrow> ('k, 'v) btree_map" where
  "bt_insert k v [] = [(k, v)]"
| "bt_insert k v ((k', v') # m) =
     (if k < k' then (k, v) # (k', v') # m
      else if k = k' then (k, v) # m
      else (k', v') # bt_insert k v m)"

definition bt_remove :: "'k::linorder \<Rightarrow> ('k, 'v) btree_map \<Rightarrow> ('k, 'v) btree_map" where
  "bt_remove k m = filter (\<lambda>e. fst e \<noteq> k) m"

definition bt_keys :: "('k::linorder, 'v) btree_map \<Rightarrow> 'k list" where
  "bt_keys m = map fst m"

text \<open>\<open>if let Some(v) = map.get_mut(&k) { f(v) }\<close>\<close>

definition bt_update :: "'k::linorder \<Rightarrow> ('v \<Rightarrow> 'v) \<Rightarrow> ('k, 'v) btree_map \<Rightarrow> ('k, 'v) btree_map" where
  "bt_update k f m = (case bt_get m k of None \<Rightarrow> m | Some v \<Rightarrow> bt_insert k (f v) m)"

text \<open>\<open>iter.collect::<BTreeMap<_, _>>()\<close>\<close>

definition bt_collect :: "('k::linorder \<times> 'v) list \<Rightarrow> ('k, 'v) btree_map" where
  "bt_collect es = fold (\<lambda>(k, v) m. bt_insert k v m) es []"

locale ordered_map =
  fixes wf :: "'m \<Rightarrow> bool" and empty :: 'm
    and get :: "'m \<Rightarrow> 'k::linorder \<Rightarrow> 'v option"
    and insert_kv :: "'k \<Rightarrow> 'v \<Rightarrow> 'm \<Rightarrow> 'm" and remove :: "'k \<Rightarrow> 'm \<Rightarrow> 'm"
    and keys :: "'m \<Rightarrow> 'k list"
  assumes wf_empty: "wf empty" and get_empty: "get empty = Map.empty"
    and wf_insert: "wf m \<Longrightarrow> wf (insert_kv k v m)"
    and get_insert: "wf m \<Longrightarrow> get (insert_kv k v m) = (get m)(k \<mapsto> v)"
    and wf_remove: "wf m \<Longrightarrow> wf (remove k m)"
    and get_remove: "wf m \<Longrightarrow> get (remove k m) = (get m)(k := None)"
    and keys_sorted: "wf m \<Longrightarrow> sorted_wrt (<) (keys m)"
    and set_keys: "wf m \<Longrightarrow> set (keys m) = dom (get m)"
    and ext: "wf m \<Longrightarrow> wf m' \<Longrightarrow> get m = get m' \<Longrightarrow> m = m'"
begin

lemma keys_distinct: "wf m \<Longrightarrow> distinct (keys m)"
  using keys_sorted [of m] by (simp add: strict_sorted_iff)

lemma keys_eq: "wf m \<Longrightarrow> keys m = sorted_list_of_set (dom (get m))"
  using keys_sorted set_keys by (metis set_sorted_list_of_set sorted_list_of_set.idem_if_sorted_distinct
      strict_sorted_iff)

lemma remove_insert: "wf m \<Longrightarrow> get m k = None \<Longrightarrow> remove k (insert_kv k v m) = m"
  by (rule ext) (auto simp: wf_insert wf_remove get_insert get_remove fun_eq_iff)

lemma insert_remove: "wf m \<Longrightarrow> get m k = Some v \<Longrightarrow> insert_kv k v (remove k m) = m"
  by (rule ext) (auto simp: wf_insert wf_remove get_insert get_remove fun_eq_iff)

lemma insert_swap:
  "wf m \<Longrightarrow> k \<noteq> k' \<Longrightarrow> insert_kv k v (insert_kv k' v' m) = insert_kv k' v' (insert_kv k v m)"
  by (rule ext) (auto simp: wf_insert get_insert fun_eq_iff)

end

lemma bt_set_insert: "fst ` set (bt_insert k v m) = insert k (fst ` set m)"
  by (induction k v m rule: bt_insert.induct) auto

lemma bt_wf_insert: "bt_wf m \<Longrightarrow> bt_wf (bt_insert k v m)"
proof (induction k v m rule: bt_insert.induct)
  case (2 k v k' v' m)
  then show ?case using bt_set_insert [of k v m] by (auto simp: bt_wf_def split: if_splits)
qed (simp add: bt_wf_def)

lemma bt_get_insert: "bt_wf m \<Longrightarrow> bt_get (bt_insert k v m) = (bt_get m)(k \<mapsto> v)"
  by (induction k v m rule: bt_insert.induct) (auto simp: bt_wf_def bt_get_def fun_eq_iff)

lemma bt_get_remove: "bt_get (bt_remove k m) = (bt_get m)(k := None)"
  by (induction m) (auto simp: bt_remove_def bt_get_def fun_eq_iff)

lemma bt_wf_remove: "bt_wf m \<Longrightarrow> bt_wf (bt_remove k m)"
  by (auto simp: bt_wf_def bt_remove_def sorted_wrt_map sorted_wrt_filter)

lemma bt_ext:
  assumes "bt_wf m" and "bt_wf m'" and "bt_get m = bt_get m'"
  shows "m = m'"
proof (rule map_sorted_distinct_set_unique [of fst])
  show "sorted (map fst m)" "distinct (map fst m)" "sorted (map fst m')" "distinct (map fst m')"
    using assms(1,2) by (simp_all add: bt_wf_def strict_sorted_iff)
  then show "set m = set m'" using assms(3) by (simp add: bt_get_def map_of_inject_set)
  with \<open>distinct (map fst m)\<close> show "inj_on fst (set m \<union> set m')" by (simp add: distinct_map)
qed

interpretation bt: ordered_map "bt_wf :: ('k::linorder, 'v) btree_map \<Rightarrow> bool" "[]" bt_get bt_insert bt_remove bt_keys
proof unfold_locales
  fix m :: "('k::linorder, 'v) btree_map"
  show "set (bt_keys m) = dom (bt_get m)" by (simp add: bt_keys_def bt_get_def dom_map_of_conv_image_fst)
qed (auto simp: bt_wf_insert bt_wf_remove bt_get_insert bt_get_remove bt_ext bt_keys_def,
     simp_all add: bt_wf_def bt_get_def fun_eq_iff)

lemma bt_wf_update: "bt_wf m \<Longrightarrow> bt_wf (bt_update k f m)"
  by (auto simp: bt_update_def bt_wf_insert split: option.splits)

lemma bt_get_update: "bt_wf m \<Longrightarrow> bt_get (bt_update k f m) = (bt_get m)(k := map_option f (bt_get m k))"
  by (auto simp: bt_update_def bt_get_insert fun_eq_iff split: option.splits)

lemma bt_keys_update: "bt_wf m \<Longrightarrow> bt_keys (bt_update k f m) = bt_keys m"
  by (auto simp: bt.keys_eq bt_wf_update bt_get_update dom_def intro!: arg_cong [where f = sorted_list_of_set])

lemma bt_wf_collect: "bt_wf (bt_collect es)"
proof -
  have "bt_wf m \<Longrightarrow> bt_wf (fold (\<lambda>(k, v) m. bt_insert k v m) es m)" for m
    by (induction es arbitrary: m) (auto simp: bt_wf_insert)
  then show ?thesis by (simp add: bt_collect_def bt_wf_def)
qed

lemma bt_get_collect: "bt_get (bt_collect es) = map_of (rev es)"
proof -
  have "bt_wf m \<Longrightarrow> bt_get (fold (\<lambda>(k, v) m. bt_insert k v m) es m) = bt_get m ++ map_of (rev es)" for m
    by (induction es arbitrary: m) (auto simp: bt_wf_insert bt_get_insert)
  from this [of "[]"] show ?thesis by (simp add: bt_collect_def bt_wf_def) (simp add: bt_get_def)
qed

end
