(* ===== verification/TaskModel.thy ===== *)
theory TaskModel
  imports OrdMap
begin

text \<open>
  The portable data model of the decoder (\<open>decoder/src/model\<close>, \<open>process_view.rs\<close>, \<open>error.rs\<close>): task
  nodes, logical frames, wake causes, timeline events, the view of a paused process, and the task tree
  with its construction and its flattening.

  Construction is characterised exactly (which node lists are refused, what the tree answers
  afterwards), and flattening is shown to end on every tree that can be built and to visit, once each
  and parents first, the tasks whose chain of parents ends in a root.
\<close>

subsection \<open>Printed numbers\<close>

definition digit_char :: "nat \<Rightarrow> char" where
  "digit_char d = char_of (if d < 10 then 48 + d else 87 + d)"

function digits_of :: "nat \<Rightarrow> nat \<Rightarrow> nat list" where
  "digits_of base n = (if base < 2 \<or> n < base then [n] else digits_of base (n div base) @ [n mod base])"
  by auto
termination by (relation "measure snd") (auto intro: div_less_dividend)

declare digits_of.simps [simp del]

definition show_dec :: "nat \<Rightarrow> string" where
  "show_dec n = map digit_char (digits_of 10 n)"

definition show_hex :: "nat \<Rightarrow> string" where
  "show_hex n = map digit_char (digits_of 16 n)"

definition digits_value :: "nat \<Rightarrow> nat list \<Rightarrow> nat" where
  "digits_value base ds = foldl (\<lambda>acc d. acc * base + d) 0 ds"

lemma digits_value_of: "digits_value base (digits_of base n) = n"
  by (induction base n rule: digits_of.induct) (subst digits_of.simps, auto simp: digits_value_def)

lemma digits_of_range: "2 \<le> base \<Longrightarrow> \<forall>d \<in> set (digits_of base n). d < base"
  by (induction base n rule: digits_of.induct) (subst digits_of.simps, auto)

lemma digits_of_nonempty [simp]: "digits_of base n \<noteq> []"
  by (subst digits_of.simps) auto

lemma of_char_digit: "d < 16 \<Longrightarrow> of_char (digit_char d) = (if d < 10 then 48 + d else 87 + d)"
  by (simp only: digit_char_def of_char_of) (simp split: if_splits)

lemma digit_char_inj: "inj_on digit_char {..<16}"
proof (rule inj_onI)
  fix a b :: nat assume "a \<in> {..<16}" "b \<in> {..<16}" "digit_char a = digit_char b"
  then have "(if a < 10 then 48 + a else 87 + a) = (if b < 10 then 48 + b else 87 + b)"
    using of_char_digit [of a] of_char_digit [of b] by (simp only: lessThan_iff)
  then show "a = b" by (simp split: if_splits)
qed

lemma digits_inj:
  assumes "2 \<le> base" "base \<le> 16" and "map digit_char (digits_of base a) = map digit_char (digits_of base b)"
  shows "a = b"
proof -
  have "inj_on digit_char (set (digits_of base a) \<union> set (digits_of base b))"
    by (rule inj_on_subset [OF digit_char_inj]) (use assms(1,2) digits_of_range in fastforce)
  with assms(3) have "digits_of base a = digits_of base b" by (rule map_inj_on)
  then show ?thesis by (metis digits_value_of)
qed

lemma show_hex_inj: "show_hex a = show_hex b \<Longrightarrow> a = b"
  using digits_inj [of 16] by (simp add: show_hex_def)

lemma show_dec_inj: "show_dec a = show_dec b \<Longrightarrow> a = b"
  using digits_inj [of 10] by (simp add: show_dec_def)

subsection \<open>Data\<close>

type_synonym task_id = u64
type_synonym thread_id = u64

datatype task_kind = Thread | AsyncTask | Goroutine | Coroutine

datatype block_reason =
    BlockChannel "string option" | BlockLock "string option" | BlockIo "string option"
  | BlockJoin "task_id option" | BlockTimer | BlockUnknown

datatype task_state = Runnable | Running | Blocked block_reason | Completed

record task_node =
  tn_id :: task_id
  tn_name :: string
  tn_kind :: task_kind
  tn_state :: task_state
  tn_parent :: "task_id option"

definition node_root :: "task_id \<Rightarrow> string \<Rightarrow> task_kind \<Rightarrow> task_state \<Rightarrow> task_node" where
  "node_root i name kind state = \<lparr>tn_id = i, tn_name = name, tn_kind = kind, tn_state = state, tn_parent = None\<rparr>"

definition node_child :: "task_id \<Rightarrow> string \<Rightarrow> task_kind \<Rightarrow> task_state \<Rightarrow> task_id \<Rightarrow> task_node" where
  "node_child i name kind state parent =
     \<lparr>tn_id = i, tn_name = name, tn_kind = kind, tn_state = state, tn_parent = Some parent\<rparr>"

record source_location =
  sl_path :: string
  sl_line :: u32
  sl_column :: u32

record physical_frame =
  pf_pc :: u64
  pf_sp :: u64
  pf_function_name :: "string option"
  pf_location :: "source_location option"

datatype suspend_kind =
    ChannelRecv | ChannelSend | SuspendTimer | SuspendIo | SuspendJoin | SuspendSelect | SuspendLock | SuspendOther

record suspend_point =
  sp_kind :: suspend_kind
  sp_detail :: "string option"

datatype frame_origin = Physical | Synthesized

record logical_frame =
  lf_display_name :: string
  lf_location :: "source_location option"
  lf_suspend :: "suspend_point option"
  lf_origin :: frame_origin

definition from_physical :: "physical_frame \<Rightarrow> logical_frame" where
  "from_physical frame = \<lparr>
     lf_display_name = (case pf_function_name frame of Some n \<Rightarrow> n | None \<Rightarrow> ''0x'' @ show_hex (unat (pf_pc frame))),
     lf_location = pf_location frame, lf_suspend = None, lf_origin = Physical\<rparr>"

fun suspend_kind_str :: "suspend_kind \<Rightarrow> string" where
  "suspend_kind_str ChannelRecv = ''recv on channel''"
| "suspend_kind_str ChannelSend = ''send on channel''"
| "suspend_kind_str SuspendTimer = ''timer''"
| "suspend_kind_str SuspendIo = ''I/O''"
| "suspend_kind_str SuspendJoin = ''join''"
| "suspend_kind_str SuspendSelect = ''select''"
| "suspend_kind_str SuspendLock = ''lock''"
| "suspend_kind_str SuspendOther = ''unknown suspend point''"

definition describe_suspend :: "logical_frame \<Rightarrow> string option" where
  "describe_suspend frame = map_option (\<lambda>suspend.
     case sp_detail suspend of
       Some detail \<Rightarrow> ''awaiting: '' @ suspend_kind_str (sp_kind suspend) @ '' '' @ detail
     | None \<Rightarrow> ''awaiting: '' @ suspend_kind_str (sp_kind suspend)) (lf_suspend frame)"

record io_wake_detail =
  iw_fd :: "i32 option"
  iw_description :: "string option"

datatype wake_cause = WakeTimer | WakeIo io_wake_detail | WakeChannel "string option" | WakeManual | WakeUnknown

record variable =
  va_name :: string
  va_value :: string
  va_type_hint :: "string option"

definition variable_new :: "string \<Rightarrow> string \<Rightarrow> variable" where
  "variable_new name value_str = \<lparr>va_name = name, va_value = value_str, va_type_hint = None\<rparr>"

definition variable_with_type :: "string \<Rightarrow> string \<Rightarrow> string \<Rightarrow> variable" where
  "variable_with_type name value_str hint = \<lparr>va_name = name, va_value = value_str, va_type_hint = Some hint\<rparr>"

record timeline_event =
  te_task :: task_id
  te_seq_start :: u64
  te_seq_end :: u64
  te_from_state :: task_state
  te_to_state :: task_state

definition timeline_covers :: "timeline_event \<Rightarrow> u64 \<Rightarrow> bool" where
  "timeline_covers e seq \<longleftrightarrow> te_seq_start e \<le> seq \<and> seq < te_seq_end e"

datatype decoder_error =
    NotApplicable string | UnknownTask task_id | UnknownThread thread_id | MemoryReadFailed u64 nat string
  | InvalidTaskTree string | RegisterReadFailed thread_id string | PhysicalFramesFailed thread_id string

record thread_registers =
  tr_pc :: u64
  tr_sp :: u64

text \<open>A view of a paused process, abstract over the backend that supplies it.\<close>

record process_view =
  pv_thread_ids :: "thread_id list"
  pv_registers :: "thread_id \<Rightarrow> (thread_registers, decoder_error) result"
  pv_read_memory :: "u64 \<Rightarrow> nat \<Rightarrow> (bytes, decoder_error) result"
  pv_physical_frames :: "thread_id \<Rightarrow> (physical_frame list, decoder_error) result"
  pv_thread_pointer :: "thread_id \<Rightarrow> (u64 option, decoder_error) result"
  pv_executable_base :: "u64 option"

subsection \<open>The task tree\<close>

record task_tree =
  tt_nodes :: "(task_id, task_node) btree_map"
  tt_children :: "(task_id, task_id list) btree_map"
  tt_roots :: "task_id list"

fun index_nodes :: "task_node list \<Rightarrow> (task_id, task_node) btree_map \<Rightarrow> ((task_id, task_node) btree_map, decoder_error) result" where
  "index_nodes [] by_id = Ok by_id"
| "index_nodes (node # nodes) by_id =
     (if bt_get by_id (tn_id node) \<noteq> None then Err (InvalidTaskTree ''duplicate task id'')
      else index_nodes nodes (bt_insert (tn_id node) node by_id))"

text \<open>\<open>children.entry(parent).or_default().push(id)\<close>\<close>

definition push_child :: "task_id \<Rightarrow> task_id \<Rightarrow> (task_id, task_id list) btree_map \<Rightarrow> (task_id, task_id list) btree_map" where
  "push_child parent i children =
     bt_insert parent ((case bt_get children parent of Some cs \<Rightarrow> cs | None \<Rightarrow> []) @ [i]) children"

fun link_nodes ::
  "(task_id, task_node) btree_map \<Rightarrow> task_node list \<Rightarrow> (task_id, task_id list) btree_map \<Rightarrow> task_id list
     \<Rightarrow> ((task_id, task_id list) btree_map \<times> task_id list, decoder_error) result" where
  "link_nodes by_id [] children roots = Ok (children, roots)"
| "link_nodes by_id (node # nodes) children roots =
     (case tn_parent node of
        None \<Rightarrow> link_nodes by_id nodes children (roots @ [tn_id node])
      | Some parent \<Rightarrow>
          if bt_get by_id parent \<noteq> None
          then link_nodes by_id nodes (push_child parent (tn_id node) children) roots
          else Err (InvalidTaskTree (''task TaskId('' @ show_dec (unat (tn_id node))
                 @ '') has a dangling parent reference'')))"

definition try_from_nodes :: "task_node list \<Rightarrow> (task_tree, decoder_error) result" where
  "try_from_nodes nodes =
     and_then (index_nodes nodes []) (\<lambda>by_id.
     and_then (link_nodes by_id (map snd by_id) [] []) (\<lambda>(children, roots).
     Ok \<lparr>tt_nodes = by_id, tt_children = children, tt_roots = roots\<rparr>))"

definition tree_node :: "task_tree \<Rightarrow> task_id \<Rightarrow> task_node option" where
  "tree_node t i = bt_get (tt_nodes t) i"

definition tree_children :: "task_tree \<Rightarrow> task_id \<Rightarrow> task_id list" where
  "tree_children t i = (case bt_get (tt_children t) i of Some cs \<Rightarrow> cs | None \<Rightarrow> [])"

definition tree_len :: "task_tree \<Rightarrow> nat" where
  "tree_len t = length (tt_nodes t)"

definition tree_is_empty :: "task_tree \<Rightarrow> bool" where
  "tree_is_empty t \<longleftrightarrow> tt_nodes t = []"

text \<open>
  The recursion of the source has no bound of its own: the fuel is the depth of the call stack, and
  \<open>None\<close> a stack that grew past it.
\<close>

fun push_preorder :: "nat \<Rightarrow> task_tree \<Rightarrow> task_id \<Rightarrow> task_id list \<Rightarrow> task_id list option" where
  "push_preorder 0 t i out = None"
| "push_preorder (Suc n) t i out =
     fold (\<lambda>child acc. Option.bind acc (push_preorder n t child)) (tree_children t i) (Some (out @ [i]))"

definition flatten_preorder :: "nat \<Rightarrow> task_tree \<Rightarrow> task_id list option" where
  "flatten_preorder fuel t = fold (\<lambda>root acc. Option.bind acc (push_preorder fuel t root)) (tt_roots t) (Some [])"

subsection \<open>Construction\<close>

abbreviation node_pairs :: "task_node list \<Rightarrow> (task_id \<times> task_node) list" where
  "node_pairs ns \<equiv> map (\<lambda>n. (tn_id n, n)) ns"

lemma index_nodes_Ok:
  assumes "index_nodes ns m = Ok b" and "bt_wf m"
  shows "bt_wf b \<and> bt_get b = bt_get m ++ map_of (node_pairs ns) \<and> distinct (map tn_id ns)
    \<and> set (map tn_id ns) \<inter> dom (bt_get m) = {}"
  using assms
proof (induction ns m rule: index_nodes.induct)
  case (2 node nodes by_id)
  then have new: "bt_get by_id (tn_id node) = None"
    and rest: "index_nodes nodes (bt_insert (tn_id node) node by_id) = Ok b" by (auto split: if_splits)
  note ins = bt_wf_insert [OF "2.prems"(2), of "tn_id node" node] bt_get_insert [OF "2.prems"(2), of "tn_id node" node]
  from "2.IH" [OF _ rest ins(1)] new have ih: "bt_wf b"
    "bt_get b = (bt_get by_id)(tn_id node \<mapsto> node) ++ map_of (node_pairs nodes)" "distinct (map tn_id nodes)"
    "set (map tn_id nodes) \<inter> insert (tn_id node) (dom (bt_get by_id)) = {}"
    unfolding ins(2) dom_fun_upd by (simp_all add: fun_upd_def)
  then have "map_of (node_pairs nodes) (tn_id node) = None" by (auto simp: map_of_eq_None_iff)
  with ih new show ?case by (auto simp: fun_eq_iff map_add_def split: option.splits)
qed auto

lemma index_nodes_total:
  assumes "bt_wf m" and "distinct (map tn_id ns)" and "set (map tn_id ns) \<inter> dom (bt_get m) = {}"
  shows "\<exists>b. index_nodes ns m = Ok b"
  using assms
proof (induction ns m rule: index_nodes.induct)
  case (2 node nodes by_id)
  note ins = bt_wf_insert [OF "2.prems"(1), of "tn_id node" node] bt_get_insert [OF "2.prems"(1), of "tn_id node" node]
  from "2.prems"(2,3) have "set (map tn_id nodes) \<inter> dom (bt_get (bt_insert (tn_id node) node by_id)) = {}"
    "bt_get by_id (tn_id node) = None"
    unfolding ins(2) dom_fun_upd by auto
  with "2.IH" ins(1) "2.prems"(2) show ?case by simp
qed simp

definition children_of :: "(task_id, task_id list) btree_map \<Rightarrow> task_id \<Rightarrow> task_id list" where
  "children_of ch p = (case bt_get ch p of Some cs \<Rightarrow> cs | None \<Rightarrow> [])"

lemma push_child_wf [simp]: "bt_wf ch \<Longrightarrow> bt_wf (push_child p i ch)"
  by (simp add: push_child_def bt_wf_insert)

lemma children_of_push: "bt_wf ch \<Longrightarrow> children_of (push_child p i ch) = (children_of ch)(p := children_of ch p @ [i])"
  by (auto simp: children_of_def push_child_def bt_get_insert fun_eq_iff)

definition child_ids :: "task_node list \<Rightarrow> task_id \<Rightarrow> task_id list" where
  "child_ids ns p = map tn_id (filter (\<lambda>n. tn_parent n = Some p) ns)"

definition root_ids :: "task_node list \<Rightarrow> task_id list" where
  "root_ids ns = map tn_id (filter (\<lambda>n. tn_parent n = None) ns)"

lemma link_nodes_Ok:
  assumes "link_nodes b ns ch rs = Ok (ch', rs')" and "bt_wf ch"
  shows "rs' = rs @ root_ids ns \<and> (\<forall>p. children_of ch' p = children_of ch p @ child_ids ns p)
    \<and> (\<forall>n \<in> set ns. \<forall>p. tn_parent n = Some p \<longrightarrow> bt_get b p \<noteq> None)"
  using assms
proof (induction b ns ch rs rule: link_nodes.induct)
  case (2 b node nodes ch rs)
  then show ?case by (cases "tn_parent node") (auto simp: root_ids_def child_ids_def children_of_push split: if_splits)
qed (auto simp: root_ids_def child_ids_def)

lemma link_nodes_total:
  "\<forall>n \<in> set ns. \<forall>p. tn_parent n = Some p \<longrightarrow> bt_get b p \<noteq> None \<Longrightarrow> \<exists>r. link_nodes b ns ch rs = Ok r"
  by (induction b ns ch rs rule: link_nodes.induct) (auto split: option.splits)

text \<open>The nodes in the order of their ids.\<close>

definition nodes_by_id :: "task_node list \<Rightarrow> task_node list" where
  "nodes_by_id ns = sort_key tn_id ns"

lemma distinct_ids_sorted: "distinct (map tn_id ns) \<Longrightarrow> distinct (map tn_id (nodes_by_id ns))"
  by (simp add: distinct_map nodes_by_id_def)

lemma index_nodes_values:
  assumes "index_nodes ns [] = Ok b"
  shows "map snd b = nodes_by_id ns"
proof -
  from index_nodes_Ok [OF assms bt.wf_empty] have b: "bt_wf b" "bt_get b = map_of (node_pairs ns)" "distinct (map tn_id ns)"
    by (simp_all add: bt.get_empty)
  let ?s = "node_pairs (nodes_by_id ns)"
  have keys: "map fst ?s = map tn_id (nodes_by_id ns)" by simp
  have d: "distinct (map tn_id (nodes_by_id ns))"
    by (rule distinct_ids_sorted [OF b(3)])
  have "bt_wf ?s" using d by (simp add: bt_wf_def comp_def strict_sorted_iff nodes_by_id_def)
  moreover have "bt_get ?s = map_of (node_pairs ns)"
  proof -
    have "distinct (map fst ?s)" "distinct (map fst (node_pairs ns))" using d b(3) by (simp_all add: comp_def)
    moreover have "set ?s = set (node_pairs ns)" by (simp add: nodes_by_id_def)
    ultimately show ?thesis unfolding bt_get_def by (rule map_of_inject_set [THEN iffD2])
  qed
  ultimately have "b = ?s" using b(1,2) by (intro bt_ext) simp_all
  then show ?thesis by (simp add: comp_def)
qed

definition parents_known :: "task_node list \<Rightarrow> bool" where
  "parents_known ns \<longleftrightarrow> (\<forall>n \<in> set ns. \<forall>p. tn_parent n = Some p \<longrightarrow> p \<in> tn_id ` set ns)"

lemma try_from_nodes_Ok:
  assumes "try_from_nodes ns = Ok t"
  shows "distinct (map tn_id ns)" "parents_known ns" "tree_node t = map_of (node_pairs ns)"
    "tree_children t = child_ids (nodes_by_id ns)" "tt_roots t = root_ids (nodes_by_id ns)"
    "tree_len t = length ns" "bt_wf (tt_nodes t)"
proof -
  from assms obtain b ch rs where b: "index_nodes ns [] = Ok b" and l: "link_nodes b (map snd b) [] [] = Ok (ch, rs)"
    and t: "t = \<lparr>tt_nodes = b, tt_children = ch, tt_roots = rs\<rparr>"
    by (auto simp: try_from_nodes_def and_then_eq_Ok)
  note ib = index_nodes_Ok [OF b bt.wf_empty]
  note lb = link_nodes_Ok [OF l bt.wf_empty]
  note v = index_nodes_values [OF b]
  show "distinct (map tn_id ns)" "tree_node t = map_of (node_pairs ns)" "bt_wf (tt_nodes t)"
    using ib by (auto simp: t tree_node_def bt.get_empty fun_eq_iff)
  show "tree_children t = child_ids (nodes_by_id ns)" "tt_roots t = root_ids (nodes_by_id ns)"
    using lb v by (auto simp: t tree_children_def children_of_def bt.get_empty fun_eq_iff)
  have "length b = length (map snd b)" by simp
  then show "tree_len t = length ns" by (simp only: v) (simp add: t tree_len_def nodes_by_id_def)
  show "parents_known ns"
    using lb ib v by (auto simp: parents_known_def nodes_by_id_def bt.get_empty map_of_eq_None_iff image_image)
qed

lemma try_from_nodes_total:
  assumes "distinct (map tn_id ns)" and "parents_known ns"
  shows "\<exists>t. try_from_nodes ns = Ok t"
proof -
  obtain b where b: "index_nodes ns [] = Ok b"
    using index_nodes_total [OF bt.wf_empty assms(1)] by (auto simp: bt.get_empty)
  from index_nodes_Ok [OF b bt.wf_empty] have g: "bt_get b = map_of (node_pairs ns)" by (simp add: bt.get_empty)
  have "\<exists>r. link_nodes b (map snd b) [] [] = Ok r"
    by (rule link_nodes_total)
      (use assms(2) in \<open>auto simp: index_nodes_values [OF b] nodes_by_id_def g parents_known_def map_of_eq_None_iff image_image\<close>)
  with b show ?thesis by (force simp: try_from_nodes_def and_then_eq_Ok)
qed


text \<open>Witness: a root with two children, given out of order.\<close>

definition demo_node :: "task_id \<Rightarrow> task_id option \<Rightarrow> task_node" where
  "demo_node i p = \<lparr>tn_id = i, tn_name = ''t'', tn_kind = AsyncTask, tn_state = Runnable, tn_parent = p\<rparr>"

definition demo_nodes :: "task_node list" where
  "demo_nodes = [demo_node 3 (Some 1), demo_node 1 None, demo_node 2 (Some 1), demo_node 4 (Some 3)]"

lemma demo_nodes_ok: "distinct (map tn_id demo_nodes)" "parents_known demo_nodes"
  by (simp_all add: demo_nodes_def demo_node_def parents_known_def)


subsection \<open>Flattening\<close>

definition parent_of :: "task_tree \<Rightarrow> task_id \<Rightarrow> task_id option" where
  "parent_of t i = Option.bind (tree_node t i) tn_parent"

primrec ancestor :: "task_tree \<Rightarrow> nat \<Rightarrow> task_id \<Rightarrow> task_id option" where
  "ancestor t 0 i = Some i"
| "ancestor t (Suc k) i = Option.bind (ancestor t k i) (parent_of t)"

text \<open>What the flattening needs of a tree, which construction guarantees.\<close>

definition tree_ok :: "task_tree \<Rightarrow> bool" where
  "tree_ok t \<longleftrightarrow> bt_wf (tt_nodes t)
     \<and> (\<forall>i c. c \<in> set (tree_children t i) \<longleftrightarrow> parent_of t c = Some i) \<and> (\<forall>i. distinct (tree_children t i))
     \<and> (\<forall>i. i \<in> set (tt_roots t) \<longleftrightarrow> tree_node t i \<noteq> None \<and> parent_of t i = None) \<and> distinct (tt_roots t)
     \<and> (\<forall>i p. parent_of t i = Some p \<longrightarrow> tree_node t p \<noteq> None)"

lemma built_tree_ok:
  assumes "try_from_nodes ns = Ok t"
  shows "tree_ok t"
proof -
  note ok = try_from_nodes_Ok [OF assms]
  have node: "tree_node t i = Some n \<longleftrightarrow> n \<in> set ns \<and> tn_id n = i" for i n using ok(1) by (auto simp: ok(3) comp_def)
  have par: "parent_of t i = Some p \<longleftrightarrow> (\<exists>n \<in> set ns. tn_id n = i \<and> tn_parent n = Some p)" for i p
    by (auto simp: parent_of_def bind_eq_Some_conv node)
  have root: "tree_node t i \<noteq> None \<and> parent_of t i = None \<longleftrightarrow> (\<exists>n \<in> set ns. tn_id n = i \<and> tn_parent n = None)" for i
  proof (cases "tree_node t i")
    case None
    then have "\<not> (n \<in> set ns \<and> tn_id n = i)" for n using node [of i n] by simp
    with None show ?thesis by blast
  next
    case (Some n)
    then have "m \<in> set ns \<and> tn_id m = i \<longleftrightarrow> m = n" for m using node [of i m] by auto
    with Some show ?thesis by (metis bind.bind_lunit option.discI parent_of_def)
  qed
  have known: "tree_node t p \<noteq> None" if "p \<in> tn_id ` set ns" for p using that node by force
  have dist: "distinct (map tn_id (filter P (nodes_by_id ns)))" for P
    using distinct_ids_sorted [OF ok(1)] by (simp add: distinct_map_filter)
  show ?thesis
    unfolding tree_ok_def
  proof (intro conjI allI impI)
    fix i p assume "parent_of t i = Some p"
    with ok(2) known show "tree_node t p \<noteq> None" by (auto simp: par parents_known_def)
  next
    show "i \<in> set (tt_roots t) \<longleftrightarrow> tree_node t i \<noteq> None \<and> parent_of t i = None" for i
      unfolding root by (auto simp: ok(5) root_ids_def nodes_by_id_def)
  qed (use ok(7) dist in \<open>auto simp: par root ok(4,5) child_ids_def root_ids_def nodes_by_id_def\<close>)
qed

lemma tree_okD:
  assumes "tree_ok t"
  shows "bt_wf (tt_nodes t)" "c \<in> set (tree_children t i) \<longleftrightarrow> parent_of t c = Some i" "distinct (tree_children t i)"
    "i \<in> set (tt_roots t) \<longleftrightarrow> tree_node t i \<noteq> None \<and> parent_of t i = None" "distinct (tt_roots t)"
    "parent_of t i = Some p \<Longrightarrow> tree_node t p \<noteq> None"
  using assms unfolding tree_ok_def by blast+

lemma ancestor_add: "ancestor t (j + k) i = Option.bind (ancestor t j i) (ancestor t k)"
  by (induction k) auto

lemma ancestor_Suc_left: "ancestor t (Suc k) i = Option.bind (parent_of t i) (ancestor t k)"
  using ancestor_add [of t "Suc 0" k i] by simp

lemma ancestor_None_add: "ancestor t j i = None \<Longrightarrow> ancestor t (j + k) i = None"
  by (simp add: ancestor_add)

definition at_depth :: "task_tree \<Rightarrow> nat \<Rightarrow> task_id \<Rightarrow> bool" where
  "at_depth t d i \<longleftrightarrow> (\<exists>r \<in> set (tt_roots t). ancestor t d i = Some r)"

lemma at_depth_end:
  assumes "tree_ok t" and "at_depth t d i"
  shows "ancestor t k i = None \<longleftrightarrow> d < k"
proof -
  from assms(2) have top: "ancestor t (Suc d) i = None" using tree_okD(4) [OF assms(1)] by (auto simp: at_depth_def)
  show ?thesis
  proof
    assume "ancestor t k i = None"
    then have "k \<le> d \<Longrightarrow> ancestor t d i = None" using ancestor_None_add [of t k i "d - k"] by simp
    with assms(2) show "d < k" by (force simp: at_depth_def)
  next
    assume "d < k"
    then show "ancestor t k i = None" using ancestor_None_add [OF top, of "k - Suc d"] by simp
  qed
qed

lemma at_depth_unique: "tree_ok t \<Longrightarrow> at_depth t d i \<Longrightarrow> at_depth t d' i \<Longrightarrow> d = d'"
  using at_depth_end [of t d i d'] at_depth_end [of t d' i d] by (auto simp: at_depth_def)

lemma at_depth_child: "tree_ok t \<Longrightarrow> at_depth t d i \<Longrightarrow> c \<in> set (tree_children t i) \<Longrightarrow> at_depth t (Suc d) c"
  using tree_okD(2) [of t c i] by (simp add: at_depth_def ancestor_Suc_left del: ancestor.simps)

text \<open>A chain of parents that ends has no repetition, so its length is bounded by the number of tasks.\<close>

lemma at_depth_bound:
  assumes "tree_ok t" and "at_depth t d i" and "tree_node t i \<noteq> None"
  shows "d < tree_len t"
proof -
  let ?chain = "\<lambda>k. the (ancestor t k i)"
  have some: "ancestor t k i = Some (?chain k)" if "k \<le> d" for k
    using at_depth_end [OF assms(1,2), of k] that by (cases "ancestor t k i") auto
  have "inj_on ?chain {..d}"
  proof (rule linorder_inj_onI)
    fix j k assume jk: "j < k" "j \<in> {..d}" "k \<in> {..d}"
    show "?chain j \<noteq> ?chain k"
    proof
      assume eq: "?chain j = ?chain k"
      have "ancestor t (k + m) i = ancestor t (j + m) i" for m
        using ancestor_add [of t k m i] ancestor_add [of t j m i] some [of j] some [of k] jk eq by simp
      from this [of "Suc d - k"] have "ancestor t (j + (Suc d - k)) i = None" using at_depth_end [OF assms(1,2), of "Suc d"] jk by simp
      with at_depth_end [OF assms(1,2), of "j + (Suc d - k)"] jk show False by auto
    qed
  qed auto
  moreover have "tree_node t (?chain k) \<noteq> None" if "k \<le> d" for k
  proof (cases k)
    case (Suc m)
    with some [of k] some [of m] that have "parent_of t (?chain m) = Some (?chain k)"
      by (metis Suc_leD ancestor.simps(2) bind.bind_lunit)
    then show ?thesis by (rule tree_okD(6) [OF assms(1)])
  qed (use assms(3) in simp)
  then have "?chain ` {..d} \<subseteq> set (bt_keys (tt_nodes t))"
    by (auto simp: bt.set_keys [OF tree_okD(1) [OF assms(1)]] tree_node_def)
  ultimately have "card {..d} \<le> card (set (bt_keys (tt_nodes t)))" by (metis List.finite_set card_image card_mono)
  also have "\<dots> \<le> tree_len t" using card_length [of "bt_keys (tt_nodes t)"] by (simp add: bt_keys_def tree_len_def)
  finally show ?thesis by simp
qed

text \<open>The list the recursion builds, without its accumulator.\<close>

fun preorder :: "nat \<Rightarrow> task_tree \<Rightarrow> task_id \<Rightarrow> task_id list" where
  "preorder 0 t i = []"
| "preorder (Suc n) t i = i # concat (map (preorder n t) (tree_children t i))"

lemma fold_bind_append:
  assumes "\<And>c out. c \<in> set cs \<Longrightarrow> f c out = Some (out @ g c)"
  shows "fold (\<lambda>c acc. Option.bind acc (f c)) cs (Some out) = Some (out @ concat (map g cs))"
  using assms by (induction cs arbitrary: out) auto

lemma child_known: "tree_ok t \<Longrightarrow> c \<in> set (tree_children t i) \<Longrightarrow> tree_node t c \<noteq> None"
  using tree_okD(2) [of t c i] by (auto simp: parent_of_def bind_eq_Some_conv)

lemma push_preorder_eq:
  assumes "tree_ok t" and "at_depth t d i" and "tree_node t i \<noteq> None" and "tree_len t \<le> n + d"
  shows "push_preorder n t i out = Some (out @ preorder n t i)"
  using assms(2-4)
proof (induction n arbitrary: i d out)
  case 0
  with at_depth_bound [OF assms(1) 0(1,2)] show ?case by simp
next
  case (Suc n)
  have "push_preorder n t c out = Some (out @ preorder n t c)" if "c \<in> set (tree_children t i)" for c out
  proof (rule Suc.IH)
    show "at_depth t (Suc d) c" using at_depth_child [OF assms(1) Suc.prems(1) that] .
    show "tree_node t c \<noteq> None" by (rule child_known [OF assms(1) that])
  qed (use Suc.prems(3) in simp)
  then show ?case by (simp add: fold_bind_append)
qed

definition descendants :: "task_tree \<Rightarrow> task_id \<Rightarrow> task_id set" where
  "descendants t i = {x. \<exists>k. ancestor t k x = Some i}"

lemma descendants_unfold:
  assumes "tree_ok t"
  shows "descendants t i = insert i (\<Union>c \<in> set (tree_children t i). descendants t c)"
proof (rule set_eqI, rule iffI)
  fix x assume "x \<in> descendants t i"
  then obtain k where k: "ancestor t k x = Some i" by (auto simp: descendants_def)
  show "x \<in> insert i (\<Union>c \<in> set (tree_children t i). descendants t c)"
  proof (cases k)
    case (Suc m)
    with k obtain c where "ancestor t m x = Some c" "parent_of t c = Some i" by (auto simp: bind_eq_Some_conv)
    then show ?thesis by (auto simp: descendants_def tree_okD(2) [OF assms])
  qed (use k in simp)
next
  fix x assume "x \<in> insert i (\<Union>c \<in> set (tree_children t i). descendants t c)"
  then consider "x = i" | c k where "parent_of t c = Some i" "ancestor t k x = Some c"
    by (auto simp: descendants_def tree_okD(2) [OF assms])
  then show "x \<in> descendants t i"
  proof cases
    case 1
    then show ?thesis by (auto simp: descendants_def intro: exI [of _ 0])
  next
    case 2
    then have "ancestor t (Suc k) x = Some i" by simp
    then show ?thesis unfolding descendants_def by blast
  qed
qed

lemma descendant_depth: "ancestor t k x = Some i \<Longrightarrow> at_depth t d i \<Longrightarrow> at_depth t (k + d) x"
  by (auto simp: at_depth_def ancestor_add)

lemma descendants_disjoint:
  assumes "tree_ok t" and "at_depth t d a" and "at_depth t d b" and "x \<in> descendants t a" and "x \<in> descendants t b"
  shows "a = b"
proof -
  from assms(4,5) obtain k l where kl: "ancestor t k x = Some a" "ancestor t l x = Some b" by (auto simp: descendants_def)
  with descendant_depth assms(2,3) have "at_depth t (k + d) x" "at_depth t (l + d) x" by blast+
  then have "k = l" using at_depth_unique [OF assms(1)] by (metis add_right_cancel)
  with kl show ?thesis by simp
qed

lemma distinct_concat_disjoint:
  assumes "distinct cs" and "\<And>c. c \<in> set cs \<Longrightarrow> distinct (g c)"
    and "\<And>a b x. \<lbrakk>a \<in> set cs; b \<in> set cs; x \<in> set (g a); x \<in> set (g b)\<rbrakk> \<Longrightarrow> a = b"
  shows "distinct (concat (map g cs))"
  using assms
proof (induction cs)
  case (Cons c cs)
  have "set (g c) \<inter> set (concat (map g cs)) = {}" using Cons.prems(1,3) by fastforce
  moreover have "distinct (concat (map g cs))" by (rule Cons.IH) (use Cons.prems in auto)
  ultimately show ?case using Cons.prems(2) by simp
qed simp

lemma preorder_set:
  assumes "tree_ok t" and "at_depth t d i" and "tree_node t i \<noteq> None" and "tree_len t \<le> n + d"
  shows "set (preorder n t i) = descendants t i \<and> distinct (preorder n t i)"
  using assms(2-4)
proof (induction n arbitrary: i d)
  case 0
  with at_depth_bound [OF assms(1) 0(1,2)] show ?case by simp
next
  case (Suc n)
  let ?cs = "tree_children t i"
  have depth: "at_depth t (Suc d) c" if "c \<in> set ?cs" for c using at_depth_child [OF assms(1) Suc.prems(1) that] .
  have ih: "set (preorder n t c) = descendants t c \<and> distinct (preorder n t c)" if "c \<in> set ?cs" for c
    by (rule Suc.IH [OF depth [OF that] child_known [OF assms(1) that]]) (use Suc.prems(3) in simp)
  have "set (preorder (Suc n) t i) = descendants t i" using ih by (auto simp: descendants_unfold [OF assms(1), of i])
  moreover have "i \<notin> descendants t c" if "c \<in> set ?cs" for c
  proof
    assume "i \<in> descendants t c"
    then obtain k where "ancestor t k i = Some c" by (auto simp: descendants_def)
    from descendant_depth [OF this depth [OF that]] Suc.prems(1) at_depth_unique [OF assms(1)] show False by fastforce
  qed
  moreover have "distinct (concat (map (preorder n t) ?cs))"
    by (rule distinct_concat_disjoint)
      (use tree_okD(3) [OF assms(1)] ih depth descendants_disjoint [OF assms(1)] in blast)+
  ultimately show ?case using ih by auto
qed

text \<open>Parents come first: a task of the list is a root or its parent stands before it.\<close>

fun parents_first :: "task_tree \<Rightarrow> task_id set \<Rightarrow> task_id list \<Rightarrow> bool" where
  "parents_first t seen [] = True"
| "parents_first t seen (i # is) =
     ((case parent_of t i of None \<Rightarrow> True | Some p \<Rightarrow> p \<in> seen) \<and> parents_first t (insert i seen) is)"

lemma parents_first_append:
  "parents_first t seen (xs @ ys) \<longleftrightarrow> parents_first t seen xs \<and> parents_first t (seen \<union> set xs) ys"
  by (induction xs arbitrary: seen) (auto simp: insert_commute Un_commute)

lemma parents_first_concat:
  assumes "\<And>c S. c \<in> set cs \<Longrightarrow> seen \<subseteq> S \<Longrightarrow> parents_first t S (g c)"
  shows "parents_first t seen (concat (map g cs))"
  using assms
proof (induction cs arbitrary: seen)
  case (Cons c cs)
  have "parents_first t (seen \<union> set (g c)) (concat (map g cs))" by (rule Cons.IH) (use Cons.prems in auto)
  then show ?case using Cons.prems by (simp add: parents_first_append)
qed simp

lemma parents_first_preorder:
  assumes "tree_ok t" and "case parent_of t i of None \<Rightarrow> True | Some p \<Rightarrow> p \<in> seen"
  shows "parents_first t seen (preorder n t i)"
  using assms(2)
proof (induction n arbitrary: i seen)
  case (Suc n)
  have "parents_first t S (preorder n t c)" if "c \<in> set (tree_children t i)" "insert i seen \<subseteq> S" for c S
    by (rule Suc.IH) (use that tree_okD(2) [OF assms(1)] in auto)
  then show ?case using Suc.prems by (auto intro: parents_first_concat)
qed simp

lemma parents_first_nth:
  "parents_first t seen xs \<Longrightarrow> k < length xs \<Longrightarrow> parent_of t (xs ! k) = Some p \<Longrightarrow> p \<in> seen \<union> set (take k xs)"
  by (induction xs arbitrary: seen k) (auto simp: nth_Cons take_Cons split: nat.splits)

lemma at_depth_known: "tree_ok t \<Longrightarrow> at_depth t k i \<Longrightarrow> tree_node t i \<noteq> None"
  by (cases k) (auto simp: at_depth_def tree_okD(4) ancestor_Suc_left bind_eq_Some_conv parent_of_def
      simp del: ancestor.simps(2))

lemma flatten_preorder_total:
  assumes "try_from_nodes ns = Ok t" and "length ns \<le> fuel"
  shows "\<exists>out. flatten_preorder fuel t = Some out \<and> distinct out
    \<and> set out = {i. \<exists>k. at_depth t k i}
    \<and> (\<forall>k < length out. \<forall>p. parent_of t (out ! k) = Some p \<longrightarrow> p \<in> set (take k out))"
proof -
  note ok = built_tree_ok [OF assms(1)]
  let ?roots = "tt_roots t" and ?out = "concat (map (preorder fuel t) (tt_roots t))"
  have fuel: "tree_len t \<le> fuel + 0" using assms(2) try_from_nodes_Ok(6) [OF assms(1)] by simp
  have root: "at_depth t 0 r" "tree_node t r \<noteq> None" "parent_of t r = None" if "r \<in> set ?roots" for r
    using that tree_okD(4) [OF ok] by (auto simp: at_depth_def)
  note ps = preorder_set [OF ok root(1,2) fuel]
  have "flatten_preorder fuel t = Some ?out"
    unfolding flatten_preorder_def
    using fold_bind_append [of ?roots "push_preorder fuel t" "preorder fuel t" "[]"]
      push_preorder_eq [OF ok root(1,2) fuel] by simp
  moreover have "distinct ?out"
    by (rule distinct_concat_disjoint) (use tree_okD(5) [OF ok] ps root descendants_disjoint [OF ok] in blast)+
  moreover have "set ?out = {i. \<exists>k. at_depth t k i}"
    using ps by (auto simp: descendants_def at_depth_def)
  moreover have "parents_first t {} ?out"
    by (rule parents_first_concat) (auto intro!: parents_first_preorder [OF ok] simp: root(3))
  ultimately show ?thesis using parents_first_nth [of t "{}" ?out] by auto
qed

text \<open>
  C30. Flattening ends and is complete: on every tree that construction accepts, a call stack as deep
  as the number of tasks is enough for \<open>flatten_preorder\<close>, and the result holds every task whose chain
  of parents ends in a root, exactly once, each after its parent. (Tasks on a cycle of parents, which
  construction does not refuse, have no such chain and are left out.)
\<close>

theorem flatten_preorder_complete:
  assumes "try_from_nodes ns = Ok t" and "length ns \<le> fuel"
  shows "\<exists>out. flatten_preorder fuel t = Some out \<and> distinct out
    \<and> set out = {i. \<exists>k. \<exists>r \<in> set (tt_roots t). ancestor t k i = Some r}
    \<and> (\<forall>k < length out. \<forall>p. parent_of t (out ! k) = Some p \<longrightarrow> p \<in> set (take k out))"
  using flatten_preorder_total [OF assms] by (simp add: at_depth_def)

lemmas tree_eval = try_from_nodes_def index_nodes.simps link_nodes.simps push_child_def bt_get_def demo_node_def
  tree_children_def flatten_preorder_def numeral_eq_Suc

text \<open>Witness: four tasks in three levels.\<close>

theorem flatten_preorder_complete_witness:
  "\<exists>t out. try_from_nodes demo_nodes = Ok t \<and> flatten_preorder 4 t = Some out \<and> distinct out \<and> 4 \<in> set out
     \<and> tt_roots t = [1] \<and> tree_children t 1 = [2, 3]"
proof -
  obtain t where t: "try_from_nodes demo_nodes = Ok t" using try_from_nodes_total [OF demo_nodes_ok] by blast
  note ok = try_from_nodes_Ok [OF t]
  have facts: "tt_roots t = [1]" "tree_children t 1 = [2, 3]" "parent_of t 4 = Some 3" "parent_of t 3 = Some 1"
    by (simp_all add: ok(3-5) parent_of_def demo_nodes_def demo_node_def root_ids_def child_ids_def nodes_by_id_def word_le_nat_alt)
  have "ancestor t 2 4 = Some 1" by (simp add: facts numeral_2_eq_2)
  with facts(1) have "4 \<in> {i. \<exists>k. \<exists>r \<in> set (tt_roots t). ancestor t k i = Some r}" by force
  moreover have "length demo_nodes \<le> 4" by (simp add: demo_nodes_def)
  ultimately show ?thesis using flatten_preorder_complete [OF t, of 4] t facts by blast
qed

text \<open>
  A cycle of parents is not refused: two tasks that name each other as parent are accepted as a
  tree of two tasks without a root, and the flattened list is empty.
\<close>

theorem cyclic_parents_accepted:
  "\<exists>t. try_from_nodes [demo_node 1 (Some 2), demo_node 2 (Some 1)] = Ok t \<and> tree_len t = 2
     \<and> tt_roots t = [] \<and> flatten_preorder fuel t = Some []"
  by (simp add: tree_eval tree_len_def)

text \<open>Roots come in the order of their ids, not in the order given.\<close>

lemma roots_in_id_order:
  "\<exists>t. try_from_nodes [demo_node 2 None, demo_node 1 None] = Ok t \<and> tt_roots t = [1, 2]"
  by (simp add: tree_eval)

end
