(* ===== verification/TextParse.thy ===== *)
theory TextParse
  imports GoLayout
begin

text \<open>
  Text handling of the standard library, on strings given by their bytes: \<open>from_str_radix\<close> and \<open>parse\<close> of
  integers, \<open>lines\<close>, \<open>split_whitespace\<close>, with the facts that printed numbers parse back and that fields
  joined by blanks split again.
\<close>

subsection \<open>Numbers\<close>

definition digit_value :: "nat \<Rightarrow> u8 \<Rightarrow> nat option" where
  "digit_value base b =
     (let v = (if 48 \<le> b \<and> b \<le> 57 then Some (unat b - 48)
               else if 97 \<le> b \<and> b \<le> 122 then Some (unat b - 87)
               else if 65 \<le> b \<and> b \<le> 90 then Some (unat b - 55)
               else None)
      in case v of Some d \<Rightarrow> (if d < base then Some d else None) | None \<Rightarrow> None)"

fun digit_values :: "nat \<Rightarrow> bytes \<Rightarrow> nat list option" where
  "digit_values base [] = Some []"
| "digit_values base (b # bs) =
     (case digit_value base b of
        None \<Rightarrow> None
      | Some d \<Rightarrow> map_option ((#) d) (digit_values base bs))"

text \<open>An unsigned integer of \<open>bits\<close> bits: an optional plus sign, at least one digit, no overflow.\<close>

definition parse_unsigned :: "nat \<Rightarrow> nat \<Rightarrow> bytes \<Rightarrow> nat option" where
  "parse_unsigned base bits s =
     (let ds = (case s of b # bs \<Rightarrow> if b = 43 then bs else s | [] \<Rightarrow> []) in
      if ds = [] then None
      else case digit_values base ds of
        None \<Rightarrow> None
      | Some vs \<Rightarrow> (if digits_value base vs < 2 ^ bits then Some (digits_value base vs) else None))"

definition parse_u64 :: "nat \<Rightarrow> bytes \<Rightarrow> u64 option" where
  "parse_u64 base s = map_option of_nat (parse_unsigned base 64 s)"

text \<open>A signed 32-bit integer in decimal.\<close>

definition parse_i32 :: "bytes \<Rightarrow> i32 option" where
  "parse_i32 s =
     (case s of
        b # bs \<Rightarrow>
          if b = 45
          then (case digit_values 10 bs of
                  Some vs \<Rightarrow> (if bs \<noteq> [] \<and> digits_value 10 vs \<le> 2 ^ 31 then Some (- of_nat (digits_value 10 vs)) else None)
                | None \<Rightarrow> None)
          else map_option of_nat (parse_unsigned 10 31 s)
      | [] \<Rightarrow> None)"

lemma digit_value_char:
  assumes "d < base" and "base \<le> 16"
  shows "digit_value base (of_char (digit_char d)) = Some d"
proof -
  have d: "d < 16" using assms by simp
  have "(of_char (digit_char d) :: u8) = of_nat (of_char (digit_char d))" by (simp only: of_nat_of_char)
  also have "\<dots> = of_nat (if d < 10 then 48 + d else 87 + d)" using of_char_digit [of d] d by (simp only: if_True)
  finally have "unat (of_char (digit_char d) :: u8) = (if d < 10 then 48 + d else 87 + d)"
    using d by (simp only: unat_of_nat) simp
  with assms show ?thesis by (auto simp: digit_value_def Let_def word_le_nat_alt split: if_splits)
qed

lemma digit_values_char:
  "\<forall>d \<in> set ds. d < base \<Longrightarrow> base \<le> 16 \<Longrightarrow> digit_values base (map (\<lambda>d. of_char (digit_char d)) ds) = Some ds"
  by (induction ds) (auto simp: digit_value_char)

lemma not_sign: "d < 16 \<Longrightarrow> (of_char (digit_char d) :: u8) \<noteq> 43"
  using digit_value_char [of d 16] by (auto simp: digit_value_def)

lemma parse_unsigned_digits:
  assumes "2 \<le> base" and "base \<le> 16" and "n < 2 ^ bits"
  shows "parse_unsigned base bits (str_bytes (map digit_char (digits_of base n))) = Some n"
proof -
  have r: "\<forall>d \<in> set (digits_of base n). d < base" using assms(1) by (rule digits_of_range)
  obtain d ds where ds: "digits_of base n = d # ds" by (cases "digits_of base n") auto
  have "(of_char (digit_char d) :: u8) \<noteq> 43" using r ds assms(2) by (intro not_sign) auto
  then have sgn: "(case str_bytes (map digit_char (digits_of base n)) of
       b # bs \<Rightarrow> if b = 43 then bs else str_bytes (map digit_char (digits_of base n)) | [] \<Rightarrow> [])
      = str_bytes (map digit_char (digits_of base n))" by (simp add: ds str_bytes_def)
  have "digit_values base (str_bytes (map digit_char (digits_of base n))) = Some (digits_of base n)"
    using digit_values_char [OF r assms(2)] by (simp add: str_bytes_def comp_def)
  moreover have "str_bytes (map digit_char (digits_of base n)) \<noteq> []" by (simp add: str_bytes_def)
  ultimately show ?thesis using assms(3) by (simp add: parse_unsigned_def sgn digits_value_of Let_def)
qed

lemma parse_hex_shown: "parse_u64 16 (str_bytes (show_hex (unat n))) = Some n"
  using parse_unsigned_digits [of 16 "unat n" 64] unat_less_len [of n] by (simp add: parse_u64_def show_hex_def)

lemma parse_dec_shown: "parse_u64 10 (str_bytes (show_dec (unat n))) = Some n"
  using parse_unsigned_digits [of 10 "unat n" 64] unat_less_len [of n] by (simp add: parse_u64_def show_dec_def)

subsection \<open>Lines and fields\<close>

definition strip_cr :: "bytes \<Rightarrow> bytes" where
  "strip_cr l = (if l \<noteq> [] \<and> last l = 13 then butlast l else l)"

function str_lines :: "bytes \<Rightarrow> bytes list" where
  "str_lines s =
     (case dropWhile (\<lambda>b. b \<noteq> 10) s of
        [] \<Rightarrow> (if s = [] then [] else [s])
      | _ # rest \<Rightarrow> strip_cr (takeWhile (\<lambda>b. b \<noteq> 10) s) # str_lines rest)"
  by auto
termination
proof (relation "measure length")
  fix s x and rest :: bytes assume "dropWhile (\<lambda>b. b \<noteq> 10) s = x # rest"
  then show "(rest, s) \<in> measure length" using length_dropWhile_le [of "\<lambda>b. b \<noteq> 10" s] by simp
qed simp

declare str_lines.simps [simp del]

lemma str_lines_Nil [simp]: "str_lines [] = []" by (simp add: str_lines.simps)

lemma str_lines_Cons:
  assumes "10 \<notin> set l"
  shows "str_lines (l @ 10 # rest) = strip_cr l # str_lines rest"
proof -
  have "dropWhile (\<lambda>b. b \<noteq> 10) (l @ 10 # rest) = 10 # rest" "takeWhile (\<lambda>b. b \<noteq> 10) (l @ 10 # rest) = l"
    using assms by (auto simp: dropWhile_append takeWhile_append)
  then show ?thesis by (subst str_lines.simps) simp
qed

text \<open>The length of the white space character at the front of a string, 0 if there is none.\<close>

definition ws_length :: "bytes \<Rightarrow> nat" where
  "ws_length s = (case List.find (\<lambda>w. take (length w) s = w) WHITE_SPACE of Some w \<Rightarrow> length w | None \<Rightarrow> 0)"

fun split_ws :: "nat \<Rightarrow> bytes \<Rightarrow> bytes \<Rightarrow> bytes list" where
  "split_ws skip word [] = (if word = [] then [] else [word])"
| "split_ws (Suc skip) word (b # bs) = split_ws skip word bs"
| "split_ws 0 word (b # bs) =
     (if ws_length (b # bs) = 0 then split_ws 0 (word @ [b]) bs
      else (if word = [] then [] else [word]) @ split_ws (ws_length (b # bs) - 1) [] bs)"

definition split_whitespace :: "bytes \<Rightarrow> bytes list" where
  "split_whitespace s = split_ws 0 [] s"

definition join_blank :: "bytes list \<Rightarrow> bytes" where
  "join_blank ws = (case ws of [] \<Rightarrow> [] | w # ws' \<Rightarrow> w @ concat (map ((#) 32) ws'))"

text \<open>A word without white space: printable ASCII.\<close>

definition plain :: "bytes \<Rightarrow> bool" where
  "plain w \<longleftrightarrow> w \<noteq> [] \<and> (\<forall>b \<in> set w. 32 < b \<and> b < 128)"

lemma white_space_heads: "list_all (\<lambda>w. w \<noteq> [] \<and> (hd w \<le> 32 \<or> 128 \<le> hd w)) WHITE_SPACE"
  by (simp add: WHITE_SPACE_def)

lemma ws_length_plain:
  assumes "32 < b" and "b < 128"
  shows "ws_length (b # bs) = 0"
proof -
  have "take (length w) (b # bs) \<noteq> w" if "w \<in> set WHITE_SPACE" for w
  proof -
    from that white_space_heads have "w \<noteq> []" "hd w \<le> 32 \<or> 128 \<le> hd w" by (auto simp: list_all_iff)
    with assms show ?thesis by (cases w) auto
  qed
  then show ?thesis by (auto simp: ws_length_def find_None_iff find_Some_iff split: option.splits)
qed

lemma ws_length_blank: "ws_length (32 # bs) = 1"
  by (simp add: ws_length_def WHITE_SPACE_def)

lemma split_ws_word: "\<forall>b \<in> set w. 32 < b \<and> b < 128 \<Longrightarrow> split_ws 0 acc (w @ s) = split_ws 0 (acc @ w) s"
  by (induction w arbitrary: acc) (auto simp: ws_length_plain)

lemma split_ws_blanks: "split_ws 0 [] (replicate n 32 @ s) = split_ws 0 [] s"
  by (induction n) (auto simp: ws_length_blank)

lemma split_whitespace_field:
  assumes "plain w"
  shows "split_whitespace (w @ replicate (Suc n) 32 @ s) = w # split_whitespace s"
  using assms split_ws_word [of w "[]" "replicate (Suc n) 32 @ s"] split_ws_blanks [of n s]
  by (simp add: split_whitespace_def plain_def ws_length_blank)

lemma split_whitespace_last: "plain w \<Longrightarrow> split_whitespace w = [w]"
  using split_ws_word [of w "[]" "[]"] by (simp add: split_whitespace_def plain_def)

lemma split_whitespace_join: "list_all plain ws \<Longrightarrow> split_whitespace (join_blank ws) = ws"
proof (induction ws)
  case (Cons w ws)
  show ?case
  proof (cases ws)
    case (Cons v vs)
    then have "join_blank (w # ws) = w @ replicate (Suc 0) 32 @ join_blank ws" by (simp add: join_blank_def)
    with Cons.IH Cons.prems split_whitespace_field [of w 0] show ?thesis by simp
  qed (use Cons.prems in \<open>simp add: join_blank_def split_whitespace_last\<close>)
qed (simp add: join_blank_def split_whitespace_def)

end
