(* ===== verification/TraceLog.thy ===== *)
theory TraceLog
  imports TraceFormat
begin

text \<open>
  The append-only trace writer (\<open>trace/writer.rs\<close>) and the trace reader (\<open>trace/reader.rs\<close>).
  The CRC32 of the crate \<open>crc32fast\<close> is a parameter of the model. A sink accepts bytes until
  its remaining room is used up and then fails; a source is the list of what its successive
  \<open>read\<close> calls deliver, so that short reads and I/O errors are part of the model.
\<close>

type_synonym crc_fun = "bytes \<Rightarrow> u32"

subsection \<open>Sinks and sources\<close>

record sink =
  sk_bytes :: bytes
  sk_room :: "nat option"

definition write_all :: "bytes \<Rightarrow> (sink, unit, trace_error) st" where
  "write_all bs = (\<lambda>k. case sk_room k of
       None \<Rightarrow> (Ok (), k\<lparr>sk_bytes := sk_bytes k @ bs\<rparr>)
     | Some r \<Rightarrow> (if length bs \<le> r
         then (Ok (), k\<lparr>sk_bytes := sk_bytes k @ bs, sk_room := Some (r - length bs)\<rparr>)
         else (Err (TraceIo StorageFull), k\<lparr>sk_bytes := sk_bytes k @ take r bs, sk_room := Some 0\<rparr>)))"

datatype chunk = Data bytes | IoFail io_error

type_synonym source = "chunk list"

text \<open>One call of \<open>Read::read\<close> with a buffer of \<open>n\<close> bytes; an exhausted source returns 0 bytes.\<close>

fun read_some :: "nat \<Rightarrow> source \<Rightarrow> (bytes, io_error) result \<times> source" where
  "read_some n [] = (Ok [], [])"
| "read_some n (IoFail e # cs) = (Err e, cs)"
| "read_some n (Data bs # cs) =
     (Ok (take n bs), if length bs \<le> n then cs else Data (drop n bs) # cs)"

fun src_size :: "source \<Rightarrow> nat" where
  "src_size [] = 0"
| "src_size (IoFail e # cs) = Suc (src_size cs)"
| "src_size (Data bs # cs) = Suc (length bs + src_size cs)"

lemma read_some_size:
  "read_some n s = (r, s') \<Longrightarrow>
   src_size s' \<le> src_size s \<and> (\<forall>bs. r = Ok bs \<longrightarrow> bs \<noteq> [] \<longrightarrow> src_size s' < src_size s)"
  by (cases "(n, s)" rule: read_some.cases) (auto split: if_splits)

lemma read_some_err_size: "read_some n s = (Err e, s') \<Longrightarrow> src_size s' < src_size s"
  by (cases "(n, s)" rule: read_some.cases) (auto split: if_splits)

text \<open>\<open>Read::read_exact\<close> of the standard library: retries when interrupted, fails at the end of the
  input.\<close>

function read_exact :: "nat \<Rightarrow> source \<Rightarrow> (bytes, io_error) result \<times> source" where
  "read_exact n s = (if n = 0 then (Ok [], s) else
     (case read_some n s of
        (Err e, s') \<Rightarrow> (if e = Interrupted then read_exact n s' else (Err e, s'))
      | (Ok bs, s') \<Rightarrow> (if bs = [] then (Err UnexpectedEof, s')
          else (case read_exact (n - length bs) s' of (r, t) \<Rightarrow> (map_ok ((@) bs) r, t)))))"
  by pat_completeness auto
termination
proof (relation "measure (\<lambda>(n, s). src_size s)", goal_cases)
  case 1
  show ?case by simp
next
  case (2 n s r s' bs)
  then show ?case using read_some_size [of n s r s'] by auto
next
  case (3 n s r s' e)
  then show ?case using read_some_err_size [of n s e s'] by auto
qed

declare read_exact.simps [simp del]

datatype read_outcome = Full | Partial | Eof

text \<open>
  \<open>read_exact_or_eof\<close>: \<open>filled\<close> counts the bytes already in the buffer of length \<open>len\<close>; the bytes
  read are returned beside the outcome.
\<close>

function read_exact_or_eof ::
  "nat \<Rightarrow> nat \<Rightarrow> source \<Rightarrow> (read_outcome \<times> bytes, trace_error) result \<times> source" where
  "read_exact_or_eof filled len s = (if filled < len then
     (case read_some (len - filled) s of
        (Err e, s') \<Rightarrow> (Err (TraceIo e), s')
      | (Ok bs, s') \<Rightarrow>
          (if bs = [] then (Ok (if filled = 0 then Eof else Partial, []), s')
           else (case read_exact_or_eof (filled + length bs) len s' of
                   (r, t) \<Rightarrow> (map_ok (\<lambda>(out, rest). (out, bs @ rest)) r, t))))
     else (Ok (Full, []), s))"
  by pat_completeness auto
termination
proof (relation "measure (\<lambda>(filled, len, s). src_size s)", goal_cases)
  case 1
  show ?case by simp
next
  case (2 filled len s r s' bs)
  then show ?case using read_some_size [of "len - filled" s r s'] by auto
qed

declare read_exact_or_eof.simps [simp del]

text \<open>The bytes of a source that never fails, and that it delivers at least one byte per read.\<close>

fun source_bytes :: "source \<Rightarrow> bytes" where
  "source_bytes [] = []"
| "source_bytes (Data bs # cs) = bs @ source_bytes cs"
| "source_bytes (IoFail e # cs) = []"

fun clean_source :: "source \<Rightarrow> bool" where
  "clean_source [] = True"
| "clean_source (Data bs # cs) = (bs \<noteq> [] \<and> clean_source cs)"
| "clean_source (IoFail e # cs) = False"

lemma read_some_clean:
  assumes "clean_source s" and "0 < n"
  shows "\<exists>bs s'. read_some n s = (Ok bs, s') \<and> clean_source s' \<and> length bs \<le> n
    \<and> source_bytes s = bs @ source_bytes s' \<and> (bs = [] \<longrightarrow> source_bytes s = [])"
  using assms by (cases "(n, s)" rule: read_some.cases) (auto split: if_splits)

lemma read_exact_clean:
  assumes "clean_source s" and "n \<le> length (source_bytes s)"
  shows "\<exists>s'. read_exact n s = (Ok (take n (source_bytes s)), s') \<and> clean_source s'
    \<and> source_bytes s' = drop n (source_bytes s)"
  using assms
proof (induction n s rule: read_exact.induct)
  case (1 n s)
  show ?case
  proof (cases "n = 0")
    case True
    with "1.prems" show ?thesis by (simp add: read_exact.simps)
  next
    case False
    then obtain bs s' where r: "read_some n s = (Ok bs, s')" "clean_source s'"
      "length bs \<le> n" "source_bytes s = bs @ source_bytes s'" "bs = [] \<longrightarrow> source_bytes s = []"
      using read_some_clean [OF "1.prems"(1), of n] by blast
    with False "1.prems" have ne: "bs \<noteq> []" by auto
    with r "1.prems" have "n - length bs \<le> length (source_bytes s')" by simp
    with "1.IH"(1) [OF False r(1) [symmetric] refl ne] r(2)
    obtain t where "read_exact (n - length bs) s' = (Ok (take (n - length bs) (source_bytes s')), t)"
      "clean_source t" "source_bytes t = drop (n - length bs) (source_bytes s')"
      by auto
    with False r ne show ?thesis by (subst read_exact.simps) simp
  qed
qed

lemma read_exact_clean_short:
  assumes "clean_source s" and "length (source_bytes s) < n"
  shows "\<exists>s'. read_exact n s = (Err UnexpectedEof, s')"
  using assms
proof (induction n s rule: read_exact.induct)
  case (1 n s)
  then have n: "n \<noteq> 0" by simp
  then obtain bs s' where r: "read_some n s = (Ok bs, s')" "clean_source s'"
    "length bs \<le> n" "source_bytes s = bs @ source_bytes s'"
    using read_some_clean [OF "1.prems"(1), of n] by blast
  show ?case
  proof (cases "bs = []")
    case True
    with n r show ?thesis by (subst read_exact.simps) simp
  next
    case False
    from r "1.prems" False have "length (source_bytes s') < n - length bs" by simp
    with "1.IH"(1) [OF n r(1) [symmetric] refl False] r(2)
    obtain t where "read_exact (n - length bs) s' = (Err UnexpectedEof, t)" by auto
    with n r False show ?thesis by (subst read_exact.simps) simp
  qed
qed

lemma read_exact_or_eof_clean:
  assumes "clean_source s" and "filled \<le> len"
  shows "\<exists>s'. read_exact_or_eof filled len s =
      (Ok (if len - filled \<le> length (source_bytes s) then Full
           else if filled = 0 \<and> source_bytes s = [] then Eof else Partial,
         take (len - filled) (source_bytes s)), s')
    \<and> clean_source s' \<and> source_bytes s' = drop (len - filled) (source_bytes s)"
  using assms
proof (induction filled len s rule: read_exact_or_eof.induct)
  case (1 filled len s)
  show ?case
  proof (cases "filled < len")
    case False
    with "1.prems" show ?thesis by (simp add: read_exact_or_eof.simps)
  next
    case True
    then obtain bs s' where r: "read_some (len - filled) s = (Ok bs, s')"
      "clean_source s'" "length bs \<le> len - filled" "source_bytes s = bs @ source_bytes s'"
      "bs = [] \<longrightarrow> source_bytes s = []"
      using read_some_clean [OF "1.prems"(1), of "len - filled"] by auto
    show ?thesis
    proof (cases "bs = []")
      case True
      with \<open>filled < len\<close> r show ?thesis by (subst read_exact_or_eof.simps) simp
    next
      case False
      from r(3) \<open>filled < len\<close> have "filled + length bs \<le> len" by simp
      with "1.IH" [OF True r(1) [symmetric] refl False] r(2)
      obtain t where "read_exact_or_eof (filled + length bs) len s' =
          (Ok (if len - (filled + length bs) \<le> length (source_bytes s') then Full
               else if filled + length bs = 0 \<and> source_bytes s' = [] then Eof else Partial,
             take (len - (filled + length bs)) (source_bytes s')), t)"
        "clean_source t" "source_bytes t = drop (len - (filled + length bs)) (source_bytes s')"
        by auto
      with True False r show ?thesis
        by (subst read_exact_or_eof.simps) auto
    qed
  qed
qed

lemma read_exact_size: "read_exact n s = (r, s') \<Longrightarrow> src_size s' \<le> src_size s"
proof (induction n s arbitrary: r s' rule: read_exact.induct)
  case (1 n s)
  show ?case
  proof (cases "n = 0")
    case True
    with "1.prems" show ?thesis by (simp add: read_exact.simps)
  next
    case False
    obtain q t where q: "read_some n s = (q, t)" by force
    note le = read_some_size [OF q]
    show ?thesis
    proof (cases q)
      case (Err e)
      with False q "1.prems" "1.IH"(2) [OF False q [symmetric] Err, of r s'] le show ?thesis
        by (subst (asm) read_exact.simps) (auto split: if_splits)
    next
      case (Ok bs)
      obtain r' u where u: "read_exact (n - length bs) t = (r', u)" by force
      from False q Ok u "1.prems" "1.IH"(1) [OF False q [symmetric] Ok _ u] le show ?thesis
        by (subst (asm) read_exact.simps) (auto split: if_splits)
    qed
  qed
qed

lemma read_exact_or_eof_size:
  "read_exact_or_eof filled len s = (r, s') \<Longrightarrow> src_size s' \<le> src_size s"
proof (induction filled len s arbitrary: r s' rule: read_exact_or_eof.induct)
  case (1 filled len s)
  show ?case
  proof (cases "filled < len")
    case False
    with "1.prems" show ?thesis by (simp add: read_exact_or_eof.simps)
  next
    case True
    obtain q t where q: "read_some (len - filled) s = (q, t)" by force
    note le = read_some_size [OF q]
    show ?thesis
    proof (cases q)
      case (Err e)
      with True q "1.prems" le show ?thesis by (subst (asm) read_exact_or_eof.simps) auto
    next
      case (Ok bs)
      obtain r' u where u: "read_exact_or_eof (filled + length bs) len t = (r', u)" by force
      from True q Ok u "1.prems" "1.IH" [OF True q [symmetric] Ok _ u] le show ?thesis
        by (subst (asm) read_exact_or_eof.simps) (auto split: if_splits)
    qed
  qed
qed

lemma read_exact_or_eof_progress:
  assumes "read_exact_or_eof 0 len s = (Ok (Full, bs), s')" and "0 < len"
  shows "src_size s' < src_size s"
proof -
  obtain q t where q: "read_some len s = (q, t)" by force
  with assms obtain cs where cs: "q = Ok cs" "cs \<noteq> []"
    by (subst (asm) read_exact_or_eof.simps) (auto split: result.splits if_splits)
  obtain r u where u: "read_exact_or_eof (length cs) len t = (r, u)" by force
  from assms q cs u have "s' = u"
    by (subst (asm) read_exact_or_eof.simps) auto
  with read_exact_or_eof_size [OF u] read_some_size [OF q] cs show ?thesis by auto
qed

subsection \<open>The writer\<close>

record trace_writer =
  wr_inner :: sink
  wr_next_seq :: u64

definition write_header :: "sink \<Rightarrow> bytes \<Rightarrow> (trace_writer, trace_error) result" where
  "write_header inner cmd =
     (let header_len = BASE_HEADER_LEN + length cmd in
      case st_bind (write_all MAGIC) (\<lambda>_.
           st_bind (write_all (le_u16 FORMAT_VERSION)) (\<lambda>_.
           st_bind (write_all (le_u16 (of_nat header_len))) (\<lambda>_.
           write_all cmd))) inner of
        (Ok _, k) \<Rightarrow> Ok \<lparr>wr_inner = k, wr_next_seq = 0\<rparr>
      | (Err e, _) \<Rightarrow> Err e)"

definition writer_create :: "sink \<Rightarrow> (trace_writer, trace_error) result" where
  "writer_create inner = write_header inner []"

definition create_with_cmdline ::
  "sink \<Rightarrow> bytes \<Rightarrow> bytes list \<Rightarrow> (trace_writer, trace_error) result" where
  "create_with_cmdline inner prog args = write_header inner (encode_cmdline prog args)"

definition append_event :: "crc_fun \<Rightarrow> event \<Rightarrow> (trace_writer, u64, trace_error) st" where
  "append_event crc e = (\<lambda>w.
     let seq = wr_next_seq w; body = encode_body seq e; c = crc body in
     case st_bind (write_all (le_u32 (of_nat (length body)))) (\<lambda>_.
          st_bind (write_all body) (\<lambda>_.
          write_all (le_u32 c))) (wr_inner w) of
       (Ok _, k) \<Rightarrow> (Ok seq, w\<lparr>wr_inner := k, wr_next_seq := seq + 1\<rparr>)
     | (Err err, k) \<Rightarrow> (Err err, w\<lparr>wr_inner := k\<rparr>))"

definition into_inner :: "trace_writer \<Rightarrow> sink" where
  "into_inner w = wr_inner w"

fun append_all :: "crc_fun \<Rightarrow> event list \<Rightarrow> (trace_writer, u64 list, trace_error) st" where
  "append_all crc [] = st_return []"
| "append_all crc (e # es) =
     st_bind (append_event crc e) (\<lambda>seq.
     st_bind (append_all crc es) (\<lambda>seqs. st_return (seq # seqs)))"

text \<open>The bytes of one framed record, and of a run of records with consecutive numbers.\<close>

definition frame :: "crc_fun \<Rightarrow> u64 \<Rightarrow> event \<Rightarrow> bytes" where
  "frame crc seq e =
     (let body = encode_body seq e in le_u32 (of_nat (length body)) @ body @ le_u32 (crc body))"

fun frames :: "crc_fun \<Rightarrow> u64 \<Rightarrow> event list \<Rightarrow> bytes" where
  "frames crc seq [] = []"
| "frames crc seq (e # es) = frame crc seq e @ frames crc (seq + 1) es"

definition header_bytes :: "bytes \<Rightarrow> bytes" where
  "header_bytes cmd = MAGIC @ le_u16 FORMAT_VERSION @ le_u16 (of_nat (BASE_HEADER_LEN + length cmd))
     @ cmd"

lemma write_all_unbounded:
  "sk_room k = None \<Longrightarrow> write_all bs k = (Ok (), k\<lparr>sk_bytes := sk_bytes k @ bs\<rparr>)"
  by (simp add: write_all_def)

lemma write_header_unbounded:
  assumes "sk_room k = None"
  shows "write_header k cmd = Ok \<lparr>wr_inner = k\<lparr>sk_bytes := sk_bytes k @ header_bytes cmd\<rparr>,
    wr_next_seq = 0\<rparr>"
  using assms by (simp add: write_header_def st_bind_def write_all_unbounded header_bytes_def)

lemma append_event_unbounded:
  assumes "sk_room (wr_inner w) = None"
  shows "append_event crc e w = (Ok (wr_next_seq w),
    w\<lparr>wr_inner := wr_inner w\<lparr>sk_bytes := sk_bytes (wr_inner w) @ frame crc (wr_next_seq w) e\<rparr>,
      wr_next_seq := wr_next_seq w + 1\<rparr>)"
  using assms by (simp add: append_event_def st_bind_def write_all_unbounded frame_def Let_def)

fun seqs_from :: "u64 \<Rightarrow> nat \<Rightarrow> u64 list" where
  "seqs_from seq 0 = []"
| "seqs_from seq (Suc n) = seq # seqs_from (seq + 1) n"

lemma append_all_unbounded:
  assumes "sk_room (wr_inner w) = None"
  shows "append_all crc es w = (Ok (seqs_from (wr_next_seq w) (length es)),
    w\<lparr>wr_inner := wr_inner w\<lparr>sk_bytes := sk_bytes (wr_inner w) @ frames crc (wr_next_seq w) es\<rparr>,
      wr_next_seq := wr_next_seq w + of_nat (length es)\<rparr>)"
  using assms
proof (induction es arbitrary: w)
  case Nil
  then show ?case by (simp add: st_return_def)
next
  case (Cons e es)
  then show ?case
    by (simp add: st_bind_def st_return_def append_event_unbounded add.assoc add.commute)
qed

text \<open>An append that fails leaves the sequence counter where it was.\<close>

lemma append_event_error_seq:
  "append_event crc e w = (Err err, w') \<Longrightarrow> wr_next_seq w' = wr_next_seq w"
  by (auto simp: append_event_def Let_def split: prod.splits result.splits)

subsection \<open>The reader\<close>

record trace_reader =
  rd_inner :: source
  rd_version :: u16
  rd_cmdline :: "cmdline option"
  rd_last_seq :: "u64 option"
  rd_poisoned :: bool

definition reader_open :: "source \<Rightarrow> (trace_reader, trace_error) result" where
  "reader_open inner =
     (case read_exact BASE_HEADER_LEN inner of
        (Err _, _) \<Rightarrow> Err BadMagic
      | (Ok base, s) \<Rightarrow>
          (if take 8 base \<noteq> MAGIC then Err BadMagic else
           let version = from_le [base ! 8, base ! 9] in
           if version > FORMAT_VERSION then Err (UnsupportedVersion version FORMAT_VERSION) else
           let header_len = unat (from_le [base ! 10, base ! 11] :: u16);
               extra = header_len - BASE_HEADER_LEN in
           case read_exact extra s of
             (Err _, _) \<Rightarrow> Err Truncated
           | (Ok extra_buf, s') \<Rightarrow>
               and_then (if version \<ge> CMDLINE_MIN_VERSION \<and> extra_buf \<noteq> []
                         then map_ok Some (decode_cmdline extra_buf) else Ok None) (\<lambda>cmd.
               Ok \<lparr>rd_inner = s', rd_version = version, rd_cmdline = cmd, rd_last_seq = None,
                   rd_poisoned = False\<rparr>)))"

definition check_monotonic :: "u64 \<Rightarrow> (trace_reader, unit, trace_error) st" where
  "check_monotonic seq = (\<lambda>r. case rd_last_seq r of
       Some previous \<Rightarrow>
         (if seq \<le> previous then (Err (NonMonotonicSequence seq previous), r)
          else (Ok (), r\<lparr>rd_last_seq := Some seq\<rparr>))
     | None \<Rightarrow> (Ok (), r\<lparr>rd_last_seq := Some seq\<rparr>))"

text \<open>The tail of \<open>read_record\<close>, from the declared body length on.\<close>

definition read_body ::
  "crc_fun \<Rightarrow> nat \<Rightarrow> (trace_reader, trace_record option, trace_error) st" where
  "read_body crc body_len = (\<lambda>r.
     if body_len < min_body_len (rd_version r) then (Err Truncated, r)
     else if body_len > MAX_BODY_LEN then (Err (BodyTooLarge body_len MAX_BODY_LEN), r)
     else case read_exact body_len (rd_inner r) of
       (Err _, s) \<Rightarrow> (Err Truncated, r\<lparr>rd_inner := s\<rparr>)
     | (Ok body, s) \<Rightarrow>
         (case read_exact 4 s of
            (Err _, s') \<Rightarrow> (Err Truncated, r\<lparr>rd_inner := s'\<rparr>)
          | (Ok crc_buf, s') \<Rightarrow>
              (case decode_body (rd_version r) body of
                 Err e \<Rightarrow> (Err e, r\<lparr>rd_inner := s'\<rparr>)
               | Ok rcd \<Rightarrow>
                   (if crc body \<noteq> from_le crc_buf
                    then (Err (ChecksumMismatch (rec_seq rcd)), r\<lparr>rd_inner := s'\<rparr>)
                    else st_bind (check_monotonic (rec_seq rcd)) (\<lambda>_. st_return (Some rcd))
                           (r\<lparr>rd_inner := s'\<rparr>)))))"

definition read_record ::
  "crc_fun \<Rightarrow> (trace_reader, trace_record option, trace_error) st" where
  "read_record crc = (\<lambda>r.
     case read_exact_or_eof 0 4 (rd_inner r) of
       (Err e, s) \<Rightarrow> (Err e, r\<lparr>rd_inner := s\<rparr>)
     | (Ok (Eof, _), s) \<Rightarrow> (Ok None, r\<lparr>rd_inner := s\<rparr>)
     | (Ok (Partial, _), s) \<Rightarrow> (Err Truncated, r\<lparr>rd_inner := s\<rparr>)
     | (Ok (Full, len_buf), s) \<Rightarrow>
         read_body crc (unat (from_le len_buf :: u32)) (r\<lparr>rd_inner := s\<rparr>))"

definition reader_next ::
  "crc_fun \<Rightarrow> trace_reader \<Rightarrow> (trace_record, trace_error) result option \<times> trace_reader" where
  "reader_next crc r = (if rd_poisoned r then (None, r) else
     case read_record crc r of
       (Ok (Some rcd), r') \<Rightarrow> (Some (Ok rcd), r')
     | (Ok None, r') \<Rightarrow> (None, r')
     | (Err e, r') \<Rightarrow> (Some (Err e), r'\<lparr>rd_poisoned := True\<rparr>))"

lemma check_monotonic_inner: "check_monotonic seq r = (q, r') \<Longrightarrow> rd_inner r' = rd_inner r"
  by (auto simp: check_monotonic_def split: option.splits if_splits)

lemma read_body_size: "read_body crc n r = (q, r') \<Longrightarrow> src_size (rd_inner r') \<le> src_size (rd_inner r)"
  by (fastforce simp: read_body_def st_bind_def st_return_def check_monotonic_def
      split: if_splits prod.splits result.splits option.splits dest: read_exact_size)

lemma read_record_progress:
  assumes "read_record crc r = (Ok (Some rcd), r')"
  shows "src_size (rd_inner r') < src_size (rd_inner r)"
proof -
  obtain q s where q: "read_exact_or_eof 0 4 (rd_inner r) = (q, s)" by force
  with assms obtain bs where bs: "q = Ok (Full, bs)"
    and b: "read_body crc (unat (from_le bs :: u32)) (r\<lparr>rd_inner := s\<rparr>) = (Ok (Some rcd), r')"
    by (auto simp: read_record_def split: result.splits prod.splits read_outcome.splits)
  have "src_size s < src_size (rd_inner r)"
    using read_exact_or_eof_progress q bs by simp
  with read_body_size [OF b] show ?thesis by simp
qed

lemma reader_next_progress:
  assumes "reader_next crc r = (Some item, r')"
  shows "\<not> rd_poisoned r \<and> (rd_poisoned r' \<or> src_size (rd_inner r') < src_size (rd_inner r))"
  using assms
  by (auto simp: reader_next_def split: if_splits prod.splits result.splits option.splits
      dest: read_record_progress)

text \<open>Draining the iterator (\<open>reader.collect()\<close>): it ends because every record consumes input and an
  error poisons the reader.\<close>

function read_all :: "crc_fun \<Rightarrow> trace_reader \<Rightarrow> (trace_record, trace_error) result list" where
  "read_all crc r = (case reader_next crc r of
       (None, _) \<Rightarrow> []
     | (Some item, r') \<Rightarrow> item # read_all crc r')"
  by pat_completeness auto
termination
proof (relation "measures [\<lambda>(crc, r). if rd_poisoned r then 0 else 1,
    \<lambda>(crc, r). src_size (rd_inner r)]", goal_cases)
  case 1
  show ?case by simp
next
  case (2 crc r q r' item)
  then show ?case using reader_next_progress [of crc r item r'] by auto
qed

declare read_all.simps [simp del]

lemma read_some_length: "read_some n s = (Ok bs, s') \<Longrightarrow> length bs \<le> n"
  by (cases "(n, s)" rule: read_some.cases) auto

lemma read_exact_length: "read_exact n s = (Ok bs, s') \<Longrightarrow> length bs = n"
proof (induction n s arbitrary: bs s' rule: read_exact.induct)
  case (1 n s)
  show ?case
  proof (cases "n = 0")
    case True
    with "1.prems" show ?thesis by (simp add: read_exact.simps)
  next
    case False
    obtain q t where q: "read_some n s = (q, t)" by force
    show ?thesis
    proof (cases q)
      case (Err e)
      with False q "1.prems" "1.IH"(2) [OF False q [symmetric] Err, of bs s'] show ?thesis
        by (subst (asm) read_exact.simps) (auto split: if_splits)
    next
      case (Ok cs)
      have "length cs \<le> n" using q Ok by (auto dest: read_some_length)
      moreover obtain r' u where u: "read_exact (n - length cs) t = (r', u)" by force
      moreover from False q Ok u "1.prems" obtain ds where "cs \<noteq> []" "r' = Ok ds" "bs = cs @ ds"
        by (subst (asm) read_exact.simps) (auto split: if_splits simp: map_ok_eq_Ok)
      ultimately show ?thesis using "1.IH"(1) [OF False q [symmetric] Ok, of ds u] by simp
    qed
  qed
qed

lemma read_exact_or_eof_err: "read_exact_or_eof filled len s = (Err e, s') \<Longrightarrow> \<exists>i. e = TraceIo i"
proof (induction filled len s arbitrary: s' rule: read_exact_or_eof.induct)
  case (1 filled len s)
  obtain q t where q: "read_some (len - filled) s = (q, t)" by force
  show ?case
  proof (cases "filled < len")
    case False
    with "1.prems" show ?thesis by (simp add: read_exact_or_eof.simps)
  next
    case True
    with q "1.prems" "1.IH" [OF True q [symmetric]] show ?thesis
      by (subst (asm) read_exact_or_eof.simps) (auto split: if_splits prod.splits result.splits)
  qed
qed

lemma read_body_no_panic:
  assumes "read_body crc n r = (Err e, r')"
  shows "e \<noteq> DecodePanic"
proof -
  obtain q s where q: "read_exact n (rd_inner r) = (q, s)" by force
  obtain c t where c: "read_exact 4 s = (c, t)" by force
  consider "n < min_body_len (rd_version r)" | "n > MAX_BODY_LEN"
    | x where "q = Err x" | x where "c = Err x"
    | (full) bs cs where "q = Ok bs" "c = Ok cs"
        "\<not> n < min_body_len (rd_version r)" "\<not> n > MAX_BODY_LEN"
    by (cases q; cases c) auto
  then show ?thesis
  proof cases
    case full
    with q read_exact_length have "length bs = n" by blast
    with full obtain rcd where "decode_body (rd_version r) bs = Ok rcd"
      using decode_body_total [of "rd_version r" bs] by auto
    with assms q c full show ?thesis
      by (auto simp: read_body_def st_bind_def st_return_def check_monotonic_def
          split: if_splits option.splits)
  qed (use assms q c in \<open>auto simp: read_body_def split: if_splits result.splits\<close>)
qed

lemma read_record_no_panic:
  assumes "read_record crc r = (Err e, r')"
  shows "e \<noteq> DecodePanic"
  using assms read_exact_or_eof_err [of 0 4 "rd_inner r"]
  by (auto simp: read_record_def split: prod.splits result.splits read_outcome.splits
      dest: read_body_no_panic)

subsection \<open>Reading what was written\<close>

text \<open>One framed body on the wire, whoever wrote it: the reader's verdict in closed form.\<close>

lemma read_record_framed:
  assumes "clean_source (rd_inner r)"
    and "source_bytes (rd_inner r) = le_u32 (of_nat (length body)) @ body @ cb @ rest"
    and "length cb = 4" and "min_body_len (rd_version r) \<le> length body"
    and "length body \<le> MAX_BODY_LEN"
  shows "\<exists>s rcd. clean_source s \<and> source_bytes s = rest \<and> decode_body (rd_version r) body = Ok rcd
    \<and> read_record crc r = (if crc body \<noteq> from_le cb
        then (Err (ChecksumMismatch (rec_seq rcd)), r\<lparr>rd_inner := s\<rparr>)
        else st_bind (check_monotonic (rec_seq rcd)) (\<lambda>_. st_return (Some rcd)) (r\<lparr>rd_inner := s\<rparr>))"
proof -
  obtain s1 where s1: "read_exact_or_eof 0 4 (rd_inner r) = (Ok (Full, le_u32 (of_nat (length body))), s1)"
    "clean_source s1" "source_bytes s1 = body @ cb @ rest"
    using read_exact_or_eof_clean [OF assms(1), of 0 4] assms(2) by auto
  obtain s2 where s2: "read_exact (length body) s1 = (Ok body, s2)"
    "clean_source s2" "source_bytes s2 = cb @ rest"
    using read_exact_clean [OF s1(2), of "length body"] s1(3) by auto
  obtain s3 where s3: "read_exact 4 s2 = (Ok cb, s3)" "clean_source s3" "source_bytes s3 = rest"
    using read_exact_clean [OF s2(2), of 4] s2(3) assms(3) by auto
  obtain rcd where d: "decode_body (rd_version r) body = Ok rcd"
    using decode_body_total [OF assms(4)] by blast
  have "unat (of_nat (length body) :: u32) = length body"
    using assms(5) by (intro unat_of_nat_len) (simp add: format_consts)
  then have "read_record crc r = (if crc body \<noteq> from_le cb
        then (Err (ChecksumMismatch (rec_seq rcd)), r\<lparr>rd_inner := s3\<rparr>)
        else st_bind (check_monotonic (rec_seq rcd)) (\<lambda>_. st_return (Some rcd)) (r\<lparr>rd_inner := s3\<rparr>))"
    using s1(1) s2(1) s3(1) d assms(4,5) by (simp add: read_record_def read_body_def)
  with s3 d show ?thesis by blast
qed

text \<open>An event whose record the reader accepts again.\<close>

definition event_fits :: "event \<Rightarrow> bool" where
  "event_fits e \<longleftrightarrow> kind_wf (ev_kind e) \<and> BODY_PREFIX_LEN_V3 + length (ev_payload e) \<le> MAX_BODY_LEN"

definition seq_after :: "u64 option \<Rightarrow> u64 \<Rightarrow> bool" where
  "seq_after prev seq = (case prev of None \<Rightarrow> True | Some p \<Rightarrow> p < seq)"

lemma check_monotonic_after:
  "check_monotonic seq r = (if seq_after (rd_last_seq r) seq
     then (Ok (), r\<lparr>rd_last_seq := Some seq\<rparr>)
     else (Err (NonMonotonicSequence seq (the (rd_last_seq r))), r))"
  by (auto simp: check_monotonic_def seq_after_def split: option.splits)

lemma read_record_frame:
  assumes "clean_source (rd_inner r)" and "source_bytes (rd_inner r) = frame crc seq e @ rest"
    and "event_fits e" and "rd_version r = FORMAT_VERSION" and "seq_after (rd_last_seq r) seq"
  shows "\<exists>s. clean_source s \<and> source_bytes s = rest \<and> read_record crc r =
    (Ok (Some \<lparr>rec_seq = seq, rec_event = event_norm e\<rparr>), r\<lparr>rd_inner := s, rd_last_seq := Some seq\<rparr>)"
proof -
  let ?b = "encode_body seq e"
  have "min_body_len (rd_version r) \<le> length ?b" "length ?b \<le> MAX_BODY_LEN"
    using assms(3,4) by (auto simp: event_fits_def min_body_len_def format_consts)
  from read_record_framed [OF assms(1) _ _ this, of "le_u32 (crc ?b)" rest crc] assms
  show ?thesis
    by (auto simp: frame_def Let_def decode_encode_body event_fits_def check_monotonic_after
        st_bind_def st_return_def)
qed

lemma length_frame [simp]: "length (frame crc seq e) = 30 + length (ev_payload e)"
  by (simp add: frame_def Let_def)

text \<open>A frame that stops short of its end is reported as a truncation, never as a record.\<close>

lemma read_record_cut:
  assumes "clean_source (rd_inner r)" and "source_bytes (rd_inner r) = take k (frame crc seq e)"
    and "0 < k" and "k < length (frame crc seq e)"
    and "event_fits e" and "rd_version r = FORMAT_VERSION"
  shows "\<exists>s. read_record crc r = (Err Truncated, r\<lparr>rd_inner := s\<rparr>)"
proof -
  let ?b = "encode_body seq e" and ?in = "source_bytes (rd_inner r)"
  have len: "length ?in = k" using assms(2,4) by simp
  obtain s1 where s1: "read_exact_or_eof 0 4 (rd_inner r) = (Ok (if 4 \<le> k then Full
      else if k = 0 then Eof else Partial, take 4 ?in), s1)"
    "clean_source s1" "source_bytes s1 = drop 4 ?in"
    using read_exact_or_eof_clean [OF assms(1), of 0 4] len by auto
  show ?thesis
  proof (cases "4 \<le> k")
    case False
    with s1 assms(3) show ?thesis by (auto simp: read_record_def)
  next
    case True
    have "take 4 ?in = le_u32 (of_nat (length ?b))"
      using True assms(2) by (simp add: frame_def Let_def)
    moreover have fits: "length ?b < 2 ^ 32" "min_body_len (rd_version r) \<le> length ?b"
      "length ?b \<le> MAX_BODY_LEN"
      using assms(5,6) by (auto simp: event_fits_def min_body_len_def format_consts)
    then have "unat (of_nat (length ?b) :: u32) = length ?b" by (intro unat_of_nat_len) simp
    ultimately have rr: "read_record crc r = read_body crc (length ?b) (r\<lparr>rd_inner := s1\<rparr>)"
      using True s1(1) by (simp add: read_record_def)
    show ?thesis
    proof (cases "length ?b \<le> k - 4")
      case False
      then obtain s2 where "read_exact (length ?b) s1 = (Err UnexpectedEof, s2)"
        using read_exact_clean_short [OF s1(2), of "length ?b"] s1(3) len by auto
      with rr fits show ?thesis by (auto simp: read_body_def)
    next
      case bk: True
      then obtain s2 where s2: "read_exact (length ?b) s1 = (Ok (take (length ?b) (source_bytes s1)), s2)"
        "clean_source s2" "source_bytes s2 = drop (length ?b) (source_bytes s1)"
        using read_exact_clean [OF s1(2), of "length ?b"] s1(3) len by auto
      have "length (source_bytes s2) < 4" using s2(3) s1(3) len assms(4) by simp
      then obtain s3 where "read_exact 4 s2 = (Err UnexpectedEof, s3)"
        using read_exact_clean_short [OF s2(2)] by blast
      with rr fits s2 show ?thesis by (auto simp: read_body_def)
    qed
  qed
qed

lemma read_record_eof:
  assumes "clean_source (rd_inner r)" and "source_bytes (rd_inner r) = []"
  shows "\<exists>s. read_record crc r = (Ok None, r\<lparr>rd_inner := s\<rparr>)"
  using read_exact_or_eof_clean [OF assms(1), of 0 4] assms(2) by (auto simp: read_record_def)

text \<open>The records a run of events becomes.\<close>

fun records_from :: "u64 \<Rightarrow> event list \<Rightarrow> trace_record list" where
  "records_from seq [] = []"
| "records_from seq (e # es) = \<lparr>rec_seq = seq, rec_event = event_norm e\<rparr> # records_from (seq + 1) es"

lemma length_records_from [simp]: "length (records_from seq es) = length es"
  by (induction es arbitrary: seq) auto

lemma map_seq_records_from: "map rec_seq (records_from seq es) = seqs_from seq (length es)"
  by (induction es arbitrary: seq) auto

lemma map_event_records_from: "map rec_event (records_from seq es) = map event_norm es"
  by (induction es arbitrary: seq) auto

text \<open>A reader positioned between records of a trace that the current writer produced.\<close>

definition reader_at :: "trace_reader \<Rightarrow> u64 \<Rightarrow> bool" where
  "reader_at r seq \<longleftrightarrow> clean_source (rd_inner r) \<and> rd_version r = FORMAT_VERSION
     \<and> \<not> rd_poisoned r \<and> seq_after (rd_last_seq r) seq"

lemma seq_after_next: "unat seq + 1 < 2 ^ 64 \<Longrightarrow> seq_after (Some seq) (seq + 1)"
  by (simp add: seq_after_def word_less_nat_alt unat_word_ariths)

lemma reader_next_frame:
  assumes "reader_at r seq" and "source_bytes (rd_inner r) = frame crc seq e @ rest"
    and "event_fits e"
  shows "\<exists>r'. reader_next crc r = (Some (Ok \<lparr>rec_seq = seq, rec_event = event_norm e\<rparr>), r')
    \<and> (unat seq + 1 < 2 ^ 64 \<longrightarrow> reader_at r' (seq + 1)) \<and> clean_source (rd_inner r')
    \<and> rd_version r' = FORMAT_VERSION \<and> \<not> rd_poisoned r' \<and> source_bytes (rd_inner r') = rest"
  using assms read_record_frame [of r crc seq e rest] seq_after_next [of seq]
  by (auto simp: reader_at_def reader_next_def)

lemma read_all_cut:
  assumes "clean_source (rd_inner r)" and "rd_version r = FORMAT_VERSION" and "\<not> rd_poisoned r"
    and "es \<noteq> [] \<longrightarrow> seq_after (rd_last_seq r) seq"
    and "source_bytes (rd_inner r) = take k (frames crc seq es)"
    and "\<forall>e \<in> set es. event_fits e" and "unat seq + length es \<le> 2 ^ 64"
  shows "\<exists>m \<le> length es. length (frames crc seq (take m es)) \<le> k
    \<and> (m < length es \<longrightarrow> k < length (frames crc seq (take (Suc m) es)))
    \<and> read_all crc r = map Ok (records_from seq (take m es))
        @ (if m = length es \<or> k = length (frames crc seq (take m es)) then [] else [Err Truncated])"
  using assms
proof (induction es arbitrary: r seq k)
  case Nil
  then obtain s where "read_record crc r = (Ok None, r\<lparr>rd_inner := s\<rparr>)"
    using read_record_eof [of r crc] by auto
  with Nil.prems(3) show ?case by (simp add: read_all.simps reader_next_def)
next
  case (Cons e es)
  let ?f = "frame crc seq e"
  show ?case
  proof (cases "length ?f \<le> k")
    case True
    then have "source_bytes (rd_inner r) = ?f @ take (k - length ?f) (frames crc (seq + 1) es)"
      using Cons.prems(5) by simp
    moreover have "reader_at r seq" using Cons.prems by (simp add: reader_at_def)
    ultimately obtain r' where r': "reader_next crc r =
        (Some (Ok \<lparr>rec_seq = seq, rec_event = event_norm e\<rparr>), r')"
      "unat seq + 1 < 2 ^ 64 \<longrightarrow> reader_at r' (seq + 1)" "clean_source (rd_inner r')"
      "rd_version r' = FORMAT_VERSION" "\<not> rd_poisoned r'"
      "source_bytes (rd_inner r') = take (k - length ?f) (frames crc (seq + 1) es)"
      using reader_next_frame [of r seq crc e] Cons.prems(6) by auto
    have one: "unat (seq + 1) + length es \<le> 2 ^ 64"
      using Cons.prems(7) by (cases "unat seq + 1 < 2 ^ 64") (auto simp: unat_word_ariths)
    have "es \<noteq> [] \<longrightarrow> unat seq + 1 < 2 ^ 64" using Cons.prems(7) by (cases es) auto
    with r'(2) have "es \<noteq> [] \<longrightarrow> seq_after (rd_last_seq r') (seq + 1)" by (auto simp: reader_at_def)
    from Cons.IH [OF r'(3,4,5) this r'(6) _ one] Cons.prems(6) obtain m where
      "m \<le> length es" "length (frames crc (seq + 1) (take m es)) \<le> k - length ?f"
      "m < length es \<longrightarrow> k - length ?f < length (frames crc (seq + 1) (take (Suc m) es))"
      "read_all crc r' = map Ok (records_from (seq + 1) (take m es))
        @ (if m = length es \<or> k - length ?f = length (frames crc (seq + 1) (take m es)) then []
           else [Err Truncated])"
      by auto
    with True r'(1) show ?thesis
      by (intro exI [of _ "Suc m"]) (subst read_all.simps, auto)
  next
    case False
    then have cut: "source_bytes (rd_inner r) = take k ?f" using Cons.prems(5) by simp
    show ?thesis
    proof (cases "k = 0")
      case True
      with cut obtain s where "read_record crc r = (Ok None, r\<lparr>rd_inner := s\<rparr>)"
        using read_record_eof [of r crc] Cons.prems(1) by auto
      with True Cons.prems(3) show ?thesis
        by (intro exI [of _ 0]) (simp add: read_all.simps reader_next_def)
    next
      case k: False
      with cut False obtain s where "read_record crc r = (Err Truncated, r\<lparr>rd_inner := s\<rparr>)"
        using read_record_cut [of r k crc seq e] Cons.prems by auto
      with k False Cons.prems(3) show ?thesis
        by (intro exI [of _ 0]) (simp add: read_all.simps reader_next_def)
    qed
  qed
qed

lemma length_header_bytes [simp]: "length (header_bytes cmd) = 12 + length cmd"
  by (simp add: header_bytes_def MAGIC_def)

lemma header_bytes_parts:
  "take 8 (header_bytes cmd) = MAGIC"
  "[header_bytes cmd ! 8, header_bytes cmd ! 9] = le_u16 FORMAT_VERSION"
  "[header_bytes cmd ! 10, header_bytes cmd ! 11] = le_u16 (of_nat (BASE_HEADER_LEN + length cmd))"
  by (simp_all add: header_bytes_def MAGIC_def le_u16_def numeral_2_eq_2 nth_append)

lemma reader_open_cut:
  assumes "clean_source src" and "source_bytes src = take k (header_bytes cmd @ rest)"
    and "12 + length cmd < 2 ^ 16"
  shows "if k < 12 then reader_open src = Err BadMagic
    else if k < 12 + length cmd then reader_open src = Err Truncated
    else \<exists>s. clean_source s \<and> source_bytes s = take (k - (12 + length cmd)) rest
      \<and> reader_open src = and_then (if cmd \<noteq> [] then map_ok Some (decode_cmdline cmd) else Ok None)
          (\<lambda>c. Ok \<lparr>rd_inner = s, rd_version = FORMAT_VERSION, rd_cmdline = c, rd_last_seq = None,
                   rd_poisoned = False\<rparr>)"
proof (cases "k < 12")
  case True
  then obtain s where "read_exact 12 src = (Err UnexpectedEof, s)"
    using read_exact_clean_short [OF assms(1), of 12] assms(2) by auto
  with True show ?thesis by (simp add: reader_open_def format_consts)
next
  case k: False
  let ?h = "header_bytes cmd"
  have "drop 12 ?h = cmd" by (simp add: header_bytes_def MAGIC_def)
  moreover have "12 \<le> length (source_bytes src)" using k by (simp add: assms(2))
  ultimately obtain s where s: "read_exact 12 src = (Ok (take 12 ?h), s)" "clean_source s"
    "source_bytes s = take (k - 12) (cmd @ rest)"
    using read_exact_clean [OF assms(1), of 12] assms(2) k
    by (auto simp: drop_take min_def)
  note parts = header_bytes_parts [of cmd, unfolded BASE_HEADER_LEN_def]
  have hl: "unat (of_nat (12 + length cmd) :: u16) = 12 + length cmd"
    using assms(3) by (intro unat_of_nat_len) simp
  define rest_of where "rest_of = (case read_exact (length cmd) s of
      (Err _, _) \<Rightarrow> Err Truncated
    | (Ok extra_buf, s') \<Rightarrow> and_then (if extra_buf \<noteq> []
        then map_ok Some (decode_cmdline extra_buf) else Ok None) (\<lambda>c.
          Ok \<lparr>rd_inner = s', rd_version = FORMAT_VERSION, rd_cmdline = c, rd_last_seq = None,
              rd_poisoned = False\<rparr>))"
  have "take 8 (take 12 ?h) = MAGIC" using parts(1) by simp
  moreover have "take 12 ?h ! 8 = ?h ! 8" "take 12 ?h ! 9 = ?h ! 9" "take 12 ?h ! 10 = ?h ! 10"
    "take 12 ?h ! 11 = ?h ! 11"
    by simp_all
  moreover have "FORMAT_VERSION \<ge> CMDLINE_MIN_VERSION" by (simp add: format_consts)
  ultimately have op: "reader_open src = rest_of"
    using s(1) hl
    by (simp add: reader_open_def parts BASE_HEADER_LEN_def Let_def rest_of_def
        del: from_le.simps of_nat_add split: prod.splits result.splits)
  show ?thesis
  proof (cases "k < 12 + length cmd")
    case True
    with k have "k - 12 < length cmd" by simp
    then obtain t where "read_exact (length cmd) s = (Err UnexpectedEof, t)"
      using read_exact_clean_short [OF s(2), of "length cmd"] s(3) by auto
    with k True show ?thesis by (simp add: op rest_of_def)
  next
    case False
    then obtain t where "read_exact (length cmd) s = (Ok cmd, t)" "clean_source t"
      "source_bytes t = take (k - (12 + length cmd)) rest"
      using read_exact_clean [OF s(2), of "length cmd"] s(3) k
      by (auto simp: drop_take)
    with k False show ?thesis by (auto simp: op rest_of_def)
  qed
qed

text \<open>
  A sink that fills up keeps a prefix of the bytes an unbounded one would hold: \<open>writes m bs\<close> says
  that \<open>m\<close> emits exactly \<open>bs\<close> when it succeeds and some prefix of \<open>bs\<close> when it fails.
\<close>

definition writes :: "(sink, 'a, trace_error) st \<Rightarrow> bytes \<Rightarrow> bool" where
  "writes m bs \<longleftrightarrow> (\<forall>k r k'. m k = (r, k') \<longrightarrow>
     (if is_ok r then sk_bytes k' = sk_bytes k @ bs else \<exists>n. sk_bytes k' = sk_bytes k @ take n bs))"

lemma writes_write_all [intro]: "writes (write_all bs) bs"
  by (auto simp: writes_def write_all_def split: option.splits if_splits)

lemma take_append_eqI: "\<exists>n. bs @ take m cs = take n (bs @ cs)"
  by (rule exI [of _ "length bs + m"]) simp

lemma take_left_eqI: "\<exists>n. take m bs = take n (bs @ cs)"
  by (rule exI [of _ "min m (length bs)"]) (simp add: min_def)

lemma writes_bind [intro]:
  assumes "writes m bs" and "writes m' cs"
  shows "writes (st_bind m (\<lambda>_. m')) (bs @ cs)"
  unfolding writes_def
proof (intro allI impI)
  fix k r k' assume b: "st_bind m (\<lambda>_. m') k = (r, k')"
  obtain q u where q: "m k = (q, u)" by force
  show "if is_ok r then sk_bytes k' = sk_bytes k @ bs @ cs
    else \<exists>n. sk_bytes k' = sk_bytes k @ take n (bs @ cs)"
  proof (cases q)
    case (Err e)
    with assms(1) q b obtain n where "sk_bytes k' = sk_bytes k @ take n bs" "r = Err e"
      by (auto simp: writes_def st_bind_def dest!: spec [of _ k])
    with take_left_eqI [of n bs cs] show ?thesis by (auto simp del: take_append)
  next
    case (Ok x)
    with assms(1) q have u: "sk_bytes u = sk_bytes k @ bs" by (auto simp: writes_def)
    from Ok q b have "m' u = (r, k')" by (simp add: st_bind_def)
    with assms(2) u show ?thesis
      using take_append_eqI [of bs _ cs] by (auto simp: writes_def dest!: spec [of _ u])
  qed
qed

lemma write_header_bytes:
  assumes "write_header k cmd = Ok w"
  shows "sk_bytes (wr_inner w) = sk_bytes k @ header_bytes cmd \<and> wr_next_seq w = 0"
proof -
  have "writes (st_bind (write_all MAGIC) (\<lambda>_. st_bind (write_all (le_u16 FORMAT_VERSION)) (\<lambda>_.
      st_bind (write_all (le_u16 (of_nat (BASE_HEADER_LEN + length cmd)))) (\<lambda>_. write_all cmd))))
    (header_bytes cmd)"
    unfolding header_bytes_def by (intro writes_bind writes_write_all)
  with assms show ?thesis
    by (auto simp: write_header_def Let_def writes_def split: prod.splits result.splits)
qed

lemma append_event_bytes:
  assumes "append_event crc e w = (r, w')"
  shows "if is_ok r
    then sk_bytes (wr_inner w') = sk_bytes (wr_inner w) @ frame crc (wr_next_seq w) e
      \<and> wr_next_seq w' = wr_next_seq w + 1 \<and> r = Ok (wr_next_seq w)
    else \<exists>n. sk_bytes (wr_inner w') = sk_bytes (wr_inner w) @ take n (frame crc (wr_next_seq w) e)"
proof -
  let ?b = "encode_body (wr_next_seq w) e"
  have "writes (st_bind (write_all (le_u32 (of_nat (length ?b)))) (\<lambda>_.
      st_bind (write_all ?b) (\<lambda>_. write_all (le_u32 (crc ?b))))) (frame crc (wr_next_seq w) e)"
    unfolding frame_def Let_def by (intro writes_bind writes_write_all)
  with assms show ?thesis
    by (auto simp: append_event_def Let_def writes_def split: prod.splits result.splits)
qed

lemma append_all_bytes:
  assumes "append_all crc es w = (r, w')"
  shows "if is_ok r
    then sk_bytes (wr_inner w') = sk_bytes (wr_inner w) @ frames crc (wr_next_seq w) es
      \<and> r = Ok (seqs_from (wr_next_seq w) (length es))
    else \<exists>n. sk_bytes (wr_inner w') = sk_bytes (wr_inner w) @ take n (frames crc (wr_next_seq w) es)"
  using assms
proof (induction es arbitrary: w r w')
  case Nil
  then show ?case by (auto simp: st_return_def)
next
  case (Cons e es)
  obtain q u where q: "append_event crc e w = (q, u)" by force
  note ev = append_event_bytes [OF q]
  show ?case
  proof (cases q)
    case (Err err)
    with ev obtain n where "sk_bytes (wr_inner u) =
        sk_bytes (wr_inner w) @ take n (frame crc (wr_next_seq w) e)"
      by auto
    moreover from Err q Cons.prems have "r = Err err" "w' = u" by (auto simp: st_bind_def)
    ultimately show ?thesis
      using take_left_eqI [of n "frame crc (wr_next_seq w) e" "frames crc (wr_next_seq w + 1) es"]
      by (auto simp del: take_append)
  next
    case (Ok seq)
    obtain p v where p: "append_all crc es u = (p, v)" by force
    from Ok q p Cons.prems have "w' = v" "r = map_ok ((#) seq) p"
      by (cases p; auto simp: st_bind_def st_return_def)+
    with Cons.IH [OF p] ev Ok show ?thesis
      using take_append_eqI [of "frame crc (wr_next_seq w) e" _ "frames crc (wr_next_seq w + 1) es"]
      by (cases p) auto
  qed
qed

text \<open>For every source: records come out in strictly increasing order and at most one error ends
  them.\<close>

lemma read_record_seq:
  assumes "read_record crc r = (Ok (Some rcd), r')"
  shows "seq_after (rd_last_seq r) (rec_seq rcd) \<and> rd_last_seq r' = Some (rec_seq rcd)
    \<and> rd_poisoned r' = rd_poisoned r \<and> rd_version r' = rd_version r"
proof -
  obtain n s where "read_body crc n (r\<lparr>rd_inner := s\<rparr>) = (Ok (Some rcd), r')"
    using assms by (auto simp: read_record_def split: result.splits prod.splits read_outcome.splits)
  then show ?thesis
    by (auto simp: read_body_def st_bind_def st_return_def check_monotonic_after
        split: if_splits prod.splits result.splits)
qed

lemma read_all_poisoned: "rd_poisoned r \<Longrightarrow> read_all crc r = []"
  by (simp add: read_all.simps reader_next_def)

lemma seq_after_trans: "seq_after prev a \<Longrightarrow> a < b \<Longrightarrow> seq_after prev b"
  by (auto simp: seq_after_def split: option.splits)

lemma read_all_shape:
  "\<exists>recs tail. read_all crc r = map Ok recs @ tail \<and> sorted_wrt (<) (map rec_seq recs)
    \<and> (\<forall>rcd \<in> set recs. seq_after (rd_last_seq r) (rec_seq rcd))
    \<and> (tail = [] \<or> (\<exists>e. tail = [Err e] \<and> e \<noteq> DecodePanic))"
proof (induction crc r rule: read_all.induct)
  case (1 crc r)
  obtain item r' where n: "reader_next crc r = (item, r')" by force
  show ?case
  proof (cases item)
    case None
    with n show ?thesis by (simp add: read_all.simps)
  next
    case (Some it)
    then have unfold: "read_all crc r = it # read_all crc r'" using n by (simp add: read_all.simps)
    show ?thesis
    proof (cases it)
      case (Err e)
      with n Some have "rd_poisoned r'" "e \<noteq> DecodePanic"
        by (auto simp: reader_next_def split: if_splits prod.splits result.splits option.splits
            dest: read_record_no_panic)
      with Err unfold show ?thesis
        by (intro exI [of _ "[]"] exI [of _ "[Err e]"]) (simp add: read_all_poisoned)
    next
      case (Ok rcd)
      with n Some have "read_record crc r = (Ok (Some rcd), r')"
        by (auto simp: reader_next_def split: if_splits prod.splits result.splits option.splits)
      note sq = read_record_seq [OF this]
      obtain recs tail where ih: "read_all crc r' = map Ok recs @ tail"
        "sorted_wrt (<) (map rec_seq recs)"
        "\<forall>x \<in> set recs. seq_after (rd_last_seq r') (rec_seq x)"
        "tail = [] \<or> (\<exists>e. tail = [Err e] \<and> e \<noteq> DecodePanic)"
        using "1.IH" [OF n [symmetric] Some] by blast
      with sq Ok unfold show ?thesis
        by (intro exI [of _ "rcd # recs"] exI [of _ tail])
           (auto simp: seq_after_def split: option.splits)
    qed
  qed
qed

lemma reader_open_written:
  assumes "str_wf prog" and "\<forall>a \<in> set args. str_wf a"
    and "BASE_HEADER_LEN + length (encode_cmdline prog args) < 2 ^ 16"
    and "clean_source src"
    and "source_bytes src = take k (header_bytes (encode_cmdline prog args) @ rest)"
    and "length (header_bytes (encode_cmdline prog args)) \<le> k"
  shows "\<exists>s. clean_source s
    \<and> source_bytes s = take (k - length (header_bytes (encode_cmdline prog args))) rest
    \<and> reader_open src = Ok \<lparr>rd_inner = s, rd_version = FORMAT_VERSION,
        rd_cmdline = Some \<lparr>cmd_program = prog, cmd_args = args\<rparr>, rd_last_seq = None,
        rd_poisoned = False\<rparr>"
proof -
  let ?c = "encode_cmdline prog args"
  have "length args \<le> length (concat (map (push_str []) args))" by (induction args) auto
  then have "decode_cmdline ?c = Ok \<lparr>cmd_program = prog, cmd_args = args\<rparr>"
    using decode_encode_cmdline [of prog args "[]"] assms(1-3)
    by (simp add: usize_max_def format_consts encode_cmdline_def push_strs)
  moreover have "?c \<noteq> []" by (simp add: encode_cmdline_def push_strs push_str_def le_u32_def numeral_eq_Suc)
  ultimately show ?thesis
    using reader_open_cut [OF assms(4,5)] assms(3,6) by (auto simp: format_consts)
qed

lemma written_bytes:
  assumes "sk_bytes k = []" and "create_with_cmdline k prog args = Ok w"
    and "append_all crc es w = (q, w')"
  shows "\<exists>n. sk_bytes (into_inner w') = take n (header_bytes (encode_cmdline prog args) @ frames crc 0 es)
    \<and> (is_ok q \<longrightarrow> sk_bytes (into_inner w') = header_bytes (encode_cmdline prog args) @ frames crc 0 es
         \<and> q = Ok (seqs_from 0 (length es)))"
proof -
  let ?h = "header_bytes (encode_cmdline prog args)"
  have w: "sk_bytes (wr_inner w) = ?h" "wr_next_seq w = 0"
    using write_header_bytes [of k "encode_cmdline prog args" w] assms(1,2)
    by (auto simp: create_with_cmdline_def)
  show ?thesis
  proof (cases "is_ok q")
    case True
    with append_all_bytes [OF assms(3)] w show ?thesis
      by (intro exI [of _ "length (?h @ frames crc 0 es)"]) (auto simp: into_inner_def)
  next
    case False
    with append_all_bytes [OF assms(3)] w obtain n where
      "sk_bytes (wr_inner w') = ?h @ take n (frames crc 0 es)"
      by auto
    with False take_append_eqI [of ?h n "frames crc 0 es"] show ?thesis
      by (auto simp: into_inner_def)
  qed
qed

lemma take_length_take: "take (length (take i xs)) xs = take i xs"
  by (cases "i \<le> length xs") auto

lemma frames_take_length: "length (frames crc seq (take m es)) \<le> length (frames crc seq es)"
  by (induction es arbitrary: seq m) (auto simp: take_Cons')

subsection \<open>Properties\<close>

text \<open>A small recording for the witnesses: two events, a thread id on the second only.\<close>

definition demo_crc :: crc_fun where
  "demo_crc bs = sum_list (map ucast bs)"

definition demo_events :: "event list" where
  "demo_events = [event_new SyscallEnter 5 [1, 2, 3], event_new_with_tid ThreadExit 9 7 []]"

definition demo_sink :: sink where
  "demo_sink = \<lparr>sk_bytes = [], sk_room = None\<rparr>"

lemma demo_fits: "\<forall>e \<in> set demo_events. event_fits e" "length demo_events \<le> 2 ^ 64"
  by (auto simp: demo_events_def event_new_def event_new_with_tid_def event_fits_def format_consts)

lemma demo_cmdline: "str_wf [0x61]" "\<forall>a \<in> set [[0x62, 0x63]]. str_wf a"
  "BASE_HEADER_LEN + length (encode_cmdline [0x61] [[0x62, 0x63]]) < 2 ^ 16"
  by (simp_all add: str_wf_def encode_cmdline_def push_str_def format_consts)

lemma demo_recording:
  obtains w w' where "create_with_cmdline demo_sink [0x61] [[0x62, 0x63]] = Ok w"
    and "append_all demo_crc demo_events w = (Ok [0, 1], w')"
proof -
  have room: "sk_room demo_sink = None" by (simp add: demo_sink_def)
  obtain w where w: "create_with_cmdline demo_sink [0x61] [[0x62, 0x63]] = Ok w"
    "sk_room (wr_inner w) = None" "wr_next_seq w = 0"
    using write_header_unbounded [OF room] room by (simp add: create_with_cmdline_def)
  have "length demo_events = 2" by (simp add: demo_events_def)
  then have "\<exists>w'. append_all demo_crc demo_events w = (Ok [0, 1], w')"
    using append_all_unbounded [OF w(2), of demo_crc demo_events] w(3) by (simp add: numeral_2_eq_2)
  with w(1) that show thesis by blast
qed

text \<open>A source that delivers one byte per read.\<close>

definition bytewise :: "bytes \<Rightarrow> source" where
  "bytewise bs = map (\<lambda>b. Data [b]) bs"

lemma bytewise_clean [simp]: "clean_source (bytewise bs)" "source_bytes (bytewise bs) = bs"
  by (induction bs) (simp_all add: bytewise_def)

text \<open>A complete log reads back as its command line and its events.\<close>

lemma trace_readback:
  assumes "str_wf prog" and "\<forall>a \<in> set args. str_wf a"
    and "BASE_HEADER_LEN + length (encode_cmdline prog args) < 2 ^ 16"
    and "\<forall>e \<in> set es. event_fits e" and "length es \<le> 2 ^ 64" and "clean_source src"
    and "source_bytes src = header_bytes (encode_cmdline prog args) @ frames crc 0 es"
  shows "\<exists>r. reader_open src = Ok r \<and> rd_cmdline r = Some \<lparr>cmd_program = prog, cmd_args = args\<rparr>
    \<and> read_all crc r = map Ok (records_from 0 es)"
proof -
  let ?h = "header_bytes (encode_cmdline prog args)" and ?f = "frames crc 0 es"
  have src: "source_bytes src = take (length (?h @ ?f)) (?h @ ?f)" using assms(7) by simp
  from reader_open_written [OF assms(1-3,6) src] obtain s where "clean_source s" "source_bytes s = ?f"
    and r: "reader_open src = Ok \<lparr>rd_inner = s, rd_version = FORMAT_VERSION,
        rd_cmdline = Some \<lparr>cmd_program = prog, cmd_args = args\<rparr>, rd_last_seq = None,
        rd_poisoned = False\<rparr>" (is "_ = Ok ?r")
    by auto
  with read_all_cut [of ?r es 0 "length ?f" crc] assms(4,5)
  obtain m where "m \<le> length es" "m < length es \<longrightarrow> length ?f < length (frames crc 0 (take (Suc m) es))"
    "read_all crc ?r = map Ok (records_from 0 (take m es))
        @ (if m = length es \<or> length ?f = length (frames crc 0 (take m es)) then [] else [Err Truncated])"
    by (auto simp: seq_after_def)
  moreover from this(1,2) have "m = length es"
    using frames_take_length [of crc 0 "Suc m" es] by linarith
  ultimately show ?thesis using r by simp
qed

text \<open>
  C1. Round trip of a whole trace: a log written through \<open>create_with_cmdline\<close> and \<open>append\<close> reads
  back, however the reads are split, as the recorded command line and exactly the appended events in
  order, numbered from 0 (a missing thread id reads back as thread 0).
\<close>

theorem trace_roundtrip:
  assumes "str_wf prog" and "\<forall>a \<in> set args. str_wf a"
    and "BASE_HEADER_LEN + length (encode_cmdline prog args) < 2 ^ 16"
    and "\<forall>e \<in> set es. event_fits e" and "length es \<le> 2 ^ 64"
    and "sk_bytes k = []" and "create_with_cmdline k prog args = Ok w"
    and "append_all crc es w = (Ok seqs, w')"
    and "clean_source src" and "source_bytes src = sk_bytes (into_inner w')"
  shows "\<exists>r. reader_open src = Ok r \<and> rd_cmdline r = Some \<lparr>cmd_program = prog, cmd_args = args\<rparr>
    \<and> read_all crc r = map Ok (records_from 0 es) \<and> seqs = map rec_seq (records_from 0 es)"
proof -
  from written_bytes [OF assms(6-8)] have seqs: "seqs = seqs_from 0 (length es)"
    and src: "source_bytes src = header_bytes (encode_cmdline prog args) @ frames crc 0 es"
    using assms(10) by auto
  from trace_readback [OF assms(1-5,9) src] seqs show ?thesis by (auto simp: map_seq_records_from)
qed

text \<open>Witness of the round trip: the demo recording, read in two chunks.\<close>

theorem trace_roundtrip_witness:
  "\<exists>w w' r. create_with_cmdline demo_sink [0x61] [[0x62, 0x63]] = Ok w
    \<and> append_all demo_crc demo_events w = (Ok [0, 1], w')
    \<and> reader_open [Data (take 5 (sk_bytes (into_inner w'))), Data (drop 5 (sk_bytes (into_inner w')))] = Ok r
    \<and> rd_cmdline r = Some \<lparr>cmd_program = [0x61], cmd_args = [[0x62, 0x63]]\<rparr>
    \<and> read_all demo_crc r = [Ok \<lparr>rec_seq = 0, rec_event = (event_new SyscallEnter 5 [1, 2, 3])\<lparr>ev_tid := Some 0\<rparr>\<rparr>,
        Ok \<lparr>rec_seq = 1, rec_event = event_new_with_tid ThreadExit 9 7 []\<rparr>]"
proof -
  obtain w w' where w: "create_with_cmdline demo_sink [0x61] [[0x62, 0x63]] = Ok w"
    and w': "append_all demo_crc demo_events w = (Ok [0, 1], w')"
    by (rule demo_recording)
  have room: "sk_bytes demo_sink = []" by (simp add: demo_sink_def)
  let ?b = "sk_bytes (into_inner w')" and ?src = "[Data (take 5 (sk_bytes (into_inner w'))),
      Data (drop 5 (sk_bytes (into_inner w')))]"
  from written_bytes [OF room w w'] have "5 < length ?b" by (auto simp: header_bytes_def MAGIC_def)
  then have "clean_source ?src" "source_bytes ?src = ?b" by auto
  from trace_roundtrip [OF demo_cmdline demo_fits room w w' this]
  show ?thesis using w w'
    by (auto simp: demo_events_def event_norm_def event_new_def event_new_with_tid_def)
qed

text \<open>
  C2. Crash recovery: whatever happens to a recording (the disk fills up while events are appended,
  the tail of the file is lost), what is left of the file either has no complete header and is
  refused, or reads back as exactly the records that are complete in it, followed by nothing or by
  one truncation error; no record is altered, invented or reordered.
\<close>

theorem trace_crash_recovery:
  assumes "str_wf prog" and "\<forall>a \<in> set args. str_wf a"
    and "BASE_HEADER_LEN + length (encode_cmdline prog args) < 2 ^ 16"
    and "\<forall>e \<in> set es. event_fits e" and "length es \<le> 2 ^ 64"
    and "sk_bytes k = []" and "create_with_cmdline k prog args = Ok w"
    and "append_all crc es w = (q, w')"
    and "clean_source src" and "source_bytes src = take kept (sk_bytes (into_inner w'))"
  shows "if length (source_bytes src) < BASE_HEADER_LEN then reader_open src = Err BadMagic
    else if length (source_bytes src) < BASE_HEADER_LEN + length (encode_cmdline prog args)
    then reader_open src = Err Truncated
    else \<exists>r m. reader_open src = Ok r \<and> m \<le> length es
      \<and> rd_cmdline r = Some \<lparr>cmd_program = prog, cmd_args = args\<rparr>
      \<and> length (header_bytes (encode_cmdline prog args) @ frames crc 0 (take m es))
          \<le> length (source_bytes src)
      \<and> (m < length es \<longrightarrow> length (source_bytes src)
          < length (header_bytes (encode_cmdline prog args) @ frames crc 0 (take (Suc m) es)))
      \<and> read_all crc r = map Ok (take m (records_from 0 es))
          @ (if length (source_bytes src)
               = length (header_bytes (encode_cmdline prog args) @ frames crc 0 (take m es))
             then [] else [Err Truncated])"
proof -
  let ?h = "header_bytes (encode_cmdline prog args)" and ?f = "frames crc 0 es"
  obtain n where n: "sk_bytes (into_inner w') = take n (?h @ ?f)"
    using written_bytes [OF assms(6-8)] by blast
  define j where "j = length (source_bytes src)"
  have src: "source_bytes src = take j (?h @ ?f)" and jle: "j \<le> length (?h @ ?f)"
    using assms(10) n take_length_take [of "min kept n" "?h @ ?f"]
    by (simp_all add: j_def take_take del: take_append length_append)
  show ?thesis
  proof (cases "j < length ?h")
    case True
    with reader_open_cut [OF assms(9) src] assms(3) show ?thesis
      by (auto simp: j_def [symmetric] format_consts)
  next
    case False
    then obtain s where "clean_source s" "source_bytes s = take (j - length ?h) ?f"
      and r: "reader_open src = Ok \<lparr>rd_inner = s, rd_version = FORMAT_VERSION,
        rd_cmdline = Some \<lparr>cmd_program = prog, cmd_args = args\<rparr>, rd_last_seq = None,
        rd_poisoned = False\<rparr>" (is "_ = Ok ?r")
      using reader_open_written [OF assms(1-3,9) src] by auto
    with read_all_cut [of ?r es 0 "j - length ?h" crc] assms(4,5)
    obtain m where m: "m \<le> length es" "length (frames crc 0 (take m es)) \<le> j - length ?h"
      "m < length es \<longrightarrow> j - length ?h < length (frames crc 0 (take (Suc m) es))"
      "read_all crc ?r = map Ok (records_from 0 (take m es))
        @ (if m = length es \<or> j - length ?h = length (frames crc 0 (take m es)) then []
           else [Err Truncated])"
      by (auto simp: seq_after_def)
    have "records_from q (take i xs) = take i (records_from q xs)" for q i xs
      by (induction xs arbitrary: q i) (auto simp: take_Cons')
    moreover have "m = length es \<Longrightarrow> j - length ?h = length ?f" using m(2) jle by auto
    ultimately have "\<exists>r m. reader_open src = Ok r \<and> m \<le> length es
      \<and> rd_cmdline r = Some \<lparr>cmd_program = prog, cmd_args = args\<rparr>
      \<and> length (?h @ frames crc 0 (take m es)) \<le> j
      \<and> (m < length es \<longrightarrow> j < length (?h @ frames crc 0 (take (Suc m) es)))
      \<and> read_all crc r = map Ok (take m (records_from 0 es))
          @ (if j = length (?h @ frames crc 0 (take m es)) then [] else [Err Truncated])"
      using m r False by (intro exI [of _ ?r] exI [of _ m]) auto
    with False show ?thesis by (simp add: j_def [symmetric] format_consts)
  qed
qed

text \<open>Witness of crash recovery: the file loses everything after its first 73 bytes, the header (27),
  the first record (33) and a part of the second; the first one is recovered.\<close>

theorem trace_crash_recovery_witness:
  "\<exists>w w' r. create_with_cmdline demo_sink [0x61] [[0x62, 0x63]] = Ok w
    \<and> append_all demo_crc demo_events w = (Ok [0, 1], w')
    \<and> reader_open [Data (take 73 (sk_bytes (into_inner w')))] = Ok r
    \<and> read_all demo_crc r = [Ok \<lparr>rec_seq = 0, rec_event = (event_new SyscallEnter 5 [1, 2, 3])\<lparr>ev_tid := Some 0\<rparr>\<rparr>,
        Err Truncated]"
proof -
  obtain w w' where w: "create_with_cmdline demo_sink [0x61] [[0x62, 0x63]] = Ok w"
    and w': "append_all demo_crc demo_events w = (Ok [0, 1], w')"
    by (rule demo_recording)
  have room: "sk_bytes demo_sink = []" by (simp add: demo_sink_def)
  let ?h = "header_bytes (encode_cmdline [0x61] [[0x62, 0x63]])"
  let ?src = "[Data (take 73 (sk_bytes (into_inner w')))]"
  have lens: "length ?h = 27" "length (frames demo_crc 0 (take 0 demo_events)) = 0"
    "length (frames demo_crc 0 (take (Suc 0) demo_events)) = 33"
    "length (frames demo_crc 0 (take (Suc (Suc 0)) demo_events)) = 63"
    "length (encode_cmdline [0x61] [[0x62, 0x63]]) = 15" "length demo_events = 2"
    by (simp_all add: encode_cmdline_def push_str_def demo_events_def event_new_def event_new_with_tid_def)
  have "sk_bytes (into_inner w') = ?h @ frames demo_crc 0 demo_events"
    using written_bytes [OF room w w'] by auto
  moreover have "take (Suc (Suc 0)) demo_events = demo_events" by (simp add: demo_events_def)
  ultimately have len: "length (source_bytes ?src) = 73" and cl: "clean_source ?src"
    and sb: "source_bytes ?src = take 73 (sk_bytes (into_inner w'))"
    using lens by auto
  from trace_crash_recovery [OF demo_cmdline demo_fits room w w' cl sb]
  obtain r m where r: "reader_open ?src = Ok r" "m \<le> 2"
    "length (?h @ frames demo_crc 0 (take m demo_events)) \<le> 73"
    "m < 2 \<longrightarrow> 73 < length (?h @ frames demo_crc 0 (take (Suc m) demo_events))"
    "read_all demo_crc r = map Ok (take m (records_from 0 demo_events))
       @ (if 73 = length (?h @ frames demo_crc 0 (take m demo_events)) then [] else [Err Truncated])"
    by (simp only: len lens format_consts) (auto simp: lens)
  from r(2) consider "m = 0" | "m = Suc 0" | "m = Suc (Suc 0)" by linarith
  then have "m = Suc 0" using r(3,4) lens by cases simp_all
  with r lens w w' show ?thesis
    by (auto simp: demo_events_def event_norm_def event_new_def event_new_with_tid_def)
qed

text \<open>
  C8. Whatever bytes a trace file holds and however its reads fail, draining the reader yields
  records with strictly increasing sequence numbers, then at most one error, then nothing; the
  panic of \<open>decode_body\<close> on a short body is unreachable.
\<close>

theorem reader_monotone_then_one_error:
  "reader_open src = Ok r \<Longrightarrow>
   \<exists>recs tail. read_all crc r = map Ok recs @ tail \<and> sorted_wrt (<) (map rec_seq recs)
     \<and> (tail = [] \<or> (\<exists>e. tail = [Err e] \<and> e \<noteq> DecodePanic))"
  using read_all_shape [of crc r] by blast

text \<open>Witness: an empty trace body after a bare header.\<close>

theorem reader_monotone_then_one_error_witness:
  "\<exists>r recs tail. reader_open [Data (header_bytes [])] = Ok r \<and> read_all demo_crc r = map Ok recs @ tail
     \<and> sorted_wrt (<) (map rec_seq recs) \<and> (tail = [] \<or> (\<exists>e. tail = [Err e] \<and> e \<noteq> DecodePanic))"
proof -
  have "clean_source [Data (header_bytes [])]" by (simp add: header_bytes_def MAGIC_def)
  then obtain r where "reader_open [Data (header_bytes [])] = Ok r"
    using reader_open_cut [of "[Data (header_bytes [])]" 12 "[]" "[]"] by auto
  with reader_monotone_then_one_error [OF this, of demo_crc] show ?thesis by blast
qed

text \<open>
  C9. Corruption of a stored body is reported: when the checksum tells the damaged body from the
  recorded checksum, the reader answers \<open>ChecksumMismatch\<close> for that record, and no record after it.
\<close>

theorem corruption_detected:
  assumes "clean_source (rd_inner r)" and "rd_version r = FORMAT_VERSION" and "\<not> rd_poisoned r"
    and "event_fits e" and "length body = length (encode_body seq e)"
    and "crc body \<noteq> crc (encode_body seq e)"
    and "source_bytes (rd_inner r)
      = le_u32 (of_nat (length body)) @ body @ le_u32 (crc (encode_body seq e)) @ rest"
  shows "\<exists>s. read_all crc r = [Err (ChecksumMismatch s)] \<and> le_u64 s = take 8 body"
proof -
  have len: "min_body_len (rd_version r) \<le> length body" "length body \<le> MAX_BODY_LEN"
    using assms(2,4,5) by (auto simp: event_fits_def min_body_len_def format_consts)
  from read_record_framed [OF assms(1,7) _ len, of crc] assms(6) obtain s rcd where
    d: "decode_body FORMAT_VERSION body = Ok rcd"
    and "read_record crc r = (Err (ChecksumMismatch (rec_seq rcd)), r\<lparr>rd_inner := s\<rparr>)"
    using assms(2) by auto
  with assms(3) have "read_all crc r = [Err (ChecksumMismatch (rec_seq rcd))]"
    by (subst read_all.simps) (simp add: reader_next_def read_all_poisoned)
  moreover have "take 8 body = le_u64 (rec_seq rcd)"
    using decode_body_reencode [OF d] by (metis append_eq_conv_conj encode_body_def length_le_u64)
  ultimately show ?thesis by simp
qed

text \<open>Witness: the first demo event with one payload byte flipped.\<close>

definition demo_body :: bytes where
  "demo_body = encode_body 0 (event_new SyscallEnter 5 [1, 2, 3])"

theorem corruption_detected_witness:
  "\<exists>s. read_all demo_crc \<lparr>rd_inner = [Data (le_u32 25 @ demo_body[22 := 0x80] @ le_u32 (demo_crc demo_body))],
      rd_version = 3, rd_cmdline = None, rd_last_seq = None, rd_poisoned = False\<rparr>
    = [Err (ChecksumMismatch s)] \<and> le_u64 s = take 8 (demo_body[22 := 0x80])"
proof -
  let ?e = "event_new SyscallEnter 5 [1, 2, 3]" and ?b = "demo_body[22 := 0x80]"
  let ?r = "\<lparr>rd_inner = [Data (le_u32 25 @ demo_body[22 := 0x80] @ le_u32 (demo_crc demo_body))],
      rd_version = 3, rd_cmdline = None, rd_last_seq = None, rd_poisoned = False\<rparr>"
  have len: "length ?b = 25" "length demo_body = 25" by (simp_all add: demo_body_def event_new_def)
  then have nonempty: "demo_body \<noteq> []" by auto
  have ne: "demo_crc ?b \<noteq> demo_crc demo_body"
    by code_simp
  show ?thesis
    using corruption_detected [of ?r ?e ?b 0 demo_crc "[]", folded demo_body_def] ne len nonempty demo_fits(1)
    by (simp add: format_consts demo_events_def)
qed

text \<open>
  C10. The header length field is 16 bits wide: a command line whose encoding brings the header to
  exactly a multiple of 65536 bytes wraps the field to 0, so the reader skips no header bytes at all
  and the trace opens without its command line.
\<close>

theorem header_len_wraps:
  assumes "BASE_HEADER_LEN + length (encode_cmdline prog args) = n * 2 ^ 16" and "0 < n"
    and "sk_bytes k = []" and "create_with_cmdline k prog args = Ok w" and "clean_source src"
    and "source_bytes src = sk_bytes (into_inner w)"
  shows "\<exists>r. reader_open src = Ok r \<and> rd_cmdline r = None
    \<and> source_bytes (rd_inner r) = encode_cmdline prog args"
proof -
  let ?c = "encode_cmdline prog args"
  have src: "source_bytes src = header_bytes ?c"
    using write_header_bytes [of k ?c w] assms by (simp add: create_with_cmdline_def into_inner_def)
  moreover have "drop 12 (header_bytes ?c) = ?c" by (simp add: header_bytes_def MAGIC_def)
  ultimately obtain s where s: "read_exact 12 src = (Ok (take 12 (header_bytes ?c)), s)"
    "source_bytes s = ?c"
    using read_exact_clean [OF assms(5), of 12] by auto
  have "word_of_nat (BASE_HEADER_LEN + length ?c) = (0 :: u16)"
    unfolding assms(1) word_of_nat_eq_0_iff by simp
  moreover note header_bytes_parts [of ?c]
  moreover have "take 12 xs ! i = xs ! i" if "i \<in> {8, 9, 10, 11}" for i and xs :: bytes
    using that by auto
  ultimately have "reader_open src = Ok \<lparr>rd_inner = s, rd_version = FORMAT_VERSION,
      rd_cmdline = None, rd_last_seq = None, rd_poisoned = False\<rparr>"
    using s(1)
    by (simp add: reader_open_def Let_def BASE_HEADER_LEN_def read_exact.simps [of 0]
        del: from_le.simps of_nat_add)
  with s show ?thesis by simp
qed

text \<open>Witness: a program path of 65516 characters.\<close>

theorem header_len_wraps_witness:
  "\<exists>w r. create_with_cmdline demo_sink (replicate 65516 0x61) [] = Ok w
    \<and> reader_open [Data (sk_bytes (into_inner w))] = Ok r \<and> rd_cmdline r = None"
proof -
  let ?p = "replicate 65516 0x61 :: bytes"
  have room: "sk_room demo_sink = None" "sk_bytes demo_sink = []" by (simp_all add: demo_sink_def)
  obtain w where w: "create_with_cmdline demo_sink ?p [] = Ok w"
    "sk_bytes (into_inner w) = header_bytes (encode_cmdline ?p [])"
    using write_header_unbounded [OF room(1)] room(2)
    by (simp add: create_with_cmdline_def into_inner_def)
  have "BASE_HEADER_LEN + length (encode_cmdline ?p []) = 1 * 2 ^ 16"
    by (simp add: encode_cmdline_def push_str_def format_consts)
  from header_len_wraps [OF this _ room(2) w(1), of "[Data (sk_bytes (into_inner w))]"] w
  show ?thesis by (auto simp: header_bytes_def MAGIC_def)
qed

end
