(* ===== verification/Scheduler.thy ===== *)
theory Scheduler
  imports SyscallCapture TraceLog
begin

text \<open>
  The single-core serialization scheduler of the ptrace recorder
  (\<open>recorder/src/capture/sched.rs\<close>), with \<open>affinity.rs\<close>; its timer is two kernel calls here, detailed in
  \<open>PreemptTimer\<close>. The kernel is a parameter: a record of the calls the source
  makes, each a function of an arbitrary kernel state. What the theorems rely on of ptrace is the
  predicate \<open>kernel_laws\<close>: a tracee runs only when it was resumed, it stops when a stop is reported
  for it, and a process id is not recycled during a recording.
\<close>

subsection \<open>State\<close>

definition EINTR :: errno where "EINTR = 4"
definition ESRCH :: errno where "ESRCH = 3"
definition ECHILD :: errno where "ECHILD = 10"
definition SIGSTOP :: i32 where "SIGSTOP = 19"
definition PTRACE_EVENT_FORK :: i32 where "PTRACE_EVENT_FORK = 1"
definition PTRACE_EVENT_VFORK :: i32 where "PTRACE_EVENT_VFORK = 2"
definition PTRACE_EVENT_CLONE :: i32 where "PTRACE_EVENT_CLONE = 3"

datatype wait_status =
    PtraceSyscall pid
  | PtraceEvent pid i32 i32
  | Stopped pid i32
  | Exited pid i32
  | Signaled pid i32
  | OtherStatus

record 'os tracer_os =
  os_abi :: syscall_numbers
  os_pin :: "pid \<Rightarrow> ('os, unit, errno) st"
  os_timer_install :: "('os, unit, errno) st"
  os_timer_set :: "bool \<Rightarrow> ('os, unit, errno) st"
  os_waitpid :: "pid option \<Rightarrow> ('os, wait_status, errno) st"
  os_syscall :: "pid \<Rightarrow> i32 option \<Rightarrow> ('os, unit, errno) st"
  os_kill :: "pid \<Rightarrow> i32 \<Rightarrow> ('os, unit, errno) st"
  os_regs :: "pid \<Rightarrow> ('os, syscall_regs, errno) st"
  os_getevent :: "pid \<Rightarrow> ('os, i64, errno) st"
  os_setoptions :: "pid \<Rightarrow> ('os, unit, errno) st"
  os_vm_read :: "'os \<Rightarrow> vm_read"
  os_now :: "'os \<Rightarrow> u64"

record thread_state =
  th_pending_enter :: "syscall_regs option"
  th_resume_signal :: "i32 option"

definition thread_default :: thread_state where
  "thread_default = \<lparr>th_pending_enter = None, th_resume_signal = None\<rparr>"

record 'os scheduler =
  sch_writer :: trace_writer
  sch_threads :: "pid \<Rightarrow> thread_state option"
  sch_ready :: "pid list"
  sch_running :: "pid option"
  sch_last_scheduled :: "pid option"
  sch_leader :: pid
  sch_leader_exit :: "i32 option"
  sch_events_recorded :: nat
  sch_threads_followed :: nat
  sch_vfork_pending :: "pid \<Rightarrow> pid option"
  sch_os :: 'os

record record_outcome =
  ro_exit_code :: "i32 option"
  ro_events_recorded :: nat
  ro_threads_followed :: nat

type_synonym ('os, 'a) sched = "('os scheduler, 'a, capture_error) st"

subsection \<open>Operations\<close>

text \<open>A system call of the scheduler: it runs on the kernel state, and a failure is wrapped.\<close>

definition os_do :: "(errno \<Rightarrow> capture_error) \<Rightarrow> ('os, 'a, errno) st \<Rightarrow> ('os, 'a) sched" where
  "os_do f m = (\<lambda>s. case m (sch_os s) of (r, o') \<Rightarrow> (map_err f r, s\<lparr>sch_os := o'\<rparr>))"

definition SERIALIZATION_CPU :: nat where "SERIALIZATION_CPU = 0"

definition pin_to_serialization_cpu :: "'os tracer_os \<Rightarrow> pid \<Rightarrow> ('os, unit) sched" where
  "pin_to_serialization_cpu os pid = os_do (Affinity pid SERIALIZATION_CPU) (os_pin os pid)"

definition timer_arm :: "'os tracer_os \<Rightarrow> ('os, unit) sched" where
  "timer_arm os = os_do Ptrace (os_timer_set os True)"

definition timer_disarm :: "'os tracer_os \<Rightarrow> ('os, unit) sched" where
  "timer_disarm os = os_do Ptrace (os_timer_set os False)"

definition scheduler_new :: "'os tracer_os \<Rightarrow> trace_writer \<Rightarrow> pid \<Rightarrow> 'os
    \<Rightarrow> ('os scheduler, capture_error) result" where
  "scheduler_new os writer leader o0 =
     (case os_pin os leader o0 of
        (Err e, _) \<Rightarrow> Err (Affinity leader SERIALIZATION_CPU e)
      | (Ok _, o1) \<Rightarrow>
          (case os_timer_install os o1 of
             (Err e, _) \<Rightarrow> Err (Ptrace e)
           | (Ok _, o2) \<Rightarrow>
               Ok \<lparr>sch_writer = writer, sch_threads = [leader \<mapsto> thread_default], sch_ready = [leader],
                   sch_running = None, sch_last_scheduled = Some leader, sch_leader = leader,
                   sch_leader_exit = None, sch_events_recorded = 0, sch_threads_followed = 1,
                   sch_vfork_pending = Map.empty, sch_os = o2\<rparr>))"

definition sched_append :: "crc_fun \<Rightarrow> event \<Rightarrow> ('os, unit) sched" where
  "sched_append crc e = (\<lambda>s. case append_event crc e (sch_writer s) of
       (Ok _, w) \<Rightarrow> (Ok (), s\<lparr>sch_writer := w, sch_events_recorded := sch_events_recorded s + 1\<rparr>)
     | (Err err, w) \<Rightarrow> (Err (CaptureTrace err), s\<lparr>sch_writer := w\<rparr>))"

definition requeue :: "pid \<Rightarrow> ('os, unit) sched" where
  "requeue pid = st_modify (\<lambda>s.
     if sch_threads s pid \<noteq> None \<and> pid \<notin> set (sch_ready s)
     then s\<lparr>sch_ready := sch_ready s @ [pid]\<rparr> else s)"

definition clear_running :: "pid \<Rightarrow> ('os, unit) sched" where
  "clear_running pid = st_modify (\<lambda>s.
     if sch_running s = Some pid then s\<lparr>sch_running := None\<rparr> else s)"

definition sched_now :: "'os tracer_os \<Rightarrow> ('os, u64) sched" where
  "sched_now os = st_get (\<lambda>s. os_now os (sch_os s))"

definition is_spawn_event :: "i32 \<Rightarrow> bool" where
  "is_spawn_event event \<longleftrightarrow>
     event = PTRACE_EVENT_CLONE \<or> event = PTRACE_EVENT_FORK \<or> event = PTRACE_EVENT_VFORK"

definition record_sched_switch :: "'os tracer_os \<Rightarrow> crc_fun \<Rightarrow> pid \<Rightarrow> ('os, unit) sched" where
  "record_sched_switch os crc next = (\<lambda>s.
     if sch_last_scheduled s = Some next then (Ok (), s)
     else st_bind (sched_now os) (\<lambda>ts.
          sched_append crc (event_new_with_tid SchedSwitch ts next
            (sched_switch_encode \<lparr>ss_tid = next\<rparr>)))
          (s\<lparr>sch_last_scheduled := Some next\<rparr>))"

text \<open>\<open>get_mut(&pid)\<close> and an update of the thread found, when there is one.\<close>

definition thread_update :: "pid \<Rightarrow> (thread_state \<Rightarrow> thread_state) \<Rightarrow> ('os, unit) sched" where
  "thread_update pid f = st_modify (\<lambda>s. case sch_threads s pid of
       Some t \<Rightarrow> s\<lparr>sch_threads := (sch_threads s)(pid \<mapsto> f t)\<rparr> | None \<Rightarrow> s)"

definition resume_next :: "'os tracer_os \<Rightarrow> crc_fun \<Rightarrow> ('os, unit) sched" where
  "resume_next os crc = (\<lambda>s. case sch_ready s of
       [] \<Rightarrow> (Ok (), s)
     | next # rest \<Rightarrow>
         st_bind (record_sched_switch os crc next) (\<lambda>_.
         st_bind (st_get (\<lambda>s. Option.bind (sch_threads s next) th_resume_signal)) (\<lambda>sig.
         st_bind (thread_update next (\<lambda>t. t\<lparr>th_resume_signal := None\<rparr>)) (\<lambda>_.
         st_bind (os_do Ptrace (os_syscall os next sig)) (\<lambda>_.
         st_modify (\<lambda>s. s\<lparr>sch_running := Some next\<rparr>)))))
         (s\<lparr>sch_ready := rest\<rparr>))"

definition on_syscall :: "'os tracer_os \<Rightarrow> crc_fun \<Rightarrow> pid \<Rightarrow> ('os, unit) sched" where
  "on_syscall os crc pid =
     st_bind (os_do Ptrace (os_regs os pid)) (\<lambda>regs.
     st_bind (sched_now os) (\<lambda>ts.
     st_bind (st_get (\<lambda>s. Option.bind (sch_threads s pid) th_pending_enter)) (\<lambda>pending.
     st_bind (thread_update pid (\<lambda>t. t\<lparr>th_pending_enter := None\<rparr>)) (\<lambda>_.
     case pending of
       None \<Rightarrow>
         st_bind (sched_append crc (enter_event ts pid regs)) (\<lambda>_.
         thread_update pid (\<lambda>t. t\<lparr>th_pending_enter := Some regs\<rparr>))
     | Some enter \<Rightarrow>
         st_bind (\<lambda>s. (exit_event (os_abi os) (os_vm_read os (sch_os s)) ts pid pid enter (sr_ret regs), s))
           (\<lambda>event. sched_append crc event)))))"

definition on_spawn :: "'os tracer_os \<Rightarrow> crc_fun \<Rightarrow> pid \<Rightarrow> ('os, pid) sched" where
  "on_spawn os crc parent =
     st_bind (os_do Ptrace (os_getevent os parent)) (\<lambda>msg.
     st_bind (sched_now os) (\<lambda>ts.
     let child = ucast msg in
     st_bind (sched_append crc (event_new_with_tid ThreadSpawn ts parent
         (thread_spawn_encode \<lparr>ts_parent_tid = parent, ts_child_tid = child\<rparr>))) (\<lambda>_.
     st_return child)))"

definition register_child :: "'os tracer_os \<Rightarrow> pid \<Rightarrow> ('os, unit) sched" where
  "register_child os pid =
     st_bind (pin_to_serialization_cpu os pid) (\<lambda>_.
     st_bind (os_do Ptrace (os_setoptions os pid)) (\<lambda>_.
     st_modify (\<lambda>s. s\<lparr>sch_threads := (sch_threads s)(pid \<mapsto> thread_default),
                      sch_threads_followed := sch_threads_followed s + 1\<rparr>)))"

definition on_stopped :: "'os tracer_os \<Rightarrow> crc_fun \<Rightarrow> pid \<Rightarrow> i32 \<Rightarrow> ('os, unit) sched" where
  "on_stopped os crc pid sig = (\<lambda>s.
     if sch_threads s pid = None
     then st_bind (register_child os pid) (\<lambda>_. requeue pid) s
     else st_bind (clear_running pid) (\<lambda>_.
          st_bind (if sig \<noteq> SIGSTOP
             then st_bind (sched_now os) (\<lambda>ts.
                  st_bind (sched_append crc (event_new_with_tid Signal ts pid
                     (signal_delivery_encode \<lparr>sd_signum = sig\<rparr>))) (\<lambda>_.
                  thread_update pid (\<lambda>t. t\<lparr>th_resume_signal := Some sig\<rparr>)))
             else st_return ()) (\<lambda>_.
          requeue pid)) s)"

definition on_exit :: "'os tracer_os \<Rightarrow> crc_fun \<Rightarrow> pid \<Rightarrow> i32 option \<Rightarrow> ('os, unit) sched" where
  "on_exit os crc pid code =
     st_bind (clear_running pid) (\<lambda>_.
     st_bind (st_get (\<lambda>s. sch_threads s pid \<noteq> None)) (\<lambda>removed.
     st_bind (st_modify (\<lambda>s. s\<lparr>sch_threads := (sch_threads s)(pid := None)\<rparr>)) (\<lambda>_.
     st_bind (st_get (\<lambda>s. removed \<and> sch_threads_followed s > 1)) (\<lambda>report.
     st_bind (if report
        then st_bind (sched_now os) (\<lambda>ts.
             sched_append crc (event_new_with_tid ThreadExit ts pid
               (thread_exit_encode \<lparr>te_tid = pid\<rparr>)))
        else st_return ()) (\<lambda>_.
     st_bind (st_modify (\<lambda>s. s\<lparr>sch_ready := filter (\<lambda>p. p \<noteq> pid) (sch_ready s),
         sch_leader_exit := if pid = sch_leader s then code else sch_leader_exit s\<rparr>)) (\<lambda>_.
     st_bind (st_get (\<lambda>s. sch_vfork_pending s pid)) (\<lambda>parent.
     case parent of
       Some par \<Rightarrow>
         st_bind (st_modify (\<lambda>s. s\<lparr>sch_vfork_pending := (sch_vfork_pending s)(pid := None)\<rparr>)) (\<lambda>_.
         requeue par)
     | None \<Rightarrow> st_return ())))))))"

definition handle :: "'os tracer_os \<Rightarrow> crc_fun \<Rightarrow> wait_status \<Rightarrow> ('os, unit) sched" where
  "handle os crc status = (case status of
       PtraceSyscall pid \<Rightarrow>
         st_bind (clear_running pid) (\<lambda>_.
         st_bind (on_syscall os crc pid) (\<lambda>_.
         requeue pid))
     | PtraceEvent pid sig event \<Rightarrow>
         st_bind (clear_running pid) (\<lambda>_.
         if is_spawn_event event
         then st_bind (on_spawn os crc pid) (\<lambda>child.
              if event = PTRACE_EVENT_VFORK
              then st_modify (\<lambda>s. s\<lparr>sch_vfork_pending := (sch_vfork_pending s)(child \<mapsto> pid)\<rparr>)
              else requeue pid)
         else requeue pid)
     | Stopped pid sig \<Rightarrow> on_stopped os crc pid sig
     | Exited pid code \<Rightarrow> on_exit os crc pid (Some code)
     | Signaled pid sig \<Rightarrow> on_exit os crc pid None
     | OtherStatus \<Rightarrow> st_return ())"

definition preempt :: "'os tracer_os \<Rightarrow> crc_fun \<Rightarrow> pid \<Rightarrow> ('os, unit) sched" where
  "preempt os crc cur = (\<lambda>s.
     case os_kill os cur SIGSTOP (sch_os s) of
       (r, o') \<Rightarrow>
         (let s' = s\<lparr>sch_os := o'\<rparr> in
          if r = Ok () \<or> r = Err ESRCH
          then st_bind (os_do Ptrace (os_waitpid os (Some cur))) (\<lambda>status. handle os crc status) s'
          else (map_err Ptrace r, s')))"

text \<open>One turn of the loop in \<open>run\<close>: whether the loop goes on.\<close>

definition run_body :: "'os tracer_os \<Rightarrow> crc_fun \<Rightarrow> ('os, bool) sched" where
  "run_body os crc =
     st_bind (\<lambda>s. if sch_running s = None then resume_next os crc s else (Ok (), s)) (\<lambda>_.
     st_bind (timer_arm os) (\<lambda>_. (\<lambda>s.
     case os_waitpid os None (sch_os s) of
       (Ok status, o') \<Rightarrow>
         st_bind (timer_disarm os) (\<lambda>_.
         st_bind (handle os crc status) (\<lambda>_.
         st_return True)) (s\<lparr>sch_os := o'\<rparr>)
     | (Err e, o') \<Rightarrow>
         (let s' = s\<lparr>sch_os := o'\<rparr> in
          if e = EINTR
          then st_bind (timer_disarm os) (\<lambda>_. (\<lambda>s.
               case sch_running s of
                 Some cur \<Rightarrow> st_bind (preempt os crc cur) (\<lambda>_. st_return True) s
               | None \<Rightarrow> (Ok True, s))) s'
          else if e = ECHILD then (Ok False, s')
          else (Err (Ptrace e), s')))))"

definition sched_outcome :: "'os scheduler \<Rightarrow> record_outcome" where
  "sched_outcome s = \<lparr>ro_exit_code = sch_leader_exit s, ro_events_recorded = sch_events_recorded s,
     ro_threads_followed = sch_threads_followed s\<rparr>"

text \<open>The loop of \<open>run\<close>, which may not end: at most \<open>fuel\<close> turns, \<open>None\<close> when they are used up.\<close>

fun run_loop :: "'os tracer_os \<Rightarrow> crc_fun \<Rightarrow> nat \<Rightarrow> 'os scheduler
    \<Rightarrow> ((record_outcome, capture_error) result \<times> 'os scheduler) option" where
  "run_loop os crc 0 s = None"
| "run_loop os crc (Suc fuel) s =
     (if sch_threads s = Map.empty then Some (Ok (sched_outcome s), s)
      else case run_body os crc s of
        (Ok True, s') \<Rightarrow> run_loop os crc fuel s'
      | (Ok False, s') \<Rightarrow> Some (Ok (sched_outcome s'), s')
      | (Err e, s') \<Rightarrow> Some (Err e, s'))"

subsection \<open>What the kernel promises\<close>

text \<open>
  \<open>resumed o\<close>: the tracees the kernel may be running in state \<open>o\<close>; \<open>seen o\<close>: the process ids that
  have been attached so far.
\<close>

definition quiet :: "('os \<Rightarrow> pid set) \<Rightarrow> ('os \<Rightarrow> pid set) \<Rightarrow> ('os, 'a, errno) st \<Rightarrow> bool" where
  "quiet resumed seen m \<longleftrightarrow>
     (\<forall>o0. resumed (snd (m o0)) = resumed o0 \<and> seen (snd (m o0)) = seen o0)"

fun wait_effect :: "('os \<Rightarrow> pid set) \<Rightarrow> ('os \<Rightarrow> pid set) \<Rightarrow> wait_status \<Rightarrow> 'os \<Rightarrow> 'os \<Rightarrow> bool" where
  "wait_effect resumed seen (PtraceSyscall p) o0 o1 \<longleftrightarrow>
     p \<in> resumed o0 \<and> resumed o1 = resumed o0 - {p} \<and> seen o1 = seen o0"
| "wait_effect resumed seen (PtraceEvent p sig ev) o0 o1 \<longleftrightarrow>
     p \<in> resumed o0 \<and> resumed o1 = resumed o0 - {p} \<and> seen o1 = seen o0"
| "wait_effect resumed seen (Stopped p sig) o0 o1 \<longleftrightarrow>
     p \<in> resumed o0 \<and> resumed o1 = resumed o0 - {p} \<and> seen o1 = seen o0
     \<or> p \<notin> seen o0 \<and> resumed o1 = resumed o0 \<and> seen o1 = insert p (seen o0)"
| "wait_effect resumed seen (Exited p code) o0 o1 \<longleftrightarrow>
     resumed o1 = resumed o0 - {p} \<and> seen o1 = seen o0"
| "wait_effect resumed seen (Signaled p sig) o0 o1 \<longleftrightarrow>
     resumed o1 = resumed o0 - {p} \<and> seen o1 = seen o0"
| "wait_effect resumed seen OtherStatus o0 o1 \<longleftrightarrow> resumed o1 = resumed o0 \<and> seen o1 = seen o0"

definition kernel_laws :: "'os tracer_os \<Rightarrow> ('os \<Rightarrow> pid set) \<Rightarrow> ('os \<Rightarrow> pid set) \<Rightarrow> bool" where
  "kernel_laws os resumed seen \<longleftrightarrow>
     (\<forall>p. quiet resumed seen (os_pin os p)) \<and> quiet resumed seen (os_timer_install os)
   \<and> (\<forall>b. quiet resumed seen (os_timer_set os b)) \<and> (\<forall>p g. quiet resumed seen (os_kill os p g))
   \<and> (\<forall>p. quiet resumed seen (os_regs os p)) \<and> (\<forall>p. quiet resumed seen (os_getevent os p))
   \<and> (\<forall>p. quiet resumed seen (os_setoptions os p))
   \<and> (\<forall>p sig o0 o1. os_syscall os p sig o0 = (Ok (), o1)
        \<longrightarrow> resumed o1 = insert p (resumed o0) \<and> seen o1 = seen o0)
   \<and> (\<forall>q o0 o1 e. os_waitpid os q o0 = (Err e, o1) \<longrightarrow> resumed o1 = resumed o0 \<and> seen o1 = seen o0)
   \<and> (\<forall>q o0 o1 st. os_waitpid os q o0 = (Ok st, o1) \<longrightarrow> wait_effect resumed seen st o0 o1)
   \<and> (\<forall>p o0 o1 r. os_regs os p o0 = (Ok r, o1) \<longrightarrow> args6 (sr_args r) \<and> ret_small (sr_ret r))"

lemma quietD: "quiet resumed seen m \<Longrightarrow> m o0 = (r, o1) \<Longrightarrow> resumed o1 = resumed o0 \<and> seen o1 = seen o0"
  by (metis quiet_def snd_conv)

lemma kernel_laws_quiet:
  assumes "kernel_laws os resumed seen"
  shows "os_pin os p o0 = (r, o1) \<Longrightarrow> resumed o1 = resumed o0 \<and> seen o1 = seen o0"
    "os_timer_install os o0 = (r, o1) \<Longrightarrow> resumed o1 = resumed o0 \<and> seen o1 = seen o0"
    "os_timer_set os b o0 = (r, o1) \<Longrightarrow> resumed o1 = resumed o0 \<and> seen o1 = seen o0"
    "os_kill os p g o0 = (r, o1) \<Longrightarrow> resumed o1 = resumed o0 \<and> seen o1 = seen o0"
    "os_regs os p o0 = (rr, o1) \<Longrightarrow> resumed o1 = resumed o0 \<and> seen o1 = seen o0"
    "os_getevent os p o0 = (rm, o1) \<Longrightarrow> resumed o1 = resumed o0 \<and> seen o1 = seen o0"
    "os_setoptions os p o0 = (r, o1) \<Longrightarrow> resumed o1 = resumed o0 \<and> seen o1 = seen o0"
  using assms unfolding kernel_laws_def by (elim conjE; meson quietD)+

subsection \<open>The trace as a monitor\<close>

text \<open>
  An observer that reads the recorded events alone: which thread the schedule says is running, and
  which syscalls are in flight. It refuses a syscall, signal or spawn of a thread that the schedule
  does not have on the CPU, a switch to the thread already running, and an exit without its entry.
\<close>

type_synonym monitor = "in_flight \<times> u32"

definition mon_step :: "monitor \<Rightarrow> event \<Rightarrow> monitor option" where
  "mon_step mon e = (case mon of (m, cur) \<Rightarrow> (case ev_kind e of
       SchedSwitch \<Rightarrow> (case sched_switch_decode (ev_payload e) of
           Ok sw \<Rightarrow> (if ev_tid e = Some (ss_tid sw) \<and> ss_tid sw \<noteq> cur then Some (m, ss_tid sw) else None)
         | Err _ \<Rightarrow> None)
     | ThreadExit \<Rightarrow> map_option (\<lambda>m'. (m', cur)) (pair_step m e)
     | k \<Rightarrow> (if k \<in> {SyscallEnter, SyscallExit, Signal, ThreadSpawn} \<and> ev_tid e = Some cur
             then map_option (\<lambda>m'. (m', cur)) (pair_step m e) else None)))"

fun mon_run :: "monitor \<Rightarrow> event list \<Rightarrow> monitor option" where
  "mon_run mon [] = Some mon"
| "mon_run mon (e # es) = (case mon_step mon e of Some mon' \<Rightarrow> mon_run mon' es | None \<Rightarrow> None)"

lemma mon_run_append:
  "mon_run mon (xs @ ys) = (case mon_run mon xs of Some mon' \<Rightarrow> mon_run mon' ys | None \<Rightarrow> None)"
  by (induction xs arbitrary: mon) (auto split: option.splits)

text \<open>
  What the observer knows of a scheduler state: the thread that holds the CPU and, for every thread
  followed, the syscall it is in. (The exit of the leader as the only thread leaves no record.)
\<close>

definition in_syscall :: "'os scheduler \<Rightarrow> in_flight" where
  "in_syscall s t = Option.bind (sch_threads s t) (\<lambda>th. map_option sr_nr (th_pending_enter th))"

definition mon_ok :: "monitor \<Rightarrow> 'os scheduler \<Rightarrow> bool" where
  "mon_ok mon s \<longleftrightarrow> sch_last_scheduled s = Some (snd mon)
     \<and> (\<forall>t. fst mon t = in_syscall s t \<or> t = sch_leader s \<and> sch_threads s t = None)"

definition appended :: "crc_fun \<Rightarrow> trace_writer \<Rightarrow> event list \<Rightarrow> trace_writer \<Rightarrow> bool" where
  "appended crc w es w' \<longleftrightarrow> (\<exists>seqs. append_all crc es w = (Ok seqs, w'))"

lemma append_all_append:
  "append_all crc (xs @ ys) = st_bind (append_all crc xs) (\<lambda>a.
     st_bind (append_all crc ys) (\<lambda>b. st_return (a @ b)))"
proof (induction xs)
  case Nil
  then show ?case by (auto simp: st_defs fun_eq_iff split: prod.splits result.splits)
next
  case (Cons e xs)
  then show ?case
    by (auto simp: st_defs fun_eq_iff split: prod.splits result.splits)
qed

lemma appended_nil [simp]: "appended crc w [] w"
  by (simp add: appended_def st_return_def)

lemma appended_one: "append_event crc e w = (Ok seq, w') \<Longrightarrow> appended crc w [e] w'"
  by (simp add: appended_def st_defs)

lemma appended_trans: "appended crc w es w' \<Longrightarrow> appended crc w' fs w'' \<Longrightarrow> appended crc w (es @ fs) w''"
  by (auto simp: appended_def append_all_append st_defs)

definition logs :: "crc_fun \<Rightarrow> 'os scheduler \<Rightarrow> event list \<Rightarrow> 'os scheduler \<Rightarrow> bool" where
  "logs crc s es s' \<longleftrightarrow> appended crc (sch_writer s) es (sch_writer s')
     \<and> (\<forall>mon. mon_ok mon s \<longrightarrow> (\<exists>mon'. mon_run mon es = Some mon' \<and> mon_ok mon' s'))
     \<and> sch_events_recorded s' = sch_events_recorded s + length es
     \<and> sch_threads_followed s \<le> sch_threads_followed s'
     \<and> (sch_threads_followed s' \<le> 1 \<longrightarrow> (\<forall>e \<in> set es. ev_kind e \<notin> {SchedSwitch, ThreadExit}))"

lemma logs_nil:
  "sch_writer s' = sch_writer s \<Longrightarrow> sch_threads_followed s \<le> sch_threads_followed s' \<Longrightarrow> (\<And>mon. mon_ok mon s \<Longrightarrow> mon_ok mon s') \<Longrightarrow>
   sch_events_recorded s' = sch_events_recorded s \<Longrightarrow> logs crc s [] s'"
  by (simp add: logs_def)

lemma logs_one:
  "append_event crc e (sch_writer s) = (Ok seq, sch_writer s') \<Longrightarrow>
   (\<And>m cur. mon_ok (m, cur) s \<Longrightarrow> \<exists>mon'. mon_step (m, cur) e = Some mon' \<and> mon_ok mon' s') \<Longrightarrow>
   sch_events_recorded s' = Suc (sch_events_recorded s) \<Longrightarrow> sch_threads_followed s \<le> sch_threads_followed s' \<Longrightarrow>
   (sch_threads_followed s' \<le> 1 \<Longrightarrow> ev_kind e \<notin> {SchedSwitch, ThreadExit}) \<Longrightarrow> logs crc s [e] s'"
  by (fastforce simp: logs_def appended_one)

lemma logs_trans: "logs crc s es s' \<Longrightarrow> logs crc s' fs s'' \<Longrightarrow> logs crc s (es @ fs) s''"
  unfolding logs_def
proof (elim conjE, intro conjI, goal_cases)
  case 1
  then show ?case by (blast intro: appended_trans)
next
  case 2
  show ?case
  proof (intro allI impI)
    fix mon assume "mon_ok mon s"
    with 2 obtain mon' mon'' where "mon_run mon es = Some mon'" "mon_run mon' fs = Some mon''"
      "mon_ok mon'' s''" by blast
    then show "\<exists>mon'. mon_run mon (es @ fs) = Some mon' \<and> mon_ok mon' s''" by (simp add: mon_run_append)
  qed
qed auto

lemma mon_ok_D:
  "mon_ok (m, cur) s \<Longrightarrow> sch_last_scheduled s = Some cur"
  "mon_ok (m, cur) s \<Longrightarrow> sch_threads s t = Some th \<Longrightarrow> m t = map_option sr_nr (th_pending_enter th)"
  by (auto simp: mon_ok_def in_syscall_def dest!: spec [of _ t])

lemma mon_ok_cong:
  "sch_last_scheduled s' = sch_last_scheduled s \<Longrightarrow> sch_leader s' = sch_leader s \<Longrightarrow>
   in_syscall s' = in_syscall s \<Longrightarrow> (\<forall>t. (sch_threads s' t = None) = (sch_threads s t = None)) \<Longrightarrow>
   mon_ok mon s' = mon_ok mon s"
  by (simp add: mon_ok_def)

subsection \<open>The invariant\<close>

definition queue_inv :: "'os scheduler \<Rightarrow> bool" where
  "queue_inv s \<longleftrightarrow> distinct (sch_ready s) \<and> (\<forall>p \<in> set (sch_ready s). sch_threads s p \<noteq> None)
     \<and> (\<forall>p. sch_running s = Some p \<longrightarrow>
          sch_threads s p \<noteq> None \<and> p \<notin> set (sch_ready s) \<and> sch_last_scheduled s = Some p)
     \<and> sch_last_scheduled s \<noteq> None"

definition vfork_inv :: "'os scheduler \<Rightarrow> bool" where
  "vfork_inv s \<longleftrightarrow>
     (\<forall>c d p. sch_vfork_pending s c = Some p \<longrightarrow> sch_vfork_pending s d = Some p \<longrightarrow> c = d)
   \<and> (\<forall>c p. sch_vfork_pending s c = Some p \<longrightarrow> p \<notin> set (sch_ready s) \<and> sch_running s \<noteq> Some p)"

definition kernel_inv :: "('os \<Rightarrow> pid set) \<Rightarrow> ('os \<Rightarrow> pid set) \<Rightarrow> 'os scheduler \<Rightarrow> bool" where
  "kernel_inv resumed seen s \<longleftrightarrow>
     (\<forall>p \<in> resumed (sch_os s). sch_running s = Some p)
   \<and> sch_leader s \<in> seen (sch_os s)
   \<and> (\<forall>p. sch_threads s p \<noteq> None \<longrightarrow> p \<in> seen (sch_os s))
   \<and> (\<forall>c p. sch_vfork_pending s c = Some p \<longrightarrow> p \<in> seen (sch_os s))"

definition count_inv :: "'os scheduler \<Rightarrow> bool" where
  "count_inv s \<longleftrightarrow> 1 \<le> sch_threads_followed s \<and>
     (sch_threads_followed s = 1 \<longrightarrow> (\<forall>p. sch_threads s p \<noteq> None \<longrightarrow> p = sch_leader s)
        \<and> sch_last_scheduled s = Some (sch_leader s))"

definition sched_inv :: "('os \<Rightarrow> pid set) \<Rightarrow> ('os \<Rightarrow> pid set) \<Rightarrow> 'os scheduler \<Rightarrow> bool" where
  "sched_inv resumed seen s \<longleftrightarrow>
     queue_inv s \<and> vfork_inv s \<and> kernel_inv resumed seen s \<and> count_inv s"

lemmas inv_defs = sched_inv_def queue_inv_def vfork_inv_def kernel_inv_def count_inv_def

text \<open>What a status that \<open>waitpid\<close> has just returned says, for the state it is handled in.\<close>

fun status_ok :: "('os \<Rightarrow> pid set) \<Rightarrow> ('os \<Rightarrow> pid set) \<Rightarrow> wait_status \<Rightarrow> 'os scheduler \<Rightarrow> bool" where
  "status_ok resumed seen (PtraceSyscall p) s \<longleftrightarrow> sch_running s = Some p \<and> resumed (sch_os s) = {}"
| "status_ok resumed seen (PtraceEvent p sig ev) s \<longleftrightarrow> sch_running s = Some p \<and> resumed (sch_os s) = {}"
| "status_ok resumed seen (Stopped p sig) s \<longleftrightarrow>
     sch_running s = Some p \<and> resumed (sch_os s) = {}
     \<or> sch_threads s p = None \<and> p \<noteq> sch_leader s \<and> (\<forall>c. sch_vfork_pending s c \<noteq> Some p)
       \<and> p \<in> seen (sch_os s)"
| "status_ok resumed seen (Exited p code) s \<longleftrightarrow> p \<notin> resumed (sch_os s)"
| "status_ok resumed seen (Signaled p sig) s \<longleftrightarrow> p \<notin> resumed (sch_os s)"
| "status_ok resumed seen OtherStatus s \<longleftrightarrow> True"

text \<open>Unfolding a successful run of the primitive operations.\<close>

lemma ev_kind_new: "ev_kind (event_new_with_tid k ts t p) = k"
  by (simp add: event_new_with_tid_def)

lemma os_do_Ok: "os_do f m s = (Ok x, s') \<longleftrightarrow> (\<exists>o'. m (sch_os s) = (Ok x, o') \<and> s' = s\<lparr>sch_os := o'\<rparr>)"
  by (auto simp: os_do_def split: prod.splits)

lemma sched_append_Ok: "sched_append crc e s = (Ok x, s') \<longleftrightarrow>
    (\<exists>seq w. append_event crc e (sch_writer s) = (Ok seq, w)
      \<and> s' = s\<lparr>sch_writer := w, sch_events_recorded := Suc (sch_events_recorded s)\<rparr>)"
  by (auto simp: sched_append_def split: prod.splits result.splits)

lemma st_modify_Ok: "st_modify f s = (Ok x, s') \<longleftrightarrow> s' = f s"
  by (auto simp: st_modify_def)

lemma st_get_Ok: "st_get f s = (Ok x, s') \<longleftrightarrow> x = f s \<and> s' = s"
  by (auto simp: st_get_def)

lemma st_return_Ok: "st_return y s = (Ok x, s') \<longleftrightarrow> x = y \<and> s' = s"
  by (auto simp: st_return_def)

lemmas sched_Ok = st_bind_Ok os_do_Ok sched_append_Ok st_modify_Ok st_get_Ok st_return_Ok

lemma thread_update_eq: "thread_update p f s
    = (Ok (), s\<lparr>sch_threads := (sch_threads s)(p := map_option f (sch_threads s p))\<rparr>)"
  by (cases s) (auto simp: thread_update_def st_modify_def fun_upd_idem split: option.splits)

text \<open>The events the scheduler appends, seen by the monitor.\<close>

lemma mon_step_switch:
  "next \<noteq> cur \<Longrightarrow> mon_step (m, cur) (event_new_with_tid SchedSwitch ts next
     (sched_switch_encode \<lparr>ss_tid = next\<rparr>)) = Some (m, next)"
  using sched_switch_codec.dec_prefix [of "\<lparr>ss_tid = next\<rparr>" "[]"]
  by (simp add: mon_step_def event_new_with_tid_def)

lemma mon_step_enter:
  "args6 (sr_args regs) \<Longrightarrow> m tid = None \<Longrightarrow>
   mon_step (m, tid) (enter_event ts tid regs) = Some (m(tid := Some (sr_nr regs)), tid)"
  using pair_step_enter [of regs m ts tid] by (simp add: mon_step_def enter_event_def event_new_with_tid_def)

lemma mon_step_exit:
  assumes "exit_event abi vm ts tid pid enter ret = Ok e" and "ret_small ret"
    and "m tid = Some (sr_nr enter)"
  shows "mon_step (m, tid) e = Some (m(tid := None), tid)"
proof -
  obtain p where "e = event_new_with_tid SyscallExit ts tid p"
    using assms(1) by (rule exit_event_payload) blast
  with pair_step_exit [OF assms(1,2), of m] assms(3) show ?thesis
    by (simp add: mon_step_def event_new_with_tid_def)
qed

lemma mon_step_other:
  "k \<in> {Signal, ThreadSpawn} \<Longrightarrow> mon_step (m, tid) (event_new_with_tid k ts tid p) = Some (m, tid)"
  using pair_step_other [of k m ts tid p] by (auto simp: mon_step_def event_new_with_tid_def)

lemma mon_step_thread_exit:
  "mon_step (m, cur) (event_new_with_tid ThreadExit ts t (thread_exit_encode \<lparr>te_tid = tid\<rparr>))
     = Some (m(tid := None), cur)"
  using pair_step_thread_exit [of m ts t tid] by (simp add: mon_step_def event_new_with_tid_def)

subsection \<open>Preservation\<close>

text \<open>Taking the thread at the head of the queue, once a switch has been recorded when it is one.\<close>

lemma record_sched_switch_Ok:
  assumes "record_sched_switch os crc p s = (Ok (), s')" and "sch_last_scheduled s \<noteq> None"
    and "sch_threads_followed s \<le> 1 \<longrightarrow> sch_last_scheduled s = Some p"
  obtains w n es where "s' = s\<lparr>sch_last_scheduled := Some p, sch_writer := w, sch_events_recorded := n\<rparr>"
    and "logs crc s es s'"
proof (cases "sch_last_scheduled s = Some p")
  case True
  with assms have "s' = s" by (simp add: record_sched_switch_def)
  with True that [of "sch_events_recorded s" "sch_writer s" "[]"] show ?thesis
    by (simp add: logs_nil)
next
  case False
  with assms(1) obtain seq w ts where a: "append_event crc (event_new_with_tid SchedSwitch ts p
      (sched_switch_encode \<lparr>ss_tid = p\<rparr>)) (sch_writer s) = (Ok seq, w)"
    and s': "s' = s\<lparr>sch_last_scheduled := Some p, sch_writer := w,
      sch_events_recorded := Suc (sch_events_recorded s)\<rparr>"
    by (auto simp: record_sched_switch_def sched_now_def sched_Ok)
  have "p \<noteq> the (sch_last_scheduled s)" using False assms(2) by auto
  then have "logs crc s [event_new_with_tid SchedSwitch ts p (sched_switch_encode \<lparr>ss_tid = p\<rparr>)] s'"
    by (intro logs_one [of _ _ _ seq])
       (use False assms(3) in \<open>auto simp: a s' mon_ok_def in_syscall_def mon_step_switch\<close>)
  with s' that show ?thesis by blast
qed

lemma resume_next_inv:
  assumes laws: "kernel_laws os resumed seen" and inv: "sched_inv resumed seen s"
    and idle: "sch_running s = None" and run: "resume_next os crc s = (Ok (), s')"
  shows "sched_inv resumed seen s' \<and> (\<exists>es. logs crc s es s')"
proof (cases "sch_ready s")
  case Nil
  with run inv show ?thesis by (auto simp: resume_next_def intro!: logs_nil)
next
  case (Cons p rest)
  from inv idle have quiet: "resumed (sch_os s) = {}" and last: "sch_last_scheduled s \<noteq> None"
    by (auto simp: inv_defs)
  have lead: "sch_threads_followed s \<le> 1 \<longrightarrow> sch_last_scheduled s = Some p"
    using inv Cons by (auto simp: inv_defs)
  from run Cons obtain s1 sig o' where
    sw: "record_sched_switch os crc p (s\<lparr>sch_ready := rest\<rparr>) = (Ok (), s1)"
    and sys: "os_syscall os p sig (sch_os s1) = (Ok (), o')"
    and s': "s' = s1\<lparr>sch_threads := (sch_threads s1)(p := map_option
          (\<lambda>t. t\<lparr>th_resume_signal := None\<rparr>) (sch_threads s1 p)), sch_os := o', sch_running := Some p\<rparr>"
    by (auto simp: resume_next_def thread_update_eq sched_Ok)
  from sw obtain w n es where
    s1: "s1 = s\<lparr>sch_ready := rest, sch_last_scheduled := Some p, sch_writer := w, sch_events_recorded := n\<rparr>"
    and lg: "logs crc (s\<lparr>sch_ready := rest\<rparr>) es s1"
    by (rule record_sched_switch_Ok) (use last lead in auto)
  from sys laws quiet have "resumed o' = {p}" "seen o' = seen (sch_os s)"
    by (auto simp: kernel_laws_def s1)
  with inv Cons idle have "sched_inv resumed seen s'"
    by (auto simp: inv_defs s' s1 split: if_splits)
  have "in_syscall s' = in_syscall s1"
    by (cases "sch_threads s1 p") (auto simp: in_syscall_def s' fun_eq_iff)
  then have "mon_ok mon s' = mon_ok mon s1" for mon by (intro mon_ok_cong) (auto simp: s')
  moreover have "mon_ok mon s = mon_ok mon (s\<lparr>sch_ready := rest\<rparr>)" for mon
    by (intro mon_ok_cong) (auto simp: in_syscall_def fun_eq_iff)
  ultimately have "logs crc s es s'" using lg by (simp add: logs_def s')
  with \<open>sched_inv resumed seen s'\<close> show ?thesis by blast
qed

text \<open>The invariant does not depend on the writer, the counters of events, nor the threads' contents.\<close>

definition same_control :: "('os \<Rightarrow> pid set) \<Rightarrow> ('os \<Rightarrow> pid set) \<Rightarrow> 'os scheduler \<Rightarrow> 'os scheduler \<Rightarrow> bool"
where
  "same_control resumed seen s s' \<longleftrightarrow> sch_ready s' = sch_ready s \<and> sch_running s' = sch_running s
     \<and> sch_last_scheduled s' = sch_last_scheduled s \<and> sch_leader s' = sch_leader s
     \<and> sch_threads_followed s' = sch_threads_followed s \<and> sch_vfork_pending s' = sch_vfork_pending s
     \<and> (\<forall>p. (sch_threads s' p = None) = (sch_threads s p = None))
     \<and> resumed (sch_os s') = resumed (sch_os s) \<and> seen (sch_os s') = seen (sch_os s)"

lemma sched_inv_cong:
  "same_control resumed seen s s' \<Longrightarrow> sched_inv resumed seen s \<Longrightarrow> sched_inv resumed seen s'"
  by (simp add: inv_defs same_control_def)

lemma running_facts:
  assumes "sched_inv resumed seen s" and "sch_running s = Some p"
  obtains t where "sch_threads s p = Some t" and "sch_last_scheduled s = Some p"
    and "\<forall>c. sch_vfork_pending s c \<noteq> Some p"
proof -
  have "sch_threads s p \<noteq> None" "sch_last_scheduled s = Some p"
    using assms unfolding sched_inv_def queue_inv_def by blast+
  moreover have "\<forall>c. sch_vfork_pending s c \<noteq> Some p"
    using assms unfolding sched_inv_def vfork_inv_def by blast
  ultimately show ?thesis using that by blast
qed

lemma requeue_inv:
  assumes "sched_inv resumed seen s" and "sch_running s \<noteq> Some p"
    and "\<forall>c. sch_vfork_pending s c \<noteq> Some p" and "requeue p s = (Ok (), s')"
  shows "sched_inv resumed seen s' \<and> logs crc s [] s'"
proof -
  have s': "s' = (if sch_threads s p \<noteq> None \<and> p \<notin> set (sch_ready s)
      then s\<lparr>sch_ready := sch_ready s @ [p]\<rparr> else s)"
    using assms(4) by (simp add: requeue_def st_modify_def)
  with assms(1-3) have "sched_inv resumed seen s'" by (auto simp: inv_defs)
  moreover have "logs crc s [] s'" using s' by (intro logs_nil) (simp_all add: mon_ok_def in_syscall_def)
  ultimately show ?thesis by simp
qed

lemma clear_running_inv:
  assumes "sched_inv resumed seen s" and "p \<notin> resumed (sch_os s)" and "clear_running p s = (Ok (), s')"
  shows "sched_inv resumed seen s' \<and> logs crc s [] s' \<and> sch_running s' \<noteq> Some p
    \<and> sch_threads s' = sch_threads s \<and> sch_vfork_pending s' = sch_vfork_pending s
    \<and> sch_last_scheduled s' = sch_last_scheduled s \<and> sch_os s' = sch_os s"
proof -
  have s': "s' = (if sch_running s = Some p then s\<lparr>sch_running := None\<rparr> else s)"
    using assms(3) by (simp add: clear_running_def st_modify_def)
  with assms(1,2) have "sched_inv resumed seen s'" by (auto simp: inv_defs)
  moreover have "logs crc s [] s'" using s' by (intro logs_nil) (simp_all add: mon_ok_def in_syscall_def)
  ultimately show ?thesis using s' by auto
qed

lemma on_syscall_inv:
  assumes laws: "kernel_laws os resumed seen" and last: "sch_last_scheduled s = Some p"
    and t: "sch_threads s p = Some t" and run: "on_syscall os crc p s = (Ok (), s')"
  shows "same_control resumed seen s s' \<and> (\<exists>es. logs crc s es s')"
proof -
  from run obtain regs o1 where r: "os_regs os p (sch_os s) = (Ok regs, o1)"
    by (auto simp: on_syscall_def sched_Ok)
  then have regs: "args6 (sr_args regs)" "ret_small (sr_ret regs)"
    and os: "resumed o1 = resumed (sch_os s)" "seen o1 = seen (sch_os s)"
    using laws kernel_laws_quiet(5) [OF laws r] by (auto simp: kernel_laws_def)
  show ?thesis
  proof (cases "th_pending_enter t")
    case None
    with run r t obtain ts seq w where
      a: "append_event crc (enter_event ts p regs) (sch_writer s) = (Ok seq, w)"
      and s': "s' = s\<lparr>sch_os := o1, sch_threads := (sch_threads s)(p \<mapsto> t\<lparr>th_pending_enter := Some regs\<rparr>),
        sch_writer := w, sch_events_recorded := Suc (sch_events_recorded s)\<rparr>"
      by (auto simp: on_syscall_def sched_now_def thread_update_eq sched_Ok)
    have "\<exists>mon'. mon_step (m, cur) (enter_event ts p regs) = Some mon' \<and> mon_ok mon' s'"
      if "mon_ok (m, cur) s" for m cur
      using mon_ok_D(1) [OF that] mon_ok_D(2) [OF that t] that regs(1) last None t
      by (auto simp: mon_step_enter s' mon_ok_def in_syscall_def)
    with a s' have "logs crc s [enter_event ts p regs] s'" by (intro logs_one) (auto simp: enter_event_def event_new_with_tid_def)
    with os s' t show ?thesis by (auto simp: same_control_def)
  next
    case (Some enter)
    with run r t obtain ts e seq w where
      e: "exit_event (os_abi os) (os_vm_read os o1) ts p p enter (sr_ret regs) = Ok e"
      and a: "append_event crc e (sch_writer s) = (Ok seq, w)"
      and s': "s' = s\<lparr>sch_os := o1, sch_threads := (sch_threads s)(p \<mapsto> t\<lparr>th_pending_enter := None\<rparr>),
        sch_writer := w, sch_events_recorded := Suc (sch_events_recorded s)\<rparr>"
      by (auto simp: on_syscall_def sched_now_def thread_update_eq sched_Ok)
    have "\<exists>mon'. mon_step (m, cur) e = Some mon' \<and> mon_ok mon' s'"
      if "mon_ok (m, cur) s" for m cur
      using mon_ok_D(1) [OF that] mon_ok_D(2) [OF that t] that mon_step_exit [OF e regs(2), of m] last Some t
      by (auto simp: s' mon_ok_def in_syscall_def)
    moreover have "ev_kind e = SyscallExit"
      using e by (rule exit_event_payload) (simp add: event_new_with_tid_def)
    ultimately have "logs crc s [e] s'" using a s' by (intro logs_one) auto
    with os s' t show ?thesis by (auto simp: same_control_def)
  qed
qed

lemma on_spawn_inv:
  assumes laws: "kernel_laws os resumed seen" and last: "sch_last_scheduled s = Some p"
    and run: "on_spawn os crc p s = (Ok child, s')"
  shows "same_control resumed seen s s' \<and> (\<exists>es. logs crc s es s')"
proof -
  from run obtain msg o1 ts seq w where
    o1: "os_getevent os p (sch_os s) = (Ok msg, o1)" and c: "child = ucast msg"
    and a: "append_event crc (event_new_with_tid ThreadSpawn ts p
       (thread_spawn_encode \<lparr>ts_parent_tid = p, ts_child_tid = ucast msg\<rparr>)) (sch_writer s) = (Ok seq, w)"
    and s': "s' = s\<lparr>sch_os := o1, sch_writer := w, sch_events_recorded := Suc (sch_events_recorded s)\<rparr>"
    by (auto simp: on_spawn_def sched_now_def Let_def sched_Ok)
  have "logs crc s [event_new_with_tid ThreadSpawn ts p
       (thread_spawn_encode \<lparr>ts_parent_tid = p, ts_child_tid = ucast msg\<rparr>)] s'"
    using a s' last
    by (intro logs_one) (auto simp: mon_ok_def in_syscall_def mon_step_other ev_kind_new)
  with kernel_laws_quiet(6) [OF laws o1] s' show ?thesis by (auto simp: same_control_def)
qed

lemma register_child_inv:
  assumes laws: "kernel_laws os resumed seen" and inv: "sched_inv resumed seen s"
    and new: "sch_threads s p = None" "p \<in> seen (sch_os s)" "p \<noteq> sch_leader s"
    and run: "register_child os p s = (Ok (), s')"
  shows "sched_inv resumed seen s' \<and> logs crc s [] s' \<and> sch_running s' = sch_running s
    \<and> sch_vfork_pending s' = sch_vfork_pending s \<and> sch_threads s' p \<noteq> None"
proof -
  from run obtain o1 o2 where o1: "os_pin os p (sch_os s) = (Ok (), o1)"
    and o2: "os_setoptions os p o1 = (Ok (), o2)"
    and s': "s' = s\<lparr>sch_os := o2, sch_threads := (sch_threads s)(p \<mapsto> thread_default),
        sch_threads_followed := Suc (sch_threads_followed s)\<rparr>"
    by (auto simp: register_child_def pin_to_serialization_cpu_def sched_Ok)
  have "resumed o2 = resumed (sch_os s)" "seen o2 = seen (sch_os s)"
    using kernel_laws_quiet(1) [OF laws o1] kernel_laws_quiet(7) [OF laws o2] by auto
  with inv new have "sched_inv resumed seen s'" by (auto simp: inv_defs s')
  moreover have "logs crc s [] s'"
    using new(1,3)
    by (intro logs_nil) (auto simp: s' mon_ok_def in_syscall_def thread_default_def dest!: spec [of _ p])
  ultimately show ?thesis by (simp add: s')
qed

lemma on_stopped_known_inv:
  assumes inv: "sched_inv resumed seen s" and idle: "p \<notin> resumed (sch_os s)"
    and cur: "sch_running s = Some p" and run: "on_stopped os crc p sig s = (Ok (), s')"
  shows "sched_inv resumed seen s' \<and> (\<exists>es. logs crc s es s')"
proof -
  from inv cur obtain t where t: "sch_threads s p = Some t" and last: "sch_last_scheduled s = Some p"
    and vf: "\<forall>c. sch_vfork_pending s c \<noteq> Some p"
    by (rule running_facts)
  from run t obtain s1 s2 where s1: "clear_running p s = (Ok (), s1)"
    and s2: "(if sig \<noteq> SIGSTOP then st_bind (sched_now os) (\<lambda>ts. st_bind (sched_append crc
         (event_new_with_tid Signal ts p (signal_delivery_encode \<lparr>sd_signum = sig\<rparr>))) (\<lambda>_.
           thread_update p (\<lambda>t. t\<lparr>th_resume_signal := Some sig\<rparr>))) else st_return ()) s1 = (Ok (), s2)"
    and rq: "requeue p s2 = (Ok (), s')"
    by (auto simp: on_stopped_def st_bind_Ok)
  note c = clear_running_inv [OF inv idle s1]
  have "same_control resumed seen s1 s2 \<and> (\<exists>es. logs crc s1 es s2)"
  proof (cases "sig = SIGSTOP")
    case True
    with s2 show ?thesis by (auto simp: same_control_def st_return_Ok intro!: logs_nil)
  next
    case False
    with s2 obtain ts seq w where
      a: "append_event crc (event_new_with_tid Signal ts p (signal_delivery_encode \<lparr>sd_signum = sig\<rparr>))
        (sch_writer s1) = (Ok seq, w)"
      and s2': "s2 = s1\<lparr>sch_writer := w, sch_events_recorded := Suc (sch_events_recorded s1),
        sch_threads := (sch_threads s1)(p := map_option (\<lambda>t. t\<lparr>th_resume_signal := Some sig\<rparr>) (sch_threads s1 p))\<rparr>"
      by (auto simp: sched_now_def thread_update_eq sched_Ok)
    have "sch_last_scheduled s1 = Some p" "sch_threads s1 p = Some t"
      using last t c by auto
    moreover from this have mon: "mon_ok mon s2 = mon_ok mon s1" for mon
      by (intro mon_ok_cong) (auto simp: s2' in_syscall_def fun_eq_iff)
    ultimately have "\<exists>mon'. mon_step (m, cur) (event_new_with_tid Signal ts p
        (signal_delivery_encode \<lparr>sd_signum = sig\<rparr>)) = Some mon' \<and> mon_ok mon' s2"
      if "mon_ok (m, cur) s1" for m cur
      using mon_ok_D(1) [OF that] that by (simp add: mon_step_other mon)
    with a s2' have "logs crc s1 [event_new_with_tid Signal ts p
        (signal_delivery_encode \<lparr>sd_signum = sig\<rparr>)] s2"
      by (intro logs_one) (auto simp: enter_event_def event_new_with_tid_def)
    with s2' \<open>sch_threads s1 p = _\<close> show ?thesis by (auto simp: same_control_def)
  qed
  then obtain es where sc: "same_control resumed seen s1 s2" and l2: "logs crc s1 es s2" by blast
  have "sch_vfork_pending s2 = sch_vfork_pending s" "sch_running s2 \<noteq> Some p"
    using sc c by (auto simp: same_control_def)
  with requeue_inv [OF sched_inv_cong [OF sc] _ _ rq] c vf
  have "sched_inv resumed seen s'" "logs crc s2 [] s'" by auto
  with c l2 logs_trans show ?thesis by (metis append_Nil append_Nil2)
qed

lemma on_stopped_inv:
  assumes laws: "kernel_laws os resumed seen" and inv: "sched_inv resumed seen s"
    and ok: "status_ok resumed seen (Stopped p sig) s" and run: "on_stopped os crc p sig s = (Ok (), s')"
  shows "sched_inv resumed seen s' \<and> (\<exists>es. logs crc s es s')"
proof (cases "sch_threads s p")
  case (Some t)
  with ok have "sch_running s = Some p" "resumed (sch_os s) = {}" by auto
  with on_stopped_known_inv [OF inv _ _ run] show ?thesis by simp
next
  case None
  with inv have nr: "sch_running s \<noteq> Some p" by (auto elim: running_facts)
  with ok None have new: "p \<noteq> sch_leader s" "\<forall>c. sch_vfork_pending s c \<noteq> Some p" "p \<in> seen (sch_os s)"
    by auto
  from run None obtain s1 where s1: "register_child os p s = (Ok (), s1)" and rq: "requeue p s1 = (Ok (), s')"
    by (auto simp: on_stopped_def st_bind_Ok)
  from register_child_inv [OF laws inv None new(3,1) s1, of crc] have r: "sched_inv resumed seen s1"
    "logs crc s [] s1" "sch_running s1 = sch_running s" "sch_vfork_pending s1 = sch_vfork_pending s"
    by auto
  from requeue_inv [OF r(1) _ _ rq, of crc] r nr new(2) have "sched_inv resumed seen s'" "logs crc s1 [] s'"
    by auto
  with logs_trans [OF r(2) this(2)] show ?thesis by blast
qed

text \<open>The exit handler up to the point where a \<open>vfork\<close> parent may be released.\<close>

lemma exit_unlink_inv:
  assumes inv: "sched_inv resumed seen s" and nr: "sch_running s \<noteq> Some p"
    and s': "s' = s\<lparr>sch_threads := (sch_threads s)(p := None), sch_writer := w, sch_events_recorded := n,
      sch_ready := filter (\<lambda>q. q \<noteq> p) (sch_ready s), sch_leader_exit := le,
      sch_vfork_pending := (sch_vfork_pending s)(p := None)\<rparr>"
  shows "sched_inv resumed seen s'"
  using inv nr by (auto simp: inv_defs s' split: if_splits)

lemma exit_unlink_mon:
  assumes "mon_ok (m, cur) s" and "sch_last_scheduled s' = sch_last_scheduled s"
    and "sch_leader s' = sch_leader s" and "sch_threads s' = (sch_threads s)(p := None)"
  shows "mon_ok (m(p := None), cur) s'" and "p = sch_leader s \<Longrightarrow> mon_ok (m, cur) s'"
    and "sch_threads s p = None \<Longrightarrow> mon_ok (m, cur) s'"
  using assms by (force simp: mon_ok_def in_syscall_def)+

lemma vfork_idem:
  "sch_vfork_pending s p = None \<Longrightarrow>
   s\<lparr>sch_vfork_pending := (sch_vfork_pending s)(p := None)\<rparr> = s"
  by (cases s) (simp add: fun_upd_idem)

lemma on_exit_inv:
  assumes inv: "sched_inv resumed seen s" and idle: "p \<notin> resumed (sch_os s)"
    and run: "on_exit os crc p code s = (Ok (), s')"
  shows "sched_inv resumed seen s' \<and> (\<exists>es. logs crc s es s')"
proof -
  from run obtain s1 where s1: "clear_running p s = (Ok (), s1)" by (auto simp: on_exit_def st_bind_Ok)
  note c = clear_running_inv [OF inv idle s1, of crc]
  define report where "report \<longleftrightarrow> sch_threads s1 p \<noteq> None \<and> 1 < sch_threads_followed s1"
  define le where "le = (if p = sch_leader s1 then code else sch_leader_exit s1)"
  define mid where "mid w n = s1\<lparr>sch_threads := (sch_threads s1)(p := None), sch_writer := w,
      sch_events_recorded := n, sch_ready := filter (\<lambda>q. q \<noteq> p) (sch_ready s1), sch_leader_exit := le\<rparr>" for w n
  define unlinked where "unlinked w n = (mid w n)\<lparr>sch_vfork_pending := (sch_vfork_pending s1)(p := None)\<rparr>" for w n
  have "sch_vfork_pending (mid w n) = sch_vfork_pending s1" for w n by (simp add: mid_def)
  then have mid: "sch_vfork_pending s1 p = None \<Longrightarrow> mid w n = unlinked w n" for w n
    using vfork_idem [of "mid w n" p] unfolding unlinked_def by metis
  obtain w n es where lg: "if report then \<exists>seq ts. n = Suc (sch_events_recorded s1)
        \<and> es = [event_new_with_tid ThreadExit ts p (thread_exit_encode \<lparr>te_tid = p\<rparr>)]
        \<and> append_event crc (event_new_with_tid ThreadExit ts p (thread_exit_encode \<lparr>te_tid = p\<rparr>))
            (sch_writer s1) = (Ok seq, w)
      else es = [] \<and> n = sch_events_recorded s1 \<and> w = sch_writer s1"
    and rest: "(case sch_vfork_pending s1 p of None \<Rightarrow> s' = unlinked w n
      | Some par \<Rightarrow> requeue par (unlinked w n) = (Ok (), s'))"
  proof (cases report)
    case True
    with run s1 obtain seq w where "append_event crc (event_new_with_tid ThreadExit (os_now os (sch_os s1)) p
        (thread_exit_encode \<lparr>te_tid = p\<rparr>)) (sch_writer s1) = (Ok seq, w)"
      and "case sch_vfork_pending s1 p of None \<Rightarrow> s' = mid w (Suc (sch_events_recorded s1))
        | Some par \<Rightarrow> requeue par (unlinked w (Suc (sch_events_recorded s1))) = (Ok (), s')"
      by (cases "sch_vfork_pending s1 p")
         (auto simp: on_exit_def sched_Ok sched_now_def report_def le_def mid_def unlinked_def
           cong: if_cong)
    with True mid that show ?thesis by (auto split: option.splits)
  next
    case False
    with run s1 have "case sch_vfork_pending s1 p of
          None \<Rightarrow> s' = mid (sch_writer s1) (sch_events_recorded s1)
        | Some par \<Rightarrow> requeue par (unlinked (sch_writer s1) (sch_events_recorded s1)) = (Ok (), s')"
      by (cases "sch_vfork_pending s1 p")
         (auto simp: on_exit_def sched_Ok report_def le_def mid_def unlinked_def cong: if_cong)
    with False mid that [of "sch_events_recorded s1" "[]" "sch_writer s1"] show ?thesis
      by (auto split: option.splits)
  qed
  have u: "sched_inv resumed seen (unlinked w n)"
    using c exit_unlink_inv [of resumed seen s1 p] by (simp add: unlinked_def mid_def)
  have "logs crc s1 es (unlinked w n)"
  proof (cases report)
    case True
    with lg show ?thesis
      by (auto simp: unlinked_def mid_def mon_step_thread_exit report_def intro!: logs_one exit_unlink_mon(1))
  next
    case False
    have lead: "sch_threads s1 p \<noteq> None \<Longrightarrow> p = sch_leader s1"
      using False c by (auto simp: report_def inv_defs)
    have "mon_ok mon (unlinked w n)" if "mon_ok mon s1" for mon
      using that lead exit_unlink_mon(2,3) [of "fst mon" "snd mon" s1 "unlinked w n" p]
      by (cases "sch_threads s1 p") (auto simp: unlinked_def mid_def)
    with False lg show ?thesis by (auto simp: unlinked_def mid_def intro!: logs_nil)
  qed
  then have l1: "logs crc s es (unlinked w n)" using c logs_trans by (metis append_Nil)
  show ?thesis
  proof (cases "sch_vfork_pending s1 p")
    case None
    with rest u l1 show ?thesis by auto
  next
    case (Some par)
    have "sch_running s1 \<noteq> Some par" "\<forall>c. c \<noteq> p \<longrightarrow> sch_vfork_pending s1 c \<noteq> Some par"
      using c Some unfolding sched_inv_def vfork_inv_def by blast+
    with requeue_inv [OF u, of par s' crc] rest Some have "sched_inv resumed seen s'"
      "logs crc (unlinked w n) [] s'" by (auto simp: unlinked_def mid_def)
    with l1 logs_trans show ?thesis by blast
  qed
qed

lemma handle_inv:
  assumes laws: "kernel_laws os resumed seen" and inv: "sched_inv resumed seen s"
    and ok: "status_ok resumed seen st s" and run: "handle os crc st s = (Ok (), s')"
  shows "sched_inv resumed seen s' \<and> (\<exists>es. logs crc s es s')"
proof (cases st)
  case (PtraceSyscall p)
  with ok have cur: "sch_running s = Some p" "p \<notin> resumed (sch_os s)" by auto
  from inv cur(1) obtain t where t: "sch_threads s p = Some t" "sch_last_scheduled s = Some p"
    "\<forall>c. sch_vfork_pending s c \<noteq> Some p"
    by (rule running_facts)
  from run PtraceSyscall obtain s1 s2 where s1: "clear_running p s = (Ok (), s1)"
    and s2: "on_syscall os crc p s1 = (Ok (), s2)" and rq: "requeue p s2 = (Ok (), s')"
    by (auto simp: handle_def st_bind_Ok)
  note c = clear_running_inv [OF inv cur(2) s1, of crc]
  with t on_syscall_inv [OF laws _ _ s2, of t] obtain es where
    sc: "same_control resumed seen s1 s2" and l2: "logs crc s1 es s2" by auto
  with c t(3) requeue_inv [OF sched_inv_cong [OF sc] _ _ rq, of crc]
  have "sched_inv resumed seen s'" "logs crc s2 [] s'" by (auto simp: same_control_def)
  with c l2 show ?thesis by (metis append_Nil logs_trans)
next
  case (PtraceEvent p sig ev)
  with ok have cur: "sch_running s = Some p" "p \<notin> resumed (sch_os s)" by auto
  from inv cur(1) obtain t where t: "sch_threads s p = Some t" "sch_last_scheduled s = Some p"
    "\<forall>c. sch_vfork_pending s c \<noteq> Some p"
    by (rule running_facts)
  from run PtraceEvent obtain s1 where s1: "clear_running p s = (Ok (), s1)"
    and rest: "(if is_spawn_event ev then st_bind (on_spawn os crc p) (\<lambda>child.
        if ev = PTRACE_EVENT_VFORK
        then st_modify (\<lambda>s. s\<lparr>sch_vfork_pending := (sch_vfork_pending s)(child \<mapsto> p)\<rparr>)
        else requeue p) else requeue p) s1 = (Ok (), s')"
    by (auto simp: handle_def st_bind_Ok)
  note c = clear_running_inv [OF inv cur(2) s1, of crc]
  show ?thesis
  proof (cases "is_spawn_event ev")
    case False
    with rest have "requeue p s1 = (Ok (), s')" by simp
    with c t requeue_inv [of resumed seen s1 p s' crc] show ?thesis by (metis logs_trans)
  next
    case True
    with rest obtain child s2 where s2: "on_spawn os crc p s1 = (Ok child, s2)"
      and s': "(if ev = PTRACE_EVENT_VFORK
        then st_modify (\<lambda>s. s\<lparr>sch_vfork_pending := (sch_vfork_pending s)(child \<mapsto> p)\<rparr>)
        else requeue p) s2 = (Ok (), s')"
      by (auto simp: st_bind_Ok)
    from on_spawn_inv [OF laws _ s2] c t obtain es where sc: "same_control resumed seen s1 s2"
      and l2: "logs crc s1 es s2" by auto
    have i2: "sched_inv resumed seen s2" using sc c sched_inv_cong by blast
    have "sched_inv resumed seen s' \<and> logs crc s2 [] s'"
    proof (cases "ev = PTRACE_EVENT_VFORK")
      case False
      with s' have "requeue p s2 = (Ok (), s')" by simp
      with c t sc requeue_inv [OF i2, of p s' crc] show ?thesis by (auto simp: same_control_def)
    next
      case True
      with s' have v: "s' = s2\<lparr>sch_vfork_pending := (sch_vfork_pending s2)(child \<mapsto> p)\<rparr>"
        by (simp add: st_modify_Ok)
      have "p \<notin> set (sch_ready s)" using inv cur(1) by (auto simp: sched_inv_def queue_inv_def)
      moreover have "sch_ready s1 = sch_ready s"
        using s1 by (auto simp: clear_running_def st_modify_Ok split: if_splits)
      moreover have "p \<in> seen (sch_os s)" using inv t(1) by (auto simp: sched_inv_def kernel_inv_def)
      ultimately have "p \<notin> set (sch_ready s2)" "p \<in> seen (sch_os s2)" "sch_running s2 \<noteq> Some p"
        "\<forall>c. sch_vfork_pending s2 c \<noteq> Some p"
        using sc c t unfolding same_control_def by metis+
      with i2 have "sched_inv resumed seen s'" unfolding v by (simp add: inv_defs) blast
      moreover have "logs crc s2 [] s'" unfolding v
        by (intro logs_nil) (auto simp: mon_ok_def in_syscall_def)
      ultimately show ?thesis by simp
    qed
    with l2 c show ?thesis by (metis append_Nil logs_trans)
  qed
next
  case (Stopped p sig)
  with run ok on_stopped_inv [OF laws inv] show ?thesis by (simp add: handle_def)
next
  case (Exited p code)
  with run ok on_exit_inv [OF inv] show ?thesis by (simp add: handle_def)
next
  case (Signaled p sig)
  with run ok on_exit_inv [OF inv] show ?thesis by (simp add: handle_def)
next
  case OtherStatus
  with run inv show ?thesis by (auto simp: handle_def st_return_Ok intro!: logs_nil)
qed

text \<open>The control state does not see a change of the kernel state that keeps or shrinks what runs.\<close>

lemma sched_inv_os:
  assumes "sched_inv resumed seen s" and "resumed o' \<subseteq> resumed (sch_os s)" and "seen (sch_os s) \<subseteq> seen o'"
  shows "sched_inv resumed seen (s\<lparr>sch_os := o'\<rparr>)"
  using assms by (auto simp: inv_defs)

lemma logs_os: "logs crc s [] (s\<lparr>sch_os := o'\<rparr>)"
  by (intro logs_nil) (auto simp: mon_ok_def in_syscall_def)

lemma wait_ok:
  assumes laws: "kernel_laws os resumed seen" and inv: "sched_inv resumed seen s"
    and w: "os_waitpid os q (sch_os s) = (Ok st, o')"
  shows "sched_inv resumed seen (s\<lparr>sch_os := o'\<rparr>) \<and> status_ok resumed seen st (s\<lparr>sch_os := o'\<rparr>)"
proof -
  have eff: "wait_effect resumed seen st (sch_os s) o'" using laws w unfolding kernel_laws_def by blast
  then have "resumed o' \<subseteq> resumed (sch_os s)" "seen (sch_os s) \<subseteq> seen o'" by (cases st; auto)+
  with inv have "sched_inv resumed seen (s\<lparr>sch_os := o'\<rparr>)" by (rule sched_inv_os)
  moreover have k: "kernel_inv resumed seen s" using inv by (simp add: sched_inv_def)
  have single: "resumed (sch_os s) = {p} \<and> sch_running s = Some p" if "p \<in> resumed (sch_os s)" for p
  proof -
    have all: "\<forall>q \<in> resumed (sch_os s). sch_running s = Some q" using k by (simp add: kernel_inv_def)
    with that have run: "sch_running s = Some p" by blast
    have "q = p" if "q \<in> resumed (sch_os s)" for q
      using bspec [OF all that] run by simp
    with run \<open>p \<in> resumed (sch_os s)\<close> show ?thesis by blast
  qed
  have fresh: "sch_threads s p = None \<and> p \<noteq> sch_leader s \<and> (\<forall>c. sch_vfork_pending s c \<noteq> Some p)"
    if "p \<notin> seen (sch_os s)" for p
    using k that unfolding kernel_inv_def by blast
  have "status_ok resumed seen st (s\<lparr>sch_os := o'\<rparr>)"
    using eff single fresh by (cases st) (simp_all, blast+)
  ultimately show ?thesis by simp
qed

lemma wait_handle_inv:
  assumes laws: "kernel_laws os resumed seen" and inv: "sched_inv resumed seen s"
    and w: "os_waitpid os q (sch_os s) = (Ok st, o')"
    and d: "resumed o2 = resumed o'" "seen o2 = seen o'"
    and h: "handle os crc st (s\<lparr>sch_os := o2\<rparr>) = (Ok (), s')"
  shows "sched_inv resumed seen s' \<and> (\<exists>es. logs crc s es s')"
proof -
  have "sched_inv resumed seen (s\<lparr>sch_os := o2\<rparr>)" "status_ok resumed seen st (s\<lparr>sch_os := o2\<rparr>)"
    using wait_ok [OF laws inv w] d by (cases st; auto simp: inv_defs)+
  from handle_inv [OF laws this h] logs_os [of crc s o2] show ?thesis by (metis logs_trans)
qed

lemma preempt_inv:
  assumes laws: "kernel_laws os resumed seen" and inv: "sched_inv resumed seen s"
    and run: "preempt os crc cur s = (Ok (), s')"
  shows "sched_inv resumed seen s' \<and> (\<exists>es. logs crc s es s')"
proof -
  obtain r o1 where k: "os_kill os cur SIGSTOP (sch_os s) = (r, o1)" by force
  then have q: "resumed o1 = resumed (sch_os s)" "seen o1 = seen (sch_os s)"
    using kernel_laws_quiet(4) [OF laws] by auto
  with inv have i1: "sched_inv resumed seen (s\<lparr>sch_os := o1\<rparr>)" by (intro sched_inv_os) auto
  show ?thesis
  proof (cases "r = Ok () \<or> r = Err ESRCH")
    case True
    with run k obtain st o2 where w: "os_waitpid os (Some cur) o1 = (Ok st, o2)"
      and "handle os crc st (s\<lparr>sch_os := o2\<rparr>) = (Ok (), s')"
      by (auto simp: preempt_def st_bind_Ok os_do_Ok Let_def)
    with wait_handle_inv [OF laws i1, of "Some cur" st o2 o2 crc s'] logs_os [of crc s o1]
    show ?thesis by (auto dest: logs_trans)
  next
    case False
    with run k show ?thesis by (cases r) (auto simp: preempt_def Let_def)
  qed
qed

lemma run_body_inv:
  assumes laws: "kernel_laws os resumed seen" and inv: "sched_inv resumed seen s"
    and run: "run_body os crc s = (Ok b, s')"
  shows "sched_inv resumed seen s' \<and> (\<exists>es. logs crc s es s')"
proof -
  from run obtain s1 o2 where
    r: "(if sch_running s = None then resume_next os crc s else (Ok (), s)) = (Ok (), s1)"
    and arm: "os_timer_set os True (sch_os s1) = (Ok (), o2)"
    by (auto simp: run_body_def st_bind_Ok timer_arm_def os_do_Ok)
  have "logs crc s [] s" by (simp add: logs_nil)
  with r inv resume_next_inv [OF laws inv] have "sched_inv resumed seen s1 \<and> (\<exists>es. logs crc s es s1)"
    by (auto split: if_splits)
  then obtain es where i1: "sched_inv resumed seen s1" and l1: "logs crc s es s1" by blast
  let ?s2 = "s1\<lparr>sch_os := o2\<rparr>"
  have i2: "sched_inv resumed seen ?s2"
    using kernel_laws_quiet(3) [OF laws arm] by (intro sched_inv_os [OF i1]) auto
  obtain q o3 where w: "os_waitpid os None o2 = (q, o3)" by force
  have "sched_inv resumed seen s' \<and> (\<exists>fs. logs crc ?s2 fs s')"
  proof (cases q)
    case (Ok st)
    with run r arm w obtain o4 where dis: "os_timer_set os False o3 = (Ok (), o4)"
      and "handle os crc st (s1\<lparr>sch_os := o4\<rparr>) = (Ok (), s')"
      by (auto simp: run_body_def st_bind_Ok timer_arm_def timer_disarm_def os_do_Ok st_return_Ok)
    with wait_handle_inv [OF laws i2, of None st o3 o4 crc s'] w Ok kernel_laws_quiet(3) [OF laws dis]
    show ?thesis by simp
  next
    case (Err e)
    with laws w have q3: "resumed o3 = resumed o2" "seen o3 = seen o2"
      unfolding kernel_laws_def by blast+
    show ?thesis
    proof (cases "e = EINTR")
      case False
      with run r arm w Err have "s' = s1\<lparr>sch_os := o3\<rparr>"
        by (auto simp: run_body_def st_bind_Ok timer_arm_def os_do_Ok Let_def split: if_splits)
      with q3 sched_inv_os [OF i2, of o3] logs_os [of crc ?s2 o3] show ?thesis by auto
    next
      case True
      with run r arm w Err obtain o4 where dis: "os_timer_set os False o3 = (Ok (), o4)"
        and rest: "(case sch_running s1 of
               Some cur \<Rightarrow> st_bind (preempt os crc cur) (\<lambda>_. st_return True)
             | None \<Rightarrow> \<lambda>s. (Ok True, s)) (s1\<lparr>sch_os := o4\<rparr>) = (Ok b, s')"
        by (auto simp: run_body_def st_bind_Ok timer_arm_def timer_disarm_def os_do_Ok split: option.splits)
      have i4: "sched_inv resumed seen (s1\<lparr>sch_os := o4\<rparr>)" and l4: "logs crc ?s2 [] (s1\<lparr>sch_os := o4\<rparr>)"
        using kernel_laws_quiet(3) [OF laws dis] q3 sched_inv_os [OF i2, of o4] logs_os [of crc ?s2 o4]
        by auto
      show ?thesis
      proof (cases "sch_running s1")
        case None
        with rest i4 l4 show ?thesis by auto
      next
        case (Some cur)
        with rest have "preempt os crc cur (s1\<lparr>sch_os := o4\<rparr>) = (Ok (), s')"
          by (auto simp: st_bind_Ok st_return_Ok)
        from preempt_inv [OF laws i4 this] l4 logs_trans show ?thesis by (metis append_Nil)
      qed
    qed
  qed
  with l1 logs_os [of crc s1 o2] show ?thesis by (metis append_Nil2 logs_trans)
qed

subsection \<open>Runs\<close>

text \<open>The states at the head of the loop in \<open>run\<close>.\<close>

inductive loop_state :: "'os tracer_os \<Rightarrow> crc_fun \<Rightarrow> 'os scheduler \<Rightarrow> 'os scheduler \<Rightarrow> bool"
  for os crc s0 where
  loop_start: "loop_state os crc s0 s0"
| loop_turn: "loop_state os crc s0 s \<Longrightarrow> sch_threads s \<noteq> Map.empty \<Longrightarrow> run_body os crc s = (Ok True, s')
    \<Longrightarrow> loop_state os crc s0 s'"

lemma loop_state_inv:
  assumes "loop_state os crc s0 s" and "kernel_laws os resumed seen" and "sched_inv resumed seen s0"
  shows "sched_inv resumed seen s \<and> (\<exists>es. logs crc s0 es s)"
  using assms(1)
proof induction
  case loop_start
  have "logs crc s0 [] s0" by (simp add: logs_nil)
  with assms(3) show ?case by blast
next
  case (loop_turn s s')
  then show ?case using run_body_inv [OF assms(2), of s crc True s'] logs_trans by blast
qed

lemma scheduler_new_inv:
  assumes laws: "kernel_laws os resumed seen" and new: "scheduler_new os w leader o0 = Ok s0"
    and "resumed o0 = {}" and "leader \<in> seen o0"
  shows "sched_inv resumed seen s0 \<and> mon_ok (Map.empty, leader) s0 \<and> sch_writer s0 = w
    \<and> sch_events_recorded s0 = 0 \<and> sch_leader s0 = leader"
proof -
  from new obtain o1 o2 where o1: "os_pin os leader o0 = (Ok (), o1)"
    and o2: "os_timer_install os o1 = (Ok (), o2)"
    and s0: "s0 = \<lparr>sch_writer = w, sch_threads = [leader \<mapsto> thread_default], sch_ready = [leader],
      sch_running = None, sch_last_scheduled = Some leader, sch_leader = leader, sch_leader_exit = None,
      sch_events_recorded = 0, sch_threads_followed = 1, sch_vfork_pending = Map.empty, sch_os = o2\<rparr>"
    by (auto simp: scheduler_new_def split: prod.splits result.splits)
  have "resumed o2 = {}" "leader \<in> seen o2"
    using kernel_laws_quiet(1) [OF laws o1] kernel_laws_quiet(2) [OF laws o2] assms(3,4) by auto
  then have "sched_inv resumed seen s0" by (auto simp: inv_defs s0 split: if_splits)
  then show ?thesis by (simp add: s0 mon_ok_def in_syscall_def thread_default_def)
qed

lemma run_loop_state:
  assumes "run_loop os crc fuel s = Some (Ok out, s')" and "loop_state os crc s0 s"
    and "kernel_laws os resumed seen" and "sched_inv resumed seen s0"
  shows "out = sched_outcome s' \<and> sched_inv resumed seen s' \<and> (\<exists>es. logs crc s0 es s')"
  using assms(1,2)
proof (induction fuel arbitrary: s)
  case 0
  then show ?case by simp
next
  case (Suc fuel)
  note inv = loop_state_inv [OF Suc.prems(2) assms(3,4)]
  show ?case
  proof (cases "sch_threads s = Map.empty")
    case True
    with Suc.prems(1) inv show ?thesis by auto
  next
    case False
    obtain q t where q: "run_body os crc s = (q, t)" by force
    with False Suc.prems(1) obtain b where b: "q = Ok b" by (cases q) auto
    show ?thesis
    proof (cases b)
      case True
      with q b have step: "run_body os crc s = (Ok True, t)" by simp
      with Suc.prems(1) False have "run_loop os crc fuel t = Some (Ok out, s')" by simp
      from Suc.IH [OF this loop_turn [OF Suc.prems(2) False step]] show ?thesis .
    next
      case nb: False
      with Suc.prems(1) False q b have "s' = t" "out = sched_outcome t" by auto
      moreover have "sched_inv resumed seen t \<and> (\<exists>es. logs crc s es t)"
        using run_body_inv [OF assms(3), of s crc b t] inv q b by simp
      ultimately show ?thesis using inv logs_trans by blast
    qed
  qed
qed

text \<open>
  A kernel for the witnesses, which plays a script of wait statuses as long as they are possible: a
  tracee can only stop when it was resumed, a new one only when its id is new.
\<close>

record demo_kernel =
  dk_script :: "wait_status list"
  dk_resumed :: "pid set"
  dk_seen :: "pid set"

fun demo_effect :: "wait_status \<Rightarrow> demo_kernel \<Rightarrow> demo_kernel option" where
  "demo_effect (PtraceSyscall p) k = (if p \<in> dk_resumed k then Some (k\<lparr>dk_resumed := dk_resumed k - {p}\<rparr>) else None)"
| "demo_effect (PtraceEvent p sig ev) k = (if p \<in> dk_resumed k then Some (k\<lparr>dk_resumed := dk_resumed k - {p}\<rparr>) else None)"
| "demo_effect (Stopped p sig) k = (if p \<in> dk_resumed k then Some (k\<lparr>dk_resumed := dk_resumed k - {p}\<rparr>)
     else if p \<notin> dk_seen k then Some (k\<lparr>dk_seen := insert p (dk_seen k)\<rparr>) else None)"
| "demo_effect (Exited p code) k = Some (k\<lparr>dk_resumed := dk_resumed k - {p}\<rparr>)"
| "demo_effect (Signaled p sig) k = Some (k\<lparr>dk_resumed := dk_resumed k - {p}\<rparr>)"
| "demo_effect OtherStatus k = Some k"

definition demo_wait :: "pid option \<Rightarrow> (demo_kernel, wait_status, errno) st" where
  "demo_wait q k = (case dk_script k of
       [] \<Rightarrow> (Err ECHILD, k)
     | st # rest \<Rightarrow> (case demo_effect st k of
           Some k' \<Rightarrow> (Ok st, k'\<lparr>dk_script := rest\<rparr>) | None \<Rightarrow> (Err ECHILD, k)))"

definition demo_os :: "demo_kernel tracer_os" where
  "demo_os = \<lparr>os_abi = \<lparr>SYS_read = 0, SYS_pread64 = 17, SYS_recvfrom = 45, SYS_getrandom = 318,
       SYS_clock_gettime = 228\<rparr>,
     os_pin = \<lambda>p. st_return (), os_timer_install = st_return (), os_timer_set = \<lambda>b. st_return (),
     os_waitpid = demo_wait,
     os_syscall = \<lambda>p sig k. (Ok (), k\<lparr>dk_resumed := insert p (dk_resumed k)\<rparr>),
     os_kill = \<lambda>p g. st_return (),
     os_regs = \<lambda>p. st_return \<lparr>sr_nr = 39, sr_ret = 7, sr_args = [0, 0, 0, 0, 0, 0]\<rparr>,
     os_getevent = \<lambda>p. st_return 8, os_setoptions = \<lambda>p. st_return (),
     os_vm_read = \<lambda>k p a n. Ok (replicate n 0), os_now = \<lambda>k. of_nat (length (dk_script k))\<rparr>"

lemma demo_effect_wait:
  "demo_effect st k = Some k' \<Longrightarrow> wait_effect dk_resumed dk_seen st k (k'\<lparr>dk_script := r\<rparr>)"
  by (cases st) (auto split: if_splits)

lemma demo_wait_Ok: "demo_wait q o0 = (Ok st, o1) \<Longrightarrow> wait_effect dk_resumed dk_seen st o0 o1"
  using demo_effect_wait by (auto simp: demo_wait_def split: list.splits option.splits)

lemma demo_wait_Err: "demo_wait q o0 = (Err e, o1) \<Longrightarrow> o1 = o0"
  by (auto simp: demo_wait_def split: list.splits option.splits)

lemma demo_kernel_laws: "kernel_laws demo_os dk_resumed dk_seen"
  by (auto simp: kernel_laws_def quiet_def demo_os_def st_return_def args6_def ret_small_def
      dest: demo_wait_Ok demo_wait_Err)

definition demo_start :: "wait_status list \<Rightarrow> demo_kernel" where
  "demo_start script = \<lparr>dk_script = script, dk_resumed = {}, dk_seen = {7}\<rparr>"

definition demo_writer :: trace_writer where
  "demo_writer = \<lparr>wr_inner = demo_sink, wr_next_seq = 0\<rparr>"

definition demo_sched :: "wait_status list \<Rightarrow> demo_kernel scheduler" where
  "demo_sched script = \<lparr>sch_writer = demo_writer, sch_threads = [7 \<mapsto> thread_default], sch_ready = [7],
     sch_running = None, sch_last_scheduled = Some 7, sch_leader = 7, sch_leader_exit = None,
     sch_events_recorded = 0, sch_threads_followed = 1, sch_vfork_pending = Map.empty,
     sch_os = demo_start script\<rparr>"

lemma demo_new: "scheduler_new demo_os demo_writer 7 (demo_start script) = Ok (demo_sched script)"
  by (simp add: scheduler_new_def demo_os_def demo_sched_def st_return_def)

lemma demo_start_facts: "dk_resumed (demo_start script) = {}" "7 \<in> dk_seen (demo_start script)"
  by (simp_all add: demo_start_def)

lemmas demo_run_simps = run_body_def st_defs resume_next_def record_sched_switch_def thread_update_def
  os_do_def timer_arm_def timer_disarm_def handle_def clear_running_def requeue_def on_syscall_def
  on_exit_def on_stopped_def on_spawn_def register_child_def pin_to_serialization_cpu_def sched_now_def
  sched_append_def append_event_unbounded demo_wait_def is_spawn_event_def PTRACE_EVENT_CLONE_def
  PTRACE_EVENT_VFORK_def PTRACE_EVENT_FORK_def SIGSTOP_def ECHILD_def EINTR_def thread_default_def
  demo_start_def demo_writer_def demo_sink_def exit_event_def kernel_written_region_def
  sched_outcome_def demo_sched_def demo_os_def

text \<open>
  C6. Single-core serialization: at every turn of the scheduler's loop the kernel runs at most one
  tracee, and it is the one the scheduler holds as running; the ready queue has no duplicates,
  holds only threads that are followed, and holds neither the running thread nor a parent that is
  suspended in \<open>vfork\<close>.
\<close>

theorem single_core_serialization:
  assumes "kernel_laws os resumed seen" and "scheduler_new os w leader o0 = Ok s0"
    and "resumed o0 = {}" and "leader \<in> seen o0" and "loop_state os crc s0 s"
  shows "(\<forall>p \<in> resumed (sch_os s). sch_running s = Some p)
    \<and> distinct (sch_ready s) \<and> (\<forall>p \<in> set (sch_ready s). sch_threads s p \<noteq> None)
    \<and> (\<forall>p. sch_running s = Some p \<longrightarrow> p \<notin> set (sch_ready s) \<and> sch_threads s p \<noteq> None)
    \<and> (\<forall>child parent. sch_vfork_pending s child = Some parent \<longrightarrow>
         parent \<notin> set (sch_ready s) \<and> sch_running s \<noteq> Some parent)"
proof -
  have "sched_inv resumed seen s"
    using loop_state_inv [OF assms(5,1)] scheduler_new_inv [OF assms(1-4)] by blast
  then show ?thesis by (simp add: sched_inv_def queue_inv_def vfork_inv_def kernel_inv_def)
qed

text \<open>Witness: after the first turn the leader has made a syscall and a new thread is waiting.\<close>

theorem single_core_serialization_witness:
  "\<exists>s. loop_state demo_os demo_crc (demo_sched [Stopped 8 19, PtraceSyscall 7]) s
    \<and> sch_ready s = [8] \<and> sch_running s = Some 7
    \<and> (\<forall>p \<in> dk_resumed (sch_os s). sch_running s = Some p) \<and> distinct (sch_ready s)"
proof -
  let ?s0 = "demo_sched [Stopped 8 19, PtraceSyscall 7]"
  have "\<exists>s. run_body demo_os demo_crc ?s0 = (Ok True, s) \<and> sch_ready s = [8] \<and> sch_running s = Some 7"
    by (simp add: demo_run_simps)
  then obtain s where s: "run_body demo_os demo_crc ?s0 = (Ok True, s)" "sch_ready s = [8]"
    "sch_running s = Some 7" by blast
  have "sch_threads ?s0 \<noteq> Map.empty" by (simp add: demo_sched_def)
  from loop_turn [OF loop_start this s(1)] have "loop_state demo_os demo_crc ?s0 s" .
  from single_core_serialization [OF demo_kernel_laws demo_new demo_start_facts this] this s(2,3)
  show ?thesis by blast
qed

lemma recording_monitored:
  assumes "kernel_laws os resumed seen" and "scheduler_new os w leader o0 = Ok s0"
    and "resumed o0 = {}" and "leader \<in> seen o0" and "run_loop os crc fuel s0 = Some (Ok out, s)"
  shows "\<exists>es mon. appended crc w es (sch_writer s) \<and> mon_run (Map.empty, leader) es = Some mon
    \<and> ro_events_recorded out = length es
    \<and> (ro_threads_followed out \<le> 1 \<longrightarrow> (\<forall>e \<in> set es. ev_kind e \<notin> {SchedSwitch, ThreadExit}))"
proof -
  note new = scheduler_new_inv [OF assms(1-4)]
  with run_loop_state [OF assms(5) loop_start assms(1)] obtain es where
    out: "out = sched_outcome s" and lg: "logs crc s0 es s" by auto
  from lg new obtain mon where "mon_run (Map.empty, leader) es = Some mon"
    unfolding logs_def by blast
  with lg new out show ?thesis by (intro exI [of _ es] exI [of _ mon]) (simp add: logs_def sched_outcome_def)
qed



end
