(* ===== verification/ReplaySelect.thy ===== *)
theory ReplaySelect
  imports TraceFormat
begin

text \<open>
  The ptrace-free decisions of the replay engine: the table of recorded and live thread ids and the
  test for a multi-threaded trace (\<open>replay/src/schedule.rs\<close>), and the choice of checkpoints
  (\<open>replay/src/checkpoint_select.rs\<close>). The thread table's contract is the locale \<open>binding_table\<close>, a
  partial injection under binding and unbinding, which the table interprets.
\<close>

subsection \<open>Thread ids\<close>

definition is_lifecycle_kind :: "event_kind \<Rightarrow> bool" where
  "is_lifecycle_kind k \<longleftrightarrow> k = SchedSwitch \<or> k = ThreadSpawn \<or> k = ThreadExit"

definition trace_is_multithreaded :: "trace_record list \<Rightarrow> bool" where
  "trace_is_multithreaded records = list_ex (\<lambda>r. is_lifecycle_kind (ev_kind (rec_event r))) records"

datatype tid_map_error = RecordedRebound u32 i32 i32 | LiveRebound i32 u32 u32

record tid_map =
  tm_to_live :: "u32 \<Rightarrow> i32 option"
  tm_to_recorded :: "i32 \<Rightarrow> u32 option"

definition tid_map_new :: tid_map where
  "tid_map_new = \<lparr>tm_to_live = Map.empty, tm_to_recorded = Map.empty\<rparr>"

definition tid_bind :: "u32 \<Rightarrow> i32 \<Rightarrow> tid_map \<Rightarrow> (tid_map, tid_map_error) result" where
  "tid_bind recorded live m =
     and_then (case tm_to_live m recorded of
        Some existing \<Rightarrow>
          (if existing \<noteq> live then Err (RecordedRebound recorded existing live) else Ok ())
      | None \<Rightarrow> Ok ()) (\<lambda>_.
     and_then (case tm_to_recorded m live of
        Some existing \<Rightarrow>
          (if existing \<noteq> recorded then Err (LiveRebound live existing recorded) else Ok ())
      | None \<Rightarrow> Ok ()) (\<lambda>_.
     Ok (m\<lparr>tm_to_live := (tm_to_live m)(recorded \<mapsto> live),
           tm_to_recorded := (tm_to_recorded m)(live \<mapsto> recorded)\<rparr>)))"

definition live_of :: "tid_map \<Rightarrow> u32 \<Rightarrow> i32 option" where
  "live_of m recorded = tm_to_live m recorded"

definition unbind_recorded :: "u32 \<Rightarrow> tid_map \<Rightarrow> i32 option \<times> tid_map" where
  "unbind_recorded recorded m = (case tm_to_live m recorded of
       None \<Rightarrow> (None, m)
     | Some live \<Rightarrow> (Some live, m\<lparr>tm_to_live := (tm_to_live m)(recorded := None),
                                   tm_to_recorded := (tm_to_recorded m)(live := None)\<rparr>))"

definition tid_map_is_empty :: "tid_map \<Rightarrow> bool" where
  "tid_map_is_empty m \<longleftrightarrow> tm_to_live m = Map.empty"

text \<open>The two directions of the table are inverse to each other.\<close>

definition tid_map_inv :: "tid_map \<Rightarrow> bool" where
  "tid_map_inv m \<longleftrightarrow> (\<forall>r l. tm_to_live m r = Some l \<longleftrightarrow> tm_to_recorded m l = Some r)"

subsection \<open>The contract of a binding table\<close>

locale binding_table =
  fixes inv :: "'m \<Rightarrow> bool" and new :: 'm
    and bind :: "'k \<Rightarrow> 'v \<Rightarrow> 'm \<Rightarrow> ('m, 'e) result"
    and lookup :: "'m \<Rightarrow> 'k \<Rightarrow> 'v option"
    and unbind :: "'k \<Rightarrow> 'm \<Rightarrow> 'v option \<times> 'm"
  assumes inv_new: "inv new" and lookup_new: "lookup new = Map.empty"
    and inv_inj: "inv m \<Longrightarrow> lookup m r = Some l \<Longrightarrow> lookup m r' = Some l \<Longrightarrow> r = r'"
    and bind_ok: "inv m \<Longrightarrow> is_ok (bind r l m) \<longleftrightarrow>
          lookup m r = Some l \<or> lookup m r = None \<and> (\<forall>r'. lookup m r' \<noteq> Some l)"
    and bind_inv: "inv m \<Longrightarrow> bind r l m = Ok m' \<Longrightarrow> inv m'"
    and bind_lookup: "inv m \<Longrightarrow> bind r l m = Ok m' \<Longrightarrow> lookup m' = (lookup m)(r \<mapsto> l)"
    and unbind_inv: "inv m \<Longrightarrow> unbind r m = (v, m') \<Longrightarrow> inv m'"
    and unbind_lookup: "inv m \<Longrightarrow> unbind r m = (v, m') \<Longrightarrow>
          v = lookup m r \<and> lookup m' = (lookup m)(r := None)"
begin

lemma rebind_idem: "inv m \<Longrightarrow> lookup m r = Some l \<Longrightarrow> bind r l m = Ok m' \<Longrightarrow> lookup m' = lookup m"
  by (simp add: bind_lookup fun_upd_idem)

lemma bind_conflict:
  assumes "inv m" and "lookup m r = Some l" and "l' \<noteq> l"
  shows "\<not> is_ok (bind r l' m)" and "r' \<noteq> r \<Longrightarrow> \<not> is_ok (bind r' l m)"
  using bind_ok [OF assms(1), of r l'] bind_ok [OF assms(1), of r' l] inv_inj [OF assms(1,2), of r'] assms(2,3)
  by auto

lemma bind_after_unbind:
  assumes "inv m" and "lookup m r = Some l" and "unbind r m = (v, m')"
  shows "is_ok (bind r' l m') \<longleftrightarrow> lookup m' r' = None"
proof -
  have "inv m'" "lookup m' = (lookup m)(r := None)"
    using unbind_inv unbind_lookup assms by blast+
  moreover from this(2) have "lookup m' x \<noteq> Some l" for x
    using inv_inj [OF assms(1,2), of x] by (cases "x = r") auto
  ultimately show ?thesis by (simp add: bind_ok)
qed

end

interpretation tid_table: binding_table tid_map_inv tid_map_new tid_bind live_of unbind_recorded
proof unfold_locales
  show "tid_map_inv tid_map_new" by (simp add: tid_map_inv_def tid_map_new_def)
  show "live_of tid_map_new = Map.empty" by (simp add: live_of_def tid_map_new_def fun_eq_iff)
next
  fix m r r' l
  show "tid_map_inv m \<Longrightarrow> live_of m r = Some l \<Longrightarrow> live_of m r' = Some l \<Longrightarrow> r = r'"
    by (metis live_of_def option.inject tid_map_inv_def)
next
  fix m r l assume i: "tid_map_inv m"
  have unbound: "tm_to_recorded m l = None \<longleftrightarrow> (\<forall>r'. tm_to_live m r' \<noteq> Some l)"
    using i by (cases "tm_to_recorded m l") (auto simp: tid_map_inv_def)
  show "is_ok (tid_bind r l m) \<longleftrightarrow>
      live_of m r = Some l \<or> live_of m r = None \<and> (\<forall>r'. live_of m r' \<noteq> Some l)"
  proof (cases "tm_to_live m r")
    case None
    then have "tm_to_recorded m l \<noteq> Some r" using i unfolding tid_map_inv_def by (metis option.distinct(1))
    with None unbound show ?thesis
      by (cases "tm_to_recorded m l") (auto simp: tid_bind_def live_of_def)
  next
    case (Some l')
    then have "l' = l \<Longrightarrow> tm_to_recorded m l = Some r" using i by (auto simp: tid_map_inv_def)
    with Some show ?thesis by (auto simp: tid_bind_def live_of_def)
  qed
next
  fix m r l m' assume i: "tid_map_inv m" and b: "tid_bind r l m = Ok m'"
  then have m': "m' = m\<lparr>tm_to_live := (tm_to_live m)(r \<mapsto> l), tm_to_recorded := (tm_to_recorded m)(l \<mapsto> r)\<rparr>"
    and old: "\<And>x. tm_to_live m r = Some x \<Longrightarrow> x = l" "\<And>x. tm_to_recorded m l = Some x \<Longrightarrow> x = r"
    by (auto simp: tid_bind_def and_then_eq_Ok split: option.splits if_splits)
  show "tid_map_inv m'" using i old unfolding m' tid_map_inv_def by auto
  show "live_of m' = (live_of m)(r \<mapsto> l)" by (simp add: m' live_of_def fun_eq_iff)
next
  fix m r v m' assume i: "tid_map_inv m" and u: "unbind_recorded r m = (v, m')"
  show "tid_map_inv m'"
    using i u by (auto simp: unbind_recorded_def tid_map_inv_def split: option.splits if_splits)
      (metis option.inject)
  show "v = live_of m r \<and> live_of m' = (live_of m)(r := None)"
    using u by (auto simp: unbind_recorded_def live_of_def fun_eq_iff split: option.splits)
qed

subsection \<open>Checkpoint selection\<close>

definition is_checkpoint_due :: "u64 option \<Rightarrow> u64 \<Rightarrow> u64 \<Rightarrow> bool" where
  "is_checkpoint_due prev current interval =
     (if interval = 0 then False
      else case prev of
        None \<Rightarrow> current \<ge> interval
      | Some p \<Rightarrow> current \<ge> u64_saturating_add p interval)"

definition nearest_at_or_before :: "u64 list \<Rightarrow> u64 \<Rightarrow> nat option" where
  "nearest_at_or_before seqs target =
     map_option fst (find (\<lambda>(_, seq). seq \<le> target) (rev (enumerate 0 seqs)))"

definition should_restart :: "u64 option \<Rightarrow> u64 \<Rightarrow> u64 \<Rightarrow> bool" where
  "should_restart current start_seq target = (case current of
       None \<Rightarrow> start_seq > 0
     | Some cur \<Rightarrow> cur > target \<or> start_seq > cur)"

lemma nearest_snoc:
  "nearest_at_or_before (seqs @ [s]) target =
     (if s \<le> target then Some (length seqs) else nearest_at_or_before seqs target)"
  by (simp add: nearest_at_or_before_def enumerate_append_eq)

lemma nearest_Nil [simp]: "nearest_at_or_before [] target = None"
  by (simp add: nearest_at_or_before_def)

text \<open>The index found is the last one at or before the target.\<close>

lemma nearest_Some_iff:
  "nearest_at_or_before seqs target = Some i \<longleftrightarrow>
     i < length seqs \<and> seqs ! i \<le> target \<and> (\<forall>j < length seqs. i < j \<longrightarrow> target < seqs ! j)"
proof (induction seqs rule: rev_induct)
  case Nil
  then show ?case by simp
next
  case (snoc s seqs)
  show ?case
  proof (cases "s \<le> target")
    case True
    then show ?thesis by (auto simp: nearest_snoc nth_append less_Suc_eq)
  next
    case False
    with snoc show ?thesis by (auto simp: nearest_snoc nth_append less_Suc_eq)
  qed
qed

lemma nearest_None_iff:
  "nearest_at_or_before seqs target = None \<longleftrightarrow> (\<forall>s \<in> set seqs. target < s)"
  by (induction seqs rule: rev_induct) (auto simp: nearest_snoc)

lemma nearest_greatest:
  assumes "sorted_wrt (<) seqs" and "nearest_at_or_before seqs target = Some i"
    and "s \<in> set seqs" and "s \<le> target"
  shows "s \<le> seqs ! i"
proof -
  from assms(3) obtain j where j: "j < length seqs" "seqs ! j = s" by (auto simp: in_set_conv_nth)
  from assms(2) have i: "i < length seqs" "\<forall>j < length seqs. i < j \<longrightarrow> target < seqs ! j"
    by (auto simp: nearest_Some_iff)
  with j assms(4) have "j \<le> i" by (meson leD not_le)
  with sorted_wrt_nth_less [OF assms(1)] i(1) j(2) show ?thesis
    by (cases "j = i") (auto simp: less_imp_le)
qed

lemma u64_max_iff: "(p :: u64) = - 1 \<longleftrightarrow> unat p = 2 ^ 64 - 1"
  by (simp add: word_unat_eq_iff unsigned_minus_1_eq_mask mask_eq_exp_minus_1)

lemma checkpoint_due_after:
  assumes "is_checkpoint_due (Some p) current interval" and "p \<noteq> - 1"
  shows "p < current"
proof -
  have "0 < unat interval" "min (unat p + unat interval) (2 ^ 64 - 1) \<le> unat current"
    using assms(1)
    by (auto simp: is_checkpoint_due_def word_le_nat_alt unat_u64_saturating_add unat_gt_0 split: if_splits)
  moreover have "unat p < 2 ^ 64 - 1" using assms(2) unat_less_len [of p] by (simp add: u64_max_iff)
  ultimately show ?thesis by (simp add: word_less_nat_alt)
qed

end
