(* ===== verification/Watchpoint.thy ===== *)
theory Watchpoint
  imports Prelude
begin

text \<open>
  Watchpoint requests and their debug-register encodings (\<open>replay/src/watchpoint.rs\<close>), and arming
  them on a tracee (\<open>replay/src/watchpoint_hw.rs\<close>). The theorems say that a validated request is
  encoded so that exactly the requested bytes, and exactly the requested kinds of access, trap.
\<close>

subsection \<open>Requests\<close>

datatype watch_kind = WatchWrite | WatchReadWrite

datatype watchpoint_error = InvalidLen u8 | Misaligned u64 u8

definition is_valid_len :: "u8 \<Rightarrow> bool" where
  "is_valid_len len \<longleftrightarrow> len = 1 \<or> len = 2 \<or> len = 4 \<or> len = 8"

definition fits_in_granule :: "u64 \<Rightarrow> u8 \<Rightarrow> bool" where
  "fits_in_granule addr len = (let offset = addr AND 0x7 in offset + ucast len \<le> 8)"

definition watch_validate :: "u64 \<Rightarrow> u8 \<Rightarrow> (unit, watchpoint_error) result" where
  "watch_validate addr len =
     (if \<not> is_valid_len len then Err (InvalidLen len)
      else if addr mod ucast len \<noteq> 0 \<or> \<not> fits_in_granule addr len then Err (Misaligned addr len)
      else Ok ())"

subsection \<open>Encodings\<close>

definition x86_len_bits :: "u8 \<Rightarrow> (u64, watchpoint_error) result" where
  "x86_len_bits len = (if len = 1 then Ok 0 else if len = 2 then Ok 1 else if len = 8 then Ok 2
     else if len = 4 then Ok 3 else Err (InvalidLen len))"

fun x86_rw_bits :: "watch_kind \<Rightarrow> u64" where
  "x86_rw_bits WatchWrite = 1"
| "x86_rw_bits WatchReadWrite = 3"

definition x86_dr7 :: "watch_kind \<Rightarrow> u8 \<Rightarrow> (u64, watchpoint_error) result" where
  "x86_dr7 kind len =
     and_then (x86_len_bits len) (\<lambda>len_bits.
     let rw = x86_rw_bits kind in
     Ok (1 OR push_bit 16 rw OR push_bit 18 len_bits))"

fun aarch64_lsc :: "watch_kind \<Rightarrow> u32" where
  "aarch64_lsc WatchWrite = 2"
| "aarch64_lsc WatchReadWrite = 3"

text \<open>\<open>1u32 << len\<close> is in range for the lengths that reach it.\<close>

definition aarch64_bas :: "u64 \<Rightarrow> u8 \<Rightarrow> u32" where
  "aarch64_bas addr len =
     (let offset = ucast (addr AND 0x7) :: u32 in
      push_bit (unat offset) ((push_bit (unat len) 1 - 1) AND 0xff))"

definition aarch64_control :: "u64 \<Rightarrow> u8 \<Rightarrow> watch_kind \<Rightarrow> (u64 \<times> u32, watchpoint_error) result" where
  "aarch64_control addr len kind =
     (if \<not> is_valid_len len then Err (InvalidLen len)
      else let aligned = addr AND NOT 0x7;
               e = 1;
               pac = push_bit 1 2;
               lsc = push_bit 3 (aarch64_lsc kind);
               bas = push_bit 5 (aarch64_bas addr len)
           in Ok (aligned, e OR pac OR lsc OR bas))"

subsection \<open>What the hardware watches\<close>

text \<open>
  The watch a control word asks for, as the architecture manuals read the fields: on x86-64 the
  length code of slot 0 and its condition code, on aarch64 the byte-address-select mask relative to
  the aligned address and the load/store control.
\<close>

definition x86_watched_len :: "u64 \<Rightarrow> nat" where
  "x86_watched_len dr7 = (let code = take_bit 2 (drop_bit 18 dr7) in
     if code = 0 then 1 else if code = 1 then 2 else if code = 2 then 8 else 4)"

definition x86_traps_write :: "u64 \<Rightarrow> bool" where
  "x86_traps_write dr7 \<longleftrightarrow> bit dr7 0 \<and> bit dr7 16"

definition x86_traps_read :: "u64 \<Rightarrow> bool" where
  "x86_traps_read dr7 \<longleftrightarrow> bit dr7 0 \<and> take_bit 2 (drop_bit 16 dr7) = 3"

definition aarch64_watched :: "u64 \<Rightarrow> u32 \<Rightarrow> nat set" where
  "aarch64_watched base ctrl = {unat base + i |i. i < 8 \<and> bit ctrl (5 + i)}"

definition aarch64_traps_write :: "u32 \<Rightarrow> bool" where
  "aarch64_traps_write ctrl \<longleftrightarrow> bit ctrl 0 \<and> bit ctrl 4"

definition aarch64_traps_read :: "u32 \<Rightarrow> bool" where
  "aarch64_traps_read ctrl \<longleftrightarrow> bit ctrl 0 \<and> bit ctrl 3"

lemma is_valid_len_unat: "is_valid_len len \<longleftrightarrow> unat len \<in> {1, 2, 4, 8}"
  by (auto simp: is_valid_len_def word_unat_eq_iff)

lemma unat_and_7: "unat (addr AND 7 :: u64) = unat addr mod 8"
proof -
  have e: "addr AND 7 = take_bit 3 addr" by (simp add: take_bit_eq_mask mask_eq_exp_minus_1)
  show ?thesis by (simp only: e unsigned_take_bit_eq) (simp add: take_bit_eq_mod)
qed

lemma fits_in_granule_iff: "fits_in_granule addr len \<longleftrightarrow> unat addr mod 8 + unat len \<le> 8"
proof -
  have "unat (ucast len :: u64) = unat len" using unat_less_len [of len] 
    by (simp add: unsigned_ucast_eq take_bit_nat_eq_self)
  moreover have "unat addr mod 8 + unat len < 2 ^ 64" using unat_less_len [of len] by simp
  ultimately have "unat ((addr AND 7) + ucast len) = unat addr mod 8 + unat len"
    by (simp add: unat_word_ariths unat_and_7)
  then show ?thesis by (simp add: fits_in_granule_def word_le_nat_alt)
qed

lemma watch_validate_Ok:
  "watch_validate addr len = Ok () \<longleftrightarrow>
     is_valid_len len \<and> unat addr mod unat len = 0 \<and> unat addr mod 8 + unat len \<le> 8"
proof -
  have "unat (ucast len :: u64) = unat len"
    using unat_less_len [of len] by (simp add: unsigned_ucast_eq take_bit_nat_eq_self)
  then have "addr mod ucast len = 0 \<longleftrightarrow> unat addr mod unat len = 0"
    by (simp add: word_unat_eq_iff unat_mod_distrib)
  then show ?thesis by (auto simp: watch_validate_def fits_in_granule_iff)
qed

lemma low_mask: "(push_bit n 1 - 1) AND 0xff = (mask n :: u32)" if "n \<le> 8"
proof -
  have a: "push_bit n 1 - 1 = (mask n :: u32)" by (simp add: mask_eq_exp_minus_1 push_bit_eq_mult)
  have b: "(0xff :: u32) = mask 8" by (simp add: mask_eq_exp_minus_1)
  show ?thesis unfolding a b take_bit_eq_mask [symmetric] using that by (simp add: take_bit_of_mask min_def)
qed

lemma bit_aarch64_bas:
  assumes "is_valid_len len" and "i < 32"
  shows "bit (aarch64_bas addr len) i \<longleftrightarrow> unat addr mod 8 \<le> i \<and> i < unat addr mod 8 + unat len"
proof -
  have n: "unat len \<le> 8" using assms(1) by (auto simp: is_valid_len_unat)
  have "unat (ucast (addr AND 7) :: u32) = unat addr mod 8"
    by (simp only: unsigned_ucast_eq unat_and_7) (simp add: take_bit_nat_eq_self)
  then have "aarch64_bas addr len = push_bit (unat addr mod 8) (mask (unat len))"
    unfolding aarch64_bas_def Let_def low_mask [OF n] by simp
  then show ?thesis using assms(2) by (auto simp: bit_simps)
qed

lemma unat_align: "unat (addr AND NOT 7 :: u64) = unat addr - unat addr mod 8"
proof -
  have "(addr AND NOT 7) + (addr AND 7) = (addr AND NOT 7) OR (addr AND 7)"
    by (rule disjunctive_add) (auto simp: bit_simps)
  also have "\<dots> = addr" by (rule bit_word_eqI) (auto simp: bit_simps)
  finally have e: "addr AND NOT 7 = addr - (addr AND 7)" by (simp add: algebra_simps)
  have "addr AND 7 \<le> addr" by (simp only: word_le_nat_alt unat_and_7 mod_less_eq_dividend)
  then show ?thesis by (simp only: e unat_sub unat_and_7)
qed

text \<open>The fields of the aarch64 control word do not overlap.\<close>

lemma bit_aarch64_control:
  assumes "aarch64_control addr len kind = Ok (base, ctrl)" and "unat addr mod 8 + unat len \<le> 8"
  shows "bit ctrl 0" and "bit ctrl 4" and "bit ctrl 3 \<longleftrightarrow> kind = WatchReadWrite"
    and "i < 8 \<Longrightarrow> bit ctrl (5 + i) \<longleftrightarrow> unat addr mod 8 \<le> i \<and> i < unat addr mod 8 + unat len"
proof -
  from assms(1) have len: "is_valid_len len"
    and c: "ctrl = 1 OR push_bit 1 2 OR push_bit 3 (aarch64_lsc kind) OR push_bit 5 (aarch64_bas addr len)"
    by (auto simp: aarch64_control_def Let_def split: if_splits)
  show "bit ctrl 0" "bit ctrl 4" "bit ctrl 3 \<longleftrightarrow> kind = WatchReadWrite"
    unfolding c by (cases kind; simp add: bit_simps)+
  have lsc: "\<not> bit (push_bit 3 (aarch64_lsc kind)) (5 + i)" for i
    by (cases kind) (auto simp: bit_simps numeral_eq_Suc)
  have "(push_bit 1 2 :: u32) = 2 ^ 2" by simp
  then have pac: "\<not> bit (push_bit 1 2 :: u32) (5 + i)" for i by (simp only: bit_exp_iff) simp
  assume "i < 8"
  with lsc [of i] pac [of i] bit_aarch64_bas [OF len, of i addr]
  show "bit ctrl (5 + i) \<longleftrightarrow> unat addr mod 8 \<le> i \<and> i < unat addr mod 8 + unat len"
    unfolding c by (auto simp: bit_simps)
qed

subsection \<open>Arming\<close>

definition TRAP_HWBKPT :: i32 where "TRAP_HWBKPT = 4"
definition USER_DEBUGREG_OFFSET :: nat where "USER_DEBUGREG_OFFSET = 848"
definition DR0_OFFSET :: nat where "DR0_OFFSET = USER_DEBUGREG_OFFSET"
definition DR6_OFFSET :: nat where "DR6_OFFSET = USER_DEBUGREG_OFFSET + 6 * 8"
definition DR7_OFFSET :: nat where "DR7_OFFSET = USER_DEBUGREG_OFFSET + 7 * 8"

datatype hw_error = HwRequest watchpoint_error | HwReason string

text \<open>
  \<open>PTRACE_POKEUSER\<close> on x86-64 and \<open>PTRACE_SETREGSET\<close> on aarch64 are parameters that either change
  the tracee's debug registers or fail.
\<close>

type_synonym 'os poke_fun = "nat \<Rightarrow> u64 \<Rightarrow> ('os, unit, unit) st"

definition poke_user :: "'os poke_fun \<Rightarrow> nat \<Rightarrow> u64 \<Rightarrow> ('os, unit, hw_error) st" where
  "poke_user poke offset data = (\<lambda>o0. case poke offset data o0 of
     (r, o1) \<Rightarrow> (map_err (\<lambda>_. HwReason ''PTRACE_POKEUSER on a debug register failed'') r, o1))"

definition arm_x86_64 :: "'os poke_fun \<Rightarrow> u64 \<Rightarrow> u8 \<Rightarrow> watch_kind \<Rightarrow> ('os, unit, hw_error) st" where
  "arm_x86_64 poke addr len kind =
     st_bind (st_lift (map_err HwRequest (x86_dr7 kind len))) (\<lambda>dr7.
     st_bind (poke_user poke DR0_OFFSET addr) (\<lambda>_.
     poke_user poke DR7_OFFSET dr7))"

definition disarm_x86_64 :: "'os poke_fun \<Rightarrow> ('os, unit, hw_error) st" where
  "disarm_x86_64 poke = poke_user poke DR7_OFFSET 0"

definition clear_status_x86_64 :: "'os poke_fun \<Rightarrow> ('os, unit, hw_error) st" where
  "clear_status_x86_64 poke = poke_user poke DR6_OFFSET 0"

record hw_debug_reg =
  hw_addr :: u64
  hw_ctrl :: u32
  hw_pad :: u32

record hw_debug_state =
  hw_dbg_info :: u32
  hw_state_pad :: u32
  hw_reg :: hw_debug_reg

definition hw_debug_state_default :: hw_debug_state where
  "hw_debug_state_default = \<lparr>hw_dbg_info = 0, hw_state_pad = 0,
     hw_reg = \<lparr>hw_addr = 0, hw_ctrl = 0, hw_pad = 0\<rparr>\<rparr>"

type_synonym 'os regset_fun = "hw_debug_state \<Rightarrow> ('os, unit, unit) st"

definition set_hw_watch :: "'os regset_fun \<Rightarrow> hw_debug_state \<Rightarrow> ('os, unit, hw_error) st" where
  "set_hw_watch setreg state = (\<lambda>o0. case setreg state o0 of
     (r, o1) \<Rightarrow> (map_err (\<lambda>_. HwReason ''PTRACE_SETREGSET on the watchpoint regset failed'') r, o1))"

definition arm_aarch64 :: "'os regset_fun \<Rightarrow> u64 \<Rightarrow> u8 \<Rightarrow> watch_kind \<Rightarrow> ('os, unit, hw_error) st" where
  "arm_aarch64 setreg addr len kind =
     st_bind (st_lift (map_err HwRequest (aarch64_control addr len kind))) (\<lambda>(aligned, ctrl).
     set_hw_watch setreg (hw_debug_state_default\<lparr>hw_reg := \<lparr>hw_addr = aligned, hw_ctrl = ctrl, hw_pad = 0\<rparr>\<rparr>))"

definition disarm_aarch64 :: "'os regset_fun \<Rightarrow> ('os, unit, hw_error) st" where
  "disarm_aarch64 setreg = set_hw_watch setreg hw_debug_state_default"

definition is_watch_hit :: "('os, i32, 'e) st \<Rightarrow> ('os, bool, 'e) st" where
  "is_watch_hit getsiginfo = st_bind getsiginfo (\<lambda>si_code. st_return (si_code = TRAP_HWBKPT))"

subsection \<open>Properties\<close>

text \<open>
  C11. A validated watch request is encoded exactly: on x86-64 \<open>DR7\<close> enables slot 0 for the requested
  length and kind; on aarch64 the selected bytes are exactly the requested range, writes always trap
  and reads trap exactly when asked for. An invalid length is refused by both encoders.
\<close>

theorem watch_encoding_exact:
  "(watch_validate addr len = Ok () \<longrightarrow>
      (\<exists>dr7. x86_dr7 kind len = Ok dr7 \<and> x86_watched_len dr7 = unat len \<and> x86_traps_write dr7
         \<and> (x86_traps_read dr7 \<longleftrightarrow> kind = WatchReadWrite))
    \<and> (\<exists>base ctrl. aarch64_control addr len kind = Ok (base, ctrl)
         \<and> aarch64_watched base ctrl = {unat addr ..< unat addr + unat len}
         \<and> aarch64_traps_write ctrl \<and> (aarch64_traps_read ctrl \<longleftrightarrow> kind = WatchReadWrite)))
   \<and> (\<not> is_valid_len len \<longrightarrow> watch_validate addr len = Err (InvalidLen len)
        \<and> x86_dr7 kind len = Err (InvalidLen len) \<and> aarch64_control addr len kind = Err (InvalidLen len))"
proof (intro conjI impI)
  assume v: "watch_validate addr len = Ok ()"
  then have len: "is_valid_len len" and fit: "unat addr mod 8 + unat len \<le> 8"
    by (auto simp: watch_validate_Ok)
  show "\<exists>dr7. x86_dr7 kind len = Ok dr7 \<and> x86_watched_len dr7 = unat len \<and> x86_traps_write dr7
         \<and> (x86_traps_read dr7 \<longleftrightarrow> kind = WatchReadWrite)"
    using len unfolding is_valid_len_def x86_dr7_def x86_len_bits_def x86_watched_len_def
      x86_traps_write_def x86_traps_read_def
    by (cases kind) (elim disjE; simp; code_simp)+
  show "\<exists>base ctrl. aarch64_control addr len kind = Ok (base, ctrl)
         \<and> aarch64_watched base ctrl = {unat addr ..< unat addr + unat len}
         \<and> aarch64_traps_write ctrl \<and> (aarch64_traps_read ctrl \<longleftrightarrow> kind = WatchReadWrite)"
  proof -
    from len obtain base ctrl where c: "aarch64_control addr len kind = Ok (base, ctrl)"
      and base: "base = addr AND NOT 7"
      by (auto simp: aarch64_control_def Let_def)
    note bits = bit_aarch64_control [OF c fit]
    have "aarch64_watched base ctrl = {unat addr ..< unat addr + unat len}"
    proof (intro equalityI subsetI)
      fix a assume "a \<in> aarch64_watched base ctrl"
      then obtain i where "i < 8" "bit ctrl (5 + i)" "a = unat base + i" by (auto simp: aarch64_watched_def)
      with bits(4) [of i] base unat_align [of addr] mod_less_eq_dividend [of "unat addr" 8]
      show "a \<in> {unat addr ..< unat addr + unat len}" by auto
    next
      fix a assume a: "a \<in> {unat addr ..< unat addr + unat len}"
      define i where "i = a - unat base"
      have "unat base = unat addr - unat addr mod 8" unfolding base by (rule unat_align)
      with a fit mod_less_eq_dividend [of "unat addr" 8]
      have "unat base \<le> a" "i < 8" "unat addr mod 8 \<le> i" "i < unat addr mod 8 + unat len"
        by (auto simp: i_def)
      with bits(4) [of i] show "a \<in> aarch64_watched base ctrl"
        by (auto simp: aarch64_watched_def i_def intro!: exI [of _ "a - unat base"])
    qed
    with c bits(1-3) show ?thesis by (auto simp: aarch64_traps_write_def aarch64_traps_read_def)
  qed
qed (auto simp: watch_validate_def x86_dr7_def x86_len_bits_def aarch64_control_def is_valid_len_def)

text \<open>Witness: a read-write watch of the four bytes at 0x1004.\<close>

theorem watch_encoding_exact_witness:
  "watch_validate 0x1004 4 = Ok ()
   \<and> (\<exists>base ctrl. aarch64_control 0x1004 4 WatchReadWrite = Ok (base, ctrl)
        \<and> aarch64_watched base ctrl = {0x1004 ..< 0x1008} \<and> aarch64_traps_read ctrl)"
proof -
  have "watch_validate 0x1004 4 = Ok ()" by code_simp
  moreover from this have "\<exists>base ctrl. aarch64_control 0x1004 4 WatchReadWrite = Ok (base, ctrl)
        \<and> aarch64_watched base ctrl = {0x1004 ..< 0x1008} \<and> aarch64_traps_read ctrl"
    using watch_encoding_exact [of "0x1004" 4 WatchReadWrite] by auto
  ultimately show ?thesis by blast
qed

end
