(* ===== verification/ReplayCore.thy ===== *)
theory ReplayCore
  imports Unwind SyscallCapture TraceLog Scheduler OrdMap ReplaySelect Watchpoint
begin

text \<open>
  State and shared operations of the replay engine: the session record of \<open>replay/src/session.rs\<close>
  with the multi-threaded state of \<open>mt.rs\<close>, register access (\<open>regs.rs\<close>, x86-64), memory access and
  the choice of injected syscalls (\<open>inject.rs\<close>), fork snapshots (\<open>checkpoint.rs\<close>), and the servicing
  of watchpoint hits, which both drivers use. The kernel and the unwinder are parameters; the
  threads that drain the target's output are in \<open>OutputDrain\<close>, the aarch64 registers in \<open>ArmReplay\<close>.
\<close>

subsection \<open>Errors, outcomes and data\<close>

text \<open>The detail of a schedule divergence, a formatted text in the source.\<close>

datatype diverged_detail =
    SignalMismatch i32 i32
  | NoMatchingEntry u32
  | ChildDidNotStop pid wait_status
  | ThreadSignalMismatch u32 i32 i32
  | MissingTid
  | WrongThread u32 u32
  | UnboundTid u32
  | WrongStop u32 string wait_status
  | MapConflict tid_map_error

datatype replay_error =
    ReTrace trace_error
  | RePayload payload_error
  | NoCmdline
  | ReSpawn io_error
  | RePtrace errno
  | ReMemory u64 nat errno
  | Diverged u64 u64 u64
  | ScheduleDiverged u64 diverged_detail
  | UnexpectedRecord u64 string event_kind
  | TraceExhausted
  | ReCheckpoint "u64 option" string
  | ReOutput io_error
  | WatchpointRequest watchpoint_error
  | ReWatchpoint string
  | ReUnwind remote_error

datatype exit_outcome = OutExited i32 | OutSignaled i32 | Running

type_synonym registers = syscall_regs

text \<open>
  The register file of x86-64: the registers the engine reads or writes by name, and the others,
  which it only saves and restores.
\<close>

record full_regs =
  fr_rip :: u64
  fr_rax :: u64
  fr_orig_rax :: u64
  fr_rdi :: u64
  fr_rsi :: u64
  fr_rdx :: u64
  fr_r10 :: u64
  fr_r8 :: u64
  fr_r9 :: u64
  fr_others :: "u64 list"

record checkpoint_info =
  cp_seq :: u64
  cp_cursor :: nat
  cp_current_seq :: "u64 option"
  cp_last_regs :: "registers option"
  cp_snapshot :: pid

record watchpoint =
  wp_addr :: u64
  wp_len :: u8
  wp_kind :: watch_kind

record watch_hit =
  wh_seq :: "u64 option"
  wh_pc :: u64
  wh_old_value :: "bytes option"
  wh_new_value :: bytes
  wh_backtrace :: "symbolized_frame list"

record pending_sys =
  ps_suppressed :: bool
  ps_inject_addr :: "u64 option"

record thread_rt =
  rt_pending :: "pending_sys option"
  rt_resume_signal :: "i32 option"

record mt_state =
  mt_leader :: pid
  mt_threads :: "(pid, thread_rt) btree_map"
  mt_tidmap :: tid_map
  mt_vfork_suspended :: "(pid, pid) btree_map"
  mt_expected_tid :: "u32 option"

record pending_entry =
  pe_inject_addr :: "u64 option"

record 'os session =
  rs_pid :: pid
  rs_cmdline :: cmdline
  rs_records :: "trace_record list"
  rs_cursor :: nat
  rs_current_seq :: "u64 option"
  rs_pending :: "pending_entry option"
  rs_resume_signal :: "i32 option"
  rs_last_regs :: "registers option"
  rs_finished :: "exit_outcome option"
  rs_checkpoint_interval :: u64
  rs_checkpoints :: "checkpoint_info list"
  rs_watchpoint :: "watchpoint option"
  rs_watch_hits :: "watch_hit list"
  rs_last_value :: "bytes option"
  rs_unwinder :: "pid option"
  rs_multithreaded :: bool
  rs_mt :: "mt_state option"
  rs_os :: 'os

text \<open>The kernel and the unwinder, as the calls the source makes.\<close>

type_synonym wait_flags = u32

definition no_flags :: wait_flags where "no_flags = 0"
definition WALL :: wait_flags where "WALL = 0x40000000"

definition PTRACE_O_TRACESYSGOOD :: u32 where "PTRACE_O_TRACESYSGOOD = 1"
definition PTRACE_O_TRACEFORK :: u32 where "PTRACE_O_TRACEFORK = 2"
definition PTRACE_O_TRACEVFORK :: u32 where "PTRACE_O_TRACEVFORK = 4"
definition PTRACE_O_TRACECLONE :: u32 where "PTRACE_O_TRACECLONE = 8"
definition PTRACE_O_TRACEEXEC :: u32 where "PTRACE_O_TRACEEXEC = 0x10"
definition PTRACE_O_EXITKILL :: u32 where "PTRACE_O_EXITKILL = 0x100000"

record 'os replay_os =
  po_abi :: syscall_numbers
  po_sys_clone :: u64
  po_spawn :: "cmdline \<Rightarrow> ('os, pid, io_error) st"
  po_waitpid :: "wait_flags \<Rightarrow> pid \<Rightarrow> ('os, wait_status, errno) st"
  po_setoptions :: "pid \<Rightarrow> u32 \<Rightarrow> ('os, unit, errno) st"
  po_syscall :: "pid \<Rightarrow> i32 option \<Rightarrow> ('os, unit, errno) st"
  po_step :: "pid \<Rightarrow> ('os, unit, errno) st"
  po_kill :: "pid \<Rightarrow> ('os, unit, errno) st"
  po_getregs :: "pid \<Rightarrow> ('os, full_regs, errno) st"
  po_setregs :: "pid \<Rightarrow> full_regs \<Rightarrow> ('os, unit, errno) st"
  po_getevent :: "pid \<Rightarrow> ('os, i64, errno) st"
  po_vm_readv :: "pid \<Rightarrow> u64 \<Rightarrow> nat \<Rightarrow> ('os, bytes, errno) st"
  po_vm_writev :: "pid \<Rightarrow> u64 \<Rightarrow> bytes \<Rightarrow> ('os, nat, errno) st"
  po_pokeuser :: "pid \<Rightarrow> 'os poke_fun"
  po_siginfo :: "pid \<Rightarrow> ('os, i32, errno) st"
  po_unwinder_new :: "pid \<Rightarrow> ('os, unit, remote_error) st"
  po_backtrace :: "pid \<Rightarrow> ('os, u64 \<times> symbolized_frame list, remote_error) st"

type_synonym ('os, 'a) replay = "('os session, 'a, replay_error) st"

definition EFAULT :: errno where "EFAULT = 14"
definition SIGTRAP :: i32 where "SIGTRAP = 5"
definition SIGCHLD :: u64 where "SIGCHLD = 17"

definition ros_do :: "('e \<Rightarrow> replay_error) \<Rightarrow> ('os, 'a, 'e) st \<Rightarrow> ('os, 'a) replay" where
  "ros_do f m = (\<lambda>s. case m (rs_os s) of (r, o') \<Rightarrow> (map_err f r, s\<lparr>rs_os := o'\<rparr>))"

fun hw_to_replay :: "hw_error \<Rightarrow> replay_error" where
  "hw_to_replay (HwRequest e) = WatchpointRequest e"
| "hw_to_replay (HwReason r) = ReWatchpoint r"

subsection \<open>Registers\<close>

definition regs_of_full :: "full_regs \<Rightarrow> registers" where
  "regs_of_full r = \<lparr>sr_nr = fr_orig_rax r, sr_ret = fr_rax r,
     sr_args = [fr_rdi r, fr_rsi r, fr_rdx r, fr_r10 r, fr_r8 r, fr_r9 r]\<rparr>"

definition regs_read :: "'os replay_os \<Rightarrow> pid \<Rightarrow> ('os, registers) replay" where
  "regs_read os pid = st_bind (ros_do RePtrace (po_getregs os pid)) (\<lambda>r. st_return (regs_of_full r))"

definition suppress_syscall :: "'os replay_os \<Rightarrow> pid \<Rightarrow> ('os, unit) replay" where
  "suppress_syscall os pid =
     st_bind (ros_do RePtrace (po_getregs os pid)) (\<lambda>r.
     ros_do RePtrace (po_setregs os pid (r\<lparr>fr_orig_rax := - 1\<rparr>)))"

definition set_return :: "'os replay_os \<Rightarrow> pid \<Rightarrow> i64 \<Rightarrow> ('os, unit) replay" where
  "set_return os pid ret =
     st_bind (ros_do RePtrace (po_getregs os pid)) (\<lambda>r.
     ros_do RePtrace (po_setregs os pid (r\<lparr>fr_rax := ret\<rparr>)))"

definition save_full :: "'os replay_os \<Rightarrow> pid \<Rightarrow> ('os, full_regs) replay" where
  "save_full os pid = ros_do RePtrace (po_getregs os pid)"

definition restore_full :: "'os replay_os \<Rightarrow> pid \<Rightarrow> full_regs \<Rightarrow> ('os, unit) replay" where
  "restore_full os pid r = ros_do RePtrace (po_setregs os pid r)"

definition prepare_fork :: "u64 \<Rightarrow> full_regs \<Rightarrow> full_regs" where
  "prepare_fork sys_clone r = r\<lparr>fr_rip := fr_rip r - 2, fr_rax := sys_clone, fr_orig_rax := sys_clone,
     fr_rdi := SIGCHLD, fr_rsi := 0, fr_rdx := 0, fr_r10 := 0, fr_r8 := 0, fr_r9 := 0\<rparr>"

subsection \<open>Injection and memory\<close>

definition injection_addr :: "syscall_numbers \<Rightarrow> u64 \<Rightarrow> u64 list \<Rightarrow> u64 option" where
  "injection_addr abi nr args =
     (if nr \<in> {SYS_read abi, SYS_pread64 abi, SYS_recvfrom abi} then Some (args ! 1)
      else if nr = SYS_getrandom abi then Some (args ! 0)
      else if nr = SYS_clock_gettime abi then Some (args ! 1)
      else None)"

definition write_memory :: "'os replay_os \<Rightarrow> pid \<Rightarrow> u64 \<Rightarrow> bytes \<Rightarrow> ('os, unit) replay" where
  "write_memory os pid addr data =
     (if data = [] then st_return ()
      else st_bind (ros_do (ReMemory addr (length data)) (po_vm_writev os pid addr data)) (\<lambda>written.
           if written \<noteq> length data then st_fail (ReMemory addr (length data) EFAULT)
           else st_return ()))"

definition read_memory :: "'os replay_os \<Rightarrow> pid \<Rightarrow> u64 \<Rightarrow> nat \<Rightarrow> ('os, bytes) replay" where
  "read_memory os pid addr len =
     st_bind (ros_do (ReMemory addr len) (po_vm_readv os pid addr len)) (\<lambda>got.
     st_return (take len got @ replicate (len - length got) 0))"

text \<open>
  The injection set mirrors the recorder's: a syscall whose kernel-written region the recorder may
  capture is one whose result replay injects, at the same address.
\<close>

lemma injection_covers_capture:
  "SYS_getrandom abi \<noteq> SYS_clock_gettime abi \<Longrightarrow> kernel_written_region abi nr args ret = Some (addr, len) \<Longrightarrow> injection_addr abi nr args = Some addr"
  by (auto simp: kernel_written_region_def injection_addr_def split: if_splits)

subsection \<open>Fork snapshots\<close>

definition is_fork_event :: "i32 \<Rightarrow> bool" where
  "is_fork_event event \<longleftrightarrow>
     event = PTRACE_EVENT_FORK \<or> event = PTRACE_EVENT_VFORK \<or> event = PTRACE_EVENT_CLONE"

definition setup_options :: "'os replay_os \<Rightarrow> pid \<Rightarrow> ('os, unit) replay" where
  "setup_options os pid = ros_do RePtrace (po_setoptions os pid
     (PTRACE_O_TRACESYSGOOD OR PTRACE_O_EXITKILL OR PTRACE_O_TRACEFORK OR PTRACE_O_TRACEVFORK
      OR PTRACE_O_TRACECLONE))"

definition wait_for_fork_child :: "'os replay_os \<Rightarrow> pid \<Rightarrow> ('os, pid) replay" where
  "wait_for_fork_child os pid =
     st_bind (ros_do RePtrace (po_waitpid os no_flags pid)) (\<lambda>status.
     case status of
       PtraceEvent p sig event \<Rightarrow>
         (if is_fork_event event
          then st_bind (ros_do RePtrace (po_getevent os pid)) (\<lambda>raw. st_return (ucast raw))
          else st_fail (ReCheckpoint None ''expected a fork event after the injected clone syscall''))
     | _ \<Rightarrow> st_fail (ReCheckpoint None ''expected a fork event after the injected clone syscall''))"

definition fork_snapshot :: "'os replay_os \<Rightarrow> pid \<Rightarrow> ('os, pid) replay" where
  "fork_snapshot os pid =
     st_bind (save_full os pid) (\<lambda>saved.
     st_bind (restore_full os pid (prepare_fork (po_sys_clone os) saved)) (\<lambda>_.
     st_bind (ros_do RePtrace (po_step os pid)) (\<lambda>_.
     st_bind (wait_for_fork_child os pid) (\<lambda>child.
     st_bind (ros_do RePtrace (po_waitpid os no_flags child)) (\<lambda>st1.
     st_bind (case st1 of Stopped _ _ \<Rightarrow> st_return () | PtraceEvent _ _ _ \<Rightarrow> st_return ()
              | _ \<Rightarrow> st_fail (ReCheckpoint None ''fork snapshot child did not stop as expected'')) (\<lambda>_.
     st_bind (setup_options os child) (\<lambda>_.
     st_bind (ros_do RePtrace (po_syscall os pid None)) (\<lambda>_.
     st_bind (ros_do RePtrace (po_waitpid os no_flags pid)) (\<lambda>st2.
     st_bind (case st2 of PtraceSyscall _ \<Rightarrow> st_return ()
              | _ \<Rightarrow> st_fail (ReCheckpoint None ''expected the injected clone's own syscall-exit stop'')) (\<lambda>_.
     st_bind (restore_full os pid saved) (\<lambda>_.
     st_bind (restore_full os child saved) (\<lambda>_.
     st_return child))))))))))))"

subsection \<open>Records\<close>

fun skip_count :: "trace_record list \<Rightarrow> nat" where
  "skip_count [] = 0"
| "skip_count (r # rs) = (if ev_kind (rec_event r) = Checkpoint then Suc (skip_count rs) else 0)"

text \<open>The \<open>while\<close> loop of \<open>skip_checkpoints\<close>: the cursor moves past the checkpoint records ahead.\<close>

definition skip_checkpoints :: "('os, unit) replay" where
  "skip_checkpoints = st_modify (\<lambda>s.
     s\<lparr>rs_cursor := rs_cursor s + skip_count (drop (rs_cursor s) (rs_records s))\<rparr>)"

definition record_at :: "'os session \<Rightarrow> trace_record option" where
  "record_at s = (if rs_cursor s < length (rs_records s) then Some (rs_records s ! rs_cursor s) else None)"

definition next_record :: "('os, trace_record) replay" where
  "next_record =
     st_bind skip_checkpoints (\<lambda>_.
     st_bind (st_get record_at) (\<lambda>r.
     case r of
       None \<Rightarrow> st_fail TraceExhausted
     | Some rcd \<Rightarrow> st_bind (st_modify (\<lambda>s. s\<lparr>rs_cursor := rs_cursor s + 1\<rparr>)) (\<lambda>_. st_return rcd)))"

subsection \<open>Watchpoints\<close>

definition hw_arm :: "'os replay_os \<Rightarrow> pid \<Rightarrow> watchpoint \<Rightarrow> ('os, unit) replay" where
  "hw_arm os pid wp = ros_do hw_to_replay (arm_x86_64 (po_pokeuser os pid) (wp_addr wp) (wp_len wp) (wp_kind wp))"

definition hw_disarm :: "'os replay_os \<Rightarrow> pid \<Rightarrow> ('os, unit) replay" where
  "hw_disarm os pid = ros_do hw_to_replay (disarm_x86_64 (po_pokeuser os pid))"

definition session_is_watch_hit :: "'os replay_os \<Rightarrow> pid \<Rightarrow> ('os, bool) replay" where
  "session_is_watch_hit os pid = (\<lambda>s.
     if rs_watchpoint s = None then (Ok False, s)
     else ros_do RePtrace (is_watch_hit (po_siginfo os pid)) s)"

definition capture_backtrace :: "'os replay_os \<Rightarrow> pid \<Rightarrow> ('os, u64 \<times> symbolized_frame list) replay" where
  "capture_backtrace os pid =
     st_bind (st_get rs_unwinder) (\<lambda>cached.
     st_bind (st_modify (\<lambda>s. s\<lparr>rs_unwinder := None\<rparr>)) (\<lambda>_.
     st_bind (case cached of
         Some u \<Rightarrow> st_return u
       | None \<Rightarrow> st_bind (ros_do ReUnwind (po_unwinder_new os pid)) (\<lambda>_. st_return pid)) (\<lambda>u.
     st_bind (ros_do ReUnwind (po_backtrace os u)) (\<lambda>bt.
     st_bind (st_modify (\<lambda>s. s\<lparr>rs_unwinder := Some u\<rparr>)) (\<lambda>_.
     st_return bt)))))"

definition step_over_watch_x86_64 :: "'os replay_os \<Rightarrow> pid \<Rightarrow> ('os, unit) replay" where
  "step_over_watch_x86_64 os pid = ros_do hw_to_replay (clear_status_x86_64 (po_pokeuser os pid))"

definition on_watch_hit :: "'os replay_os \<Rightarrow> pid \<Rightarrow> ('os, unit) replay" where
  "on_watch_hit os pid = (\<lambda>s. case rs_watchpoint s of
       None \<Rightarrow> (Ok (), s)
     | Some wp \<Rightarrow>
         st_bind (capture_backtrace os pid) (\<lambda>(pc, backtrace).
         st_bind (step_over_watch_x86_64 os pid) (\<lambda>_.
         st_bind (read_memory os pid (wp_addr wp) (unat (wp_len wp))) (\<lambda>new_value.
         st_modify (\<lambda>s. s\<lparr>rs_last_value := Some new_value,
            rs_watch_hits := rs_watch_hits s @ [\<lparr>wh_seq = rs_current_seq s, wh_pc = pc,
              wh_old_value = rs_last_value s, wh_new_value = new_value, wh_backtrace = backtrace\<rparr>]\<rparr>)))) s)"

end
