(* ===== verification/MtReplay.thy ===== *)
theory MtReplay
  imports ReplayCore
begin

text \<open>
  Multi-threaded replay with schedule enforcement (\<open>replay/src/mt.rs\<close>): each record of the trace
  directs exactly one live thread to its next instrumented point, and every deviation is an error.
\<close>

subsection \<open>State access\<close>

definition mt_new :: "pid \<Rightarrow> mt_state" where
  "mt_new leader = \<lparr>mt_leader = leader, mt_threads = [], mt_tidmap = tid_map_new,
     mt_vfork_suspended = [], mt_expected_tid = None\<rparr>"

definition thread_rt_default :: thread_rt where
  "thread_rt_default = \<lparr>rt_pending = None, rt_resume_signal = None\<rparr>"

text \<open>
  \<open>state(session)\<close>: the source panics when the state is missing; \<open>ensure_state\<close> runs first, so that a
  missing state is never read. Here reading it yields the initial state of the leader.
\<close>

definition the_mt :: "'os session \<Rightarrow> mt_state" where
  "the_mt s = (case rs_mt s of Some m \<Rightarrow> m | None \<Rightarrow> mt_new (rs_pid s))"

definition mt_update :: "(mt_state \<Rightarrow> mt_state) \<Rightarrow> ('os, unit) replay" where
  "mt_update f = st_modify (\<lambda>s. s\<lparr>rs_mt := Some (f (the_mt s))\<rparr>)"

definition live_pids :: "mt_state \<Rightarrow> pid list" where
  "live_pids m = bt_keys (mt_threads m)"

definition mt_classify :: "syscall_numbers \<Rightarrow> u64 \<Rightarrow> u64 list \<Rightarrow> bool \<times> u64 option" where
  "mt_classify abi nr args = (case injection_addr abi nr args of
       Some addr \<Rightarrow> (True, Some addr) | None \<Rightarrow> (False, None))"

definition mt_trace_options :: u32 where
  "mt_trace_options = PTRACE_O_TRACESYSGOOD OR PTRACE_O_EXITKILL OR PTRACE_O_TRACECLONE
     OR PTRACE_O_TRACEFORK OR PTRACE_O_TRACEVFORK OR PTRACE_O_TRACEEXEC"

definition ensure_state :: "'os replay_os \<Rightarrow> ('os, unit) replay" where
  "ensure_state os = (\<lambda>s. if rs_mt s \<noteq> None then (Ok (), s)
     else st_bind (ros_do RePtrace (po_setoptions os (rs_pid s) mt_trace_options)) (\<lambda>_.
          st_modify (\<lambda>s. s\<lparr>rs_mt := Some ((mt_new (rs_pid s))
            \<lparr>mt_threads := bt_insert (rs_pid s) thread_rt_default []\<rparr>)\<rparr>)) s)"

definition mt_advance :: "u64 \<Rightarrow> ('os, unit) replay" where
  "mt_advance seq = st_modify (\<lambda>s. s\<lparr>rs_current_seq := Some seq, rs_cursor := rs_cursor s + 1\<rparr>)"

definition thread_upd :: "pid \<Rightarrow> (thread_rt \<Rightarrow> thread_rt) \<Rightarrow> mt_state \<Rightarrow> mt_state" where
  "thread_upd live f m = m\<lparr>mt_threads := bt_update live f (mt_threads m)\<rparr>"

definition take_resume_signal :: "pid \<Rightarrow> ('os, i32 option) replay" where
  "take_resume_signal live =
     st_bind (st_get (\<lambda>s. Option.bind (bt_get (mt_threads (the_mt s)) live) rt_resume_signal)) (\<lambda>sig.
     st_bind (mt_update (thread_upd live (\<lambda>t. t\<lparr>rt_resume_signal := None\<rparr>))) (\<lambda>_.
     st_return sig))"

definition set_pending :: "pid \<Rightarrow> pending_sys option \<Rightarrow> ('os, unit) replay" where
  "set_pending live p = mt_update (thread_upd live (\<lambda>t. t\<lparr>rt_pending := p\<rparr>))"

definition take_pending :: "pid \<Rightarrow> ('os, pending_sys option) replay" where
  "take_pending live =
     st_bind (st_get (\<lambda>s. Option.bind (bt_get (mt_threads (the_mt s)) live) rt_pending)) (\<lambda>p.
     st_bind (mt_update (thread_upd live (\<lambda>t. t\<lparr>rt_pending := None\<rparr>))) (\<lambda>_.
     st_return p))"

definition stop_diverged :: "u64 \<Rightarrow> u32 \<Rightarrow> string \<Rightarrow> wait_status \<Rightarrow> replay_error" where
  "stop_diverged seq tid expected got = ScheduleDiverged seq (WrongStop tid expected got)"

definition tidmap_diverged :: "u64 \<Rightarrow> tid_map_error \<Rightarrow> replay_error" where
  "tidmap_diverged seq e = ScheduleDiverged seq (MapConflict e)"

definition enforce_tid :: "trace_record \<Rightarrow> ('os, u32) replay" where
  "enforce_tid rcd =
     st_bind (st_lift (ok_or (ScheduleDiverged (rec_seq rcd) MissingTid) (ev_tid (rec_event rcd)))) (\<lambda>tid.
     st_bind (st_get (\<lambda>s. mt_expected_tid (the_mt s))) (\<lambda>expected.
     case expected of
       None \<Rightarrow> st_bind (mt_update (\<lambda>m. m\<lparr>mt_expected_tid := Some tid\<rparr>)) (\<lambda>_. st_return tid)
     | Some e \<Rightarrow>
         (if e = tid then st_return tid
          else st_fail (ScheduleDiverged (rec_seq rcd) (WrongThread e tid)))))"

definition live_for :: "u32 \<Rightarrow> u64 \<Rightarrow> ('os, pid) replay" where
  "live_for tid seq = (\<lambda>s.
     let mt = the_mt s in
     case live_of (mt_tidmap mt) tid of
       Some live \<Rightarrow> (Ok live, s)
     | None \<Rightarrow>
         (if tid_map_is_empty (mt_tidmap mt)
          then (case tid_bind tid (mt_leader mt) (mt_tidmap mt) of
                  Ok m \<Rightarrow> (Ok (mt_leader mt), s\<lparr>rs_mt := Some (mt\<lparr>mt_tidmap := m\<rparr>)\<rparr>)
                | Err e \<Rightarrow> (Err (tidmap_diverged seq e), s))
          else (Err (ScheduleDiverged seq (UnboundTid tid)), s)))"

definition remove_thread :: "u32 \<Rightarrow> pid \<Rightarrow> ('os, unit) replay" where
  "remove_thread tid live = mt_update (\<lambda>m. m\<lparr>mt_threads := bt_remove live (mt_threads m),
     mt_tidmap := snd (unbind_recorded tid (mt_tidmap m)),
     mt_vfork_suspended := bt_remove live (mt_vfork_suspended m)\<rparr>)"

subsection \<open>Stepping one thread\<close>

definition PTRACE_EVENT_EXEC :: i32 where "PTRACE_EVENT_EXEC = 4"

text \<open>
  The loop of \<open>step_thread\<close> may go on as long as the tracee traps: at most \<open>fuel\<close> turns, \<open>None\<close> when
  they are used up.
\<close>

type_synonym ('os, 'a) replay_opt = "'os session \<Rightarrow> (('a, replay_error) result \<times> 'os session) option"

fun step_thread :: "'os replay_os \<Rightarrow> nat \<Rightarrow> pid \<Rightarrow> i32 option \<Rightarrow> ('os, wait_status) replay_opt" where
  "step_thread os 0 live sig s = None"
| "step_thread os (Suc fuel) live sig s =
     (case st_bind (ros_do RePtrace (po_syscall os live sig)) (\<lambda>_.
           st_bind (ros_do RePtrace (po_waitpid os WALL live)) (\<lambda>status.
           case status of
             PtraceEvent p g ev \<Rightarrow> st_return (status, ev = PTRACE_EVENT_EXEC)
           | Stopped p g \<Rightarrow>
               (if g = SIGTRAP
                then st_bind (session_is_watch_hit os live) (\<lambda>hit.
                     if hit then st_bind (on_watch_hit os live) (\<lambda>_. st_return (status, True))
                     else st_return (status, False))
                else st_return (status, False))
           | _ \<Rightarrow> st_return (status, False))) s of
        (Ok (status, True), s') \<Rightarrow> step_thread os fuel live None s'
      | (Ok (status, False), s') \<Rightarrow> Some (Ok status, s')
      | (Err e, s') \<Rightarrow> Some (Err e, s'))"

subsection \<open>The handlers\<close>

definition on_sched_switch :: "trace_record \<Rightarrow> ('os, unit) replay" where
  "on_sched_switch rcd =
     st_bind (st_lift (map_err RePayload (sched_switch_decode (ev_payload (rec_event rcd))))) (\<lambda>sw.
     st_bind (mt_update (\<lambda>m. m\<lparr>mt_expected_tid := Some (ss_tid sw)\<rparr>)) (\<lambda>_.
     mt_advance (rec_seq rcd)))"

definition on_syscall_enter :: "'os replay_os \<Rightarrow> nat \<Rightarrow> trace_record \<Rightarrow> ('os, unit) replay_opt" where
  "on_syscall_enter os fuel rcd =
     opt_bind (opt_lift (st_bind (enforce_tid rcd) (\<lambda>tid.
       st_bind (live_for tid (rec_seq rcd)) (\<lambda>live.
       st_bind (take_resume_signal live) (\<lambda>sig. st_return (tid, live, sig)))))) (\<lambda>(tid, live, sig).
     opt_bind (step_thread os fuel live sig) (\<lambda>status.
     opt_lift (case status of
       PtraceSyscall p \<Rightarrow>
         st_bind (regs_read os live) (\<lambda>regs.
         st_bind (st_modify (\<lambda>s. s\<lparr>rs_last_regs := Some regs\<rparr>)) (\<lambda>_.
         st_bind (st_lift (map_err RePayload (syscall_enter_decode (ev_payload (rec_event rcd))))) (\<lambda>enter.
         if se_nr enter \<noteq> sr_nr regs
         then st_fail (Diverged (rec_seq rcd) (se_nr enter) (sr_nr regs))
         else (case mt_classify (po_abi os) (sr_nr regs) (sr_args regs) of (suppress, inject_addr) \<Rightarrow>
              st_bind (if suppress then suppress_syscall os live else st_return ()) (\<lambda>_.
              st_bind (set_pending live (Some \<lparr>ps_suppressed = suppress, ps_inject_addr = inject_addr\<rparr>)) (\<lambda>_.
              mt_advance (rec_seq rcd)))))))
     | _ \<Rightarrow> st_fail (stop_diverged (rec_seq rcd) tid ''a syscall-entry stop'' status))))"

definition on_syscall_exit :: "'os replay_os \<Rightarrow> nat \<Rightarrow> trace_record \<Rightarrow> ('os, unit) replay_opt" where
  "on_syscall_exit os fuel rcd =
     opt_bind (opt_lift (st_bind (enforce_tid rcd) (\<lambda>tid.
       st_bind (live_for tid (rec_seq rcd)) (\<lambda>live. st_return (tid, live))))) (\<lambda>(tid, live).
     opt_bind (step_thread os fuel live None) (\<lambda>status.
     opt_lift (case status of
       PtraceSyscall p \<Rightarrow>
         st_bind (regs_read os live) (\<lambda>regs.
         st_bind (st_modify (\<lambda>s. s\<lparr>rs_last_regs := Some regs\<rparr>)) (\<lambda>_.
         st_bind (st_lift (map_err RePayload (syscall_exit_decode (ev_payload (rec_event rcd))))) (\<lambda>exit.
         st_bind (take_pending live) (\<lambda>pending.
         case pending of
           None \<Rightarrow> st_fail (ScheduleDiverged (rec_seq rcd) (NoMatchingEntry tid))
         | Some p \<Rightarrow>
             st_bind (if ps_suppressed p
                then st_bind (case ps_inject_addr p of
                       Some addr \<Rightarrow> write_memory os live addr (sx_data exit) | None \<Rightarrow> st_return ()) (\<lambda>_.
                     set_return os live (sx_ret exit))
                else st_return ()) (\<lambda>_.
             mt_advance (rec_seq rcd))))))
     | _ \<Rightarrow> st_fail (stop_diverged (rec_seq rcd) tid ''a syscall-exit stop'' status))))"

definition mt_register_child :: "'os replay_os \<Rightarrow> pid \<Rightarrow> u64 \<Rightarrow> ('os, unit) replay" where
  "mt_register_child os child seq =
     st_bind (ros_do RePtrace (po_waitpid os WALL child)) (\<lambda>status.
     st_bind (case status of Stopped _ _ \<Rightarrow> st_return () | PtraceEvent _ _ _ \<Rightarrow> st_return ()
       | other \<Rightarrow> st_fail (ScheduleDiverged seq (ChildDidNotStop child other))) (\<lambda>_.
     ros_do RePtrace (po_setoptions os child mt_trace_options)))"

definition bind_child :: "u64 \<Rightarrow> u32 \<Rightarrow> pid \<Rightarrow> pid \<Rightarrow> bool \<Rightarrow> ('os, unit) replay" where
  "bind_child seq child_tid child parent vforked = (\<lambda>s.
     let mt = the_mt s in
     case tid_bind child_tid child (mt_tidmap mt) of
       Err e \<Rightarrow> (Err (tidmap_diverged seq e), s)
     | Ok m \<Rightarrow> (Ok (), s\<lparr>rs_mt := Some (mt\<lparr>mt_tidmap := m,
           mt_threads := bt_insert child thread_rt_default (mt_threads mt),
           mt_vfork_suspended := (if vforked then bt_insert child parent (mt_vfork_suspended mt)
                                  else mt_vfork_suspended mt)\<rparr>)\<rparr>))"

definition on_thread_spawn :: "'os replay_os \<Rightarrow> nat \<Rightarrow> trace_record \<Rightarrow> ('os, unit) replay_opt" where
  "on_thread_spawn os fuel rcd =
     opt_bind (opt_lift (st_bind (enforce_tid rcd) (\<lambda>tid.
       st_bind (live_for tid (rec_seq rcd)) (\<lambda>parent.
       st_bind (st_lift (map_err RePayload (thread_spawn_decode (ev_payload (rec_event rcd))))) (\<lambda>spawn.
       st_bind (take_resume_signal parent) (\<lambda>sig. st_return (tid, parent, spawn, sig))))))) (\<lambda>(tid, parent, spawn, sig).
     opt_bind (step_thread os fuel parent sig) (\<lambda>status.
     opt_lift (case status of
       PtraceEvent p g event \<Rightarrow>
         (if is_spawn_event event
          then st_bind (ros_do RePtrace (po_getevent os parent)) (\<lambda>raw.
               let child = ucast raw in
               st_bind (mt_register_child os child (rec_seq rcd)) (\<lambda>_.
               st_bind (bind_child (rec_seq rcd) (ts_child_tid spawn) child parent (event = PTRACE_EVENT_VFORK)) (\<lambda>_.
               st_bind (st_get rs_watchpoint) (\<lambda>wp.
               st_bind (case wp of Some w \<Rightarrow> hw_arm os child w | None \<Rightarrow> st_return ()) (\<lambda>_.
               mt_advance (rec_seq rcd))))))
          else st_fail (stop_diverged (rec_seq rcd) tid ''a thread-spawn (clone) event'' status))
     | _ \<Rightarrow> st_fail (stop_diverged (rec_seq rcd) tid ''a thread-spawn (clone) event'' status))))"

definition on_thread_exit :: "'os replay_os \<Rightarrow> nat \<Rightarrow> trace_record \<Rightarrow> ('os, exit_outcome option) replay_opt" where
  "on_thread_exit os fuel rcd =
     opt_bind (opt_lift (st_bind (enforce_tid rcd) (\<lambda>tid.
       st_bind (live_for tid (rec_seq rcd)) (\<lambda>live.
       st_bind (take_resume_signal live) (\<lambda>sig. st_return (tid, live, sig)))))) (\<lambda>(tid, live, sig).
     opt_bind (step_thread os fuel live sig) (\<lambda>status.
     opt_lift (st_bind (case status of
         Exited p code \<Rightarrow> st_return (OutExited code)
       | Signaled p g \<Rightarrow> st_return (OutSignaled g)
       | other \<Rightarrow> st_fail (stop_diverged (rec_seq rcd) tid ''a thread exit'' other)) (\<lambda>outcome.
     st_bind (st_get (\<lambda>s. live = mt_leader (the_mt s))) (\<lambda>is_leader.
     st_bind (remove_thread tid live) (\<lambda>_.
     st_bind (mt_advance (rec_seq rcd)) (\<lambda>_.
     if is_leader
     then st_bind (st_modify (\<lambda>s. s\<lparr>rs_finished := Some outcome\<rparr>)) (\<lambda>_. st_return (Some outcome))
     else st_return None)))))))"

definition on_signal :: "'os replay_os \<Rightarrow> nat \<Rightarrow> trace_record \<Rightarrow> ('os, unit) replay_opt" where
  "on_signal os fuel rcd =
     opt_bind (opt_lift (st_bind (enforce_tid rcd) (\<lambda>tid.
       st_bind (live_for tid (rec_seq rcd)) (\<lambda>live.
       st_bind (take_resume_signal live) (\<lambda>sig. st_return (tid, live, sig)))))) (\<lambda>(tid, live, sig).
     opt_bind (step_thread os fuel live sig) (\<lambda>status.
     opt_lift (case status of
       Stopped p delivered \<Rightarrow>
         st_bind (st_lift (map_err RePayload (signal_delivery_decode (ev_payload (rec_event rcd))))) (\<lambda>recorded.
         if sd_signum recorded \<noteq> delivered
         then st_fail (ScheduleDiverged (rec_seq rcd) (ThreadSignalMismatch tid (sd_signum recorded) delivered))
         else st_bind (mt_update (thread_upd live (\<lambda>t. t\<lparr>rt_resume_signal := Some delivered\<rparr>))) (\<lambda>_.
              mt_advance (rec_seq rcd)))
     | _ \<Rightarrow> st_fail (stop_diverged (rec_seq rcd) tid ''a signal-delivery stop'' status))))"

subsection \<open>The driver\<close>

text \<open>Whether the position already satisfies the stop condition, as both drivers test it.\<close>

definition reached :: "u64 option \<Rightarrow> 'os session \<Rightarrow> bool" where
  "reached stop_at s = (case (stop_at, rs_current_seq s) of
       (Some target, Some current) \<Rightarrow> current \<ge> target | _ \<Rightarrow> False)"

text \<open>One turn of the loop on the record under the cursor; \<open>Some outcome\<close> ends it.\<close>

definition mt_turn :: "'os replay_os \<Rightarrow> nat \<Rightarrow> trace_record \<Rightarrow> ('os, exit_outcome option) replay_opt" where
  "mt_turn os fuel rcd = (case ev_kind (rec_event rcd) of
       Checkpoint \<Rightarrow> opt_lift (st_bind (st_modify (\<lambda>s. s\<lparr>rs_cursor := rs_cursor s + 1\<rparr>)) (\<lambda>_. st_return None))
     | SchedSwitch \<Rightarrow> opt_lift (st_bind (on_sched_switch rcd) (\<lambda>_. st_return None))
     | SyscallEnter \<Rightarrow> opt_bind (on_syscall_enter os fuel rcd) (\<lambda>_. opt_lift (st_return None))
     | SyscallExit \<Rightarrow> opt_bind (on_syscall_exit os fuel rcd) (\<lambda>_. opt_lift (st_return None))
     | ThreadSpawn \<Rightarrow> opt_bind (on_thread_spawn os fuel rcd) (\<lambda>_. opt_lift (st_return None))
     | ThreadExit \<Rightarrow> on_thread_exit os fuel rcd
     | Signal \<Rightarrow> opt_bind (on_signal os fuel rcd) (\<lambda>_. opt_lift (st_return None))
     | other \<Rightarrow> opt_lift (st_fail (UnexpectedRecord (rec_seq rcd) ''syscall or thread-lifecycle record'' other)))"

text \<open>
  The loop of \<open>drive\<close>. Every turn consumes one record, so that it ends without fuel of its own: \<open>n\<close>
  bounds the records left.
\<close>

fun mt_loop :: "'os replay_os \<Rightarrow> nat \<Rightarrow> nat \<Rightarrow> u64 option \<Rightarrow> ('os, exit_outcome) replay_opt" where
  "mt_loop os fuel 0 stop_at s = None"
| "mt_loop os fuel (Suc n) stop_at s =
     (if reached stop_at s then Some (Ok Running, s)
      else case record_at s of
        None \<Rightarrow> Some (Err TraceExhausted, s)
      | Some rcd \<Rightarrow> (case mt_turn os fuel rcd s of
            None \<Rightarrow> None
          | Some (Err e, s') \<Rightarrow> Some (Err e, s')
          | Some (Ok (Some outcome), s') \<Rightarrow> Some (Ok outcome, s')
          | Some (Ok None, s') \<Rightarrow> mt_loop os fuel n stop_at s'))"

definition mt_drive :: "'os replay_os \<Rightarrow> nat \<Rightarrow> u64 option \<Rightarrow> ('os, exit_outcome) replay_opt" where
  "mt_drive os fuel stop_at =
     opt_bind (opt_lift (ensure_state os)) (\<lambda>_.
     \<lambda>s. mt_loop os fuel (Suc (length (rs_records s) - rs_cursor s)) stop_at s)"

end
