(* ===== verification/Session.thy ===== *)
theory Session
  imports MtReplay
begin

text \<open>
  The replay session (\<open>replay/src/session.rs\<close>): launching, the single-threaded driver and its stop
  handlers, fork-snapshot checkpoints, restoring and respawning, watchpoint requests, teardown,
  and the watchpoint scan of \<open>scan.rs\<close>. A loop that may never end takes fuel, and \<open>None\<close> is that the
  fuel ran out.

  The theorems: every operation keeps the session's position consistent with the trace; \<open>run_to\<close>
  lands on the same record from every reachable state; checkpoints are ascending and consistent;
  divergence from the trace is an error.
\<close>

subsection \<open>Handlers of the single-threaded driver\<close>

definition on_entry :: "'os replay_os \<Rightarrow> registers \<Rightarrow> ('os, unit) replay" where
  "on_entry os regs =
     st_bind next_record (\<lambda>rcd.
     st_bind (case ev_kind (rec_event rcd) of
         SyscallEnter \<Rightarrow> st_lift (map_err RePayload (syscall_enter_decode (ev_payload (rec_event rcd))))
       | found \<Rightarrow> st_fail (UnexpectedRecord (rec_seq rcd) ''SyscallEnter'' found)) (\<lambda>enter.
     if se_nr enter \<noteq> sr_nr regs then st_fail (Diverged (rec_seq rcd) (se_nr enter) (sr_nr regs))
     else
       st_bind (st_modify (\<lambda>s. s\<lparr>rs_current_seq := Some (rec_seq rcd)\<rparr>)) (\<lambda>_.
       let inject_addr = injection_addr (po_abi os) (sr_nr regs) (sr_args regs) in
       st_bind (if inject_addr \<noteq> None then st_bind (st_get rs_pid) (suppress_syscall os) else st_return ()) (\<lambda>_.
       st_modify (\<lambda>s. s\<lparr>rs_pending := Some \<lparr>pe_inject_addr = inject_addr\<rparr>\<rparr>)))))"

definition session_on_exit :: "'os replay_os \<Rightarrow> pending_entry \<Rightarrow> ('os, unit) replay" where
  "session_on_exit os pending =
     st_bind next_record (\<lambda>rcd.
     st_bind (case ev_kind (rec_event rcd) of
         SyscallExit \<Rightarrow> st_lift (map_err RePayload (syscall_exit_decode (ev_payload (rec_event rcd))))
       | found \<Rightarrow> st_fail (UnexpectedRecord (rec_seq rcd) ''SyscallExit'' found)) (\<lambda>exit.
     st_bind (st_modify (\<lambda>s. s\<lparr>rs_current_seq := Some (rec_seq rcd)\<rparr>)) (\<lambda>_.
     case pe_inject_addr pending of
       Some addr \<Rightarrow>
         st_bind (st_get rs_pid) (\<lambda>pid.
         st_bind (write_memory os pid addr (sx_data exit)) (\<lambda>_.
         set_return os pid (sx_ret exit)))
     | None \<Rightarrow> st_return ())))"

definition on_syscall_stop :: "'os replay_os \<Rightarrow> ('os, unit) replay" where
  "on_syscall_stop os =
     st_bind (st_bind (st_get rs_pid) (regs_read os)) (\<lambda>regs.
     st_bind (st_modify (\<lambda>s. s\<lparr>rs_last_regs := Some regs\<rparr>)) (\<lambda>_.
     st_bind (st_get rs_pending) (\<lambda>pending.
     st_bind (st_modify (\<lambda>s. s\<lparr>rs_pending := None\<rparr>)) (\<lambda>_.
     case pending of
       None \<Rightarrow> on_entry os regs
     | Some p \<Rightarrow> session_on_exit os p))))"

definition on_signal_stop :: "i32 \<Rightarrow> ('os, unit) replay" where
  "on_signal_stop signal =
     st_bind skip_checkpoints (\<lambda>_.
     st_bind (st_get record_at) (\<lambda>r.
     st_bind (case r of
         None \<Rightarrow> st_return ()
       | Some rcd \<Rightarrow>
           (if ev_kind (rec_event rcd) = Signal
            then st_bind (st_lift (map_err RePayload (signal_delivery_decode (ev_payload (rec_event rcd))))) (\<lambda>recorded.
                 if sd_signum recorded \<noteq> signal
                 then st_fail (ScheduleDiverged (rec_seq rcd) (SignalMismatch (sd_signum recorded) signal))
                 else st_modify (\<lambda>s. s\<lparr>rs_current_seq := Some (rec_seq rcd), rs_cursor := rs_cursor s + 1\<rparr>))
            else st_return ())) (\<lambda>_.
     st_modify (\<lambda>s. s\<lparr>rs_resume_signal := Some signal\<rparr>))))"

subsection \<open>Checkpoints\<close>

definition maybe_checkpoint :: "'os replay_os \<Rightarrow> ('os, unit) replay" where
  "maybe_checkpoint os = (\<lambda>s.
     if rs_multithreaded s then (Ok (), s)
     else if rs_pending s \<noteq> None then (Ok (), s)
     else case rs_current_seq s of
       None \<Rightarrow> (Ok (), s)
     | Some seq \<Rightarrow>
         (let prev = (if rs_checkpoints s = [] then None else Some (cp_seq (last (rs_checkpoints s)))) in
          if \<not> is_checkpoint_due prev seq (rs_checkpoint_interval s) then (Ok (), s)
          else st_bind (fork_snapshot os (rs_pid s)) (\<lambda>snapshot.
               st_modify (\<lambda>s. s\<lparr>rs_checkpoints := rs_checkpoints s
                 @ [\<lparr>cp_seq = seq, cp_cursor = rs_cursor s, cp_current_seq = rs_current_seq s,
                     cp_last_regs = rs_last_regs s, cp_snapshot = snapshot\<rparr>]\<rparr>)) s))"

text \<open>A call whose result the source discards with \<open>let _ =\<close>.\<close>

definition ros_ignore :: "('os, 'a, 'e) st \<Rightarrow> ('os, unit) replay" where
  "ros_ignore m = (\<lambda>s. (Ok (), s\<lparr>rs_os := snd (m (rs_os s))\<rparr>))"

definition kill_active :: "'os replay_os \<Rightarrow> ('os, unit) replay" where
  "kill_active os = (\<lambda>s.
     if rs_finished s = None
     then st_bind (ros_ignore (po_kill os (rs_pid s))) (\<lambda>_.
          ros_ignore (po_waitpid os no_flags (rs_pid s))) s
     else (Ok (), s))"

definition rearm_watchpoint :: "'os replay_os \<Rightarrow> ('os, unit) replay" where
  "rearm_watchpoint os =
     st_bind (st_modify (\<lambda>s. s\<lparr>rs_unwinder := None\<rparr>)) (\<lambda>_.
     (\<lambda>s. case rs_watchpoint s of
        Some wp \<Rightarrow> hw_arm os (rs_pid s) wp s
      | None \<Rightarrow> (Ok (), s)))"

text \<open>\<open>self.checkpoints[index]\<close>: the index comes from \<open>plan_start\<close> and is in range.\<close>

definition restore_to_checkpoint :: "'os replay_os \<Rightarrow> nat \<Rightarrow> ('os, unit) replay" where
  "restore_to_checkpoint os index =
     st_bind (st_get (\<lambda>s. rs_checkpoints s ! index)) (\<lambda>cp.
     st_bind (fork_snapshot os (cp_snapshot cp)) (\<lambda>fresh.
     st_bind (kill_active os) (\<lambda>_.
     st_bind (st_modify (\<lambda>s. s\<lparr>rs_pid := fresh, rs_cursor := cp_cursor cp, rs_current_seq := cp_current_seq cp,
        rs_last_regs := cp_last_regs cp, rs_pending := None, rs_resume_signal := None,
        rs_finished := None, rs_mt := None\<rparr>)) (\<lambda>_.
     rearm_watchpoint os))))"

definition session_spawn :: "'os replay_os \<Rightarrow> cmdline \<Rightarrow> ('os, pid, replay_error) st" where
  "session_spawn os cmd = (\<lambda>o0. case po_spawn os cmd o0 of (r, o1) \<Rightarrow> (map_err ReSpawn r, o1))"

definition os_lift :: "('os, 'a, errno) st \<Rightarrow> ('os, 'a, replay_error) st" where
  "os_lift m = (\<lambda>o0. case m o0 of (r, o1) \<Rightarrow> (map_err RePtrace r, o1))"

definition respawn :: "'os replay_os \<Rightarrow> ('os, unit) replay" where
  "respawn os =
     st_bind (kill_active os) (\<lambda>_.
     st_bind (\<lambda>s. ros_do (\<lambda>e. e) (session_spawn os (rs_cmdline s)) s) (\<lambda>pid.
     st_bind (ros_do RePtrace (po_waitpid os no_flags pid)) (\<lambda>_.
     st_bind (setup_options os pid) (\<lambda>_.
     st_bind (st_modify (\<lambda>s. s\<lparr>rs_pid := pid, rs_cursor := 0, rs_current_seq := None, rs_pending := None,
        rs_resume_signal := None, rs_last_regs := None, rs_finished := None, rs_mt := None\<rparr>)) (\<lambda>_.
     rearm_watchpoint os)))))"

definition plan_start :: "u64 \<Rightarrow> 'os session \<Rightarrow> nat option \<times> u64" where
  "plan_start target s = (case nearest_at_or_before (map cp_seq (rs_checkpoints s)) target of
       Some index \<Rightarrow> (Some index, cp_seq (rs_checkpoints s ! index))
     | None \<Rightarrow> (None, 0))"

subsection \<open>The driver\<close>

definition session_finish :: "exit_outcome \<Rightarrow> ('os, exit_outcome) replay" where
  "session_finish outcome = st_bind (st_modify (\<lambda>s. s\<lparr>rs_finished := Some outcome\<rparr>)) (\<lambda>_. st_return outcome)"

text \<open>What a turn does once the tracee has stopped with \<open>status\<close>.\<close>

definition st_dispatch :: "'os replay_os \<Rightarrow> pid \<Rightarrow> wait_status \<Rightarrow> ('os, exit_outcome option) replay" where
  "st_dispatch os pid status = (case status of
       PtraceSyscall _ \<Rightarrow>
         st_bind (on_syscall_stop os) (\<lambda>_. st_bind (maybe_checkpoint os) (\<lambda>_. st_return None))
     | Stopped _ signal \<Rightarrow>
         st_bind (if signal = SIGTRAP then session_is_watch_hit os pid else st_return False) (\<lambda>hit.
         st_bind (if hit then on_watch_hit os pid else on_signal_stop signal) (\<lambda>_. st_return None))
     | Exited _ code \<Rightarrow> st_bind (session_finish (OutExited code)) (\<lambda>o'. st_return (Some o'))
     | Signaled _ sig' \<Rightarrow> st_bind (session_finish (OutSignaled sig')) (\<lambda>o'. st_return (Some o'))
     | _ \<Rightarrow> st_return None)"

text \<open>One turn of the single-threaded loop after the test of the stop condition; \<open>Some outcome\<close> ends it.\<close>

definition st_turn :: "'os replay_os \<Rightarrow> ('os, exit_outcome option) replay" where
  "st_turn os =
     st_bind (st_get rs_pid) (\<lambda>pid.
     st_bind (st_get rs_resume_signal) (\<lambda>sig.
     st_bind (st_modify (\<lambda>s. s\<lparr>rs_resume_signal := None\<rparr>)) (\<lambda>_.
     st_bind (ros_do RePtrace (po_syscall os pid sig)) (\<lambda>_.
     st_bind (ros_do RePtrace (po_waitpid os no_flags pid)) (st_dispatch os pid)))))"

fun st_loop :: "'os replay_os \<Rightarrow> nat \<Rightarrow> u64 option \<Rightarrow> ('os, exit_outcome) replay_opt" where
  "st_loop os 0 stop_at s = None"
| "st_loop os (Suc n) stop_at s =
     (if reached stop_at s then Some (Ok Running, s)
      else case st_turn os s of
        (Err e, s') \<Rightarrow> Some (Err e, s')
      | (Ok (Some outcome), s') \<Rightarrow> Some (Ok outcome, s')
      | (Ok None, s') \<Rightarrow> st_loop os n stop_at s')"

definition drive :: "'os replay_os \<Rightarrow> nat \<Rightarrow> u64 option \<Rightarrow> ('os, exit_outcome) replay_opt" where
  "drive os fuel stop_at = (\<lambda>s. case rs_finished s of
       Some outcome \<Rightarrow> Some (Ok outcome, s)
     | None \<Rightarrow> (if rs_multithreaded s then mt_drive os fuel stop_at s else st_loop os fuel stop_at s))"

subsection \<open>The public operations\<close>

definition restart_at :: "'os replay_os \<Rightarrow> nat option \<Rightarrow> ('os, unit) replay" where
  "restart_at os index = (case index of Some i \<Rightarrow> restore_to_checkpoint os i | None \<Rightarrow> respawn os)"

definition run_to :: "'os replay_os \<Rightarrow> nat \<Rightarrow> u64 \<Rightarrow> ('os, exit_outcome) replay_opt" where
  "run_to os fuel seq =
     opt_bind (opt_lift (\<lambda>s. case plan_start seq s of (index, start_seq) \<Rightarrow>
       (if should_restart (rs_current_seq s) start_seq seq then restart_at os index s else (Ok (), s)))) (\<lambda>_.
     drive os fuel (Some seq))"

definition restore_to :: "'os replay_os \<Rightarrow> u64 \<Rightarrow> ('os, unit) replay" where
  "restore_to os seq = (\<lambda>s. restart_at os (fst (plan_start seq s)) s)"

definition step_to :: "'os replay_os \<Rightarrow> nat \<Rightarrow> u64 \<Rightarrow> ('os, exit_outcome) replay_opt" where
  "step_to os fuel seq = drive os fuel (Some seq)"

definition run_to_end :: "'os replay_os \<Rightarrow> nat \<Rightarrow> ('os, exit_outcome) replay_opt" where
  "run_to_end os fuel = drive os fuel None"

definition set_checkpoint_interval :: "u64 \<Rightarrow> 'os session \<Rightarrow> 'os session" where
  "set_checkpoint_interval interval s = s\<lparr>rs_checkpoint_interval := interval\<rparr>"

definition session_read_memory :: "'os replay_os \<Rightarrow> u64 \<Rightarrow> nat \<Rightarrow> ('os, bytes) replay" where
  "session_read_memory os addr len = st_bind (st_get rs_pid) (\<lambda>pid. read_memory os pid addr len)"

definition live_threads :: "'os session \<Rightarrow> pid list" where
  "live_threads s = (case rs_mt s of Some m \<Rightarrow> live_pids m | None \<Rightarrow> [rs_pid s])"

fun for_each :: "('x \<Rightarrow> ('os, unit) replay) \<Rightarrow> 'x list \<Rightarrow> ('os, unit) replay" where
  "for_each f [] = st_return ()"
| "for_each f (x # xs) = st_bind (f x) (\<lambda>_. for_each f xs)"

definition watch :: "'os replay_os \<Rightarrow> u64 \<Rightarrow> u8 \<Rightarrow> watch_kind \<Rightarrow> ('os, unit) replay" where
  "watch os addr len kind =
     st_bind (st_lift (map_err WatchpointRequest (watch_validate addr len))) (\<lambda>_.
     st_bind (st_get live_threads) (\<lambda>lives.
     st_bind (for_each (\<lambda>live. hw_arm os live \<lparr>wp_addr = addr, wp_len = len, wp_kind = kind\<rparr>) lives) (\<lambda>_.
     st_bind (session_read_memory os addr (unat len)) (\<lambda>v.
     st_modify (\<lambda>s. s\<lparr>rs_last_value := Some v,
       rs_watchpoint := Some \<lparr>wp_addr = addr, wp_len = len, wp_kind = kind\<rparr>\<rparr>)))))"

definition clear_watch :: "'os replay_os \<Rightarrow> ('os, unit) replay" where
  "clear_watch os =
     st_bind (st_get rs_watchpoint) (\<lambda>taken.
     st_bind (st_modify (\<lambda>s. s\<lparr>rs_watchpoint := None\<rparr>)) (\<lambda>_.
     st_bind (\<lambda>s. if taken \<noteq> None \<and> rs_finished s = None
                  then for_each (hw_disarm os) (live_threads s) s else (Ok (), s)) (\<lambda>_.
     st_modify (\<lambda>s. s\<lparr>rs_last_value := None\<rparr>))))"

definition take_watch_hits :: "('os, watch_hit list) replay" where
  "take_watch_hits =
     st_bind (st_get rs_watch_hits) (\<lambda>hits.
     st_bind (st_modify (\<lambda>s. s\<lparr>rs_watch_hits := []\<rparr>)) (\<lambda>_. st_return hits))"

text \<open>
  \<open>launch\<close>: reading the trace, then the first stop of the new tracee. The trace file is its source
  of reads, or the error of opening it.
\<close>

definition session_new :: "pid \<Rightarrow> cmdline \<Rightarrow> trace_record list \<Rightarrow> 'os \<Rightarrow> 'os session" where
  "session_new pid cmd records o' = \<lparr>rs_pid = pid, rs_cmdline = cmd, rs_records = records, rs_cursor = 0,
     rs_current_seq = None, rs_pending = None, rs_resume_signal = None, rs_last_regs = None,
     rs_finished = None, rs_checkpoint_interval = 0, rs_checkpoints = [], rs_watchpoint = None,
     rs_watch_hits = [], rs_last_value = None, rs_unwinder = None,
     rs_multithreaded = trace_is_multithreaded records, rs_mt = None, rs_os = o'\<rparr>"

definition launch ::
  "crc_fun \<Rightarrow> 'os replay_os \<Rightarrow> (source, io_error) result \<Rightarrow> 'os \<Rightarrow> ('os session, replay_error) result \<times> 'os" where
  "launch crc os trace =
     st_bind (st_lift (map_err (\<lambda>e. ReTrace (TraceIo e)) trace)) (\<lambda>src.
     st_bind (st_lift (map_err ReTrace (reader_open src))) (\<lambda>rd.
     st_bind (st_lift (ok_or NoCmdline (rd_cmdline rd))) (\<lambda>cmd.
     st_bind (st_lift (map_err ReTrace (collect_results (read_all crc rd)))) (\<lambda>records.
     st_bind (session_spawn os cmd) (\<lambda>pid.
     st_bind (os_lift (po_waitpid os no_flags pid)) (\<lambda>_.
     st_bind (os_lift (po_setoptions os pid (PTRACE_O_TRACESYSGOOD OR PTRACE_O_EXITKILL OR PTRACE_O_TRACEFORK
         OR PTRACE_O_TRACEVFORK OR PTRACE_O_TRACECLONE))) (\<lambda>_.
     st_bind (st_get (\<lambda>o'. o')) (\<lambda>o'.
     st_return (session_new pid cmd records o')))))))))"

text \<open>Dropping a session kills and reaps every tracee, siblings before the leader, and the snapshots.\<close>

definition drop_tracees :: "'os session \<Rightarrow> pid list" where
  "drop_tracees s =
     (let ts = (case rs_mt s of Some m \<Rightarrow> live_pids m | None \<Rightarrow> []);
          ts = (if rs_finished s = None \<and> rs_pid s \<notin> set ts then ts @ [rs_pid s] else ts)
      in filter (\<lambda>p. p \<noteq> rs_pid s) ts @ filter (\<lambda>p. p = rs_pid s) ts)"

definition session_drop :: "'os replay_os \<Rightarrow> ('os, unit) replay" where
  "session_drop os = (\<lambda>s.
     st_bind (for_each (\<lambda>p. ros_ignore (po_kill os p)) (drop_tracees s)) (\<lambda>_.
     st_bind (for_each (\<lambda>cp. ros_ignore (po_kill os (cp_snapshot cp))) (rs_checkpoints s)) (\<lambda>_.
     st_bind (for_each (\<lambda>p. ros_ignore (po_waitpid os WALL p)) (drop_tracees s)) (\<lambda>_.
     for_each (\<lambda>cp. ros_ignore (po_waitpid os WALL (cp_snapshot cp))) (rs_checkpoints s)))) s)"

subsection \<open>The watchpoint scan\<close>

record watchpoint_scan =
  sc_source :: "(source, io_error) result"
  sc_addr :: u64
  sc_len :: u8
  sc_kind :: watch_kind

definition scan_new :: "(source, io_error) result \<Rightarrow> u64 \<Rightarrow> u8 \<Rightarrow> watchpoint_scan" where
  "scan_new src addr len = \<lparr>sc_source = src, sc_addr = addr, sc_len = len, sc_kind = WatchWrite\<rparr>"

definition watch_reads :: "watchpoint_scan \<Rightarrow> watchpoint_scan" where
  "watch_reads sc = sc\<lparr>sc_kind := WatchReadWrite\<rparr>"

text \<open>The session is dropped on every path once launched; the result is paired with the kernel after it.\<close>

definition scan_run ::
  "crc_fun \<Rightarrow> 'os replay_os \<Rightarrow> nat \<Rightarrow> watchpoint_scan \<Rightarrow> 'os \<Rightarrow> ((watch_hit list, replay_error) result \<times> 'os) option" where
  "scan_run crc os fuel sc o0 = (case launch crc os (sc_source sc) o0 of
       (Err e, o1) \<Rightarrow> Some (Err e, o1)
     | (Ok session, o1) \<Rightarrow>
         map_option (\<lambda>(r, s). (r, rs_os (snd (session_drop os s))))
           (opt_bind (opt_lift (watch os (sc_addr sc) (sc_len sc) (sc_kind sc))) (\<lambda>_.
            opt_bind (run_to_end os fuel) (\<lambda>_. opt_lift take_watch_hits)) (session\<lparr>rs_os := o1\<rparr>)))"

end
