(* ===== verification/ReplayFrame.thy ===== *)
theory ReplayFrame
  imports Session
begin

text \<open>
  Frame reasoning for the replay engine. An operation \<open>keeps\<close> a relation between session states
  when the state it leaves behind, on success and on error, is related to the one it started in.
  The locale \<open>replay_frame\<close> names what such a relation has to tolerate (kernel calls, the last
  registers, the cached unwinder, recorded watch hits) and derives once that everything both
  drivers do besides moving through the trace keeps it; later theories interpret it for the trace
  position and for the thread table.
\<close>

definition keeps :: "('os session \<Rightarrow> 'os session \<Rightarrow> bool) \<Rightarrow> ('os, 'a) replay \<Rightarrow> bool" where
  "keeps R m \<longleftrightarrow> (\<forall>s. R s (snd (m s)))"

definition opt_keeps :: "('os session \<Rightarrow> 'os session \<Rightarrow> bool) \<Rightarrow> ('os, 'a) replay_opt \<Rightarrow> bool" where
  "opt_keeps R m \<longleftrightarrow> (\<forall>s r s'. m s = Some (r, s') \<longrightarrow> R s s')"

named_theorems keeps_intros "operations that keep a relation"

lemma keepsD: "keeps R m \<Longrightarrow> m s = (r, s') \<Longrightarrow> R s s'"
  by (metis keeps_def snd_conv)

lemma opt_keepsD: "opt_keeps R m \<Longrightarrow> m s = Some (r, s') \<Longrightarrow> R s s'"
  by (simp add: opt_keeps_def)

lemma keeps_modify: "(\<And>s. R s (f s)) \<Longrightarrow> keeps R (st_modify f)"
  by (simp add: keeps_def st_modify_def)

lemma keeps_if [keeps_intros]: "(b \<Longrightarrow> keeps R m) \<Longrightarrow> (\<not> b \<Longrightarrow> keeps R n) \<Longrightarrow> keeps R (if b then m else n)"
  by simp

lemma keeps_option [keeps_intros]:
  "keeps R m \<Longrightarrow> (\<And>x. keeps R (f x)) \<Longrightarrow> keeps R (case v of None \<Rightarrow> m | Some x \<Rightarrow> f x)"
  by (cases v) auto

lemma keeps_prod [keeps_intros]: "(\<And>x y. keeps R (f x y)) \<Longrightarrow> keeps R (case p of (x, y) \<Rightarrow> f x y)"
  by (cases p) auto

lemma keeps_status [keeps_intros]:
  "(\<And>p. keeps R (f1 p)) \<Longrightarrow> (\<And>p a b. keeps R (f2 p a b)) \<Longrightarrow> (\<And>p a. keeps R (f3 p a)) \<Longrightarrow>
   (\<And>p a. keeps R (f4 p a)) \<Longrightarrow> (\<And>p a. keeps R (f5 p a)) \<Longrightarrow> keeps R f6 \<Longrightarrow>
   keeps R (case st of PtraceSyscall p \<Rightarrow> f1 p | PtraceEvent p a b \<Rightarrow> f2 p a b | Stopped p a \<Rightarrow> f3 p a
     | Exited p a \<Rightarrow> f4 p a | Signaled p a \<Rightarrow> f5 p a | OtherStatus \<Rightarrow> f6)"
  by (cases st) auto

text \<open>A computation that first inspects the state.\<close>

lemma keeps_state: "(\<And>s. keeps R (f s)) \<Longrightarrow> keeps R (\<lambda>s. f s s)"
  by (simp add: keeps_def)

lemma opt_keeps_prod [keeps_intros]: "(\<And>x y. opt_keeps R (f x y)) \<Longrightarrow> opt_keeps R (case p of (x, y) \<Rightarrow> f x y)"
  by (cases p) auto

lemma opt_keeps_lift [keeps_intros]: "keeps R m \<Longrightarrow> opt_keeps R (opt_lift m)"
  by (metis keepsD opt_keeps_def opt_lift_def option.inject)

locale replay_frame =
  fixes R :: "'os session \<Rightarrow> 'os session \<Rightarrow> bool"
  assumes R_refl: "R s s" and R_trans: "R s t \<Longrightarrow> R t u \<Longrightarrow> R s u"
    and R_os: "R s (s\<lparr>rs_os := o'\<rparr>)"
    and R_regs: "R s (s\<lparr>rs_last_regs := r\<rparr>)"
    and R_unwinder: "R s (s\<lparr>rs_unwinder := u'\<rparr>)"
    and R_hits: "R s (s\<lparr>rs_last_value := v, rs_watch_hits := h\<rparr>)"
begin

lemma keeps_bind [keeps_intros]: "keeps R m \<Longrightarrow> (\<And>x. keeps R (f x)) \<Longrightarrow> keeps R (st_bind m f)"
  unfolding keeps_def st_bind_def
  by (auto split: prod.splits result.splits) (metis R_trans snd_conv)+

lemma opt_keeps_bind [keeps_intros]: "opt_keeps R m \<Longrightarrow> (\<And>x. opt_keeps R (f x)) \<Longrightarrow> opt_keeps R (opt_bind m f)"
  unfolding opt_keeps_def opt_bind_def
  by (fastforce split: option.splits prod.splits result.splits elim: R_trans)

lemma keeps_pure [keeps_intros]:
  "keeps R (st_return x)" "keeps R (st_fail e)" "keeps R (st_get g)" "keeps R (st_lift r)"
  by (simp_all add: keeps_def st_defs R_refl)

lemma keeps_ros_do [keeps_intros]: "keeps R (ros_do f m)"
  by (auto simp: keeps_def ros_do_def R_os split: prod.splits)

lemma keeps_ros_ignore [keeps_intros]: "keeps R (ros_ignore m)"
  by (simp add: keeps_def ros_ignore_def R_os)

lemma keeps_last_regs [keeps_intros]: "keeps R (st_modify (\<lambda>s. s\<lparr>rs_last_regs := r\<rparr>))"
  by (rule keeps_modify) (rule R_regs)

lemma keeps_unwinder [keeps_intros]: "keeps R (st_modify (\<lambda>s. s\<lparr>rs_unwinder := u'\<rparr>))"
  by (rule keeps_modify) (rule R_unwinder)

lemma keeps_regs [keeps_intros]:
  "keeps R (regs_read os p)" "keeps R (suppress_syscall os p)" "keeps R (set_return os p ret)"
  "keeps R (save_full os p)" "keeps R (restore_full os p r)" "keeps R (setup_options os p)"
  "keeps R (hw_arm os p wp)" "keeps R (hw_disarm os p)" "keeps R (step_over_watch_x86_64 os p)"
  unfolding regs_read_def suppress_syscall_def set_return_def save_full_def restore_full_def
    setup_options_def hw_arm_def hw_disarm_def step_over_watch_x86_64_def
  by (intro keeps_intros keeps_bind keeps_pure keeps_ros_do)+

lemma keeps_memory [keeps_intros]:
  "keeps R (write_memory os p a d)" "keeps R (read_memory os p a n)"
  unfolding write_memory_def read_memory_def by (intro keeps_intros)+

lemma keeps_fork_snapshot [keeps_intros]: "keeps R (fork_snapshot os p)"
  unfolding fork_snapshot_def wait_for_fork_child_def by (intro keeps_intros)

lemma keeps_session_is_watch_hit [keeps_intros]: "keeps R (session_is_watch_hit os p)"
  using keeps_ros_do [of RePtrace "is_watch_hit (po_siginfo os p)"]
  by (simp add: session_is_watch_hit_def keeps_def R_refl)

lemma keeps_capture_backtrace [keeps_intros]: "keeps R (capture_backtrace os p)"
  unfolding capture_backtrace_def by (intro keeps_intros)

lemma keeps_on_watch_hit [keeps_intros]: "keeps R (on_watch_hit os p)"
proof -
  have "keeps R (st_bind (capture_backtrace os p) (\<lambda>(pc, backtrace).
         st_bind (step_over_watch_x86_64 os p) (\<lambda>_.
         st_bind (read_memory os p (wp_addr wp) (unat (wp_len wp))) (\<lambda>new_value.
         st_modify (\<lambda>s. s\<lparr>rs_last_value := Some new_value,
            rs_watch_hits := rs_watch_hits s @ [\<lparr>wh_seq = rs_current_seq s, wh_pc = pc,
              wh_old_value = rs_last_value s, wh_new_value = new_value, wh_backtrace = backtrace\<rparr>]\<rparr>)))))" for wp
    by (intro keeps_intros keeps_modify) (rule R_hits)
  then show ?thesis by (auto simp: on_watch_hit_def keeps_def R_refl split: option.splits)
qed

lemma keeps_mt_register_child [keeps_intros]: "keeps R (mt_register_child os c q)"
  unfolding mt_register_child_def by (intro keeps_intros)

lemma keeps_kill_active [keeps_intros]: "keeps R (kill_active os)"
proof -
  have "kill_active os = (\<lambda>s. (if rs_finished s = None
     then st_bind (ros_ignore (po_kill os (rs_pid s))) (\<lambda>_. ros_ignore (po_waitpid os no_flags (rs_pid s)))
     else st_return ()) s)"
    by (simp add: kill_active_def st_return_def fun_eq_iff)
  moreover have "keeps R \<dots>" by (rule keeps_state, intro keeps_intros)
  ultimately show ?thesis by simp
qed

lemma opt_keeps_step_thread [keeps_intros]: "opt_keeps R (step_thread os fuel live sig)"
proof (induction fuel arbitrary: sig)
  case (Suc fuel)
  let ?m = "st_bind (ros_do RePtrace (po_syscall os live sig)) (\<lambda>_.
           st_bind (ros_do RePtrace (po_waitpid os WALL live)) (\<lambda>status.
           case status of
             PtraceEvent p g ev \<Rightarrow> st_return (status, ev = PTRACE_EVENT_EXEC)
           | Stopped p g \<Rightarrow>
               (if g = SIGTRAP
                then st_bind (session_is_watch_hit os live) (\<lambda>hit.
                     if hit then st_bind (on_watch_hit os live) (\<lambda>_. st_return (status, True))
                     else st_return (status, False))
                else st_return (status, False))
           | _ \<Rightarrow> st_return (status, False)))"
  have f: "keeps R ?m" by (intro keeps_intros)
  show ?case unfolding opt_keeps_def
  proof (intro allI impI)
    fix s r s' assume run: "step_thread os (Suc fuel) live sig s = Some (r, s')"
    obtain q s1 where m: "?m s = (q, s1)" by force
    with f have "R s s1" by (rule keepsD)
    moreover have "R s1 s'"
      using run m Suc.IH [of None]
      by (cases q) (auto simp: opt_keeps_def R_refl split: prod.splits bool.splits)
    ultimately show "R s s'" by (rule R_trans)
  qed
qed (simp add: opt_keeps_def)

end

end
