(* ===== verification/ReplayPosition.thy ===== *)
theory ReplayPosition
  imports ReplayFrame
begin

text \<open>
  The position of a replay session in its trace. Most operations only talk to the kernel and leave
  the position alone (\<open>keeps\<close> and its rules, collected in \<open>keeps_intros\<close>); the handlers consume one
  record (\<open>consumes\<close>). From these: the session invariant is kept by every operation that succeeds,
  and \<open>run_to\<close> lands on the first concrete record at or after its target from whatever reachable
  state it starts in, under both drivers.
\<close>

subsection \<open>Operations that leave the position alone\<close>

definition same_pos :: "'os session \<Rightarrow> 'os session \<Rightarrow> bool" where
  "same_pos s s' \<longleftrightarrow> rs_records s' = rs_records s \<and> rs_cursor s' = rs_cursor s
     \<and> rs_current_seq s' = rs_current_seq s \<and> rs_checkpoints s' = rs_checkpoints s
     \<and> rs_multithreaded s' = rs_multithreaded s \<and> rs_pending s' = rs_pending s
     \<and> (rs_finished s' = Some Running \<longrightarrow> rs_finished s = Some Running)"

abbreviation keeps_pos :: "('os, 'a) replay \<Rightarrow> bool" where
  "keeps_pos \<equiv> keeps same_pos"

abbreviation opt_keeps_pos :: "('os, 'a) replay_opt \<Rightarrow> bool" where
  "opt_keeps_pos \<equiv> opt_keeps same_pos"

lemma same_pos_refl [simp]: "same_pos s s"
  by (simp add: same_pos_def)

lemma same_pos_trans [trans]: "same_pos a b \<Longrightarrow> same_pos b c \<Longrightarrow> same_pos a c"
  by (simp add: same_pos_def)

interpretation pos: replay_frame same_pos
  by unfold_locales (auto simp: same_pos_def)

lemma keeps_mt_update [keeps_intros]: "keeps_pos (mt_update f)"
  unfolding mt_update_def by (rule keeps_modify) (simp add: same_pos_def)

lemma keeps_mt_slots [keeps_intros]:
  "keeps_pos (take_resume_signal p)" "keeps_pos (set_pending p q)" "keeps_pos (take_pending p)" "keeps_pos (remove_thread t p)"
  unfolding take_resume_signal_def set_pending_def take_pending_def remove_thread_def
  by (intro keeps_intros)+

lemma keeps_enforce_tid [keeps_intros]: "keeps_pos (enforce_tid rcd)"
  unfolding enforce_tid_def by (intro keeps_intros)

lemma keeps_live_for [keeps_intros]: "keeps_pos (live_for t q)"
  by (auto simp: keeps_def live_for_def same_pos_def Let_def split: option.splits result.splits)

lemma keeps_bind_child [keeps_intros]: "keeps_pos (bind_child q t c p v)"
  by (auto simp: keeps_def bind_child_def same_pos_def Let_def split: option.splits result.splits)

lemma keeps_ensure_state [keeps_intros]: "keeps_pos (ensure_state os)"
proof -
  have "ensure_state os = (\<lambda>s. (if rs_mt s \<noteq> None then st_return ()
      else st_bind (ros_do RePtrace (po_setoptions os (rs_pid s) mt_trace_options)) (\<lambda>_.
          st_modify (\<lambda>s. s\<lparr>rs_mt := Some ((mt_new (rs_pid s))
            \<lparr>mt_threads := bt_insert (rs_pid s) thread_rt_default []\<rparr>)\<rparr>))) s)"
    by (simp add: ensure_state_def st_return_def fun_eq_iff)
  moreover have "keeps_pos \<dots>"
    by (rule keeps_state, intro keeps_intros keeps_modify) (simp add: same_pos_def)
  ultimately show ?thesis by simp
qed

subsection \<open>Consuming a record\<close>

definition concrete :: "trace_record \<Rightarrow> bool" where
  "concrete r \<longleftrightarrow> ev_kind (rec_event r) \<noteq> Checkpoint"

definition consumed :: "'os session \<Rightarrow> trace_record list" where
  "consumed s = filter concrete (take (rs_cursor s) (rs_records s))"

definition last_seq :: "trace_record list \<Rightarrow> u64 option" where
  "last_seq rs = (if rs = [] then None else Some (rec_seq (last rs)))"

text \<open>Whether the last syscall record is an entry, so that its exit is still to come.\<close>

definition mid_syscall :: "trace_record list \<Rightarrow> bool" where
  "mid_syscall rs = (let ys = filter (\<lambda>r. ev_kind (rec_event r) \<in> {SyscallEnter, SyscallExit}) rs
     in ys \<noteq> [] \<and> ev_kind (rec_event (last ys)) = SyscallEnter)"

lemma last_seq_snoc [simp]: "last_seq (rs @ [r]) = Some (rec_seq r)"
  by (simp add: last_seq_def)

lemma mid_syscall_Nil [simp]: "mid_syscall [] = False"
  by (simp add: mid_syscall_def)

lemma mid_syscall_snoc:
  "mid_syscall (rs @ [r]) = (if ev_kind (rec_event r) = SyscallEnter then True
     else if ev_kind (rec_event r) = SyscallExit then False else mid_syscall rs)"
  by (auto simp: mid_syscall_def Let_def)

lemma skip_count_filter: "filter concrete (take (skip_count rs) rs) = []"
  by (induction rs) (auto simp: concrete_def)

lemma skip_count_le: "skip_count rs \<le> length rs"
  by (induction rs) auto

lemma skip_count_concrete: "skip_count rs < length rs \<Longrightarrow> concrete (rs ! skip_count rs)"
  by (induction rs) (auto simp: concrete_def)

lemma consumed_skip:
  "c \<le> length rs \<Longrightarrow> filter concrete (take (c + skip_count (drop c rs)) rs) = filter concrete (take c rs)"
  by (simp add: take_add skip_count_filter)

definition pos_ok :: "'os session \<Rightarrow> bool" where
  "pos_ok s \<longleftrightarrow> rs_cursor s \<le> length (rs_records s) \<and> rs_current_seq s = last_seq (consumed s)"

lemma skip_checkpoints_spec:
  assumes "skip_checkpoints s = (r, s')" and "rs_cursor s \<le> length (rs_records s)"
  shows "r = Ok ()" and "s' = s\<lparr>rs_cursor := rs_cursor s'\<rparr>" and "rs_cursor s' \<le> length (rs_records s)"
    and "consumed s' = consumed s"
    and "record_at s' = Some rcd \<Longrightarrow> concrete rcd"
proof -
  have s': "s' = s\<lparr>rs_cursor := rs_cursor s + skip_count (drop (rs_cursor s) (rs_records s))\<rparr>" and "r = Ok ()"
    using assms(1) by (auto simp: skip_checkpoints_def st_modify_def)
  then show "r = Ok ()" "s' = s\<lparr>rs_cursor := rs_cursor s'\<rparr>" by simp_all
  show "rs_cursor s' \<le> length (rs_records s)"
    using s' assms(2) skip_count_le [of "drop (rs_cursor s) (rs_records s)"] by simp
  show "consumed s' = consumed s" using s' assms(2) by (simp add: consumed_def consumed_skip)
  show "record_at s' = Some rcd \<Longrightarrow> concrete rcd"
    using s' skip_count_concrete [of "drop (rs_cursor s) (rs_records s)"]
    by (auto simp: record_at_def split: if_splits)
qed

lemma consumed_next:
  "record_at s = Some r \<Longrightarrow> concrete r \<Longrightarrow> filter concrete (take (Suc (rs_cursor s)) (rs_records s)) = consumed s @ [r]"
  by (auto simp: record_at_def consumed_def take_Suc_conv_app_nth split: if_splits)

lemma next_record_spec:
  assumes "next_record s = (Ok rcd, s')" and "rs_cursor s \<le> length (rs_records s)"
  shows "concrete rcd" and "consumed s' = consumed s @ [rcd]" and "rs_cursor s' \<le> length (rs_records s)"
    and "s' = s\<lparr>rs_cursor := rs_cursor s'\<rparr>"
proof -
  obtain r s1 where sk: "skip_checkpoints s = (r, s1)" by force
  note spec = skip_checkpoints_spec [OF this assms(2)]
  define c where "c = rs_cursor s1"
  with spec(2) have s1: "s1 = s\<lparr>rs_cursor := c\<rparr>" by simp
  from assms(1) sk spec(1) have at: "record_at s1 = Some rcd" and s': "s' = s1\<lparr>rs_cursor := rs_cursor s1 + 1\<rparr>"
    by (auto simp: next_record_def st_defs split: option.splits)
  then show "concrete rcd" using spec(5) by simp
  show "consumed s' = consumed s @ [rcd]"
    using consumed_next [OF at \<open>concrete rcd\<close>] s' spec(4) by (simp add: consumed_def)
  show "rs_cursor s' \<le> length (rs_records s)" "s' = s\<lparr>rs_cursor := rs_cursor s'\<rparr>"
    using at unfolding s' s1 by (auto simp: record_at_def split: if_splits)
qed

text \<open>Moving on by the records \<open>rs\<close>: what the handlers do when they succeed.\<close>

definition moved :: "trace_record list \<Rightarrow> 'os session \<Rightarrow> 'os session \<Rightarrow> bool" where
  "moved rs s s' \<longleftrightarrow> rs_records s' = rs_records s \<and> rs_multithreaded s' = rs_multithreaded s
     \<and> rs_checkpoints s' = rs_checkpoints s \<and> pos_ok s' \<and> consumed s' = consumed s @ rs
     \<and> (rs_finished s' = Some Running \<longrightarrow> rs_finished s = Some Running)"

lemma same_pos_consumed: "same_pos s s' \<Longrightarrow> consumed s' = consumed s" "same_pos s s' \<Longrightarrow> pos_ok s' = pos_ok s"
  by (simp_all add: same_pos_def consumed_def pos_ok_def)

lemma moved_same: "same_pos s s' \<Longrightarrow> pos_ok s \<Longrightarrow> moved [] s s'"
  by (simp add: moved_def same_pos_consumed) (simp add: same_pos_def)

lemma moved_trans: "moved rs a b \<Longrightarrow> moved rs' b c \<Longrightarrow> moved (rs @ rs') a c"
  by (simp add: moved_def)

lemma moved_then_same: "moved rs a b \<Longrightarrow> same_pos b c \<Longrightarrow> moved rs a c"
  using moved_trans [of rs a b "[]" c] moved_same [of b c] by (simp add: moved_def)

lemma moved_pending [simp]: "moved rs s (s'\<lparr>rs_pending := p\<rparr>) = moved rs s s'"
  by (auto simp: moved_def pos_ok_def consumed_def)

lemma same_then_moved: "same_pos a b \<Longrightarrow> pos_ok a \<Longrightarrow> moved rs b c \<Longrightarrow> moved rs a c"
  using moved_trans [OF moved_same, of a b rs c] by simp

lemma moved_next:
  assumes "next_record s = (Ok rcd, s1)" and "pos_ok s"
  shows "moved [rcd] s (s1\<lparr>rs_current_seq := Some (rec_seq rcd)\<rparr>)" and "rs_pending s1 = rs_pending s"
proof -
  have c: "rs_cursor s \<le> length (rs_records s)" using assms(2) by (simp add: pos_ok_def)
  note spec = next_record_spec [OF assms(1) c]
  obtain n where s1: "s1 = s\<lparr>rs_cursor := n\<rparr>" using spec(4) by blast
  show "moved [rcd] s (s1\<lparr>rs_current_seq := Some (rec_seq rcd)\<rparr>)"
    using spec(2,3) unfolding s1 by (simp add: moved_def pos_ok_def consumed_def)
  show "rs_pending s1 = rs_pending s" by (simp add: s1)
qed

lemma expect_entry_Ok:
  "(case k of SyscallEnter \<Rightarrow> m | found \<Rightarrow> st_fail (UnexpectedRecord q x found)) s = (Ok y, s')
     \<longleftrightarrow> k = SyscallEnter \<and> m s = (Ok y, s')"
  by (cases k) (simp_all add: st_fail_def)

lemma expect_exit_Ok:
  "(case k of SyscallExit \<Rightarrow> m | found \<Rightarrow> st_fail (UnexpectedRecord q x found)) s = (Ok y, s')
     \<longleftrightarrow> k = SyscallExit \<and> m s = (Ok y, s')"
  by (cases k) (simp_all add: st_fail_def)

lemma st_lift_Ok: "st_lift r s = (Ok x, s') \<longleftrightarrow> r = Ok x \<and> s' = s"
  by (auto simp: st_lift_def)

lemma if_fail_Ok:
  "(if b then st_fail e else m) s = (Ok y, s') \<longleftrightarrow> \<not> b \<and> m s = (Ok y, s')"
  by (simp add: st_fail_def)

lemma ros_do_Ok: "ros_do f m s = (Ok x, s') \<longleftrightarrow> (\<exists>o'. m (rs_os s) = (Ok x, o') \<and> s' = s\<lparr>rs_os := o'\<rparr>)"
  by (auto simp: ros_do_def split: prod.splits)

lemma on_entry_spec:
  assumes "on_entry os regs s = (Ok (), s')" and "pos_ok s"
  obtains rcd where "moved [rcd] s s'" and "ev_kind (rec_event rcd) = SyscallEnter" and "rs_pending s' \<noteq> None"
proof -
  from assms(1) obtain rcd s1 s2 s3 u where n: "next_record s = (Ok rcd, s1)"
    and k: "ev_kind (rec_event rcd) = SyscallEnter"
    and s2: "s2 = s1\<lparr>rs_current_seq := Some (rec_seq rcd)\<rparr>"
    and f: "(if injection_addr (po_abi os) (sr_nr regs) (sr_args regs) \<noteq> None
             then st_bind (st_get rs_pid) (suppress_syscall os) else st_return ()) s2 = (Ok u, s3)" (is "?m s2 = _")
    and s': "s' = s3\<lparr>rs_pending := Some \<lparr>pe_inject_addr = injection_addr (po_abi os) (sr_nr regs) (sr_args regs)\<rparr>\<rparr>"
    unfolding on_entry_def st_bind_Ok expect_entry_Ok if_fail_Ok st_lift_Ok Let_def st_modify_def prod.inject
    by blast
  have "keeps_pos ?m" by (intro keeps_intros)
  from moved_then_same [OF moved_next(1) [OF n assms(2)] keepsD [OF this, unfolded s2, OF f [unfolded s2]]]
  have "moved [rcd] s s'" unfolding s' by simp
  with k s' that show thesis by simp
qed

lemma session_on_exit_spec:
  assumes "session_on_exit os pe s = (Ok (), s')" and "pos_ok s"
  obtains rcd where "moved [rcd] s s'" and "ev_kind (rec_event rcd) = SyscallExit" and "rs_pending s' = rs_pending s"
proof -
  define m where "m exit = (case pe_inject_addr pe of
       Some addr \<Rightarrow>
         st_bind (st_get rs_pid) (\<lambda>pid.
         st_bind (write_memory os pid addr (sx_data exit)) (\<lambda>_.
         set_return os pid (sx_ret exit)))
     | None \<Rightarrow> st_return ())" for exit :: syscall_exit
  from assms(1) obtain rcd s1 exit where n: "next_record s = (Ok rcd, s1)"
    and k: "ev_kind (rec_event rcd) = SyscallExit"
    and f: "m exit (s1\<lparr>rs_current_seq := Some (rec_seq rcd)\<rparr>) = (Ok (), s')"
    unfolding session_on_exit_def m_def [symmetric] st_bind_Ok expect_exit_Ok st_lift_Ok st_modify_def prod.inject
    by blast
  have "keeps_pos (m exit)" unfolding m_def by (intro keeps_intros)
  note same = keepsD [OF this f]
  from moved_then_same [OF moved_next(1) [OF n assms(2)] same] have "moved [rcd] s s'" .
  moreover have "rs_pending s' = rs_pending s" using same moved_next(2) [OF n assms(2)] by (simp add: same_pos_def)
  ultimately show thesis using k that by simp
qed

lemma on_syscall_stop_spec:
  assumes "on_syscall_stop os s = (Ok (), s')" and "pos_ok s"
  obtains rcd where "moved [rcd] s s'"
    and "rs_pending s = None \<and> ev_kind (rec_event rcd) = SyscallEnter \<and> rs_pending s' \<noteq> None
       \<or> rs_pending s \<noteq> None \<and> ev_kind (rec_event rcd) = SyscallExit \<and> rs_pending s' = None"
proof -
  from assms(1) obtain regs s1 where r: "st_bind (st_get rs_pid) (regs_read os) s = (Ok regs, s1)"
    and h: "(case rs_pending s1 of None \<Rightarrow> on_entry os regs | Some p \<Rightarrow> session_on_exit os p)
       (s1\<lparr>rs_last_regs := Some regs, rs_pending := None\<rparr>) = (Ok (), s')"
    unfolding on_syscall_stop_def st_bind_Ok [where m = "st_bind (st_get rs_pid) (regs_read os)"]
    by (auto simp: st_modify_def st_get_def st_bind_def)
  let ?s2 = "s1\<lparr>rs_last_regs := Some regs, rs_pending := None\<rparr>"
  have "keeps_pos (st_bind (st_get rs_pid) (regs_read os))" by (intro keeps_intros)
  then have same: "same_pos s s1" using r by (rule keepsD)
  moreover have two: "moved [] s1 ?s2" "pos_ok ?s2" if "pos_ok s1"
    using that by (simp_all add: moved_def pos_ok_def consumed_def)
  ultimately have to2: "moved [] s ?s2" "pos_ok ?s2" "rs_pending s1 = rs_pending s"
    using assms(2) same_pos_consumed(2) [OF same]
    by (simp_all add: same_then_moved) (simp add: same_pos_def)
  show thesis
  proof (cases "rs_pending s1")
    case None
    with h have "on_entry os regs ?s2 = (Ok (), s')" by simp
    from on_entry_spec [OF this to2(2)] that moved_trans [OF to2(1)] None to2(3) show thesis by simp metis
  next
    case (Some p)
    with h have "session_on_exit os p ?s2 = (Ok (), s')" by simp
    from session_on_exit_spec [OF this to2(2)] that moved_trans [OF to2(1)] Some to2(3) show thesis by simp metis
  qed
qed

lemma on_signal_stop_spec:
  assumes "on_signal_stop sig s = (Ok (), s')" and "pos_ok s"
  obtains rs where "moved rs s s'" and "length rs \<le> 1" and "\<forall>r \<in> set rs. ev_kind (rec_event r) = Signal"
    and "rs_pending s' = rs_pending s"
proof -
  obtain r s1 where sk: "skip_checkpoints s = (r, s1)" by force
  have c: "rs_cursor s \<le> length (rs_records s)" using assms(2) by (simp add: pos_ok_def)
  note spec = skip_checkpoints_spec [OF sk c]
  define n where "n = rs_cursor s1"
  have s1: "s1 = s\<lparr>rs_cursor := n\<rparr>" using spec(2) by (simp add: n_def)
  have "moved [] s s1" using assms(2) spec(3,4) by (simp add: s1 moved_def pos_ok_def)
  from assms(1) sk spec(1) consider
      (skip) "s' = s1\<lparr>rs_resume_signal := Some sig\<rparr>"
    | (take) rcd where "record_at s1 = Some rcd" and "ev_kind (rec_event rcd) = Signal"
        and "s' = s1\<lparr>rs_current_seq := Some (rec_seq rcd), rs_cursor := rs_cursor s1 + 1, rs_resume_signal := Some sig\<rparr>"
    by (auto simp: on_signal_stop_def st_defs split: option.splits if_splits result.splits)
  then show thesis
  proof cases
    case skip
    with \<open>moved [] s s1\<close> have "moved [] s s'" by (auto simp: moved_def pos_ok_def consumed_def)
    with skip s1 show thesis by (intro that [of "[]"]) auto
  next
    case (take rcd)
    have "filter concrete (take (Suc n) (rs_records s)) = consumed s @ [rcd]"
      using consumed_next [OF take(1) spec(5)] take(1) spec(4) by (simp add: s1)
    moreover have "Suc n \<le> length (rs_records s)"
      using take(1) by (auto simp: s1 record_at_def split: if_splits)
    ultimately have "moved [rcd] s s'" unfolding take(3) s1 by (simp add: moved_def pos_ok_def consumed_def)
    with take s1 show thesis by (intro that [of "[rcd]"]) auto
  qed
qed

subsection \<open>The session invariant\<close>

definition cp_ok :: "trace_record list \<Rightarrow> checkpoint_info \<Rightarrow> bool" where
  "cp_ok records cp \<longleftrightarrow> cp_cursor cp \<le> length records \<and> cp_current_seq cp = Some (cp_seq cp)
     \<and> last_seq (filter concrete (take (cp_cursor cp) records)) = Some (cp_seq cp)
     \<and> \<not> mid_syscall (filter concrete (take (cp_cursor cp) records))"

definition session_inv :: "'os session \<Rightarrow> bool" where
  "session_inv s \<longleftrightarrow> pos_ok s \<and> sorted_wrt (<) (map rec_seq (rs_records s)) \<and> rs_finished s \<noteq> Some Running
     \<and> (\<forall>cp \<in> set (rs_checkpoints s). cp_ok (rs_records s) cp) \<and> sorted (map cp_seq (rs_checkpoints s))
     \<and> (if rs_multithreaded s then rs_checkpoints s = [] else (rs_pending s \<noteq> None) = mid_syscall (consumed s))"

text \<open>A step of the driver: the invariant is kept and at most one record is consumed.\<close>

definition drive_step :: "'os session \<Rightarrow> 'os session \<Rightarrow> bool" where
  "drive_step s s' \<longleftrightarrow> session_inv s' \<and> rs_records s' = rs_records s \<and> rs_multithreaded s' = rs_multithreaded s
     \<and> (\<exists>rs. consumed s' = consumed s @ rs \<and> length rs \<le> 1)"

lemma checkpoint_due_ge: "is_checkpoint_due (Some p) current interval \<Longrightarrow> p \<le> current"
  using unat_less_len [of p] unfolding is_checkpoint_due_def
  by (auto simp: word_le_nat_alt unat_u64_saturating_add split: if_splits)

lemma maybe_checkpoint_spec:
  assumes "maybe_checkpoint os s = (Ok (), s')" and "session_inv s"
  shows "session_inv s'" and "rs_records s' = rs_records s" and "rs_multithreaded s' = rs_multithreaded s"
    and "consumed s' = consumed s"
proof -
  consider "s' = s"
    | (push) seq snapshot s1 where "\<not> rs_multithreaded s" and "rs_pending s = None" and "rs_current_seq s = Some seq"
        and "rs_checkpoints s = [] \<or> is_checkpoint_due (Some (cp_seq (last (rs_checkpoints s)))) seq (rs_checkpoint_interval s)"
        and "fork_snapshot os (rs_pid s) s = (Ok snapshot, s1)"
        and "s' = s1\<lparr>rs_checkpoints := rs_checkpoints s1 @ [\<lparr>cp_seq = seq, cp_cursor = rs_cursor s1,
            cp_current_seq = rs_current_seq s1, cp_last_regs = rs_last_regs s1, cp_snapshot = snapshot\<rparr>]\<rparr>"
    using assms(1)
    by (auto simp: maybe_checkpoint_def st_bind_Ok st_modify_def split: if_splits option.splits)
  then have "session_inv s' \<and> rs_records s' = rs_records s \<and> rs_multithreaded s' = rs_multithreaded s
    \<and> consumed s' = consumed s"
  proof cases
    case push
    have same: "same_pos s s1" using pos.keeps_fork_snapshot push(5) by (rule keepsD)
    have "\<forall>cp \<in> set (rs_checkpoints s). cp_seq cp \<le> seq"
    proof (cases "rs_checkpoints s = []")
      case False
      with push(4) have "cp_seq (last (rs_checkpoints s)) \<le> seq" using checkpoint_due_ge by blast
      moreover have "\<forall>cp \<in> set (rs_checkpoints s). cp_seq cp \<le> cp_seq (last (rs_checkpoints s))"
        using assms(2) False sorted_append by (cases "rs_checkpoints s" rule: rev_cases) (auto simp: session_inv_def sorted_append)
      ultimately show ?thesis by (meson order_trans)
    qed simp
    with push(1-3) same assms(2) show ?thesis
      unfolding push(6) session_inv_def
      by (auto simp: same_pos_def pos_ok_def consumed_def cp_ok_def sorted_append)
  qed (use assms(2) in simp_all)
  then show "session_inv s'" and "rs_records s' = rs_records s" and "rs_multithreaded s' = rs_multithreaded s"
    and "consumed s' = consumed s" by simp_all
qed

lemma moved_inv:
  assumes "moved rs s s'" and "session_inv s"
    and "\<not> rs_multithreaded s \<Longrightarrow> (rs_pending s' \<noteq> None) = mid_syscall (consumed s @ rs)"
  shows "session_inv s'"
  using assms by (auto simp: moved_def session_inv_def)

lemma moved_step:
  "moved rs s s' \<Longrightarrow> length rs \<le> 1 \<Longrightarrow> session_inv s' \<Longrightarrow> drive_step s s'"
  by (auto simp: moved_def drive_step_def)

lemma same_pos_inv: "same_pos s s' \<Longrightarrow> session_inv s \<Longrightarrow> session_inv s'"
  by (auto simp: session_inv_def same_pos_consumed) (auto simp: same_pos_def)

lemma same_pos_step: "same_pos s s' \<Longrightarrow> session_inv s \<Longrightarrow> drive_step s s'"
  by (auto simp: drive_step_def same_pos_inv same_pos_consumed) (auto simp: same_pos_def)

lemma same_then_step: "same_pos s s1 \<Longrightarrow> drive_step s1 s' \<Longrightarrow> drive_step s s'"
  by (auto simp: drive_step_def same_pos_consumed) (auto simp: same_pos_def)

lemma mid_syscall_other:
  "\<forall>r \<in> set rs. ev_kind (rec_event r) \<notin> {SyscallEnter, SyscallExit} \<Longrightarrow> mid_syscall (xs @ rs) = mid_syscall xs"
proof -
  assume "\<forall>r \<in> set rs. ev_kind (rec_event r) \<notin> {SyscallEnter, SyscallExit}"
  then have "filter (\<lambda>r. ev_kind (rec_event r) \<in> {SyscallEnter, SyscallExit}) rs = []" by (simp add: filter_empty_conv)
  then show ?thesis by (simp add: mid_syscall_def)
qed

lemma st_bind_return [simp]: "st_bind (st_return x) f = f x"
  by (simp add: st_defs)

lemma st_turn_Ok:
  assumes "st_turn os s = (Ok x, s')"
  obtains pid status s1 where "same_pos s s1" and "st_dispatch os pid status s1 = (Ok x, s')"
proof -
  let ?m = "st_bind (st_get rs_pid) (\<lambda>pid.
     st_bind (st_get rs_resume_signal) (\<lambda>sig.
     st_bind (st_modify (\<lambda>s. s\<lparr>rs_resume_signal := None\<rparr>)) (\<lambda>_.
     st_bind (ros_do RePtrace (po_syscall os pid sig)) (\<lambda>_.
     st_bind (ros_do RePtrace (po_waitpid os no_flags pid)) (\<lambda>status. st_return (pid, status))))))"
  have "st_turn os = st_bind ?m (\<lambda>(pid, status). st_dispatch os pid status)"
    by (simp add: st_turn_def st_bind_assoc)
  moreover have "keeps_pos ?m" by (intro keeps_intros keeps_modify) (simp add: same_pos_def)
  ultimately show thesis using assms that keepsD by (auto simp: st_bind_Ok [of ?m]) blast
qed

lemma session_finish_Ok:
  "session_finish out s = (Ok x, s') \<longleftrightarrow> x = out \<and> s' = s\<lparr>rs_finished := Some out\<rparr>"
  by (auto simp: session_finish_def st_defs)

lemma finish_step:
  "session_inv s \<Longrightarrow> out \<noteq> Running \<Longrightarrow> drive_step s (s\<lparr>rs_finished := Some out\<rparr>)"
  by (auto simp: drive_step_def session_inv_def pos_ok_def consumed_def)

lemma st_dispatch_step:
  assumes "st_dispatch os pid status s = (Ok x, s')" and "session_inv s" and "\<not> rs_multithreaded s"
  shows "drive_step s s' \<and> x \<noteq> Some Running"
proof (cases status)
  case (PtraceSyscall p)
  with assms(1) obtain s1 where a: "on_syscall_stop os s = (Ok (), s1)"
    and b: "maybe_checkpoint os s1 = (Ok (), s')" and x: "x = None"
    by (auto simp: st_dispatch_def st_bind_Ok st_return_def)
  have "pos_ok s" using assms(2) by (simp add: session_inv_def)
  with a obtain rcd where m: "moved [rcd] s s1"
    and "rs_pending s = None \<and> ev_kind (rec_event rcd) = SyscallEnter \<and> rs_pending s1 \<noteq> None
       \<or> rs_pending s \<noteq> None \<and> ev_kind (rec_event rcd) = SyscallExit \<and> rs_pending s1 = None"
    by (rule on_syscall_stop_spec)
  then have "session_inv s1" by (intro moved_inv [OF m assms(2)]) (auto simp: mid_syscall_snoc)
  with maybe_checkpoint_spec [OF b] m x show ?thesis by (auto simp: moved_def drive_step_def)
next
  case (Stopped p sig)
  with assms(1) obtain hit s1 where
      h: "(if sig = SIGTRAP then session_is_watch_hit os pid else st_return False) s = (Ok hit, s1)" (is "?m s = _")
    and d: "(if hit then on_watch_hit os pid else on_signal_stop sig) s1 = (Ok (), s')" and x: "x = None"
    by (auto simp: st_dispatch_def st_bind_Ok st_return_def cong: if_cong)
  have "keeps_pos ?m" by (intro keeps_intros)
  then have same: "same_pos s s1" using h by (rule keepsD)
  then have i: "session_inv s1" "\<not> rs_multithreaded s1" "pos_ok s1"
    using assms(2,3) same_pos_inv [OF same assms(2)] by (simp_all add: same_pos_def session_inv_def)
  have "drive_step s1 s'"
  proof (cases hit)
    case True
    then show ?thesis using same_pos_step [OF keepsD [OF pos.keeps_on_watch_hit] i(1)] d by simp
  next
    case False
    with d have "on_signal_stop sig s1 = (Ok (), s')" by simp
    then obtain rs where m: "moved rs s1 s'" and l: "length rs \<le> 1"
      and k: "\<forall>r \<in> set rs. ev_kind (rec_event r) = Signal" and "rs_pending s' = rs_pending s1"
      using i(3) by (rule on_signal_stop_spec)
    then have "session_inv s'" using i by (intro moved_inv [OF m i(1)]) (auto simp: mid_syscall_other session_inv_def)
    with m l show ?thesis by (rule moved_step)
  qed
  with same x show ?thesis using same_then_step by blast
qed (use assms in \<open>auto simp: st_dispatch_def st_bind_Ok st_return_def session_finish_Ok finish_step same_pos_step\<close>)

lemma st_turn_step:
  assumes "st_turn os s = (Ok x, s')" and "session_inv s" and "\<not> rs_multithreaded s"
  shows "drive_step s s' \<and> x \<noteq> Some Running"
proof -
  from assms(1) obtain pid status s1 where same: "same_pos s s1" and d: "st_dispatch os pid status s1 = (Ok x, s')"
    by (rule st_turn_Ok)
  have "session_inv s1" "\<not> rs_multithreaded s1"
    using same assms(2,3) same_pos_inv by (auto simp: same_pos_def)
  with d have "drive_step s1 s' \<and> x \<noteq> Some Running" by (rule st_dispatch_step)
  with same same_then_step show ?thesis by blast
qed

subsection \<open>The schedule-enforcing driver\<close>

definition bumped :: "u64 \<Rightarrow> 'os session \<Rightarrow> 'os session \<Rightarrow> bool" where
  "bumped seq s s' \<longleftrightarrow> (\<exists>s1. same_pos s s1 \<and> same_pos (s1\<lparr>rs_current_seq := Some seq, rs_cursor := rs_cursor s1 + 1\<rparr>) s')"

definition st_consumes :: "u64 \<Rightarrow> ('os, 'a) replay \<Rightarrow> bool" where
  "st_consumes seq m \<longleftrightarrow> (\<forall>s r s'. m s = (Ok r, s') \<longrightarrow> bumped seq s s')"

definition consumes :: "u64 \<Rightarrow> ('os, 'a) replay_opt \<Rightarrow> bool" where
  "consumes seq m \<longleftrightarrow> (\<forall>s r s'. m s = Some (Ok r, s') \<longrightarrow> bumped seq s s')"

named_theorems consume_intros "operations that consume the record under the cursor"

lemma same_then_bumped: "same_pos s s1 \<Longrightarrow> bumped q s1 s' \<Longrightarrow> bumped q s s'"
  unfolding bumped_def by (meson same_pos_trans)

lemma bumped_then_same: "bumped q s s1 \<Longrightarrow> same_pos s1 s' \<Longrightarrow> bumped q s s'"
  unfolding bumped_def by (meson same_pos_trans)

lemma consumes_bind [consume_intros]:
  "opt_keeps_pos m \<Longrightarrow> (\<And>x. consumes q (f x)) \<Longrightarrow> consumes q (opt_bind m f)"
  unfolding consumes_def opt_bind_def
  by (auto split: option.splits prod.splits result.splits) (metis opt_keepsD same_then_bumped)

lemma consumes_lift [consume_intros]: "st_consumes q m \<Longrightarrow> consumes q (opt_lift m)"
  by (simp add: consumes_def st_consumes_def opt_lift_def)

lemma consumes_then: "consumes q m \<Longrightarrow> consumes q (opt_bind m (\<lambda>_. opt_lift (st_return x)))"
  unfolding consumes_def opt_bind_def opt_lift_def st_return_def
  by (auto split: option.splits prod.splits result.splits)

lemma st_consumes_bind [consume_intros]:
  "keeps_pos m \<Longrightarrow> (\<And>x. st_consumes q (f x)) \<Longrightarrow> st_consumes q (st_bind m f)"
  unfolding st_consumes_def st_bind_Ok by (meson keepsD same_then_bumped)

lemma st_consumes_bind_return: "st_consumes q m \<Longrightarrow> st_consumes q (st_bind m (\<lambda>_. st_return x))"
  by (auto simp: st_consumes_def st_bind_Ok st_return_def)

lemma st_consumes_fail [consume_intros]: "st_consumes q (st_fail e)"
  by (simp add: st_consumes_def st_fail_def)

lemma st_consumes_advance [consume_intros]: "st_consumes q (mt_advance q)"
  unfolding st_consumes_def mt_advance_def st_modify_def bumped_def
  by clarsimp (rule exI, rule conjI, rule same_pos_refl, simp)

lemma consumes_prod [consume_intros]: "(\<And>x y. consumes q (f x y)) \<Longrightarrow> consumes q (case p of (x, y) \<Rightarrow> f x y)"
  by (cases p) auto

lemma st_consumes_if [consume_intros]:
  "st_consumes q m \<Longrightarrow> st_consumes q n \<Longrightarrow> st_consumes q (if b then m else n)"
  by simp

lemma st_consumes_option [consume_intros]:
  "st_consumes q m \<Longrightarrow> (\<And>x. st_consumes q (f x)) \<Longrightarrow> st_consumes q (case v of None \<Rightarrow> m | Some x \<Rightarrow> f x)"
  by (cases v) auto

lemma st_consumes_prod [consume_intros]:
  "(\<And>x y. st_consumes q (f x y)) \<Longrightarrow> st_consumes q (case p of (x, y) \<Rightarrow> f x y)"
  by (cases p) auto

lemma st_consumes_status [consume_intros]:
  "(\<And>p. st_consumes q (f1 p)) \<Longrightarrow> (\<And>p a b. st_consumes q (f2 p a b)) \<Longrightarrow> (\<And>p a. st_consumes q (f3 p a)) \<Longrightarrow>
   (\<And>p a. st_consumes q (f4 p a)) \<Longrightarrow> (\<And>p a. st_consumes q (f5 p a)) \<Longrightarrow> st_consumes q f6 \<Longrightarrow>
   st_consumes q (case st of PtraceSyscall p \<Rightarrow> f1 p | PtraceEvent p a b \<Rightarrow> f2 p a b | Stopped p a \<Rightarrow> f3 p a
     | Exited p a \<Rightarrow> f4 p a | Signaled p a \<Rightarrow> f5 p a | OtherStatus \<Rightarrow> f6)"
  by (cases st) auto

lemma consumes_sched_switch: "st_consumes (rec_seq rcd) (on_sched_switch rcd)"
  unfolding on_sched_switch_def by (intro consume_intros keeps_intros)

lemma consumes_syscall_enter: "consumes (rec_seq rcd) (on_syscall_enter os fuel rcd)"
  unfolding on_syscall_enter_def by (intro consume_intros keeps_intros)

lemma consumes_syscall_exit: "consumes (rec_seq rcd) (on_syscall_exit os fuel rcd)"
  unfolding on_syscall_exit_def by (intro consume_intros keeps_intros)

lemma consumes_thread_spawn: "consumes (rec_seq rcd) (on_thread_spawn os fuel rcd)"
  unfolding on_thread_spawn_def Let_def by (intro consume_intros keeps_intros)

lemma consumes_signal: "consumes (rec_seq rcd) (on_signal os fuel rcd)"
  unfolding on_signal_def by (intro consume_intros keeps_intros)

lemma st_consumes_then: "st_consumes q m \<Longrightarrow> (\<And>x. keeps_pos (f x)) \<Longrightarrow> st_consumes q (st_bind m f)"
  unfolding st_consumes_def st_bind_Ok by (meson keepsD bumped_then_same)

lemma st_bind_fail [simp]: "st_bind (st_fail e) f = st_fail e"
  by (simp add: st_defs)

lemma st_fail_Ok [simp]: "st_fail e s \<noteq> (Ok x, s')"
  by (simp add: st_fail_def)

lemma keeps_outcome: "out \<noteq> Running \<Longrightarrow> keeps_pos (st_modify (\<lambda>s. s\<lparr>rs_finished := Some out\<rparr>))"
  by (rule keeps_modify) (simp add: same_pos_def)

definition exit_tail :: "u32 \<Rightarrow> pid \<Rightarrow> u64 \<Rightarrow> exit_outcome \<Rightarrow> ('os, exit_outcome option) replay" where
  "exit_tail tid live seq outcome =
     st_bind (st_get (\<lambda>s. live = mt_leader (the_mt s))) (\<lambda>is_leader.
     st_bind (remove_thread tid live) (\<lambda>_.
     st_bind (mt_advance seq) (\<lambda>_.
     if is_leader
     then st_bind (st_modify (\<lambda>s. s\<lparr>rs_finished := Some outcome\<rparr>)) (\<lambda>_. st_return (Some outcome))
     else st_return None)))"

lemma consumes_exit_tail: "out \<noteq> Running \<Longrightarrow> st_consumes q (exit_tail tid live q out)"
  unfolding exit_tail_def
  by (rule st_consumes_bind, intro keeps_intros, rule st_consumes_bind, intro keeps_intros, rule st_consumes_then,
      intro consume_intros, intro keeps_intros keeps_outcome)

lemma exit_tail_result: "exit_tail tid live q out s = (Ok x, s') \<Longrightarrow> x = None \<or> x = Some out"
  by (auto simp: exit_tail_def st_bind_Ok st_return_def split: if_splits)

lemma consumes_thread_exit: "consumes (rec_seq rcd) (on_thread_exit os fuel rcd)"
proof -
  have "st_consumes (rec_seq rcd) (st_bind (case status of
         Exited p code \<Rightarrow> st_return (OutExited code)
       | Signaled p g \<Rightarrow> st_return (OutSignaled g)
       | other \<Rightarrow> st_fail (stop_diverged (rec_seq rcd) tid msg other)) (exit_tail tid live (rec_seq rcd)))"
    for status tid live msg
    by (cases status) (simp_all add: st_consumes_fail consumes_exit_tail)
  note tail = this
  show ?thesis
    unfolding on_thread_exit_def exit_tail_def [symmetric]
    by (intro consumes_bind consumes_prod consumes_lift keeps_intros tail)
qed

lemma on_thread_exit_result:
  assumes "on_thread_exit os fuel rcd s = Some (Ok x, s')" shows "x \<noteq> Some Running"
proof -
  from assms obtain status tid live msg s1 where
    "st_bind (case status of
         Exited p code \<Rightarrow> st_return (OutExited code)
       | Signaled p g \<Rightarrow> st_return (OutSignaled g)
       | other \<Rightarrow> st_fail (stop_diverged (rec_seq rcd) tid msg other)) (exit_tail tid live (rec_seq rcd)) s1 = (Ok x, s')"
    unfolding on_thread_exit_def exit_tail_def [symmetric] opt_bind_def opt_lift_def
    by (auto split: option.splits prod.splits result.splits)
  then show ?thesis by (cases status) (auto dest: exit_tail_result)
qed

lemma bumped_step:
  assumes "bumped (rec_seq rcd) s s'" and "record_at s = Some rcd" and "concrete rcd"
    and "session_inv s" and "rs_multithreaded s"
  shows "drive_step s s'"
proof -
  from assms(1) obtain s1 where 1: "same_pos s s1"
    and 2: "same_pos (s1\<lparr>rs_current_seq := Some (rec_seq rcd), rs_cursor := rs_cursor s1 + 1\<rparr>) s'" (is "same_pos ?t s'")
    unfolding bumped_def by blast
  have "consumed ?t = consumed s @ [rcd]" "rs_cursor ?t \<le> length (rs_records s)"
    using 1 consumed_next [OF assms(2,3)] assms(2)
    by (auto simp: same_pos_def consumed_def record_at_def split: if_splits)
  with 1 have "moved [rcd] s ?t" by (auto simp: moved_def pos_ok_def same_pos_def)
  from moved_then_same [OF this 2] have "moved [rcd] s s'" .
  with assms(4,5) moved_inv moved_step [of "[rcd]" s s'] show ?thesis by fastforce
qed

lemma checkpoint_turn_step:
  assumes "record_at s = Some rcd" and "\<not> concrete rcd" and "session_inv s" and "rs_multithreaded s"
  shows "drive_step s (s\<lparr>rs_cursor := rs_cursor s + 1\<rparr>)"
proof -
  have "filter concrete (take (Suc (rs_cursor s)) (rs_records s)) = consumed s" "Suc (rs_cursor s) \<le> length (rs_records s)"
    using assms(1,2) by (auto simp: record_at_def consumed_def take_Suc_conv_app_nth split: if_splits)
  then have "moved [] s (s\<lparr>rs_cursor := rs_cursor s + 1\<rparr>)"
    using assms(3) by (auto simp: moved_def pos_ok_def consumed_def session_inv_def)
  with assms(3,4) moved_inv moved_step [of "[]" s] show ?thesis by fastforce
qed

lemma mt_turn_bumped:
  assumes "mt_turn os fuel rcd s = Some (Ok x, s')" and "concrete rcd"
  shows "bumped (rec_seq rcd) s s' \<and> x \<noteq> Some Running"
  using assms consumes_syscall_enter [of rcd os fuel] consumes_syscall_exit [of rcd os fuel]
    consumes_thread_spawn [of rcd os fuel] consumes_signal [of rcd os fuel] consumes_thread_exit [of rcd os fuel]
    consumes_sched_switch [of rcd] on_thread_exit_result [of os fuel rcd s x s']
  unfolding mt_turn_def consumes_def st_consumes_def
  by (auto simp: concrete_def opt_bind_def opt_lift_def st_defs
      split: event_kind.splits option.splits prod.splits result.splits)

lemma mt_turn_checkpoint:
  assumes "mt_turn os fuel rcd s = Some (Ok x, s')" and "\<not> concrete rcd"
  shows "s' = s\<lparr>rs_cursor := rs_cursor s + 1\<rparr> \<and> x = None"
  using assms by (auto simp: concrete_def mt_turn_def opt_lift_def st_defs)

lemma mt_turn_cursor:
  assumes "mt_turn os fuel rcd s = Some (Ok x, s')"
  shows "rs_cursor s' = rs_cursor s + 1 \<and> rs_records s' = rs_records s"
  using mt_turn_bumped [OF assms] mt_turn_checkpoint [OF assms]
  by (cases "concrete rcd") (auto simp: bumped_def same_pos_def)

lemma mt_turn_step:
  assumes "mt_turn os fuel rcd s = Some (Ok x, s')" and "record_at s = Some rcd"
    and "session_inv s" and "rs_multithreaded s"
  shows "drive_step s s' \<and> x \<noteq> Some Running \<and> rs_cursor s' = rs_cursor s + 1"
  using mt_turn_cursor [OF assms(1)] mt_turn_bumped [OF assms(1)] mt_turn_checkpoint [OF assms(1)]
    bumped_step [OF _ assms(2) _ assms(3,4)] checkpoint_turn_step [OF assms(2) _ assms(3,4)]
  by (cases "concrete rcd") auto

subsection \<open>Landing on a target\<close>

definition behind :: "u64 \<Rightarrow> 'os session \<Rightarrow> bool" where
  "behind t s \<longleftrightarrow> (\<forall>r \<in> set (butlast (consumed s)). rec_seq r < t)"

lemma consumed_sorted: "session_inv s \<Longrightarrow> sorted_wrt (<) (map rec_seq (consumed s))"
  by (auto simp: session_inv_def consumed_def sorted_wrt_map intro!: sorted_wrt_filter sorted_wrt_take)

lemma behindI:
  assumes "session_inv s" and "\<And>c. rs_current_seq s = Some c \<Longrightarrow> c \<le> t"
  shows "behind t s"
proof (cases "consumed s" rule: rev_cases)
  case (snoc xs r)
  with assms(1) have "rs_current_seq s = Some (rec_seq r)" by (simp add: session_inv_def pos_ok_def)
  with assms(2) have "rec_seq r \<le> t" by simp
  with consumed_sorted [OF assms(1)] snoc show ?thesis by (auto simp: behind_def sorted_wrt_append intro: less_le_trans)
qed (simp add: behind_def)

lemma behind_step:
  assumes "drive_step s s'" and "behind t s" and "\<not> reached (Some t) s" and "session_inv s"
  shows "behind t s'"
proof -
  from assms(1) obtain rs where c: "consumed s' = consumed s @ rs" "length rs \<le> 1" by (auto simp: drive_step_def)
  have "\<forall>r \<in> set (consumed s). rec_seq r < t"
  proof (cases "consumed s" rule: rev_cases)
    case (snoc xs r)
    then have "rec_seq r < t" using assms(3,4) by (simp add: reached_def session_inv_def pos_ok_def)
    with snoc assms(2) show ?thesis by (auto simp: behind_def)
  qed simp
  moreover have "set (butlast (consumed s')) \<subseteq> set (consumed s)"
    using c by (cases rs) (auto simp: butlast_append dest: in_set_butlastD)
  ultimately show ?thesis by (auto simp: behind_def)
qed

lemma find_append_hit: "filter P xs = [r] \<Longrightarrow> find P (xs @ ys) = Some r"
  by (induction xs) (auto split: if_splits)

lemma landed:
  assumes "session_inv s" and "reached (Some t) s" and "behind t s"
  shows "\<exists>r. find (\<lambda>r. concrete r \<and> t \<le> rec_seq r) (rs_records s) = Some r \<and> rs_current_seq s = Some (rec_seq r)"
proof -
  from assms(1,2) obtain xs r where snoc: "consumed s = xs @ [r]" and cur: "rs_current_seq s = Some (rec_seq r)" "t \<le> rec_seq r"
    by (cases "consumed s" rule: rev_cases) (auto simp: session_inv_def pos_ok_def reached_def last_seq_def split: option.splits)
  let ?P = "\<lambda>r. concrete r \<and> t \<le> rec_seq r"
  have "filter ?P (take (rs_cursor s) (rs_records s)) = filter (\<lambda>r. t \<le> rec_seq r) (consumed s)"
    by (simp add: consumed_def conj_commute)
  also have "\<dots> = [r]" using assms(3) snoc cur by (auto simp: behind_def filter_empty_conv not_le)
  finally have "find ?P (take (rs_cursor s) (rs_records s) @ drop (rs_cursor s) (rs_records s)) = Some r"
    by (rule find_append_hit)
  with cur show ?thesis by simp
qed

text \<open>The position tells which records were consumed.\<close>

lemma consumed_upto:
  assumes "session_inv s" and "rs_current_seq s = Some q"
  shows "consumed s = filter (\<lambda>r. concrete r \<and> rec_seq r \<le> q) (rs_records s)"
proof -
  let ?a = "take (rs_cursor s) (rs_records s)" and ?b = "drop (rs_cursor s) (rs_records s)"
  from assms obtain xs r where snoc: "filter concrete ?a = xs @ [r]" and q: "q = rec_seq r"
    by (cases "filter concrete ?a" rule: rev_cases) (auto simp: session_inv_def pos_ok_def last_seq_def consumed_def)
  have "sorted_wrt (<) (map rec_seq (?a @ ?b))" using assms(1) by (simp add: session_inv_def)
  then have sorted: "sorted_wrt (<) (map rec_seq ?a)" "\<forall>x \<in> set ?a. \<forall>y \<in> set ?b. rec_seq x < rec_seq y"
    unfolding map_append sorted_wrt_append by auto
  have "r \<in> set ?a" using arg_cong [OF snoc, of set] by auto
  with sorted(2) q have b: "\<forall>y \<in> set ?b. \<not> rec_seq y \<le> q" by (auto simp: not_le)
  have "sorted_wrt (<) (map rec_seq (filter concrete ?a))"
    using sorted(1) unfolding sorted_wrt_map by (rule sorted_wrt_filter)
  then have "\<forall>x \<in> set (filter concrete ?a). rec_seq x \<le> q"
    unfolding snoc q by (auto simp: sorted_wrt_append less_imp_le)
  then have "filter (\<lambda>r. concrete r \<and> rec_seq r \<le> q) ?a = filter concrete ?a"
    by (intro filter_cong) auto
  moreover have "filter (\<lambda>r. concrete r \<and> rec_seq r \<le> q) ?b = []" using b by (simp add: filter_empty_conv)
  ultimately have "filter (\<lambda>r. concrete r \<and> rec_seq r \<le> q) (?a @ ?b) = filter concrete ?a"
    unfolding filter_append by simp
  then show ?thesis by (simp add: consumed_def)
qed

text \<open>What driving from \<open>s\<close> to \<open>s'\<close> guarantees.\<close>

definition drives :: "u64 option \<Rightarrow> 'os session \<Rightarrow> 'os session \<Rightarrow> bool" where
  "drives stop s s' \<longleftrightarrow> session_inv s' \<and> rs_records s' = rs_records s \<and> rs_multithreaded s' = rs_multithreaded s
     \<and> (\<forall>t. stop = Some t \<longrightarrow> behind t s \<longrightarrow> behind t s')"

lemma drives_refl: "session_inv s \<Longrightarrow> drives stop s s"
  by (simp add: drives_def)

lemma drives_step:
  "session_inv s \<Longrightarrow> \<not> reached stop s \<Longrightarrow> drive_step s s1 \<Longrightarrow> drives stop s1 s' \<Longrightarrow> drives stop s s'"
  using behind_step [of s s1] by (auto simp: drives_def drive_step_def)

lemma st_loop_drives:
  "st_loop os n stop s = Some (Ok out, s') \<Longrightarrow> session_inv s \<Longrightarrow> \<not> rs_multithreaded s \<Longrightarrow>
   drives stop s s' \<and> (out = Running \<longrightarrow> reached stop s')"
proof (induction n arbitrary: s)
  case (Suc n)
  show ?case
  proof (cases "reached stop s")
    case True
    with Suc.prems show ?thesis by (auto simp: drives_refl)
  next
    case False
    with Suc.prems obtain x s1 where t: "st_turn os s = (Ok x, s1)"
      and rest: "x = Some out \<and> s' = s1 \<or> x = None \<and> st_loop os n stop s1 = Some (Ok out, s')"
      by (auto split: prod.splits result.splits option.splits)
    note step = st_turn_step [OF t Suc.prems(2,3)]
    then have s1: "session_inv s1" "\<not> rs_multithreaded s1" using Suc.prems(3) by (auto simp: drive_step_def)
    from rest show ?thesis
    proof
      assume "x = Some out \<and> s' = s1"
      with step s1 drives_step [OF Suc.prems(2) False _ drives_refl] show ?thesis by auto
    next
      assume "x = None \<and> st_loop os n stop s1 = Some (Ok out, s')"
      with Suc.IH s1 step drives_step [OF Suc.prems(2) False] show ?thesis by blast
    qed
  qed
qed simp

lemma mt_loop_drives:
  "mt_loop os fuel n stop s = Some (Ok out, s') \<Longrightarrow> session_inv s \<Longrightarrow> rs_multithreaded s \<Longrightarrow>
   drives stop s s' \<and> (out = Running \<longrightarrow> reached stop s')"
proof (induction n arbitrary: s)
  case (Suc n)
  show ?case
  proof (cases "reached stop s")
    case True
    with Suc.prems show ?thesis by (auto simp: drives_refl)
  next
    case False
    with Suc.prems obtain rcd x s1 where r: "record_at s = Some rcd" and t: "mt_turn os fuel rcd s = Some (Ok x, s1)"
      and rest: "x = Some out \<and> s' = s1 \<or> x = None \<and> mt_loop os fuel n stop s1 = Some (Ok out, s')"
      by (auto split: prod.splits result.splits option.splits)
    note step = mt_turn_step [OF t r Suc.prems(2,3)]
    then have s1: "session_inv s1" "rs_multithreaded s1" using Suc.prems(3) by (auto simp: drive_step_def)
    from rest show ?thesis
    proof
      assume "x = Some out \<and> s' = s1"
      with step s1 drives_step [OF Suc.prems(2) False _ drives_refl] show ?thesis by auto
    next
      assume "x = None \<and> mt_loop os fuel n stop s1 = Some (Ok out, s')"
      with Suc.IH s1 step drives_step [OF Suc.prems(2) False] show ?thesis by blast
    qed
  qed
qed simp

lemma same_pos_drives: "same_pos s s1 \<Longrightarrow> drives stop s1 s' \<Longrightarrow> drives stop s s'"
  by (auto simp: drives_def behind_def same_pos_consumed) (auto simp: same_pos_def)

lemma drive_drives:
  assumes "drive os fuel stop s = Some (Ok out, s')" and "session_inv s"
  shows "drives stop s s' \<and> (out = Running \<longrightarrow> reached stop s')"
proof (cases "rs_finished s")
  case (Some o')
  with assms show ?thesis by (auto simp: drive_def drives_refl session_inv_def)
next
  case None
  show ?thesis
  proof (cases "rs_multithreaded s")
    case False
    with None assms st_loop_drives [of os fuel stop s out s'] show ?thesis by (simp add: drive_def)
  next
    case True
    with None assms(1) obtain s1 where e: "ensure_state os s = (Ok (), s1)"
      and l: "mt_loop os fuel (Suc (length (rs_records s1) - rs_cursor s1)) stop s1 = Some (Ok out, s')"
      by (auto simp: drive_def mt_drive_def opt_bind_def opt_lift_def split: prod.splits result.splits
          simp del: mt_loop.simps)
    have same: "same_pos s s1" using keeps_ensure_state e by (rule keepsD)
    with assms(2) True have "session_inv s1" "rs_multithreaded s1"
      using same_pos_inv by (blast, simp add: same_pos_def)
    with mt_loop_drives [OF l] same_pos_drives [OF same] show ?thesis by blast
  qed
qed

subsection \<open>Restarting\<close>

lemma keeps_rearm_watchpoint [keeps_intros]: "keeps_pos (rearm_watchpoint os)"
proof -
  have "(\<lambda>s. case rs_watchpoint s of Some wp \<Rightarrow> hw_arm os (rs_pid s) wp s | None \<Rightarrow> (Ok (), s))
      = (\<lambda>s. (case rs_watchpoint s of Some wp \<Rightarrow> hw_arm os (rs_pid s) wp | None \<Rightarrow> st_return ()) s)"
    by (auto simp: fun_eq_iff st_return_def split: option.splits)
  moreover have "keeps_pos \<dots>" by (rule keeps_state, intro keeps_intros)
  ultimately show ?thesis unfolding rearm_watchpoint_def
    by (intro keeps_intros keeps_modify) (simp_all add: same_pos_def)
qed

text \<open>A session re-seated at a consistent point of its trace.\<close>

lemma reseat_inv:
  assumes "session_inv s" and "n \<le> length (rs_records s)"
    and "cur = last_seq (filter concrete (take n (rs_records s)))"
    and "\<not> mid_syscall (filter concrete (take n (rs_records s)))"
  shows "session_inv (s\<lparr>rs_pid := p, rs_cursor := n, rs_current_seq := cur, rs_last_regs := r, rs_pending := None,
        rs_resume_signal := None, rs_finished := None, rs_mt := None\<rparr>)"
  using assms by (simp add: session_inv_def pos_ok_def consumed_def)

lemma restore_to_checkpoint_spec:
  assumes "restore_to_checkpoint os i s = (Ok (), s')" and "session_inv s" and "i < length (rs_checkpoints s)"
  shows "session_inv s'" and "rs_records s' = rs_records s" and "rs_multithreaded s' = rs_multithreaded s"
    and "rs_current_seq s' = Some (cp_seq (rs_checkpoints s ! i))"
proof -
  let ?cp = "rs_checkpoints s ! i"
  from assms(1) obtain fresh s1 s2 where f: "fork_snapshot os (cp_snapshot ?cp) s = (Ok fresh, s1)"
    and k: "kill_active os s1 = (Ok (), s2)"
    and r: "rearm_watchpoint os (s2\<lparr>rs_pid := fresh, rs_cursor := cp_cursor ?cp, rs_current_seq := cp_current_seq ?cp,
        rs_last_regs := cp_last_regs ?cp, rs_pending := None, rs_resume_signal := None,
        rs_finished := None, rs_mt := None\<rparr>) = (Ok (), s')" (is "rearm_watchpoint _ ?s3 = _")
    by (auto simp: restore_to_checkpoint_def st_bind_Ok st_get_def st_modify_def)
  have same: "same_pos s s2" using keepsD [OF pos.keeps_fork_snapshot f] keepsD [OF pos.keeps_kill_active k] by (rule same_pos_trans)
  have cp: "cp_ok (rs_records s2) ?cp" using assms(2,3) same by (auto simp: session_inv_def same_pos_def)
  have "session_inv s2" using same assms(2) by (rule same_pos_inv)
  then have "session_inv ?s3" by (rule reseat_inv) (use cp in \<open>auto simp: cp_ok_def\<close>)
  moreover have 3: "same_pos ?s3 s'" using keeps_rearm_watchpoint r by (rule keepsD)
  ultimately show "session_inv s'" using same_pos_inv by blast
  show "rs_records s' = rs_records s" "rs_multithreaded s' = rs_multithreaded s"
    "rs_current_seq s' = Some (cp_seq ?cp)"
    using 3 same cp by (simp_all add: same_pos_def cp_ok_def)
qed

lemma respawn_spec:
  assumes "respawn os s = (Ok (), s')" and "session_inv s"
  shows "session_inv s'" and "rs_records s' = rs_records s" and "rs_multithreaded s' = rs_multithreaded s"
    and "rs_current_seq s' = None"
proof -
  define spawn where "spawn = st_bind (kill_active os) (\<lambda>_.
     st_bind (\<lambda>s. ros_do (\<lambda>e. e) (session_spawn os (rs_cmdline s)) s) (\<lambda>pid.
     st_bind (ros_do RePtrace (po_waitpid os no_flags pid)) (\<lambda>_.
     st_bind (setup_options os pid) (\<lambda>_. st_return pid))))"
  have "respawn os = st_bind spawn (\<lambda>pid.
     st_bind (st_modify (\<lambda>s. s\<lparr>rs_pid := pid, rs_cursor := 0, rs_current_seq := None, rs_pending := None,
        rs_resume_signal := None, rs_last_regs := None, rs_finished := None, rs_mt := None\<rparr>)) (\<lambda>_.
     rearm_watchpoint os))"
    by (simp add: respawn_def spawn_def st_bind_assoc)
  with assms(1) obtain pid s1 where s1: "spawn s = (Ok pid, s1)"
    and r: "rearm_watchpoint os (s1\<lparr>rs_pid := pid, rs_cursor := 0, rs_current_seq := None, rs_pending := None,
        rs_resume_signal := None, rs_last_regs := None, rs_finished := None, rs_mt := None\<rparr>) = (Ok (), s')" (is "rearm_watchpoint _ ?s3 = _")
    by (auto simp: st_bind_Ok st_modify_def)
  have sp: "keeps_pos (\<lambda>s. ros_do (\<lambda>e. e) (session_spawn os (rs_cmdline s)) s)" by (rule keeps_state, rule pos.keeps_ros_do)
  have "keeps_pos spawn" unfolding spawn_def by (intro keeps_intros sp)
  then have same: "same_pos s s1" using s1 by (rule keepsD)
  then have "session_inv s1" using assms(2) by (rule same_pos_inv)
  then have "session_inv ?s3" by (simp add: session_inv_def pos_ok_def consumed_def last_seq_def)
  moreover have 3: "same_pos ?s3 s'" using keeps_rearm_watchpoint r by (rule keepsD)
  ultimately show "session_inv s'" using same_pos_inv by blast
  show "rs_records s' = rs_records s" "rs_multithreaded s' = rs_multithreaded s" "rs_current_seq s' = None"
    using 3 same by (simp_all add: same_pos_def)
qed

lemma plan_start_spec:
  assumes "plan_start t s = (index, q)"
  shows "index = Some i \<Longrightarrow> i < length (rs_checkpoints s) \<and> q = cp_seq (rs_checkpoints s ! i) \<and> q \<le> t"
    and "index = None \<Longrightarrow> q = 0"
  using assms by (auto simp: plan_start_def nearest_Some_iff split: option.splits)

lemma restart_at_spec:
  assumes "restart_at os (fst (plan_start t s)) s = (Ok (), s')" and "session_inv s"
  shows "session_inv s'" and "rs_records s' = rs_records s" and "rs_multithreaded s' = rs_multithreaded s"
    and "rs_current_seq s' = Some c \<Longrightarrow> c \<le> t"
proof -
  have "session_inv s' \<and> rs_records s' = rs_records s \<and> rs_multithreaded s' = rs_multithreaded s
      \<and> (rs_current_seq s' = Some c \<longrightarrow> c \<le> t)"
  proof (cases "plan_start t s")
    case (Pair index q)
    show ?thesis
    proof (cases index)
      case None
      with assms(1) Pair have "respawn os s = (Ok (), s')" by (simp add: restart_at_def)
      from respawn_spec [OF this assms(2)] show ?thesis by simp
    next
      case (Some i)
      with assms(1) Pair have r: "restore_to_checkpoint os i s = (Ok (), s')" by (simp add: restart_at_def)
      note plan = plan_start_spec(1) [OF Pair Some]
      with restore_to_checkpoint_spec [OF r assms(2)] show ?thesis by auto
    qed
  qed
  then show "session_inv s'" and "rs_records s' = rs_records s" and "rs_multithreaded s' = rs_multithreaded s"
    and "rs_current_seq s' = Some c \<Longrightarrow> c \<le> t" by simp_all
qed

lemma run_to_spec:
  assumes "run_to os fuel t s = Some (Ok out, s')" and "session_inv s"
  shows "session_inv s' \<and> rs_records s' = rs_records s \<and> rs_multithreaded s' = rs_multithreaded s
    \<and> (out = Running \<longrightarrow> reached (Some t) s' \<and> behind t s')"
proof -
  obtain index q where plan: "plan_start t s = (index, q)" by force
  with assms(1) obtain s1 where
      start: "should_restart (rs_current_seq s) q t \<and> restart_at os (fst (plan_start t s)) s = (Ok (), s1)
        \<or> \<not> should_restart (rs_current_seq s) q t \<and> s1 = s"
    and d: "drive os fuel (Some t) s1 = Some (Ok out, s')"
    by (auto simp: run_to_def opt_bind_def opt_lift_def split: prod.splits result.splits if_splits)
  have "session_inv s1 \<and> rs_records s1 = rs_records s \<and> rs_multithreaded s1 = rs_multithreaded s
      \<and> (\<forall>c. rs_current_seq s1 = Some c \<longrightarrow> c \<le> t)"
    using start restart_at_spec [of os t s s1] assms(2)
    by (auto simp: should_restart_def not_less split: option.splits)
  moreover from this behindI have "behind t s1" by blast
  ultimately show ?thesis using drive_drives [OF d] by (auto simp: drives_def)
qed

end
