(* ===== verification/ReplayReach.thy ===== *)
theory ReplayReach
  imports ReplayPosition
begin

text \<open>
  The replay session as a state machine: the states a client reaches from \<open>launch\<close> by operations
  that succeed, in any order. The session invariant holds in all of them, which gives the landing
  theorem of \<open>run_to\<close>; the concrete kernel at the end plays a script of tracee stops and serves
  the witnesses.
\<close>

inductive session_step :: "'os replay_os \<Rightarrow> 'os session \<Rightarrow> 'os session \<Rightarrow> bool" for os where
  step_run_to: "run_to os fuel q s = Some (Ok out, s') \<Longrightarrow> session_step os s s'"
| step_restore_to: "restore_to os q s = (Ok (), s') \<Longrightarrow> session_step os s s'"
| step_step_to: "step_to os fuel q s = Some (Ok out, s') \<Longrightarrow> session_step os s s'"
| step_run_to_end: "run_to_end os fuel s = Some (Ok out, s') \<Longrightarrow> session_step os s s'"
| step_interval: "session_step os s (set_checkpoint_interval i s)"
| step_watch: "watch os a l k s = (Ok (), s') \<Longrightarrow> session_step os s s'"
| step_clear_watch: "clear_watch os s = (Ok (), s') \<Longrightarrow> session_step os s s'"
| step_take_hits: "take_watch_hits s = (Ok hits, s') \<Longrightarrow> session_step os s s'"
| step_read_memory: "session_read_memory os a n s = (Ok bs, s') \<Longrightarrow> session_step os s s'"

text \<open>Sessions over the trace \<open>records\<close>.\<close>

inductive session_of :: "crc_fun \<Rightarrow> 'os replay_os \<Rightarrow> (source, io_error) result \<Rightarrow> trace_record list \<Rightarrow> 'os session \<Rightarrow> bool"
  for crc os trace records where
  launched: "launch crc os trace o0 = (Ok s, o1) \<Longrightarrow> rs_records s = records \<Longrightarrow> session_of crc os trace records s"
| stepped: "session_of crc os trace records s \<Longrightarrow> session_step os s s' \<Longrightarrow> session_of crc os trace records s'"

lemma keeps_for_each [keeps_intros]: "(\<And>x. keeps_pos (f x)) \<Longrightarrow> keeps_pos (for_each f xs)"
  by (induction xs) (auto intro: keeps_intros)

lemma keeps_watch [keeps_intros]: "keeps_pos (watch os a l k)"
  unfolding watch_def session_read_memory_def
  by (intro keeps_intros keeps_modify) (simp add: same_pos_def)

lemma keeps_clear_watch [keeps_intros]: "keeps_pos (clear_watch os)"
proof -
  have "(\<lambda>s. if b \<and> rs_finished s = None then for_each (hw_disarm os) (live_threads s) s else (Ok (), s))
      = (\<lambda>s. (if b \<and> rs_finished s = None then for_each (hw_disarm os) (live_threads s) else st_return ()) s)" for b
    by (auto simp: fun_eq_iff st_return_def)
  moreover have "keeps_pos (\<lambda>s. (if b \<and> rs_finished s = None then for_each (hw_disarm os) (live_threads s) else st_return ()) s)" for b
    by (rule keeps_state, intro keeps_intros)
  ultimately have "keeps_pos (\<lambda>s. if b \<and> rs_finished s = None then for_each (hw_disarm os) (live_threads s) s else (Ok (), s))" for b
    by simp
  then show ?thesis unfolding clear_watch_def
    by (intro keeps_intros keeps_modify) (simp_all add: same_pos_def)
qed

lemma keeps_take_watch_hits [keeps_intros]: "keeps_pos take_watch_hits"
  unfolding take_watch_hits_def by (intro keeps_intros keeps_modify) (simp add: same_pos_def)

lemma keeps_session_read_memory [keeps_intros]: "keeps_pos (session_read_memory os a n)"
  unfolding session_read_memory_def by (intro keeps_intros)

lemma same_pos_keeps_inv: "same_pos s s' \<Longrightarrow> session_inv s \<Longrightarrow> session_inv s' \<and> rs_records s' = rs_records s
    \<and> rs_multithreaded s' = rs_multithreaded s"
  using same_pos_inv by (auto simp: same_pos_def)

lemma keeps_inv:
  "keeps_pos m \<Longrightarrow> m s = (r, s') \<Longrightarrow> session_inv s \<Longrightarrow> session_inv s' \<and> rs_records s' = rs_records s
    \<and> rs_multithreaded s' = rs_multithreaded s"
  using keepsD same_pos_keeps_inv by blast

lemma drive_keeps_inv:
  "drive os fuel stop s = Some (Ok out, s') \<Longrightarrow> session_inv s \<Longrightarrow> session_inv s' \<and> rs_records s' = rs_records s
    \<and> rs_multithreaded s' = rs_multithreaded s"
  using drive_drives unfolding drives_def by blast

lemma session_step_inv:
  assumes "session_step os s s'" and "session_inv s"
  shows "session_inv s' \<and> rs_records s' = rs_records s \<and> rs_multithreaded s' = rs_multithreaded s"
  using assms(1)
proof cases
  case (step_run_to fuel q out)
  with run_to_spec assms(2) show ?thesis by blast
next
  case (step_restore_to q)
  with restart_at_spec [of os q s s'] assms(2) show ?thesis by (simp add: restore_to_def)
next
  case (step_interval i)
  with same_pos_keeps_inv [of s s'] assms(2) show ?thesis
    by (simp add: set_checkpoint_interval_def same_pos_def)
next
  case (step_step_to fuel q out)
  with drive_keeps_inv assms(2) show ?thesis unfolding step_to_def by blast
next
  case (step_run_to_end fuel out)
  with drive_keeps_inv assms(2) show ?thesis unfolding run_to_end_def by blast
qed (rule keeps_inv [OF _ _ assms(2)], rule keeps_intros, assumption)+

lemma collect_results_Ok: "collect_results rs = Ok xs \<longleftrightarrow> rs = map Ok xs"
  by (induction rs arbitrary: xs) (auto simp: result_iffs Cons_eq_map_conv)

lemma launch_Ok:
  assumes "launch crc os trace o0 = (Ok s, o1)"
  obtains src rd cmd records pid where "trace = Ok src" and "reader_open src = Ok rd" and "rd_cmdline rd = Some cmd"
    and "read_all crc rd = map Ok records" and "s = session_new pid cmd records o1"
  using assms that
  by (auto simp: launch_def st_bind_Ok st_lift_def st_get_def st_return_def collect_results_Ok)

lemma launch_inv:
  assumes "launch crc os trace o0 = (Ok s, o1)"
  shows "session_inv s"
proof -
  from assms obtain src rd cmd records pid where r: "reader_open src = Ok rd" "read_all crc rd = map Ok records"
    and s: "s = session_new pid cmd records o1" by (rule launch_Ok)
  have "sorted_wrt (<) (map rec_seq records)"
  proof -
    from read_all_shape [of crc rd] obtain recs tail where "read_all crc rd = map Ok recs @ tail"
      "sorted_wrt (<) (map rec_seq recs)" "tail = [] \<or> (\<exists>e. tail = [Err e])"
      by blast
    moreover have "Err e \<notin> set (map Ok records)" for e by auto
    ultimately show ?thesis using r(2) by (metis append_Nil2 in_set_conv_decomp inj_def map_injective result.inject(1))
  qed
  then show ?thesis by (simp add: s session_new_def session_inv_def pos_ok_def consumed_def last_seq_def)
qed

lemma launch_multithreaded:
  "launch crc os trace o0 = (Ok s, o1) \<Longrightarrow> rs_multithreaded s = trace_is_multithreaded (rs_records s)"
  by (elim launch_Ok) (simp add: session_new_def)

lemma session_of_inv:
  "session_of crc os trace records s \<Longrightarrow>
   session_inv s \<and> rs_records s = records \<and> rs_multithreaded s = trace_is_multithreaded records"
  by (induction rule: session_of.induct) (auto simp: launch_inv launch_multithreaded dest: session_step_inv)

subsection \<open>A concrete kernel\<close>

text \<open>
  A tracee whose stops are a script and whose registers always show syscall 39; memory reads as
  zeros and every other call succeeds.
\<close>

definition demo_cmd :: cmdline where
  "demo_cmd = \<lparr>cmd_program = [0x61], cmd_args = []\<rparr>"

definition demo_replay_wait :: "wait_flags \<Rightarrow> pid \<Rightarrow> (wait_status list, wait_status, errno) st" where
  "demo_replay_wait fl p script = (case script of [] \<Rightarrow> (Err ECHILD, []) | st # rest \<Rightarrow> (Ok st, rest))"

definition demo_full_regs :: full_regs where
  "demo_full_regs = \<lparr>fr_rip = 0, fr_rax = 7, fr_orig_rax = 39, fr_rdi = 0, fr_rsi = 0, fr_rdx = 0, fr_r10 = 0,
     fr_r8 = 0, fr_r9 = 0, fr_others = []\<rparr>"

definition demo_replay_os :: "wait_status list replay_os" where
  "demo_replay_os = \<lparr>po_abi = os_abi demo_os, po_sys_clone = 56, po_spawn = \<lambda>c. st_return 7,
     po_waitpid = demo_replay_wait, po_setoptions = \<lambda>p opts. st_return (), po_syscall = \<lambda>p sig. st_return (),
     po_step = \<lambda>p. st_return (), po_kill = \<lambda>p. st_return (), po_getregs = \<lambda>p. st_return demo_full_regs,
     po_setregs = \<lambda>p r. st_return (), po_getevent = \<lambda>p. st_return 8,
     po_vm_readv = \<lambda>p a n. st_return (replicate n 0), po_vm_writev = \<lambda>p a d. st_return (length d),
     po_pokeuser = \<lambda>p off v. st_return (), po_siginfo = \<lambda>p. st_return TRAP_HWBKPT,
     po_unwinder_new = \<lambda>p. st_return (), po_backtrace = \<lambda>p. st_return (ucast p, [])\<rparr>"

definition demo_trace :: "event list \<Rightarrow> (source, io_error) result" where
  "demo_trace es = Ok [Data (header_bytes (encode_cmdline (cmd_program demo_cmd) (cmd_args demo_cmd)) @ frames demo_crc 0 es)]"

definition demo_enter :: event where
  "demo_enter = event_new_with_tid SyscallEnter 0 7 (syscall_enter_encode \<lparr>se_nr = 39, se_args = [0, 0, 0, 0, 0, 0]\<rparr>)"

definition demo_exit :: event where
  "demo_exit = event_new_with_tid SyscallExit 0 7 (syscall_exit_encode \<lparr>sx_nr = 39, sx_ret = 7, sx_data = []\<rparr>)"

lemma demo_payloads [simp]:
  "syscall_enter_decode (syscall_enter_encode \<lparr>se_nr = 39, se_args = [0, 0, 0, 0, 0, 0]\<rparr>)
     = Ok \<lparr>se_nr = 39, se_args = [0, 0, 0, 0, 0, 0]\<rparr>"
  "syscall_exit_decode (syscall_exit_encode \<lparr>sx_nr = 39, sx_ret = 7, sx_data = []\<rparr>)
     = Ok \<lparr>sx_nr = 39, sx_ret = 7, sx_data = []\<rparr>"
  by (simp_all add: syscall_enter_codec.dec_enc syscall_exit_codec.dec_enc args6_def)

lemma demo_launch:
  assumes "\<forall>e \<in> set es. event_fits e" and "length es \<le> 2 ^ 64"
  shows "launch demo_crc demo_replay_os (demo_trace es) (Stopped 7 5 # script)
    = (Ok (session_new 7 demo_cmd (records_from 0 es) script), script)"
proof -
  have wf: "str_wf [0x61]" "\<forall>a \<in> set ([] :: bytes list). str_wf a"
    "BASE_HEADER_LEN + length (encode_cmdline [0x61] []) < 2 ^ 16"
    by (simp_all add: str_wf_def utf8_valid.simps encode_cmdline_def push_str_def format_consts)
  let ?b = "header_bytes (encode_cmdline [0x61] []) @ frames demo_crc 0 es"
  have "clean_source [Data ?b]" "source_bytes [Data ?b] = ?b" by (simp_all add: header_bytes_def MAGIC_def)
  from trace_readback [OF wf assms this] obtain r where "reader_open [Data ?b] = Ok r"
    "rd_cmdline r = Some \<lparr>cmd_program = [0x61], cmd_args = []\<rparr>" "read_all demo_crc r = map Ok (records_from 0 es)"
    by blast
  then show ?thesis
    by (simp add: launch_def demo_trace_def demo_cmd_def st_defs session_spawn_def os_lift_def demo_replay_os_def
        demo_replay_wait_def)
qed

lemma demo_events_fit [simp]: "event_fits demo_enter" "event_fits demo_exit"
  by (simp_all add: event_fits_def demo_enter_def demo_exit_def event_new_with_tid_def format_consts
      syscall_enter_encode_def syscall_exit_encode_def)

lemmas demo_replay_simps = run_to_def plan_start_def should_restart_def opt_bind_def opt_lift_def drive_def
  session_new_def reached_def st_turn_def st_dispatch_def st_defs ros_do_def demo_replay_os_def demo_replay_wait_def
  on_syscall_stop_def on_entry_def session_on_exit_def next_record_def skip_checkpoints_def record_at_def
  regs_read_def regs_of_full_def demo_full_regs_def injection_addr_def maybe_checkpoint_def is_checkpoint_due_def
  demo_os_def demo_enter_def demo_exit_def event_new_with_tid_def event_norm_def trace_is_multithreaded_def
  is_lifecycle_kind_def

subsection \<open>Navigation\<close>

lemma run_to_landing:
  assumes "run_to os fuel seq s = Some (Ok Running, s')" and "session_inv s"
  shows "\<exists>rcd. find (\<lambda>r. concrete r \<and> seq \<le> rec_seq r) (rs_records s) = Some rcd \<and> rs_current_seq s' = Some (rec_seq rcd)
    \<and> consumed s' = filter (\<lambda>r. concrete r \<and> rec_seq r \<le> rec_seq rcd) (rs_records s)"
proof -
  from run_to_spec [OF assms] have i: "session_inv s'" "reached (Some seq) s'" "behind seq s'" "rs_records s' = rs_records s" by auto
  with landed [OF i(1-3)] consumed_upto [OF i(1)] show ?thesis by fastforce
qed

text \<open>
  C12. Navigation is history-independent: from any session state reached from \<open>launch\<close>, under either
  driver, with or without checkpoints and whatever was visited before, a \<open>run_to(seq)\<close> that stops
  with the tracee running has consumed exactly the records up to the first non-checkpoint record at
  or after \<open>seq\<close>, and reports its sequence number.
\<close>

theorem run_to_lands:
  assumes "session_of crc os trace records s" and "run_to os fuel seq s = Some (Ok Running, s')"
  shows "\<exists>rcd. find (\<lambda>r. ev_kind (rec_event r) \<noteq> Checkpoint \<and> seq \<le> rec_seq r) records = Some rcd
    \<and> rs_current_seq s' = Some (rec_seq rcd) \<and> session_of crc os trace records s'
    \<and> consumed s' = filter (\<lambda>r. ev_kind (rec_event r) \<noteq> Checkpoint \<and> rec_seq r \<le> rec_seq rcd) records"
proof -
  have i: "session_inv s" "rs_records s = records" using session_of_inv [OF assms(1)] by auto
  have s': "session_of crc os trace records s'" using assms step_run_to stepped by metis
  from run_to_landing [OF assms(2) i(1)] i(2) s' show ?thesis by (auto simp: concrete_def)
qed

text \<open>Witness: a fresh session over one syscall runs to its exit record.\<close>

theorem run_to_lands_witness:
  "\<exists>s s' rcd records. session_of demo_crc demo_replay_os (demo_trace [demo_enter, demo_exit]) records s
    \<and> run_to demo_replay_os (Suc (Suc (Suc 0))) 1 s = Some (Ok Running, s')
    \<and> find (\<lambda>r. ev_kind (rec_event r) \<noteq> Checkpoint \<and> 1 \<le> rec_seq r) records = Some rcd
    \<and> rs_current_seq s' = Some (rec_seq rcd)"
proof -
  let ?es = "[demo_enter, demo_exit]" and ?script = "[PtraceSyscall 7, PtraceSyscall 7]"
  have l: "launch demo_crc demo_replay_os (demo_trace ?es) (Stopped 7 5 # ?script)
    = (Ok (session_new 7 demo_cmd (records_from 0 ?es) ?script), ?script)"
    by (rule demo_launch) simp_all
  have s: "session_of demo_crc demo_replay_os (demo_trace ?es) (records_from 0 ?es)
      (session_new 7 demo_cmd (records_from 0 ?es) ?script)"
    by (rule launched [OF l]) (simp add: session_new_def)
  have "\<exists>s'. run_to demo_replay_os (Suc (Suc (Suc 0))) 1 (session_new 7 demo_cmd (records_from 0 ?es) ?script)
      = Some (Ok Running, s')"
    by (simp add: demo_replay_simps)
  then obtain s' where r: "run_to demo_replay_os (Suc (Suc (Suc 0))) 1
      (session_new 7 demo_cmd (records_from 0 ?es) ?script) = Some (Ok Running, s')" by blast
  from run_to_lands [OF s r] s r show ?thesis by blast
qed

end
