(* ===== verification/ReplaySchedule.thy ===== *)
theory ReplaySchedule
  imports ReplayReach
begin

text \<open>
  What the schedule-enforcing driver guarantees: the records it has consumed follow the recorded
  schedule (every record is of the thread the last \<open>SchedSwitch\<close> handed the CPU to), the thread
  table stays one-to-one and every bound thread is followed. The rules for successful runs
  (\<open>ok_post\<close>) carry an invariant of the thread state through the handlers.
\<close>

subsection \<open>The recorded schedule\<close>

text \<open>
  An observer of records, as \<open>enforce_tid\<close> and \<open>on_sched_switch\<close> read them: the thread on the CPU
  after the record, or \<open>None\<close> when the record does not fit.
\<close>

definition sched_check :: "u32 option \<Rightarrow> trace_record \<Rightarrow> u32 option option" where
  "sched_check cur rcd = (case ev_kind (rec_event rcd) of
       SchedSwitch \<Rightarrow> (case sched_switch_decode (ev_payload (rec_event rcd)) of
           Ok sw \<Rightarrow> Some (Some (ss_tid sw)) | Err e \<Rightarrow> None)
     | _ \<Rightarrow> (case ev_tid (rec_event rcd) of
           None \<Rightarrow> None
         | Some t \<Rightarrow> if cur = None \<or> cur = Some t then Some (Some t) else None))"

fun sched_follows :: "u32 option \<Rightarrow> trace_record list \<Rightarrow> u32 option option" where
  "sched_follows cur [] = Some cur"
| "sched_follows cur (r # rs) = Option.bind (sched_check cur r) (\<lambda>cur'. sched_follows cur' rs)"

lemma sched_follows_append:
  "sched_follows cur (xs @ ys) = Option.bind (sched_follows cur xs) (\<lambda>cur'. sched_follows cur' ys)"
  by (induction xs arbitrary: cur) (auto split: bind_splits)

subsection \<open>The thread table\<close>

definition table_inv :: "mt_state \<Rightarrow> bool" where
  "table_inv m \<longleftrightarrow> tid_map_inv (mt_tidmap m) \<and> bt_wf (mt_threads m)
     \<and> (\<forall>t l. live_of (mt_tidmap m) t = Some l \<longrightarrow> bt_get (mt_threads m) l \<noteq> None)"

text \<open>The state between two steps of the leader's run, with \<open>e\<close> the expected thread.\<close>

definition mt_ready :: "u32 option \<Rightarrow> 'os session \<Rightarrow> bool" where
  "mt_ready e s \<longleftrightarrow> rs_mt s \<noteq> None \<and> table_inv (the_mt s) \<and> mt_expected_tid (the_mt s) = e
     \<and> bt_get (mt_threads (the_mt s)) (mt_leader (the_mt s)) \<noteq> None"

text \<open>Everything but the table, the schedule and the set of threads may change.\<close>

definition same_table :: "'os session \<Rightarrow> 'os session \<Rightarrow> bool" where
  "same_table s s' \<longleftrightarrow> (rs_mt s \<noteq> None \<longrightarrow> rs_mt s' \<noteq> None
     \<and> mt_tidmap (the_mt s') = mt_tidmap (the_mt s) \<and> mt_expected_tid (the_mt s') = mt_expected_tid (the_mt s)
     \<and> mt_leader (the_mt s') = mt_leader (the_mt s)
     \<and> (bt_wf (mt_threads (the_mt s)) \<longrightarrow> bt_wf (mt_threads (the_mt s'))
          \<and> dom (bt_get (mt_threads (the_mt s'))) = dom (bt_get (mt_threads (the_mt s)))))"

lemma same_table_eq: "rs_mt s' = rs_mt s \<Longrightarrow> same_table s s'"
  by (auto simp: same_table_def the_mt_def)

interpretation tab: replay_frame same_table
proof unfold_locales
  fix s t u :: "'os session"
  show "same_table s t \<Longrightarrow> same_table t u \<Longrightarrow> same_table s u" by (simp add: same_table_def)
qed (simp_all add: same_table_eq)

lemma same_table_ready: "same_table s s' \<Longrightarrow> mt_ready e s \<Longrightarrow> mt_ready e s'"
  unfolding mt_ready_def table_inv_def same_table_def by (auto simp: dom_def)

lemma same_table_live:
  "same_table s s' \<Longrightarrow> mt_ready e s \<Longrightarrow> live_of (mt_tidmap (the_mt s')) t = live_of (mt_tidmap (the_mt s)) t"
  by (simp add: same_table_def mt_ready_def)

lemma keeps_table_thread_upd [keeps_intros]: "keeps same_table (mt_update (thread_upd p f))"
  unfolding mt_update_def
  by (rule keeps_modify) (auto simp: same_table_def the_mt_def thread_upd_def bt_wf_update bt_get_update dom_def
      split: if_splits)

lemma keeps_table_slots [keeps_intros]:
  "keeps same_table (take_resume_signal p)" "keeps same_table (set_pending p q)" "keeps same_table (take_pending p)"
  unfolding take_resume_signal_def set_pending_def take_pending_def by (intro keeps_intros)+

lemma keeps_table_advance [keeps_intros]: "keeps same_table (mt_advance q)"
  unfolding mt_advance_def by (rule keeps_modify) (simp add: same_table_eq)

subsection \<open>Successful runs\<close>

definition st_post :: "('os session \<Rightarrow> bool) \<Rightarrow> ('os, 'a) replay \<Rightarrow> ('a \<Rightarrow> 'os session \<Rightarrow> bool) \<Rightarrow> bool" where
  "st_post P m Q \<longleftrightarrow> (\<forall>s x s'. P s \<longrightarrow> m s = (Ok x, s') \<longrightarrow> Q x s')"

definition ok_post :: "('os session \<Rightarrow> bool) \<Rightarrow> ('os, 'a) replay_opt \<Rightarrow> ('a \<Rightarrow> 'os session \<Rightarrow> bool) \<Rightarrow> bool" where
  "ok_post P m Q \<longleftrightarrow> (\<forall>s x s'. P s \<longrightarrow> m s = Some (Ok x, s') \<longrightarrow> Q x s')"

lemma ok_postD: "ok_post P m Q \<Longrightarrow> P s \<Longrightarrow> m s = Some (Ok x, s') \<Longrightarrow> Q x s'"
  by (simp add: ok_post_def)

lemma st_postD: "st_post P m Q \<Longrightarrow> P s \<Longrightarrow> m s = (Ok x, s') \<Longrightarrow> Q x s'"
  by (simp add: st_post_def)

lemma st_post_bind: "st_post P m Q \<Longrightarrow> (\<And>x. st_post (Q x) (f x) T) \<Longrightarrow> st_post P (st_bind m f) T"
  unfolding st_post_def st_bind_Ok by blast

lemma opt_bind_Ok:
  "opt_bind m f s = Some (Ok y, t) \<longleftrightarrow> (\<exists>x u. m s = Some (Ok x, u) \<and> f x u = Some (Ok y, t))"
  by (auto simp: opt_bind_def split: option.splits prod.splits result.splits)

lemma ok_post_bind: "ok_post P m Q \<Longrightarrow> (\<And>x. ok_post (Q x) (f x) T) \<Longrightarrow> ok_post P (opt_bind m f) T"
  unfolding ok_post_def opt_bind_Ok by blast

lemma ok_post_lift: "st_post P m Q \<Longrightarrow> ok_post P (opt_lift m) Q"
  by (simp add: ok_post_def st_post_def opt_lift_def)

lemma st_post_fact: "(A \<Longrightarrow> st_post P m Q) \<Longrightarrow> st_post (\<lambda>s. A \<and> P s) m Q"
  by (auto simp: st_post_def)

lemma ok_post_fact: "(A \<Longrightarrow> ok_post P m Q) \<Longrightarrow> ok_post (\<lambda>s. A \<and> P s) m Q"
  by (auto simp: ok_post_def)

lemma st_post_ready: "keeps same_table m \<Longrightarrow> st_post (mt_ready e) m (\<lambda>_. mt_ready e)"
  unfolding st_post_def using keepsD same_table_ready by blast

lemma ok_post_ready: "opt_keeps same_table m \<Longrightarrow> ok_post (mt_ready e) m (\<lambda>_. mt_ready e)"
  unfolding ok_post_def using opt_keepsD same_table_ready by blast

lemma st_post_return: "(\<And>s. P s \<Longrightarrow> Q x s) \<Longrightarrow> st_post P (st_return x) Q"
  by (simp add: st_post_def st_return_def)

lemma the_mt_upd [simp]: "the_mt (s\<lparr>rs_mt := Some m\<rparr>) = m"
  by (simp add: the_mt_def)

lemma enforce_tid_Ok:
  assumes "enforce_tid rcd s = (Ok tid, s')"
  shows "ev_tid (rec_event rcd) = Some tid"
    and "mt_expected_tid (the_mt s) = None \<or> mt_expected_tid (the_mt s) = Some tid"
    and "s' = s \<and> mt_expected_tid (the_mt s) = Some tid
      \<or> s' = s\<lparr>rs_mt := Some (the_mt s\<lparr>mt_expected_tid := Some tid\<rparr>)\<rparr>"
  using assms
  by (cases "mt_expected_tid (the_mt s)";
      auto simp: enforce_tid_def st_bind_Ok st_lift_Ok st_get_def st_return_def st_fail_def mt_update_def
        st_modify_def split: if_splits)+

lemma enforce_tid_post:
  "st_post (mt_ready e) (enforce_tid rcd) (\<lambda>tid s. (ev_tid (rec_event rcd) = Some tid \<and> (e = None \<or> e = Some tid))
     \<and> mt_ready (Some tid) s)"
  unfolding st_post_def
proof (intro allI impI)
  fix s :: "'os session" and tid s' assume s: "mt_ready e s" and run: "enforce_tid rcd s = (Ok tid, s')"
  note ok = enforce_tid_Ok [OF run]
  from ok(3) s have "mt_ready (Some tid) s'" by (elim disjE) (simp_all add: mt_ready_def table_inv_def)
  with ok(1,2) s show "(ev_tid (rec_event rcd) = Some tid \<and> (e = None \<or> e = Some tid)) \<and> mt_ready (Some tid) s'"
    by (simp add: mt_ready_def)
qed

lemma live_for_post:
  "st_post (mt_ready e) (live_for tid q)
     (\<lambda>live s. mt_ready e s \<and> live_of (mt_tidmap (the_mt s)) tid = Some live)"
proof -
  have bound: "mt_ready e (s\<lparr>rs_mt := Some (m\<lparr>mt_tidmap := t\<rparr>)\<rparr>) \<and> live_of t tid = Some (mt_leader m)"
    if "mt_ready e s" and m: "the_mt s = m" and b: "tid_bind tid (mt_leader m) (mt_tidmap m) = Ok t" for s m t
  proof -
    have "tid_map_inv (mt_tidmap m)" using that by (simp add: mt_ready_def table_inv_def)
    with b have "tid_map_inv t" "live_of t = (live_of (mt_tidmap m))(tid \<mapsto> mt_leader m)"
      using tid_table.bind_inv tid_table.bind_lookup by blast+
    with that show ?thesis by (auto simp: mt_ready_def table_inv_def the_mt_def split: if_splits)
  qed
  show ?thesis
    unfolding st_post_def live_for_def Let_def
    by (auto split: option.splits if_splits result.splits dest: bound [OF _ refl] simp: the_mt_upd)
qed

subsection \<open>The handlers\<close>

text \<open>The common start of the handlers: the thread is checked and looked up.\<close>

lemma enforced_post:
  assumes "\<And>tid live. ev_tid (rec_event rcd) = Some tid \<Longrightarrow> e = None \<or> e = Some tid \<Longrightarrow>
    st_post (\<lambda>s. mt_ready (Some tid) s \<and> live_of (mt_tidmap (the_mt s)) tid = Some live) (f tid live) Q"
  shows "st_post (mt_ready e) (st_bind (enforce_tid rcd) (\<lambda>tid. st_bind (live_for tid q) (f tid))) Q"
  by (rule st_post_bind [OF enforce_tid_post], rule st_post_fact, rule st_post_bind [OF live_for_post], rule assms) auto

text \<open>The thread the record is of, when it fits the schedule.\<close>

definition scheduled :: "u32 option \<Rightarrow> trace_record \<Rightarrow> u32 \<Rightarrow> bool" where
  "scheduled e rcd tid \<longleftrightarrow> ev_tid (rec_event rcd) = Some tid \<and> (e = None \<or> e = Some tid)"

lemma scheduled_check:
  "scheduled e rcd tid \<Longrightarrow> ev_kind (rec_event rcd) \<noteq> SchedSwitch \<Longrightarrow> sched_check e rcd = Some (Some tid)"
  by (cases "ev_kind (rec_event rcd)") (auto simp: scheduled_def sched_check_def)

lemma keeps_after_enforced:
  assumes "\<And>tid live. keeps same_table (f tid live)"
  shows "st_post (mt_ready e) (st_bind (enforce_tid rcd) (\<lambda>tid. st_bind (live_for tid q) (f tid)))
     (\<lambda>_ s. \<exists>tid. scheduled e rcd tid \<and> mt_ready (Some tid) s)"
proof (rule enforced_post)
  fix tid live assume "ev_tid (rec_event rcd) = Some tid" "e = None \<or> e = Some tid"
  then have "scheduled e rcd tid" by (simp add: scheduled_def)
  with st_post_ready [OF assms, of "Some tid" tid live]
  show "st_post (\<lambda>s. mt_ready (Some tid) s \<and> live_of (mt_tidmap (the_mt s)) tid = Some live) (f tid live)
     (\<lambda>_ s. \<exists>tid. scheduled e rcd tid \<and> mt_ready (Some tid) s)"
    unfolding st_post_def by blast
qed

lemma ok_post_after:
  assumes "ok_post P m (\<lambda>_ s. \<exists>t. A t \<and> mt_ready (Some t) s)" and "\<And>x. opt_keeps same_table (f x)"
  shows "ok_post P (opt_bind m f) (\<lambda>_ s. \<exists>t. A t \<and> mt_ready (Some t) s)"
  by (rule ok_post_bind [OF assms(1)]) (use opt_keepsD [OF assms(2)] same_table_ready in \<open>unfold ok_post_def, blast\<close>)

lemma ok_post_some:
  "(\<And>e. ok_post (mt_ready e) m (\<lambda>_. mt_ready e)) \<Longrightarrow>
   ok_post (\<lambda>s. \<exists>t. A t \<and> mt_ready (Some t) s) m (\<lambda>_ s. \<exists>t. A t \<and> mt_ready (Some t) s)"
  unfolding ok_post_def by blast

lemma on_syscall_enter_post:
  "ok_post (mt_ready e) (on_syscall_enter os fuel rcd) (\<lambda>_ s. \<exists>t. scheduled e rcd t \<and> mt_ready (Some t) s)"
  unfolding on_syscall_enter_def
  by (rule ok_post_after, rule ok_post_lift, rule keeps_after_enforced) (intro keeps_intros)+

lemma on_syscall_exit_post:
  "ok_post (mt_ready e) (on_syscall_exit os fuel rcd) (\<lambda>_ s. \<exists>t. scheduled e rcd t \<and> mt_ready (Some t) s)"
  unfolding on_syscall_exit_def
  by (rule ok_post_after, rule ok_post_lift, rule keeps_after_enforced) (intro keeps_intros)+

lemma on_signal_post:
  "ok_post (mt_ready e) (on_signal os fuel rcd) (\<lambda>_ s. \<exists>t. scheduled e rcd t \<and> mt_ready (Some t) s)"
  unfolding on_signal_def
  by (rule ok_post_after, rule ok_post_lift, rule keeps_after_enforced) (intro keeps_intros)+

lemma on_sched_switch_post:
  "st_post (mt_ready e) (on_sched_switch rcd)
     (\<lambda>_ s. \<exists>sw. sched_switch_decode (ev_payload (rec_event rcd)) = Ok sw \<and> mt_ready (Some (ss_tid sw)) s)"
  by (auto simp: st_post_def on_sched_switch_def st_bind_Ok st_lift_Ok mt_update_def st_modify_def mt_advance_def
      mt_ready_def table_inv_def the_mt_def)

text \<open>A new child is bound one-to-one and followed.\<close>

lemma bind_child_post: "st_post (mt_ready e) (bind_child q t c p v) (\<lambda>_. mt_ready e)"
proof -
  have bound: "mt_ready e (s\<lparr>rs_mt := Some (m\<lparr>mt_tidmap := tm, mt_threads := bt_insert c thread_rt_default (mt_threads m),
      mt_vfork_suspended := w\<rparr>)\<rparr>)"
    if "mt_ready e s" and m: "the_mt s = m" and b: "tid_bind t c (mt_tidmap m) = Ok tm" for s m tm w
  proof -
    have "tid_map_inv (mt_tidmap m)" "bt_wf (mt_threads m)" using that by (simp_all add: mt_ready_def table_inv_def)
    moreover from this b have "tid_map_inv tm" "live_of tm = (live_of (mt_tidmap m))(t \<mapsto> c)"
      using tid_table.bind_inv tid_table.bind_lookup by blast+
    ultimately show ?thesis using that
      by (auto simp: mt_ready_def table_inv_def bt.wf_insert bt.get_insert split: if_splits)
  qed
  moreover have "mt_ready e (s\<lparr>rs_mt := Some (the_mt s\<lparr>mt_tidmap := tm,
      mt_threads := bt_insert c thread_rt_default (mt_threads (the_mt s))\<rparr>)\<rparr>)"
    if "mt_ready e s" and "tid_bind t c (mt_tidmap (the_mt s)) = Ok tm" for s tm
    using bound [OF that(1) refl that(2), of "mt_vfork_suspended (the_mt s)"] by simp
  ultimately show ?thesis
    unfolding st_post_def bind_child_def Let_def by (auto split: result.splits)
qed

lemma spawn_tail_post:
  "st_post (mt_ready e) (st_bind (mt_register_child os child q) (\<lambda>_.
     st_bind (bind_child q t child parent v) (\<lambda>_.
     st_bind (st_get rs_watchpoint) (\<lambda>wp.
     st_bind (case wp of Some w \<Rightarrow> hw_arm os child w | None \<Rightarrow> st_return ()) (\<lambda>_. mt_advance q'))))) (\<lambda>_. mt_ready e)"
  by (rule st_post_bind, rule st_post_ready, intro keeps_intros, rule st_post_bind, rule bind_child_post,
      rule st_post_ready, intro keeps_intros)

lemma on_thread_spawn_post:
  "ok_post (mt_ready e) (on_thread_spawn os fuel rcd) (\<lambda>_ s. \<exists>t. scheduled e rcd t \<and> mt_ready (Some t) s)"
proof -
  have tail: "st_post (mt_ready e') (case status of
       PtraceEvent p g event \<Rightarrow>
         (if is_spawn_event event
          then st_bind (ros_do RePtrace (po_getevent os parent)) (\<lambda>raw.
               st_bind (mt_register_child os (ucast raw) (rec_seq rcd)) (\<lambda>_.
               st_bind (bind_child (rec_seq rcd) ct (ucast raw) parent (event = PTRACE_EVENT_VFORK)) (\<lambda>_.
               st_bind (st_get rs_watchpoint) (\<lambda>wp.
               st_bind (case wp of Some w \<Rightarrow> hw_arm os (ucast raw) w | None \<Rightarrow> st_return ()) (\<lambda>_.
               mt_advance (rec_seq rcd))))))
          else st_fail (stop_diverged (rec_seq rcd) tid msg status))
     | _ \<Rightarrow> st_fail (stop_diverged (rec_seq rcd) tid msg status)) (\<lambda>_. mt_ready e')"
    for e' status parent ct tid msg
  proof (cases status)
    case (PtraceEvent p g event)
    show ?thesis
    proof (cases "is_spawn_event event")
      case True
      then show ?thesis
        unfolding PtraceEvent by (simp, intro st_post_bind [OF st_post_ready spawn_tail_post] keeps_intros)
    qed (simp add: PtraceEvent st_post_def)
  qed (simp_all add: st_post_def)
  have "ok_post (mt_ready e') (opt_bind (step_thread os fuel parent sig) (\<lambda>status. opt_lift (m status))) (\<lambda>_. mt_ready e')"
    if "\<And>status. st_post (mt_ready e') (m status) (\<lambda>_. mt_ready e')" for e' parent sig and m :: "wait_status \<Rightarrow> ('a, unit) replay"
    by (rule ok_post_bind [OF ok_post_ready [OF tab.opt_keeps_step_thread]], rule ok_post_lift, rule that)
  note rest = ok_post_some [OF this [OF tail]]
  show ?thesis
    unfolding on_thread_spawn_def Let_def
    by (rule ok_post_bind [OF ok_post_lift [OF keeps_after_enforced]], intro keeps_intros)
      (auto simp: split_paired_all intro!: rest)
qed

text \<open>A thread that exits leaves the table and the thread set together.\<close>

lemma remove_thread_post:
  "st_post (\<lambda>s. (live = mt_leader (the_mt s) \<longleftrightarrow> b) \<and> mt_ready e s \<and> live_of (mt_tidmap (the_mt s)) tid = Some live)
     (remove_thread tid live)
     (\<lambda>_ s. rs_mt s \<noteq> None \<and> table_inv (the_mt s) \<and> mt_expected_tid (the_mt s) = e
        \<and> (\<not> b \<longrightarrow> bt_get (mt_threads (the_mt s)) (mt_leader (the_mt s)) \<noteq> None))"
proof -
  have table: "table_inv (m\<lparr>mt_threads := bt_remove live (mt_threads m), mt_tidmap := snd (unbind_recorded tid (mt_tidmap m)),
      mt_vfork_suspended := w\<rparr>)" (is "table_inv (m\<lparr>mt_threads := _, mt_tidmap := ?t, mt_vfork_suspended := _\<rparr>)")
    if i: "table_inv m" and l: "live_of (mt_tidmap m) tid = Some live" for m w
  proof -
    obtain v where u: "unbind_recorded tid (mt_tidmap m) = (v, ?t)" by (metis prod.collapse)
    have inv: "tid_map_inv (mt_tidmap m)" "bt_wf (mt_threads m)" using i by (simp_all add: table_inv_def)
    with u have t': "tid_map_inv ?t" "live_of ?t = (live_of (mt_tidmap m))(tid := None)"
      using tid_table.unbind_inv tid_table.unbind_lookup by blast+
    have "bt_get (bt_remove live (mt_threads m)) l \<noteq> None" if "live_of ?t t = Some l" for t l
      using that t'(2) i inv tid_table.inv_inj [OF inv(1) l, of t]
      by (auto simp: bt.get_remove table_inv_def split: if_splits)
    with inv t'(1) show ?thesis by (simp add: table_inv_def bt.wf_remove)
  qed
  have "bt_get (bt_remove live (mt_threads m)) (mt_leader m) \<noteq> None"
    if "table_inv m" and "live \<noteq> mt_leader m" and "bt_get (mt_threads m) (mt_leader m) \<noteq> None" for m
    using that by (simp add: bt.get_remove table_inv_def)
  with table show ?thesis
    unfolding st_post_def remove_thread_def mt_update_def st_modify_def mt_ready_def by auto
qed

definition mt_ok :: "u32 option \<Rightarrow> 'os session \<Rightarrow> bool" where
  "mt_ok e s \<longleftrightarrow> rs_mt s \<noteq> None \<and> table_inv (the_mt s) \<and> mt_expected_tid (the_mt s) = e
     \<and> (rs_finished s = None \<longrightarrow> bt_get (mt_threads (the_mt s)) (mt_leader (the_mt s)) \<noteq> None)"

lemma mt_ready_ok: "mt_ready e s \<Longrightarrow> mt_ok e s" "mt_ok e s \<Longrightarrow> rs_finished s = None \<Longrightarrow> mt_ready e s"
  by (simp_all add: mt_ready_def mt_ok_def)

lemma exit_tail_post:
  "st_post (\<lambda>s. mt_ready e s \<and> live_of (mt_tidmap (the_mt s)) tid = Some live) (exit_tail tid live q out)
     (\<lambda>x s. mt_ok e s \<and> (x = None \<longrightarrow> mt_ready e s))"
proof -
  have "Q" if run: "exit_tail tid live q out s = (Ok x, s')" and s: "mt_ready e s" "live_of (mt_tidmap (the_mt s)) tid = Some live"
    and Q: "mt_ok e s' \<and> (x = None \<longrightarrow> mt_ready e s') \<Longrightarrow> Q" for s x s' Q
  proof -
    let ?b = "live = mt_leader (the_mt s)"
    from run obtain s1 where r: "remove_thread tid live s = (Ok (), s1)"
      and s': "s' = (if ?b then s1\<lparr>rs_current_seq := Some q, rs_cursor := rs_cursor s1 + 1, rs_finished := Some out\<rparr>
          else s1\<lparr>rs_current_seq := Some q, rs_cursor := rs_cursor s1 + 1\<rparr>)" "x = (if ?b then Some out else None)"
      by (auto simp: exit_tail_def st_bind_Ok st_get_def st_return_def st_modify_def mt_advance_def split: if_splits)
    from st_postD [OF remove_thread_post [where b = ?b] _ r, of e] s
    have "rs_mt s1 \<noteq> None \<and> table_inv (the_mt s1) \<and> mt_expected_tid (the_mt s1) = e
        \<and> (\<not> ?b \<longrightarrow> bt_get (mt_threads (the_mt s1)) (mt_leader (the_mt s1)) \<noteq> None)" by simp
    then show Q using s' by (intro Q) (auto simp: mt_ok_def mt_ready_def the_mt_def)
  qed
  then show ?thesis unfolding st_post_def by blast
qed

definition bound_to :: "u32 \<Rightarrow> pid \<Rightarrow> 'os session \<Rightarrow> bool" where
  "bound_to tid live s \<longleftrightarrow> mt_ready (Some tid) s \<and> live_of (mt_tidmap (the_mt s)) tid = Some live"

lemma bound_to_table: "same_table s s' \<Longrightarrow> bound_to tid live s \<Longrightarrow> bound_to tid live s'"
  unfolding bound_to_def using same_table_ready same_table_live by metis

lemma bound_to_step: "ok_post (bound_to tid live) (step_thread os fuel live sig) (\<lambda>_. bound_to tid live)"
  unfolding ok_post_def using opt_keepsD [OF tab.opt_keeps_step_thread] bound_to_table by blast

lemma bound_to_signal: "st_post (bound_to tid live) (take_resume_signal live) (\<lambda>_. bound_to tid live)"
  unfolding st_post_def using keepsD [OF keeps_table_slots(1)] bound_to_table by blast

lemma exit_start_post:
  "st_post (mt_ready e) (st_bind (enforce_tid rcd) (\<lambda>tid. st_bind (live_for tid q) (\<lambda>live.
       st_bind (take_resume_signal live) (\<lambda>sig. st_return (tid, live, sig)))))
      (\<lambda>(tid, live, sig) s. scheduled e rcd tid \<and> bound_to tid live s)"
  by (rule enforced_post, fold bound_to_def, rule st_post_bind [OF bound_to_signal], rule st_post_return)
    (simp add: scheduled_def)

lemma on_thread_exit_post:
  "ok_post (mt_ready e) (on_thread_exit os fuel rcd)
     (\<lambda>x s. \<exists>t. scheduled e rcd t \<and> mt_ok (Some t) s \<and> (x = None \<longrightarrow> mt_ready (Some t) s))"
proof -
  let ?Q = "\<lambda>x s. \<exists>t. scheduled e rcd t \<and> mt_ok (Some t) s \<and> (x = None \<longrightarrow> mt_ready (Some t) s)"
  have tail: "st_post (bound_to tid live) (st_bind (case status of
         Exited p code \<Rightarrow> st_return (OutExited code)
       | Signaled p g \<Rightarrow> st_return (OutSignaled g)
       | other \<Rightarrow> st_fail (stop_diverged (rec_seq rcd) tid msg other)) (exit_tail tid live (rec_seq rcd))) ?Q"
    if "scheduled e rcd tid" for tid live status msg
  proof -
    have "st_post (bound_to tid live) (exit_tail tid live (rec_seq rcd) out) ?Q" for out
      unfolding st_post_def bound_to_def using st_postD [OF exit_tail_post] that by blast
    then show ?thesis by (cases status) (simp_all, simp_all add: st_post_def)
  qed
  show ?thesis
    unfolding on_thread_exit_def exit_tail_def [symmetric]
    by (rule ok_post_bind [OF ok_post_lift [OF exit_start_post]])
      (auto simp: split_paired_all intro!: ok_post_fact ok_post_bind [OF bound_to_step] ok_post_lift tail)
qed

subsection \<open>One record at a time\<close>

lemma mt_turn_post:
  assumes "mt_turn os fuel rcd s = Some (Ok x, s')" and "mt_ready e s"
  shows "\<exists>e'. (if concrete rcd then sched_check e rcd = Some e' else e' = e)
    \<and> mt_ok e' s' \<and> (x = None \<longrightarrow> mt_ready e' s')"
proof -
  have thread: "\<exists>e'. sched_check e rcd = Some e' \<and> mt_ok e' s' \<and> (x = None \<longrightarrow> mt_ready e' s')"
    if "\<exists>t. scheduled e rcd t \<and> mt_ok (Some t) s' \<and> (x = None \<longrightarrow> mt_ready (Some t) s')"
      and "ev_kind (rec_event rcd) \<noteq> SchedSwitch"
    using that scheduled_check by blast
  note posts = on_syscall_enter_post on_syscall_exit_post on_thread_spawn_post on_signal_post
  consider "ev_kind (rec_event rcd) = Checkpoint" | "ev_kind (rec_event rcd) = SchedSwitch"
    | "ev_kind (rec_event rcd) = ThreadExit"
    | "ev_kind (rec_event rcd) \<in> {SyscallEnter, SyscallExit, ThreadSpawn, Signal}"
    using assms(1) by (cases "ev_kind (rec_event rcd)") (auto simp: mt_turn_def opt_lift_def)
  then show ?thesis
  proof cases
    case 1
    then have "s' = s\<lparr>rs_cursor := rs_cursor s + 1\<rparr>"
      using assms(1) by (auto simp: mt_turn_def opt_lift_def st_defs)
    with 1 same_table_ready [OF same_table_eq assms(2), of s'] show ?thesis
      by (auto simp: concrete_def intro: mt_ready_ok)
  next
    case 2
    then have "on_sched_switch rcd s = (Ok (), s')"
      using assms(1) by (auto simp: mt_turn_def opt_lift_def st_bind_Ok st_return_def)
    from st_postD [OF on_sched_switch_post assms(2) this] 2 show ?thesis
      by (auto simp: concrete_def sched_check_def intro: mt_ready_ok)
  next
    case 3
    with assms(1) have "on_thread_exit os fuel rcd s = Some (Ok x, s')" by (simp add: mt_turn_def)
    from ok_postD [OF on_thread_exit_post assms(2) this] thread 3 show ?thesis by (simp add: concrete_def)
  next
    case 4
    then have "\<exists>t. scheduled e rcd t \<and> mt_ready (Some t) s'" and "x = None"
      using assms(1) posts [THEN ok_postD, OF assms(2)]
      by (auto simp: mt_turn_def opt_bind_Ok) (auto simp: opt_lift_def st_return_def)
    moreover from this(1) have "\<exists>t. scheduled e rcd t \<and> mt_ok (Some t) s' \<and> (x = None \<longrightarrow> mt_ready (Some t) s')"
      using mt_ready_ok by blast
    ultimately show ?thesis using thread 4 by (auto simp: concrete_def)
  qed
qed

subsection \<open>The invariant of multi-threaded sessions\<close>

definition mt_session_inv :: "'os session \<Rightarrow> bool" where
  "mt_session_inv s \<longleftrightarrow> (rs_multithreaded s \<longrightarrow> (if rs_mt s = None then consumed s = []
     else \<exists>e. sched_follows None (consumed s) = Some e \<and> mt_ok e s))"

lemma turn_consumed:
  assumes "rs_cursor s' = rs_cursor s + 1" and "rs_records s' = rs_records s" and "record_at s = Some rcd"
  shows "consumed s' = consumed s @ (if concrete rcd then [rcd] else [])"
  using assms by (auto simp: consumed_def record_at_def take_Suc_conv_app_nth split: if_splits)

lemma mt_loop_inv:
  "mt_loop os fuel n stop s = Some (Ok out, s') \<Longrightarrow> session_inv s \<Longrightarrow> rs_multithreaded s \<Longrightarrow>
   mt_ready e s \<Longrightarrow> sched_follows None (consumed s) = Some e \<Longrightarrow>
   \<exists>e'. sched_follows None (consumed s') = Some e' \<and> mt_ok e' s'"
proof (induction n arbitrary: s e)
  case (Suc n)
  show ?case
  proof (cases "reached stop s")
    case True
    with Suc.prems show ?thesis by (auto intro: mt_ready_ok)
  next
    case False
    with Suc.prems obtain rcd x s1 where r: "record_at s = Some rcd" and t: "mt_turn os fuel rcd s = Some (Ok x, s1)"
      and rest: "x = Some out \<and> s' = s1 \<or> x = None \<and> mt_loop os fuel n stop s1 = Some (Ok out, s')"
      by (auto split: prod.splits result.splits option.splits)
    from mt_turn_step [OF t r Suc.prems(2,3)] have step: "drive_step s s1" "rs_cursor s1 = rs_cursor s + 1" by auto
    then have s1: "session_inv s1" "rs_multithreaded s1" "consumed s1 = consumed s @ (if concrete rcd then [rcd] else [])"
      using Suc.prems(3) turn_consumed [OF step(2) _ r] by (auto simp: drive_step_def)
    from mt_turn_post [OF t Suc.prems(4)] obtain e1 where
      e1: "sched_follows None (consumed s1) = Some e1" "mt_ok e1 s1" "x = None \<longrightarrow> mt_ready e1 s1"
      using s1(3) Suc.prems(5) by (auto simp: sched_follows_append split: if_splits)
    with rest Suc.IH [OF _ s1(1,2)] show ?thesis by auto
  qed
qed simp

lemma ensure_state_ready:
  assumes "ensure_state os s = (Ok (), s1)" and "mt_session_inv s" and "rs_multithreaded s" and "rs_finished s = None"
  shows "\<exists>e. sched_follows None (consumed s) = Some e \<and> mt_ready e s1"
proof (cases "rs_mt s")
  case None
  with assms(1) obtain p where "rs_mt s1 = Some (mt_new p\<lparr>mt_threads := [(p, thread_rt_default)]\<rparr>)"
    by (auto simp: ensure_state_def st_bind_Ok st_modify_def)
  then have "mt_ready None s1"
    by (simp add: mt_ready_def the_mt_def table_inv_def mt_new_def tid_table.inv_new tid_table.lookup_new bt_wf_def)
      (simp add: bt_get_def)
  with None assms(2,3) show ?thesis by (auto simp: mt_session_inv_def)
next
  case (Some m)
  then have "s1 = s" using assms(1) by (simp add: ensure_state_def)
  with Some assms(2-4) show ?thesis by (auto simp: mt_session_inv_def intro: mt_ready_ok)
qed

lemma drive_mt_inv:
  assumes "drive os fuel stop s = Some (Ok out, s')" and "session_inv s" and "mt_session_inv s"
  shows "mt_session_inv s'"
proof (cases "rs_multithreaded s \<and> rs_finished s = None")
  case False
  then show ?thesis
    using assms drive_drives [OF assms(1,2)]
    by (cases "rs_finished s") (auto simp: drive_def drives_def mt_session_inv_def)
next
  case True
  with assms(1) obtain s1 where en: "ensure_state os s = (Ok (), s1)"
    and l: "mt_loop os fuel (Suc (length (rs_records s1) - rs_cursor s1)) stop s1 = Some (Ok out, s')"
    by (auto simp: drive_def mt_drive_def opt_bind_Ok simp del: mt_loop.simps) (auto simp: opt_lift_def simp del: mt_loop.simps)
  have same: "same_pos s s1" using keeps_ensure_state en by (rule keepsD)
  from ensure_state_ready [OF en assms(3)] True obtain e where "sched_follows None (consumed s1) = Some e" "mt_ready e s1"
    using same_pos_consumed(1) [OF same] by auto
  with mt_loop_inv [OF l] same_pos_inv [OF same assms(2)] True same
  have "\<exists>e'. sched_follows None (consumed s') = Some e' \<and> mt_ok e' s'" by (auto simp: same_pos_def)
  then show ?thesis by (auto simp: mt_session_inv_def mt_ok_def)
qed

definition same_mt :: "'os session \<Rightarrow> 'os session \<Rightarrow> bool" where
  "same_mt s s' \<longleftrightarrow> rs_mt s' = rs_mt s \<and> rs_finished s' = rs_finished s"

interpretation mts: replay_frame same_mt
  by unfold_locales (auto simp: same_mt_def)

lemma same_mt_inv: "same_mt s s' \<Longrightarrow> same_pos s s' \<Longrightarrow> mt_session_inv s \<Longrightarrow> mt_session_inv s'"
  by (auto simp: mt_session_inv_def same_pos_consumed same_mt_def mt_ok_def the_mt_def)
    (auto simp: same_pos_def)

lemma keeps_mt_for_each [keeps_intros]: "(\<And>x. keeps same_mt (f x)) \<Longrightarrow> keeps same_mt (for_each f xs)"
  by (induction xs) (auto intro: keeps_intros)

lemma keeps_mt_client [keeps_intros]:
  "keeps same_mt (watch os a l k)" "keeps same_mt take_watch_hits" "keeps same_mt (session_read_memory os a n)"
  unfolding watch_def session_read_memory_def take_watch_hits_def
  by (intro keeps_intros keeps_modify; simp add: same_mt_def)+

lemma keeps_mt_clear_watch [keeps_intros]: "keeps same_mt (clear_watch os)"
proof -
  have "(\<lambda>s. if b \<and> rs_finished s = None then for_each (hw_disarm os) (live_threads s) s else (Ok (), s))
      = (\<lambda>s. (if b \<and> rs_finished s = None then for_each (hw_disarm os) (live_threads s) else st_return ()) s)" for b
    by (auto simp: fun_eq_iff st_return_def)
  moreover have "keeps same_mt (\<lambda>s. (if b \<and> rs_finished s = None then for_each (hw_disarm os) (live_threads s) else st_return ()) s)" for b
    by (rule keeps_state, intro keeps_intros)
  ultimately have "keeps same_mt (\<lambda>s. if b \<and> rs_finished s = None then for_each (hw_disarm os) (live_threads s) s else (Ok (), s))" for b
    by simp
  then show ?thesis unfolding clear_watch_def
    by (intro keeps_intros keeps_modify) (simp_all add: same_mt_def)
qed

lemma rearm_mt: "rearm_watchpoint os s = (r, s') \<Longrightarrow> rs_mt s' = rs_mt s"
  by (auto simp: rearm_watchpoint_def st_bind_def st_modify_def hw_arm_def ros_do_def split: option.splits prod.splits)

lemma respawn_mt:
  assumes "respawn os s = (Ok (), s')" shows "rs_mt s' = None"
  using assms unfolding respawn_def st_bind_Ok by (auto simp: st_modify_def dest: rearm_mt)

lemma restart_mt_inv:
  assumes "restart_at os (fst (plan_start t s)) s = (Ok (), s')" and "session_inv s" and "mt_session_inv s"
  shows "mt_session_inv s'"
proof (cases "rs_multithreaded s")
  case True
  then have "rs_checkpoints s = []" using assms(2) by (simp add: session_inv_def)
  with assms(1) have r: "respawn os s = (Ok (), s')" by (simp add: restart_at_def plan_start_def)
  have "last_seq (consumed s') = None" using respawn_spec [OF r assms(2)] by (auto simp: session_inv_def pos_ok_def)
  with respawn_mt [OF r] show ?thesis by (simp add: mt_session_inv_def last_seq_def split: if_splits)
next
  case False
  with restart_at_spec(3) [OF assms(1,2)] show ?thesis by (simp add: mt_session_inv_def)
qed

lemma run_to_mt_inv:
  assumes "run_to os fuel t s = Some (Ok out, s')" and "session_inv s" and "mt_session_inv s"
  shows "mt_session_inv s'"
proof -
  from assms(1) obtain s1 where start: "restart_at os (fst (plan_start t s)) s = (Ok (), s1) \<or> s1 = s"
    and d: "drive os fuel (Some t) s1 = Some (Ok out, s')"
    by (auto simp: run_to_def opt_bind_def opt_lift_def split: prod.splits result.splits if_splits)
  from start assms(2,3) restart_mt_inv restart_at_spec(1) have "session_inv s1" "mt_session_inv s1" by blast+
  with d show ?thesis by (rule drive_mt_inv)
qed

lemma keeps_mt_inv:
  "keeps same_mt m \<Longrightarrow> keeps_pos m \<Longrightarrow> m s = (r, s') \<Longrightarrow> mt_session_inv s \<Longrightarrow> mt_session_inv s'"
  using keepsD same_mt_inv by metis

lemma session_step_mt_inv:
  assumes "session_step os s s'" and "session_inv s" and "mt_session_inv s"
  shows "mt_session_inv s'"
  using assms(1)
proof cases
  case (step_run_to fuel q out)
  with run_to_mt_inv assms(2,3) show ?thesis by blast
next
  case (step_restore_to q)
  with restart_mt_inv [of os q s s'] assms(2,3) show ?thesis by (simp add: restore_to_def)
next
  case (step_interval i)
  with same_mt_inv [of s s'] assms(3) show ?thesis
    by (simp add: set_checkpoint_interval_def same_pos_def same_mt_def)
next
  case (step_step_to fuel q out)
  with drive_mt_inv assms(2,3) show ?thesis unfolding step_to_def by blast
next
  case (step_run_to_end fuel out)
  with drive_mt_inv assms(2,3) show ?thesis unfolding run_to_end_def by blast
next
  case (step_watch a l k)
  with keeps_mt_inv [OF keeps_mt_client(1) keeps_watch] assms(3) show ?thesis by blast
next
  case step_clear_watch
  with keeps_mt_inv [OF keeps_mt_clear_watch keeps_clear_watch] assms(3) show ?thesis by blast
next
  case (step_take_hits hits)
  with keeps_mt_inv [OF keeps_mt_client(2) keeps_take_watch_hits] assms(3) show ?thesis by blast
next
  case (step_read_memory a n bs)
  with keeps_mt_inv [OF keeps_mt_client(3) keeps_session_read_memory] assms(3) show ?thesis by blast
qed

lemma session_of_mt_inv: "session_of crc os trace records s \<Longrightarrow> mt_session_inv s"
proof (induction rule: session_of.induct)
  case (launched o0 s o1)
  then obtain cmd recs pid where "s = session_new pid cmd recs o1" by (auto elim: launch_Ok)
  then show ?case by (simp add: mt_session_inv_def session_new_def consumed_def)
next
  case (stepped s s')
  then show ?case using session_of_inv session_step_mt_inv by blast
qed

text \<open>
  C14. Schedule enforcement: in every state a multi-threaded session reaches, the records replayed
  so far follow the recorded schedule (each is of the thread that the latest \<open>SchedSwitch\<close> put on
  the CPU), the recorded and live thread ids are in one-to-one correspondence, and every thread
  that has a live id is a followed tracee.
\<close>

theorem replay_follows_schedule:
  assumes "session_of crc os trace records s" and "rs_multithreaded s" and "rs_mt s = Some m"
  shows "sched_follows None (consumed s) = Some (mt_expected_tid m)
    \<and> inj_on (live_of (mt_tidmap m)) (dom (live_of (mt_tidmap m)))
    \<and> ran (live_of (mt_tidmap m)) \<subseteq> set (live_pids m)"
proof -
  from session_of_mt_inv [OF assms(1)] assms(2,3) have
    f: "sched_follows None (consumed s) = Some (mt_expected_tid m)" and t: "table_inv m"
    by (auto simp: mt_session_inv_def mt_ok_def the_mt_def)
  from t have "inj_on (live_of (mt_tidmap m)) (dom (live_of (mt_tidmap m)))"
    using tid_table.inv_inj by (fastforce simp: table_inv_def inj_on_def dom_def)
  moreover from t have "ran (live_of (mt_tidmap m)) \<subseteq> set (live_pids m)"
    by (auto simp: live_pids_def bt.set_keys table_inv_def ran_def)
  ultimately show ?thesis using f by simp
qed

text \<open>Witness: the leader, recorded as thread 100, is put on the CPU and enters a syscall.\<close>

definition demo_switch :: event where
  "demo_switch = event_new_with_tid SchedSwitch 0 100 (sched_switch_encode \<lparr>ss_tid = 100\<rparr>)"

definition demo_enter_100 :: event where
  "demo_enter_100 = event_new_with_tid SyscallEnter 0 100 (syscall_enter_encode \<lparr>se_nr = 39, se_args = [0, 0, 0, 0, 0, 0]\<rparr>)"

lemma demo_mt_fit: "event_fits demo_switch" "event_fits demo_enter_100"
  by (simp_all add: event_fits_def demo_switch_def demo_enter_100_def event_new_with_tid_def format_consts
      sched_switch_encode_def syscall_enter_encode_def)

lemma demo_switch_decode [simp]: "sched_switch_decode (sched_switch_encode \<lparr>ss_tid = 100\<rparr>) = Ok \<lparr>ss_tid = 100\<rparr>"
  by (simp add: sched_switch_codec.dec_enc)

lemmas demo_mt_simps = demo_replay_simps mt_drive_def ensure_state_def mt_turn_def on_sched_switch_def mt_update_def
  mt_advance_def on_syscall_enter_def enforce_tid_def live_for_def take_resume_signal_def thread_upd_def the_mt_def
  mt_new_def tid_map_new_def tid_map_is_empty_def tid_bind_def live_of_def mt_classify_def set_pending_def
  bt_get_def bt_update_def thread_rt_default_def demo_switch_def demo_enter_100_def

theorem replay_follows_schedule_witness:
  "\<exists>s m records. session_of demo_crc demo_replay_os (demo_trace [demo_switch, demo_enter_100]) records s
    \<and> rs_multithreaded s \<and> rs_mt s = Some m \<and> length (consumed s) = 2
    \<and> sched_follows None (consumed s) = Some (mt_expected_tid m)
    \<and> live_of (mt_tidmap m) 100 = Some 7 \<and> ran (live_of (mt_tidmap m)) \<subseteq> set (live_pids m)"
proof -
  let ?es = "[demo_switch, demo_enter_100]" and ?script = "[PtraceSyscall 7]"
  have l: "launch demo_crc demo_replay_os (demo_trace ?es) (Stopped 7 5 # ?script)
    = (Ok (session_new 7 demo_cmd (records_from 0 ?es) ?script), ?script)"
    by (rule demo_launch) (simp_all add: demo_mt_fit)
  have s: "session_of demo_crc demo_replay_os (demo_trace ?es) (records_from 0 ?es)
      (session_new 7 demo_cmd (records_from 0 ?es) ?script)"
    by (rule launched [OF l]) (simp add: session_new_def)
  have "\<exists>s' m. run_to demo_replay_os (Suc 0) 1 (session_new 7 demo_cmd (records_from 0 ?es) ?script)
      = Some (Ok Running, s') \<and> rs_multithreaded s' \<and> rs_mt s' = Some m \<and> live_of (mt_tidmap m) 100 = Some 7
      \<and> rs_cursor s' = 2 \<and> rs_records s' = records_from 0 ?es"
    by (simp add: demo_mt_simps)
  then obtain s' m where r: "run_to demo_replay_os (Suc 0) 1 (session_new 7 demo_cmd (records_from 0 ?es) ?script)
      = Some (Ok Running, s')" and s': "rs_multithreaded s'" "rs_mt s' = Some m" "live_of (mt_tidmap m) 100 = Some 7"
      "rs_cursor s' = 2" "rs_records s' = records_from 0 ?es" by blast
  have "session_of demo_crc demo_replay_os (demo_trace ?es) (records_from 0 ?es) s'"
    using s r step_run_to stepped by metis
  moreover have "length (consumed s') = 2"
    using s'(4,5) by (simp add: consumed_def concrete_def demo_switch_def demo_enter_100_def event_new_with_tid_def event_norm_def)
  ultimately show ?thesis using replay_follows_schedule [OF _ s'(1,2)] s' by blast
qed

end
