(* ===== verification/RecordReplay.thy ===== *)
theory RecordReplay
  imports ReplaySchedule
begin

text \<open>
  Recording and replaying together: which recordings of the single-core scheduler the
  schedule-enforcing driver can follow, that the driver always comes to an answer, that a
  diverging syscall is reported, and that an injected syscall leaves the tracee as the recording
  saw it.
\<close>

subsection \<open>Following a recording\<close>

text \<open>Whether every thread exit is recorded while its thread is on the CPU.\<close>

fun exits_on_cpu :: "u32 \<Rightarrow> event list \<Rightarrow> bool" where
  "exits_on_cpu cur [] = True"
| "exits_on_cpu cur (e # es) = (case ev_kind e of
       SchedSwitch \<Rightarrow> (case sched_switch_decode (ev_payload e) of
           Ok sw \<Rightarrow> exits_on_cpu (ss_tid sw) es | Err _ \<Rightarrow> True)
     | ThreadExit \<Rightarrow> ev_tid e = Some cur \<and> exits_on_cpu cur es
     | _ \<Rightarrow> exits_on_cpu cur es)"

lemma event_norm_simps [simp]:
  "ev_kind (event_norm e) = ev_kind e" "ev_payload (event_norm e) = ev_payload e"
  "ev_tid e = Some t \<Longrightarrow> ev_tid (event_norm e) = Some t"
  by (simp_all add: event_norm_def)

lemma mon_follows:
  assumes "mon_run (m, cur) es = Some mon" and "exits_on_cpu cur es" and "e = None \<or> e = Some cur"
  shows "sched_follows e (records_from seq es) \<noteq> None"
  using assms
proof (induction es arbitrary: m cur e seq)
  case (Cons ev es)
  from Cons.prems(1) obtain m' cur' where step: "mon_step (m, cur) ev = Some (m', cur')"
    and rest: "mon_run (m', cur') es = Some mon" by (auto split: option.splits)
  show ?case
  proof (cases "ev_kind ev = SchedSwitch")
    case True
    with step obtain sw where "sched_switch_decode (ev_payload ev) = Ok sw" "cur' = ss_tid sw"
      by (auto simp: mon_step_def split: result.splits if_splits)
    with True Cons.IH [OF rest] Cons.prems(2) show ?thesis by (simp add: sched_check_def)
  next
    case False
    with step Cons.prems(2) have "ev_tid ev = Some cur" "cur' = cur" "exits_on_cpu cur es"
      by (auto simp: mon_step_def split: event_kind.splits if_splits)
    with False Cons.IH [OF rest, of "Some cur"] Cons.prems(3) show ?thesis
      by (auto simp: sched_check_def split: event_kind.splits)
  qed
qed simp



text \<open>
  The events recorded when a thread is killed as a bystander (its sibling leaves through
  \<open>exit_group\<close>) while the leader is on the CPU.
\<close>

definition killed_sibling_events :: "event list" where
  "killed_sibling_events = (let regs = \<lparr>sr_nr = 39, sr_ret = 7, sr_args = [0, 0, 0, 0, 0, 0]\<rparr> in
     [event_new_with_tid ThreadSpawn 5 7 (thread_spawn_encode \<lparr>ts_parent_tid = 7, ts_child_tid = 8\<rparr>),
      enter_event 3 7 regs,
      event_new_with_tid SchedSwitch 3 8 (sched_switch_encode \<lparr>ss_tid = 8\<rparr>),
      enter_event 2 8 regs,
      event_new_with_tid SchedSwitch 2 7 (sched_switch_encode \<lparr>ss_tid = 7\<rparr>),
      event_new_with_tid ThreadExit 1 8 (thread_exit_encode \<lparr>te_tid = 8\<rparr>),
      event_new_with_tid ThreadExit 0 7 (thread_exit_encode \<lparr>te_tid = 7\<rparr>)])"

lemma killed_sibling_recorded:
  "\<exists>out s. run_loop demo_os demo_crc (Suc (Suc (Suc (Suc (Suc (Suc (Suc (Suc (Suc 0)))))))))
     (demo_sched [PtraceEvent 7 5 3, Stopped 8 19, PtraceSyscall 7, PtraceSyscall 8, Exited 8 0, Exited 7 0])
       = Some (Ok out, s)
   \<and> ro_exit_code out = Some 0 \<and> appended demo_crc demo_writer killed_sibling_events (sch_writer s)"
  by (simp add: demo_run_simps killed_sibling_events_def Let_def appended_def append_event_unbounded)

lemma killed_sibling_not_followed:
  "sched_follows None (take 6 (records_from 0 killed_sibling_events)) = None"
  by (simp add: killed_sibling_events_def Let_def sched_check_def enter_event_def event_new_with_tid_def
      event_norm_def sched_switch_codec.dec_enc)

lemma consumed_take:
  assumes "\<forall>r \<in> set (rs_records s). concrete r" and "n \<le> length (consumed s)"
  shows "take n (consumed s) = take n (rs_records s)"
proof -
  have "consumed s = take (rs_cursor s) (rs_records s)"
    unfolding consumed_def using assms(1) by (intro filter_True) (auto dest: in_set_takeD)
  with assms(2) show ?thesis by (simp add: min_def split: if_splits)
qed


subsection \<open>The driver always answers\<close>

lemma opt_bind_total: "m s \<noteq> None \<Longrightarrow> (\<And>x s'. f x s' \<noteq> None) \<Longrightarrow> opt_bind m f s \<noteq> None"
  by (auto simp: opt_bind_def split: option.splits prod.splits result.splits)

lemma opt_lift_total: "opt_lift m s \<noteq> None"
  by (simp add: opt_lift_def)

lemma mt_turn_total:
  assumes "\<And>live sig s. step_thread os fuel live sig s \<noteq> None"
  shows "mt_turn os fuel rcd s \<noteq> None"
proof -
  have "on_syscall_enter os fuel rcd s \<noteq> None" "on_syscall_exit os fuel rcd s \<noteq> None"
    "on_thread_spawn os fuel rcd s \<noteq> None" "on_thread_exit os fuel rcd s \<noteq> None" "on_signal os fuel rcd s \<noteq> None"
    unfolding on_syscall_enter_def on_syscall_exit_def on_thread_spawn_def on_thread_exit_def on_signal_def split_def
    by (rule opt_bind_total [OF opt_lift_total opt_bind_total [OF assms opt_lift_total]])+
  then show ?thesis
    unfolding mt_turn_def
    by (cases "ev_kind (rec_event rcd)") (auto simp: opt_lift_def opt_bind_def split: option.splits prod.splits result.splits)
qed

lemma mt_loop_total:
  assumes "\<And>live sig s. step_thread os fuel live sig s \<noteq> None"
  shows "length (rs_records s) - rs_cursor s < n \<Longrightarrow> mt_loop os fuel n stop s \<noteq> None"
proof (induction n arbitrary: s)
  case (Suc n)
  have rest: "mt_loop os fuel n stop s' \<noteq> None" if "mt_turn os fuel rcd s = Some (Ok None, s')" and "record_at s = Some rcd" for rcd s'
    using mt_turn_cursor [OF that(1)] that(2) Suc.prems
    by (intro Suc.IH) (auto simp: record_at_def split: if_splits)
  show ?case
  proof (cases "record_at s")
    case (Some rcd)
    obtain q s' where "mt_turn os fuel rcd s = Some (q, s')" using mt_turn_total [OF assms] by fastforce
    with rest [of rcd s'] Some show ?thesis by (auto split: result.splits option.splits)
  qed simp
qed simp

text \<open>
  C17. The schedule-enforcing driver terminates: its loop consumes a record per turn, so that it
  answers (success or error) on every state as soon as each single resumption of a thread does.
\<close>

theorem mt_drive_terminates:
  assumes "\<And>live sig s. step_thread os fuel live sig s \<noteq> None"
  shows "\<exists>r s'. mt_drive os fuel stop s = Some (r, s')"
proof -
  have "mt_drive os fuel stop s \<noteq> None"
    unfolding mt_drive_def by (rule opt_bind_total [OF opt_lift_total]) (rule mt_loop_total [OF assms], simp)
  then show ?thesis by (cases "mt_drive os fuel stop s") auto
qed

text \<open>Witness: a kernel whose threads stop at syscalls only.\<close>

theorem mt_drive_terminates_witness:
  "\<exists>r s'. mt_drive (demo_replay_os\<lparr>po_waitpid := \<lambda>f p. st_return (PtraceSyscall p)\<rparr>) (Suc 0) None
     (session_new 7 demo_cmd (records_from 0 [demo_switch, demo_enter_100]) []) = Some (r, s')"
  by (rule mt_drive_terminates) (simp add: demo_replay_os_def ros_do_def st_defs)

subsection \<open>Divergence\<close>

text \<open>
  C18. Divergence is reported, never hidden: when the tracee enters a syscall other than the
  recorded one, the single-threaded driver stops with the recorded and the found number, having
  neither suppressed the syscall nor advanced the reported position.
\<close>

theorem syscall_divergence_reported:
  assumes "po_getregs os (rs_pid s) (rs_os s) = (Ok r, o1)" and "rs_pending s = None"
    and "next_record s = (Ok rcd, s1)" and "ev_kind (rec_event rcd) = SyscallEnter"
    and "syscall_enter_decode (ev_payload (rec_event rcd)) = Ok enter" and "se_nr enter \<noteq> fr_orig_rax r"
  shows "\<exists>s'. on_syscall_stop os s = (Err (Diverged (rec_seq rcd) (se_nr enter) (fr_orig_rax r)), s')
    \<and> rs_current_seq s' = rs_current_seq s \<and> rs_os s' = o1"
proof -
  let ?s = "s\<lparr>rs_os := o1, rs_last_regs := Some (regs_of_full r), rs_pending := None\<rparr>"
  have "\<exists>s2. next_record ?s = (Ok rcd, s2) \<and> rs_os s2 = o1 \<and> rs_current_seq s2 = rs_current_seq s"
    using assms(3) by (auto simp: next_record_def skip_checkpoints_def record_at_def st_defs split: option.splits if_splits)
  then obtain s2 where s2: "next_record ?s = (Ok rcd, s2)" "rs_os s2 = o1" "rs_current_seq s2 = rs_current_seq s" by blast
  have "on_entry os (regs_of_full r) ?s = (Err (Diverged (rec_seq rcd) (se_nr enter) (fr_orig_rax r)), s2)"
    using assms(4-6) by (simp add: on_entry_def st_bind_def s2(1) st_lift_def st_fail_def) (simp add: regs_of_full_def st_fail_def)
  with assms(1,2) s2 show ?thesis
    by (simp add: on_syscall_stop_def regs_read_def ros_do_def st_defs)
qed

theorem syscall_divergence_reported_witness:
  "\<exists>s'. on_syscall_stop (demo_replay_os\<lparr>po_getregs := \<lambda>p. st_return (demo_full_regs\<lparr>fr_orig_rax := 1\<rparr>)\<rparr>)
     (session_new 7 demo_cmd (records_from 0 [demo_enter, demo_exit]) []) = (Err (Diverged 0 39 1), s')
   \<and> rs_current_seq s' = None"
proof -
  let ?os = "demo_replay_os\<lparr>po_getregs := \<lambda>p. st_return (demo_full_regs\<lparr>fr_orig_rax := 1\<rparr>)\<rparr>"
  let ?s = "session_new 7 demo_cmd (records_from 0 [demo_enter, demo_exit]) []"
  let ?rcd = "\<lparr>rec_seq = 0, rec_event = demo_enter\<rparr>"
  have "\<exists>s'. on_syscall_stop ?os ?s = (Err (Diverged (rec_seq ?rcd) (se_nr \<lparr>se_nr = 39, se_args = [0, 0, 0, 0, 0, 0]\<rparr>)
      (fr_orig_rax (demo_full_regs\<lparr>fr_orig_rax := 1\<rparr>))), s') \<and> rs_current_seq s' = rs_current_seq ?s \<and> rs_os s' = []"
    using syscall_divergence_reported [of ?os ?s "demo_full_regs\<lparr>fr_orig_rax := 1\<rparr>" "[]" ?rcd "?s\<lparr>rs_cursor := 1\<rparr>"
        "\<lparr>se_nr = 39, se_args = [0, 0, 0, 0, 0, 0]\<rparr>"]
    by (simp add: demo_replay_simps)
  then show ?thesis by (auto simp: session_new_def)
qed

subsection \<open>Injection\<close>

text \<open>
  What the engine relies on of the kernel: a complete \<open>process_vm_writev\<close> changes exactly the bytes
  it names, and the register calls read and write the register file of their thread.
\<close>

definition tracee_laws ::
  "'os replay_os \<Rightarrow> ('os \<Rightarrow> pid \<Rightarrow> u64 \<Rightarrow> u8) \<Rightarrow> ('os \<Rightarrow> pid \<Rightarrow> full_regs) \<Rightarrow> bool" where
  "tracee_laws os mem rg \<longleftrightarrow>
     (\<forall>p a d o0 o1. po_vm_writev os p a d o0 = (Ok (length d), o1) \<longrightarrow> rg o1 = rg o0
        \<and> (\<forall>i < length d. mem o1 p (a + of_nat i) = d ! i)
        \<and> (\<forall>x. (\<forall>i < length d. x \<noteq> a + of_nat i) \<longrightarrow> mem o1 p x = mem o0 p x))
   \<and> (\<forall>p o0 r o1. po_getregs os p o0 = (Ok r, o1) \<longrightarrow> r = rg o0 p \<and> rg o1 = rg o0 \<and> mem o1 = mem o0)
   \<and> (\<forall>p r o0 o1. po_setregs os p r o0 = (Ok (), o1) \<longrightarrow> rg o1 = (rg o0)(p := r) \<and> mem o1 = mem o0)"

lemma write_memory_effect:
  assumes "tracee_laws os mem rg" and "write_memory os p a d s = (Ok (), s')" and "d \<noteq> []"
  shows "\<forall>i < length d. mem (rs_os s') p (a + of_nat i) = d ! i"
    and "\<forall>x. (\<forall>i < length d. x \<noteq> a + of_nat i) \<longrightarrow> mem (rs_os s') p x = mem (rs_os s) p x"
    and "rg (rs_os s') = rg (rs_os s)"
proof -
  from assms(2,3) obtain o1 where "po_vm_writev os p a d (rs_os s) = (Ok (length d), o1)" "rs_os s' = o1"
    by (auto simp: write_memory_def st_bind_Ok ros_do_Ok if_fail_Ok st_return_def)
  with assms(1) show "\<forall>i < length d. mem (rs_os s') p (a + of_nat i) = d ! i"
    and "\<forall>x. (\<forall>i < length d. x \<noteq> a + of_nat i) \<longrightarrow> mem (rs_os s') p x = mem (rs_os s) p x"
    and "rg (rs_os s') = rg (rs_os s)"
    unfolding tracee_laws_def by blast+
qed

lemma set_return_effect:
  assumes "tracee_laws os mem rg" and "set_return os p ret s = (Ok (), s')"
  shows "rg (rs_os s') = (rg (rs_os s))(p := (rg (rs_os s) p)\<lparr>fr_rax := ret\<rparr>)" and "mem (rs_os s') = mem (rs_os s)"
proof -
  from assms(2) obtain r o1 o2 where g: "po_getregs os p (rs_os s) = (Ok r, o1)"
    and t: "po_setregs os p (r\<lparr>fr_rax := ret\<rparr>) o1 = (Ok (), o2)" and s': "rs_os s' = o2"
    by (auto simp: set_return_def st_bind_Ok ros_do_Ok)
  from g assms(1) have "r = rg (rs_os s) p" "rg o1 = rg (rs_os s)" "mem o1 = mem (rs_os s)"
    unfolding tracee_laws_def by blast+
  moreover from t assms(1) have "rg o2 = (rg o1)(p := r\<lparr>fr_rax := ret\<rparr>)" "mem o2 = mem o1"
    unfolding tracee_laws_def by blast+
  ultimately show "rg (rs_os s') = (rg (rs_os s))(p := (rg (rs_os s) p)\<lparr>fr_rax := ret\<rparr>)" "mem (rs_os s') = mem (rs_os s)"
    using s' by simp_all
qed

lemma region_len: "ret_small ret \<Longrightarrow> kernel_written_region abi nr args ret = Some (addr, len) \<Longrightarrow> 0 < len \<and> len < 2 ^ 32"
  by (auto simp: kernel_written_region_def ret_small_def TIMESPEC_LEN_def word_sless_alt unat_gt_0 split: if_splits)

text \<open>The record of a captured exit gives back what the recorder read.\<close>

lemma captured_exit:
  assumes "exit_event abi vm ts tid pid enter ret = Ok e" and "ret_small ret"
    and "kernel_written_region abi (sr_nr enter) (sr_args enter) ret = Some (addr, len)"
    and "vm pid addr len = Ok d" and "length d = len"
  shows "ev_kind e = SyscallExit"
    and "syscall_exit_decode (ev_payload e) = Ok \<lparr>sx_nr = sr_nr enter, sx_ret = ret, sx_data = d\<rparr>"
  using assms region_len [OF assms(2,3)]
  by (auto simp: exit_event_def read_tracee_memory_def event_new_with_tid_def syscall_exit_codec.dec_enc)

text \<open>
  C13. Injection reproduces the recording: when a syscall's exit was recorded with the region the
  kernel wrote, and replay meets that record with the same syscall pending, a successful exit
  handler leaves the replayed tracee with exactly the recorded bytes in that region, the recorded
  return value in its register, and all other memory and registers as they were.
\<close>

theorem injection_reproduces_recording:
  assumes "tracee_laws os mem rg" and "exit_event (po_abi os) vm ts tid pid enter ret = Ok e" and "ret_small ret"
    and "kernel_written_region (po_abi os) (sr_nr enter) (sr_args enter) ret = Some (addr, len)"
    and "vm pid addr len = Ok d" and "length d = len" and "SYS_getrandom (po_abi os) \<noteq> SYS_clock_gettime (po_abi os)"
    and "next_record s = (Ok \<lparr>rec_seq = q, rec_event = event_norm e\<rparr>, s1)"
    and "pe_inject_addr p = injection_addr (po_abi os) (sr_nr enter) (sr_args enter)"
    and "session_on_exit os p s = (Ok (), s')"
  shows "(\<forall>i < len. mem (rs_os s') (rs_pid s) (addr + of_nat i) = d ! i)
    \<and> (\<forall>x. (\<forall>i < len. x \<noteq> addr + of_nat i) \<longrightarrow> mem (rs_os s') (rs_pid s) x = mem (rs_os s) (rs_pid s) x)
    \<and> rg (rs_os s') = (rg (rs_os s))(rs_pid s := (rg (rs_os s) (rs_pid s))\<lparr>fr_rax := ret\<rparr>)"
proof -
  note cap = captured_exit [OF assms(2-6)]
  have inj: "pe_inject_addr p = Some addr" using assms(9) injection_covers_capture [OF assms(7,4)] by simp
  have d: "d \<noteq> []" using region_len [OF assms(3,4)] assms(6) by auto
  from assms(8) have s1: "rs_os s1 = rs_os s" "rs_pid s1 = rs_pid s"
    by (auto simp: next_record_def skip_checkpoints_def st_defs split: option.splits)
  from assms(10) obtain s2 where
      w: "write_memory os (rs_pid s) addr d (s1\<lparr>rs_current_seq := Some q\<rparr>) = (Ok (), s2)"
    and r: "set_return os (rs_pid s) ret s2 = (Ok (), s')"
    unfolding session_on_exit_def st_bind_Ok expect_exit_Ok st_lift_Ok st_modify_def prod.inject
    by (auto simp: assms(8) cap inj s1 st_bind_Ok st_get_def)
  note effects = write_memory_effect [OF assms(1) w d] set_return_effect [OF assms(1) r]
  with s1 assms(6) show ?thesis by simp
qed

text \<open>Witness: a kernel with memory and registers per thread, and a recorded \<open>read\<close> of two bytes.\<close>

type_synonym demo_machine = "(pid \<Rightarrow> u64 \<Rightarrow> u8) \<times> (pid \<Rightarrow> full_regs)"

definition demo_writev :: "pid \<Rightarrow> u64 \<Rightarrow> bytes \<Rightarrow> (demo_machine, nat, errno) st" where
  "demo_writev p a d = (\<lambda>(mem, rg). if length d \<le> 2 ^ 64
     then (Ok (length d), mem(p := \<lambda>x. if unat (x - a) < length d then d ! unat (x - a) else mem p x), rg)
     else (Err EFAULT, mem, rg))"

definition demo_machine_os :: "demo_machine replay_os" where
  "demo_machine_os = \<lparr>po_abi = os_abi demo_os, po_sys_clone = 56, po_spawn = \<lambda>c. st_return 7,
     po_waitpid = \<lambda>f p. st_return (PtraceSyscall p), po_setoptions = \<lambda>p opts. st_return (),
     po_syscall = \<lambda>p sig. st_return (), po_step = \<lambda>p. st_return (), po_kill = \<lambda>p. st_return (),
     po_getregs = \<lambda>p (mem, rg). (Ok (rg p), mem, rg), po_setregs = \<lambda>p r (mem, rg). (Ok (), mem, rg(p := r)),
     po_getevent = \<lambda>p. st_return 8, po_vm_readv = \<lambda>p a n. st_return (replicate n 0), po_vm_writev = demo_writev,
     po_pokeuser = \<lambda>p off v. st_return (), po_siginfo = \<lambda>p. st_return TRAP_HWBKPT,
     po_unwinder_new = \<lambda>p. st_return (), po_backtrace = \<lambda>p. st_return (ucast p, [])\<rparr>"

lemma addr_back: "a + of_nat (unat (x - a)) = (x :: u64)"
  by simp

lemma demo_tracee_laws: "tracee_laws demo_machine_os fst snd"
proof -
  have small: "unat (of_nat i :: u64) = i" if "i < n" "n \<le> 2 ^ 64" for i n :: nat
    using that by (simp add: unsigned_of_nat take_bit_nat_eq_self)
  show ?thesis
    unfolding tracee_laws_def demo_machine_os_def demo_writev_def
    using addr_back by (auto simp: small split: if_splits)
qed

definition demo_read_regs :: syscall_regs where
  "demo_read_regs = \<lparr>sr_nr = 0, sr_ret = 2, sr_args = [3, 0x1000, 2, 0, 0, 0]\<rparr>"

definition demo_read_exit :: event where
  "demo_read_exit = event_new_with_tid SyscallExit 0 7 (syscall_exit_encode \<lparr>sx_nr = 0, sx_ret = 2, sx_data = [65, 66]\<rparr>)"

lemma two_positive: "0 <s (2 :: i64)"
  by (simp add: word_sless_alt)

lemma demo_read_captured:
  "exit_event (po_abi demo_machine_os) (\<lambda>p a n. Ok [65, 66]) 0 7 7 demo_read_regs 2 = Ok demo_read_exit"
  by (simp add: exit_event_def demo_read_regs_def demo_read_exit_def demo_machine_os_def demo_os_def
      kernel_written_region_def read_tracee_memory_def two_positive)

theorem injection_reproduces_recording_witness:
  "\<exists>s'. session_on_exit demo_machine_os \<lparr>pe_inject_addr = Some 0x1000\<rparr>
       (session_new 7 demo_cmd [\<lparr>rec_seq = 4, rec_event = event_norm demo_read_exit\<rparr>] (\<lambda>p x. 0, \<lambda>p. demo_full_regs)) = (Ok (), s')
     \<and> (\<forall>i < 2. fst (rs_os s') 7 (0x1000 + of_nat i) = [65, 66] ! i)
     \<and> fr_rax (snd (rs_os s') 7) = 2"
proof -
  let ?s = "session_new 7 demo_cmd [\<lparr>rec_seq = 4, rec_event = event_norm demo_read_exit\<rparr>] ((\<lambda>p x. 0, \<lambda>p. demo_full_regs) :: demo_machine)"
  have dec: "syscall_exit_decode (syscall_exit_encode \<lparr>sx_nr = 0, sx_ret = 2, sx_data = [65, 66]\<rparr>)
      = Ok \<lparr>sx_nr = 0, sx_ret = 2, sx_data = [65, 66]\<rparr>" by (simp add: syscall_exit_codec.dec_enc)
  have "\<exists>s'. session_on_exit demo_machine_os \<lparr>pe_inject_addr = Some 0x1000\<rparr> ?s = (Ok (), s')"
    by (simp add: session_on_exit_def next_record_def skip_checkpoints_def record_at_def session_new_def st_defs
        demo_read_exit_def event_new_with_tid_def event_norm_def dec write_memory_def set_return_def ros_do_def
        demo_machine_os_def demo_writev_def)
  then obtain s' where run: "session_on_exit demo_machine_os \<lparr>pe_inject_addr = Some 0x1000\<rparr> ?s = (Ok (), s')" by blast
  have region: "kernel_written_region (po_abi demo_machine_os) (sr_nr demo_read_regs) (sr_args demo_read_regs) 2 = Some (0x1000, 2)"
    and small: "ret_small 2" and abi: "SYS_getrandom (po_abi demo_machine_os) \<noteq> SYS_clock_gettime (po_abi demo_machine_os)"
    by (simp_all add: kernel_written_region_def demo_machine_os_def demo_os_def demo_read_regs_def ret_small_def two_positive)
  have nxt: "next_record ?s = (Ok \<lparr>rec_seq = 4, rec_event = event_norm demo_read_exit\<rparr>, ?s\<lparr>rs_cursor := 1\<rparr>)"
    by (simp add: next_record_def skip_checkpoints_def record_at_def session_new_def st_defs demo_read_exit_def
        event_new_with_tid_def event_norm_def)
  have addr: "pe_inject_addr \<lparr>pe_inject_addr = Some 0x1000\<rparr>
      = injection_addr (po_abi demo_machine_os) (sr_nr demo_read_regs) (sr_args demo_read_regs)"
    by (simp add: injection_addr_def demo_machine_os_def demo_os_def demo_read_regs_def)
  from injection_reproduces_recording [OF demo_tracee_laws demo_read_captured small region _ _ abi nxt addr run, of "[65, 66]"]
  show ?thesis using run by (auto simp: session_new_def)
qed

end
