(* ===== verification/SemanticDecoder.thy ===== *)
theory SemanticDecoder
  imports TaskModel
begin

text \<open>
  The interface every language decoder implements (\<open>decoder_trait.rs\<close>) and its reference
  implementation over OS threads (\<open>native.rs\<close>).

  The interface is a locale: what a debugger relies on is that every task of the decoded tree can be
  inspected, that is, the other three operations never answer that they do not know it. Each decoder
  interprets it for the views it supports.
\<close>

locale semantic_decoder =
  fixes supported :: "process_view \<Rightarrow> bool"
    and decode_tasks :: "process_view \<Rightarrow> (task_tree, decoder_error) result"
    and logical_stack :: "process_view \<Rightarrow> task_id \<Rightarrow> (logical_frame list, decoder_error) result"
    and wake_cause_of :: "process_view \<Rightarrow> task_id \<Rightarrow> (wake_cause, decoder_error) result"
    and locals_at :: "process_view \<Rightarrow> task_id \<Rightarrow> logical_frame \<Rightarrow> (variable list, decoder_error) result"
  assumes known_stack: "\<lbrakk>supported v; decode_tasks v = Ok t; tree_node t i \<noteq> None\<rbrakk> \<Longrightarrow> logical_stack v i \<noteq> Err (UnknownTask i)"
    and known_wake: "\<lbrakk>supported v; decode_tasks v = Ok t; tree_node t i \<noteq> None\<rbrakk> \<Longrightarrow> \<exists>c. wake_cause_of v i = Ok c"
    and known_locals: "\<lbrakk>supported v; decode_tasks v = Ok t; tree_node t i \<noteq> None\<rbrakk> \<Longrightarrow> \<exists>vs. locals_at v i f = Ok vs"
    and decoded_tree: "\<lbrakk>supported v; decode_tasks v = Ok t\<rbrakk> \<Longrightarrow> \<exists>ns. try_from_nodes ns = Ok t"
begin

text \<open>What the task list of a debugger shows can be inspected.\<close>

lemma listed_known:
  assumes "supported v" and "decode_tasks v = Ok t" and "tree_len t \<le> fuel"
  shows "\<exists>out. flatten_preorder fuel t = Some out \<and> (\<forall>i \<in> set out. tree_node t i \<noteq> None
    \<and> logical_stack v i \<noteq> Err (UnknownTask i) \<and> is_ok (wake_cause_of v i) \<and> is_ok (locals_at v i f))"
proof -
  from decoded_tree [OF assms(1,2)] obtain ns where ns: "try_from_nodes ns = Ok t" by blast
  obtain out where out: "flatten_preorder fuel t = Some out" "set out = {i. \<exists>k. at_depth t k i}"
    using flatten_preorder_total [OF ns, of fuel] assms(3) try_from_nodes_Ok(6) [OF ns] by auto
  have "tree_node t i \<noteq> None" if "i \<in> set out" for i
    using that out(2) at_depth_known [OF built_tree_ok [OF ns]] by blast
  with out(1) known_stack [OF assms(1,2)] known_wake [OF assms(1,2)] known_locals [OF assms(1,2)] show ?thesis
    by (auto simp: is_ok_iff)
qed

end

subsection \<open>OS threads\<close>

definition thread_for :: "task_id \<Rightarrow> thread_id" where
  "thread_for task = task"

definition native_decode_tasks :: "process_view \<Rightarrow> (task_tree, decoder_error) result" where
  "native_decode_tasks view = try_from_nodes (map (\<lambda>thread.
     node_root thread (''thread '' @ show_dec (unat thread)) Thread Running) (pv_thread_ids view))"

definition native_logical_stack :: "process_view \<Rightarrow> task_id \<Rightarrow> (logical_frame list, decoder_error) result" where
  "native_logical_stack view task =
     map_ok (map from_physical) (map_err (\<lambda>_. UnknownTask task) (pv_physical_frames view (thread_for task)))"

definition native_wake_cause :: "process_view \<Rightarrow> task_id \<Rightarrow> (wake_cause, decoder_error) result" where
  "native_wake_cause view task =
     (if \<not> is_ok (pv_registers view (thread_for task)) then Err (UnknownTask task) else Ok WakeUnknown)"

definition native_locals_at :: "process_view \<Rightarrow> task_id \<Rightarrow> logical_frame \<Rightarrow> (variable list, decoder_error) result" where
  "native_locals_at view task frame =
     (if \<not> is_ok (pv_registers view (thread_for task)) then Err (UnknownTask task) else Ok [])"

text \<open>A view whose threads are all there to be read.\<close>

definition threads_readable :: "process_view \<Rightarrow> bool" where
  "threads_readable v \<longleftrightarrow> (\<forall>th \<in> set (pv_thread_ids v). is_ok (pv_registers v th) \<and> is_ok (pv_physical_frames v th))"

lemma native_tree_node:
  assumes "native_decode_tasks v = Ok t"
  shows "tree_node t i \<noteq> None \<longleftrightarrow> i \<in> set (pv_thread_ids v)"
  using try_from_nodes_Ok(3) [OF assms [unfolded native_decode_tasks_def]]
  by (auto simp: map_of_eq_None_iff node_root_def image_image comp_def)

interpretation native: semantic_decoder threads_readable native_decode_tasks native_logical_stack native_wake_cause
  native_locals_at
proof
  fix v t i f assume *: "threads_readable v" "native_decode_tasks v = Ok t" "tree_node t i \<noteq> None"
  then have "i \<in> set (pv_thread_ids v)" using native_tree_node by blast
  with *(1) have "is_ok (pv_registers v i)" "is_ok (pv_physical_frames v i)" by (auto simp: threads_readable_def)
  then show "native_logical_stack v i \<noteq> Err (UnknownTask i)" "\<exists>c. native_wake_cause v i = Ok c"
    "\<exists>vs. native_locals_at v i f = Ok vs"
    by (auto simp: native_logical_stack_def native_wake_cause_def native_locals_at_def thread_for_def is_ok_iff)
qed (auto simp: native_decode_tasks_def)

end
