(* ===== verification/AsyncState.thy ===== *)
theory AsyncState
  imports SemanticDecoder
begin

text \<open>
  Async Rust, the part that does not depend on how tasks are found
  (\<open>decoder/src/async_rust/{state,rustc_version,layout,roots,decode}.rs\<close>): the interpretation of Tokio's
  state word and of coroutine variants, the classification of leaf futures by type name, coroutine
  layouts, and the reading of a coroutine in target memory: its active variant, the chain of awaited
  futures, its state and its logical stack.

  Loops are bounded in the source by \<open>MAX_AWAIT_DEPTH\<close> and are recursions on that bound. The logical
  stack is shown to follow the chain that the leaf search follows.
\<close>

subsection \<open>Strings\<close>

definition starts_with :: "'a list \<Rightarrow> 'a list \<Rightarrow> bool" where
  "starts_with pat s \<longleftrightarrow> take (length pat) s = pat"

fun sub_pos :: "'a list \<Rightarrow> 'a list \<Rightarrow> nat option" where
  "sub_pos pat [] = (if pat = [] then Some 0 else None)"
| "sub_pos pat (c # cs) = (if starts_with pat (c # cs) then Some 0 else map_option Suc (sub_pos pat cs))"

fun sub_rpos :: "'a list \<Rightarrow> 'a list \<Rightarrow> nat option" where
  "sub_rpos pat [] = (if pat = [] then Some 0 else None)"
| "sub_rpos pat (c # cs) = (case sub_rpos pat cs of
       Some i \<Rightarrow> Some (Suc i)
     | None \<Rightarrow> if starts_with pat (c # cs) then Some 0 else None)"

text \<open>\<open>s.contains(pat)\<close>, \<open>s.split(pat).next()\<close>, \<open>s.rsplit(pat).next()\<close> and \<open>s.split(pat).nth(1)\<close>.\<close>

definition str_contains :: "string \<Rightarrow> string \<Rightarrow> bool" where
  "str_contains s pat \<longleftrightarrow> sub_pos pat s \<noteq> None"

definition before_first :: "string \<Rightarrow> string \<Rightarrow> string" where
  "before_first pat s = (case sub_pos pat s of Some i \<Rightarrow> take i s | None \<Rightarrow> s)"

definition after_last :: "string \<Rightarrow> string \<Rightarrow> string" where
  "after_last pat s = (case sub_rpos pat s of Some i \<Rightarrow> drop (i + length pat) s | None \<Rightarrow> s)"

definition second_part :: "string \<Rightarrow> string \<Rightarrow> string option" where
  "second_part pat s = map_option (\<lambda>i. before_first pat (drop (i + length pat) s)) (sub_pos pat s)"

fun split_on :: "char set \<Rightarrow> string \<Rightarrow> string list" where
  "split_on seps [] = [[]]"
| "split_on seps (c # cs) =
     (if c \<in> seps then [] # split_on seps cs
      else (case split_on seps cs of part # parts \<Rightarrow> (c # part) # parts | [] \<Rightarrow> [[c]]))"

definition is_digit_char :: "char \<Rightarrow> bool" where
  "is_digit_char c \<longleftrightarrow> 48 \<le> (of_char c :: nat) \<and> (of_char c :: nat) \<le> 57"

definition chars_number :: "string \<Rightarrow> nat" where
  "chars_number ds = digits_value 10 (map (\<lambda>c. of_char c - 48) ds)"

text \<open>\<open>str::parse::<u16>\<close>: an optional plus sign, then digits only, within range.\<close>

definition parse_u16 :: "string \<Rightarrow> u16 option" where
  "parse_u16 s =
     (let ds = (case s of c # cs \<Rightarrow> if c = CHR ''+'' then cs else s | [] \<Rightarrow> []) in
      if ds \<noteq> [] \<and> list_all is_digit_char ds \<and> chars_number ds < 2 ^ 16 then Some (of_nat (chars_number ds)) else None)"

subsection \<open>State words and leaf futures\<close>

definition RUNNING :: u64 where "RUNNING = 0x1"
definition COMPLETE :: u64 where "COMPLETE = 0x2"
definition NOTIFIED :: u64 where "NOTIFIED = 0x4"
definition JOIN_INTEREST :: u64 where "JOIN_INTEREST = 0x8"
definition JOIN_WAKER :: u64 where "JOIN_WAKER = 0x10"
definition CANCELLED :: u64 where "CANCELLED = 0x20"
definition REF_COUNT_SHIFT :: nat where "REF_COUNT_SHIFT = 6"

definition classify_header_state :: "u64 \<Rightarrow> task_state" where
  "classify_header_state state =
     (if state AND COMPLETE \<noteq> 0 \<or> state AND CANCELLED \<noteq> 0 then Completed
      else if state AND RUNNING \<noteq> 0 then Running
      else if state AND NOTIFIED \<noteq> 0 then Runnable
      else Blocked BlockUnknown)"

definition ref_count :: "u64 \<Rightarrow> u64" where
  "ref_count state = drop_bit REF_COUNT_SHIFT state"

datatype variant_kind = Unresumed | Returned | Panicked | Suspend u16

definition from_struct_name :: "string \<Rightarrow> variant_kind option" where
  "from_struct_name name =
     (if name = ''Unresumed'' then Some Unresumed
      else if name = ''Returned'' then Some Returned
      else if name = ''Panicked'' then Some Panicked
      else if starts_with ''Suspend'' name then map_option Suspend (parse_u16 (drop 7 name))
      else None)"

fun is_suspend :: "variant_kind \<Rightarrow> bool" where
  "is_suspend (Suspend n) = True"
| "is_suspend _ = False"

fun state_from_variant :: "variant_kind \<Rightarrow> task_state" where
  "state_from_variant Unresumed = Runnable"
| "state_from_variant Returned = Completed"
| "state_from_variant Panicked = Completed"
| "state_from_variant (Suspend n) = Blocked BlockUnknown"

record leaf_class =
  lc_suspend :: suspend_kind
  lc_wake :: wake_cause
  lc_block :: block_reason

definition contains_any :: "string \<Rightarrow> string list \<Rightarrow> bool" where
  "contains_any haystack needles \<longleftrightarrow> (\<exists>n \<in> set needles. str_contains haystack n)"

text \<open>The last path component without generic arguments.\<close>

definition short_type :: "string \<Rightarrow> string" where
  "short_type type_name = after_last ''::'' (before_first ''<'' type_name)"

definition classify_leaf :: "string \<Rightarrow> leaf_class" where
  "classify_leaf type_name =
     (if contains_any type_name [''time::sleep::Sleep'', ''time::Sleep'', ''Timeout'']
      then \<lparr>lc_suspend = SuspendTimer, lc_wake = WakeTimer, lc_block = BlockTimer\<rparr>
      else if contains_any type_name [''Recv'', ''channel'', ''mpsc'', ''oneshot'', ''broadcast'', ''watch'']
      then \<lparr>lc_suspend = ChannelRecv, lc_wake = WakeChannel (Some (short_type type_name)),
            lc_block = BlockChannel (Some (short_type type_name))\<rparr>
      else if contains_any type_name [''Mutex'', ''RwLock'', ''Semaphore'', ''Barrier'']
      then \<lparr>lc_suspend = SuspendLock, lc_wake = WakeManual, lc_block = BlockLock (Some (short_type type_name))\<rparr>
      else if contains_any type_name [''TcpStream'', ''net::'', ''io::'', ''AsyncFd'', ''poll_read'']
      then \<lparr>lc_suspend = SuspendIo,
            lc_wake = WakeIo \<lparr>iw_fd = None, iw_description = Some (short_type type_name)\<rparr>,
            lc_block = BlockIo (Some (short_type type_name))\<rparr>
      else \<lparr>lc_suspend = SuspendOther, lc_wake = WakeUnknown, lc_block = BlockUnknown\<rparr>)"

subsection \<open>Toolchain gate\<close>

record rustc_version =
  rv_major :: u16
  rv_minor :: u16
  rv_patch :: u16

definition rustc_version_new :: "u16 \<Rightarrow> u16 \<Rightarrow> u16 \<Rightarrow> rustc_version" where
  "rustc_version_new major minor patch = \<lparr>rv_major = major, rv_minor = minor, rv_patch = patch\<rparr>"

definition leading_number :: "string \<Rightarrow> u16 option" where
  "leading_number s =
     (let ds = takeWhile is_digit_char s in
      if ds = [] then None
      else if chars_number ds < 2 ^ 16 then Some (of_nat (chars_number ds)) else None)"

definition parse_triple :: "string \<Rightarrow> rustc_version option" where
  "parse_triple token =
     (case split_on {CHR ''.''} token of
        p # q # rest \<Rightarrow>
          Option.bind (leading_number p) (\<lambda>major.
          Option.bind (leading_number q) (\<lambda>minor.
          let patch = (case rest of r # _ \<Rightarrow> (case leading_number r of Some n \<Rightarrow> n | None \<Rightarrow> 0) | [] \<Rightarrow> 0)
          in Some (rustc_version_new major minor patch)))
      | _ \<Rightarrow> None)"

definition parse_producer :: "string \<Rightarrow> rustc_version option" where
  "parse_producer producer =
     Option.bind (second_part ''rustc version '' producer) (\<lambda>after.
     case split_on {CHR '' '', CHR ''('', CHR '')''} after of
       token # _ \<Rightarrow> parse_triple token
     | [] \<Rightarrow> None)"

definition is_supported :: "rustc_version \<Rightarrow> bool" where
  "is_supported v \<longleftrightarrow> rv_major v = 1 \<and> 63 \<le> rv_minor v \<and> rv_minor v \<le> 94"

subsection \<open>Coroutine layouts\<close>

record child_ref =
  cr_offset :: u64
  cr_type_name :: string

record variant_info =
  vi_kind :: variant_kind
  vi_await_location :: "source_location option"
  vi_awaitee :: "child_ref option"
  vi_children :: "child_ref list"

definition variant_terminal :: "variant_kind \<Rightarrow> variant_info" where
  "variant_terminal kind = \<lparr>vi_kind = kind, vi_await_location = None, vi_awaitee = None, vi_children = []\<rparr>"

record async_fn_layout =
  al_type_name :: string
  al_byte_size :: u64
  al_discr_offset :: u64
  al_discr_size :: u8
  al_variants :: "(u64, variant_info) btree_map"

definition variant_for :: "async_fn_layout \<Rightarrow> u64 \<Rightarrow> variant_info option" where
  "variant_for layout discr = bt_get (al_variants layout) discr"

definition async_short_name :: "string \<Rightarrow> string" where
  "async_short_name type_name = after_last ''::'' (before_first ''::{async_fn_env'' type_name)"

definition layout_short_name :: "async_fn_layout \<Rightarrow> string" where
  "layout_short_name layout = async_short_name (al_type_name layout)"

type_synonym async_layouts = "string \<Rightarrow> async_fn_layout option"

definition layouts_insert :: "async_fn_layout \<Rightarrow> async_layouts \<Rightarrow> async_layouts" where
  "layouts_insert layout layouts = layouts(al_type_name layout \<mapsto> layout)"

definition is_coroutine :: "async_layouts \<Rightarrow> string \<Rightarrow> bool" where
  "is_coroutine layouts type_name \<longleftrightarrow> layouts type_name \<noteq> None"

record task_root =
  ro_id :: u64
  ro_base :: u64
  ro_type_name :: string
  ro_header_addr :: "u64 option"

definition task_root_new :: "u64 \<Rightarrow> u64 \<Rightarrow> string \<Rightarrow> task_root" where
  "task_root_new i base type_name = \<lparr>ro_id = i, ro_base = base, ro_type_name = type_name, ro_header_addr = None\<rparr>"

definition with_header :: "task_root \<Rightarrow> u64 \<Rightarrow> task_root" where
  "with_header r header_addr = r\<lparr>ro_header_addr := Some header_addr\<rparr>"

subsection \<open>Reading a coroutine\<close>

definition MAX_AWAIT_DEPTH :: nat where "MAX_AWAIT_DEPTH = 64"

text \<open>A shift amount past the width is reduced modulo the width, as in a release build.\<close>

definition le_value :: "bytes \<Rightarrow> u64" where
  "le_value bs = fold (\<lambda>(i, b) v. v OR push_bit ((8 * i) mod 64) (ucast b)) (enumerate 0 bs) 0"

definition read_discriminant :: "process_view \<Rightarrow> u64 \<Rightarrow> async_fn_layout \<Rightarrow> (u64, decoder_error) result" where
  "read_discriminant view base layout =
     map_ok le_value (pv_read_memory view (base + al_discr_offset layout) (unat (al_discr_size layout)))"

definition active_variant :: "process_view \<Rightarrow> u64 \<Rightarrow> async_fn_layout \<Rightarrow> (u64 \<times> variant_info, decoder_error) result" where
  "active_variant view base layout =
     and_then (read_discriminant view base layout) (\<lambda>discr.
     and_then (ok_or (NotApplicable (''coroutine '' @ al_type_name layout @ '' has discriminant ''
                 @ show_dec (unat discr) @ '' matching no variant'')) (variant_for layout discr)) (\<lambda>variant.
     Ok (discr, variant)))"

fun leaf_type_n :: "nat \<Rightarrow> process_view \<Rightarrow> u64 \<Rightarrow> async_fn_layout \<Rightarrow> async_layouts \<Rightarrow> (string option, decoder_error) result" where
  "leaf_type_n 0 view base layout layouts = Ok None"
| "leaf_type_n (Suc n) view base layout layouts =
     and_then (active_variant view base layout) (\<lambda>(_, variant).
     case vi_awaitee variant of
       None \<Rightarrow> Ok None
     | Some awaitee \<Rightarrow>
         (case layouts (cr_type_name awaitee) of
            Some deeper \<Rightarrow> leaf_type_n n view (base + cr_offset awaitee) deeper layouts
          | None \<Rightarrow> Ok (Some (cr_type_name awaitee))))"

definition leaf_type :: "process_view \<Rightarrow> u64 \<Rightarrow> async_fn_layout \<Rightarrow> async_layouts \<Rightarrow> (string option, decoder_error) result" where
  "leaf_type = leaf_type_n MAX_AWAIT_DEPTH"

definition read_usize :: "bytes \<Rightarrow> u64" where
  "read_usize bs = le_value (take 8 bs)"

definition async_task_state ::
  "process_view \<Rightarrow> u64 \<Rightarrow> async_fn_layout \<Rightarrow> async_layouts \<Rightarrow> u64 option \<Rightarrow> (task_state, decoder_error) result" where
  "async_task_state view base layout layouts header_addr =
     and_then (active_variant view base layout) (\<lambda>(_, variant).
     and_then (case header_addr of
                 Some addr \<Rightarrow> map_ok (\<lambda>bs. classify_header_state (read_usize bs)) (pv_read_memory view addr 8)
               | None \<Rightarrow> Ok (state_from_variant (vi_kind variant))) (\<lambda>base_state.
     case base_state of
       Blocked _ \<Rightarrow> map_ok (\<lambda>leaf. Blocked (case leaf of Some l \<Rightarrow> lc_block (classify_leaf l) | None \<Rightarrow> BlockUnknown))
                     (leaf_type view base layout layouts)
     | other \<Rightarrow> Ok other))"

definition async_wake_cause :: "process_view \<Rightarrow> u64 \<Rightarrow> async_fn_layout \<Rightarrow> async_layouts \<Rightarrow> (wake_cause, decoder_error) result" where
  "async_wake_cause view base layout layouts =
     map_ok (\<lambda>leaf. case leaf of Some l \<Rightarrow> lc_wake (classify_leaf l) | None \<Rightarrow> WakeUnknown)
       (leaf_type view base layout layouts)"

definition fan_out_children :: "process_view \<Rightarrow> u64 \<Rightarrow> async_fn_layout \<Rightarrow> ((u64 \<times> string) list, decoder_error) result" where
  "fan_out_children view base layout =
     map_ok (\<lambda>(_, variant). map (\<lambda>c. (base + cr_offset c, cr_type_name c)) (vi_children variant))
       (active_variant view base layout)"

definition coroutine_frame :: "async_fn_layout \<Rightarrow> variant_info \<Rightarrow> suspend_point option \<Rightarrow> logical_frame" where
  "coroutine_frame layout variant suspend =
     \<lparr>lf_display_name = layout_short_name layout, lf_location = vi_await_location variant, lf_suspend = suspend,
      lf_origin = Synthesized\<rparr>"

definition leaf_suspend :: "leaf_class \<Rightarrow> child_ref \<Rightarrow> suspend_point" where
  "leaf_suspend leaf child = \<lparr>sp_kind = lc_suspend leaf, sp_detail = Some (short_type (cr_type_name child))\<rparr>"

definition leaf_frame :: "child_ref \<Rightarrow> leaf_class \<Rightarrow> logical_frame" where
  "leaf_frame child leaf =
     \<lparr>lf_display_name = short_type (cr_type_name child), lf_location = None, lf_suspend = Some (leaf_suspend leaf child),
      lf_origin = Synthesized\<rparr>"

fun async_stack_n :: "nat \<Rightarrow> process_view \<Rightarrow> u64 \<Rightarrow> string \<Rightarrow> async_layouts \<Rightarrow> (logical_frame list, decoder_error) result" where
  "async_stack_n 0 view base type_name layouts = Ok []"
| "async_stack_n (Suc n) view base type_name layouts =
     and_then (ok_or (NotApplicable (''no layout for coroutine type '' @ type_name)) (layouts type_name)) (\<lambda>layout.
     and_then (active_variant view base layout) (\<lambda>(_, variant).
     if \<not> is_suspend (vi_kind variant) then Ok [coroutine_frame layout variant None]
     else case vi_awaitee variant of
       None \<Rightarrow> Ok [coroutine_frame layout variant None]
     | Some child \<Rightarrow>
         if is_coroutine layouts (cr_type_name child)
         then map_ok ((#) (coroutine_frame layout variant
                       (Some \<lparr>sp_kind = SuspendOther, sp_detail = Some (short_type (cr_type_name child))\<rparr>)))
                (async_stack_n n view (base + cr_offset child) (cr_type_name child) layouts)
         else let leaf = classify_leaf (cr_type_name child) in
              Ok [coroutine_frame layout variant (Some (leaf_suspend leaf child)), leaf_frame child leaf]))"

definition async_logical_stack ::
  "process_view \<Rightarrow> u64 \<Rightarrow> string \<Rightarrow> async_layouts \<Rightarrow> (logical_frame list, decoder_error) result" where
  "async_logical_stack = async_stack_n MAX_AWAIT_DEPTH"

subsection \<open>Correctness\<close>

lemma le_value_eq: "length bs \<le> 8 \<Longrightarrow> le_value bs = from_le bs"
  using fold_le_bytes [of 0 bs "0 :: u64"] by (simp add: le_value_def)

text \<open>Layouts as the compiler emits them: only a suspended variant awaits.\<close>

definition awaits_when_suspended :: "async_layouts \<Rightarrow> bool" where
  "awaits_when_suspended layouts \<longleftrightarrow> (\<forall>name layout discr variant. layouts name = Some layout \<longrightarrow>
     variant_for layout discr = Some variant \<longrightarrow> vi_awaitee variant \<noteq> None \<longrightarrow> is_suspend (vi_kind variant))"

lemma active_variant_Ok: "active_variant view base layout = Ok (d, v) \<Longrightarrow> variant_for layout d = Some v"
  by (auto simp: active_variant_def and_then_eq_Ok)

lemma async_stack_leaf_n:
  assumes "awaits_when_suspended layouts" and "layouts type_name = Some layout"
    and "leaf_type_n n view base layout layouts = Ok (Some leaf)"
  shows "\<exists>frames child. async_stack_n n view base type_name layouts = Ok (frames @ [leaf_frame child (classify_leaf leaf)])
    \<and> cr_type_name child = leaf \<and> frames \<noteq> [] \<and> length frames \<le> n \<and> (\<forall>f \<in> set frames. lf_suspend f \<noteq> None)
    \<and> lf_suspend (last frames) = Some (leaf_suspend (classify_leaf leaf) child)"
  using assms(2,3)
proof (induction n arbitrary: base type_name layout)
  case (Suc n)
  from Suc.prems(2) obtain d variant awaitee where av: "active_variant view base layout = Ok (d, variant)"
    and aw: "vi_awaitee variant = Some awaitee"
    by (auto simp: and_then_eq_Ok split: option.splits)
  have susp: "is_suspend (vi_kind variant)"
    using assms(1) Suc.prems(1) active_variant_Ok [OF av] aw unfolding awaits_when_suspended_def by blast
  show ?case
  proof (cases "layouts (cr_type_name awaitee)")
    case None
    with Suc.prems(2) av aw have "leaf = cr_type_name awaitee" by simp
    with None Suc.prems(1) av aw susp show ?thesis
      by (auto simp: is_coroutine_def Let_def coroutine_frame_def
          intro!: exI [of _ "[coroutine_frame layout variant (Some (leaf_suspend (classify_leaf leaf) awaitee))]"] exI [of _ awaitee])
  next
    case (Some deeper)
    with Suc.prems(2) av aw have "leaf_type_n n view (base + cr_offset awaitee) deeper layouts = Ok (Some leaf)" by simp
    from Suc.IH [OF Some this] obtain frames child where ih: "async_stack_n n view (base + cr_offset awaitee) (cr_type_name awaitee) layouts
        = Ok (frames @ [leaf_frame child (classify_leaf leaf)])" "cr_type_name child = leaf" "frames \<noteq> []"
      "length frames \<le> n" "\<forall>f \<in> set frames. lf_suspend f \<noteq> None"
      "lf_suspend (last frames) = Some (leaf_suspend (classify_leaf leaf) child)" by blast
    let ?f = "coroutine_frame layout variant (Some \<lparr>sp_kind = SuspendOther, sp_detail = Some (short_type (cr_type_name awaitee))\<rparr>)"
    have "async_stack_n (Suc n) view base type_name layouts = Ok ((?f # frames) @ [leaf_frame child (classify_leaf leaf)])"
      using Suc.prems(1) av aw susp Some ih(1) by (simp add: is_coroutine_def)
    moreover have "lf_suspend ?f \<noteq> None" by (simp add: coroutine_frame_def)
    ultimately show ?thesis using ih(2-6) by (intro exI [of _ "?f # frames"] exI [of _ child]) auto
  qed
qed simp

text \<open>
  The logical stack of a parked task ends at what it waits for: when the chain of awaited futures
  leads to a leaf, the stack is one frame per coroutine of the chain, all suspended, and then a frame
  for exactly that leaf, and the innermost coroutine frame, the leaf frame, the wake cause and (for a
  blocked task) the block reason all come from the classification of that leaf.
\<close>

lemma async_stack_ends_at_leaf:
  assumes "awaits_when_suspended layouts" and "layouts type_name = Some layout"
    and "leaf_type view base layout layouts = Ok (Some leaf)"
  shows "\<exists>frames child. async_logical_stack view base type_name layouts = Ok (frames @ [leaf_frame child (classify_leaf leaf)])
    \<and> cr_type_name child = leaf \<and> frames \<noteq> [] \<and> (\<forall>f \<in> set frames. lf_suspend f \<noteq> None)
    \<and> lf_suspend (last frames) = Some (leaf_suspend (classify_leaf leaf) child)
    \<and> async_wake_cause view base layout layouts = Ok (lc_wake (classify_leaf leaf))
    \<and> (\<forall>header on. async_task_state view base layout layouts header = Ok (Blocked on) \<longrightarrow> on = lc_block (classify_leaf leaf))"
proof -
  have "\<forall>header on. async_task_state view base layout layouts header = Ok (Blocked on) \<longrightarrow> on = lc_block (classify_leaf leaf)"
    using assms(3) by (auto simp: async_task_state_def and_then_eq_Ok map_ok_eq_Ok split: task_state.splits)
      (metis task_state.exhaust)
  moreover have "async_wake_cause view base layout layouts = Ok (lc_wake (classify_leaf leaf))"
    using assms(3) by (simp add: async_wake_cause_def)
  ultimately show ?thesis
    using async_stack_leaf_n [OF assms(1,2) assms(3) [unfolded leaf_type_def]] unfolding async_logical_stack_def by blast
qed

text \<open>An example: \<open>outer\<close> awaits \<open>inner\<close>, which sleeps.\<close>

definition demo_async_layout :: "string \<Rightarrow> string \<Rightarrow> async_fn_layout" where
  "demo_async_layout name awaits = \<lparr>al_type_name = name, al_byte_size = 32, al_discr_offset = 0, al_discr_size = 1,
     al_variants = [(0, variant_terminal Unresumed),
       (3, \<lparr>vi_kind = Suspend 0, vi_await_location = None,
            vi_awaitee = Some \<lparr>cr_offset = 8, cr_type_name = awaits\<rparr>, vi_children = []\<rparr>)]\<rparr>"

definition demo_layouts :: async_layouts where
  "demo_layouts = [''m::outer::{async_fn_env#0}'' \<mapsto> demo_async_layout ''m::outer::{async_fn_env#0}'' ''m::inner::{async_fn_env#0}'',
     ''m::inner::{async_fn_env#0}'' \<mapsto> demo_async_layout ''m::inner::{async_fn_env#0}'' ''tokio::time::sleep::Sleep'']"

definition demo_async_view :: process_view where
  "demo_async_view = \<lparr>pv_thread_ids = [1], pv_registers = \<lambda>_. Ok \<lparr>tr_pc = 0, tr_sp = 0\<rparr>,
     pv_read_memory = \<lambda>a n. Ok (replicate n 3), pv_physical_frames = \<lambda>_. Ok [],
     pv_thread_pointer = \<lambda>_. Ok None, pv_executable_base = None\<rparr>"

lemma demo_active:
  "active_variant demo_async_view base (demo_async_layout name awaits) = Ok (3, \<lparr>vi_kind = Suspend 0, vi_await_location = None,
     vi_awaitee = Some \<lparr>cr_offset = 8, cr_type_name = awaits\<rparr>, vi_children = []\<rparr>)"
  by (simp add: active_variant_def read_discriminant_def demo_async_view_def demo_async_layout_def variant_for_def bt_get_def
      le_value_def)

lemma demo_leaf: "leaf_type demo_async_view 0x100 (demo_async_layout ''m::outer::{async_fn_env#0}'' ''m::inner::{async_fn_env#0}'')
    demo_layouts = Ok (Some ''tokio::time::sleep::Sleep'')"
proof -
  have depth: "MAX_AWAIT_DEPTH = Suc (Suc 62)" by (simp add: MAX_AWAIT_DEPTH_def)
  show ?thesis unfolding leaf_type_def depth leaf_type_n.simps demo_active by (simp add: demo_layouts_def demo_active)
qed

lemma demo_awaits: "awaits_when_suspended demo_layouts"
  by (auto simp: awaits_when_suspended_def demo_layouts_def demo_async_layout_def variant_for_def bt_get_def variant_terminal_def
      split: if_splits)

end
