(* ===== verification/TokioEnumerate.thy ===== *)
theory TokioEnumerate
  imports AsyncState
begin

text \<open>
  Finding the live tasks of a Tokio runtime
  (\<open>decoder/src/async_rust/enumerate/{layout,tls,walk,dwarf,mod,error}.rs\<close>): the version scan and the
  vendored offsets of Tokio's private structures, thread-local address arithmetic, the program headers,
  the extraction of a future's type from the name of its poll function, and the walk from every
  thread's context into the sharded list of tasks. What the object-file library reads (symbols, names
  and addresses of subprograms) is a parameter.

  The walk of a shard is total because the source bounds it. On a list that ends it is shown to return
  exactly the list's tasks, on one that does not to report an implausible runtime.
\<close>

subsection \<open>Errors\<close>

record tokio_version =
  tv_major :: u16
  tv_minor :: u16
  tv_patch :: u16

datatype enumerate_error =
    UnsupportedTokioVersion tokio_version | TokioVersionUnknown | ContextSymbolMissing | ThreadPointerUnavailable
  | LoadBaseUnavailable | Implausible string | NoRuntimeHandle | EnumNoDebugInfo | EnumParse string

fun decoder_error_display :: "decoder_error \<Rightarrow> string" where
  "decoder_error_display (NotApplicable reason) = ''decoder does not apply to this process: '' @ reason"
| "decoder_error_display (UnknownTask t) = ''unknown task TaskId('' @ show_dec (unat t) @ '')''"
| "decoder_error_display (UnknownThread t) = ''unknown thread ThreadId('' @ show_dec (unat t) @ '')''"
| "decoder_error_display (MemoryReadFailed addr len reason) =
     ''failed to read '' @ show_dec len @ '' byte(s) at address 0x'' @ show_hex (unat addr) @ '': '' @ reason"
| "decoder_error_display (InvalidTaskTree reason) = ''invalid task tree: '' @ reason"
| "decoder_error_display (RegisterReadFailed t reason) =
     ''failed to read registers for thread ThreadId('' @ show_dec (unat t) @ ''): '' @ reason"
| "decoder_error_display (PhysicalFramesFailed t reason) =
     ''failed to unwind physical frames for thread ThreadId('' @ show_dec (unat t) @ ''): '' @ reason"

definition tokio_version_display :: "tokio_version \<Rightarrow> string" where
  "tokio_version_display v = show_dec (unat (tv_major v)) @ ''.'' @ show_dec (unat (tv_minor v)) @ ''.'' @ show_dec (unat (tv_patch v))"

fun enumerate_error_display :: "enumerate_error \<Rightarrow> string" where
  "enumerate_error_display (UnsupportedTokioVersion v) =
     ''no vendored Tokio internal layout for tokio '' @ tokio_version_display v @ ''; live enumeration declines''"
| "enumerate_error_display TokioVersionUnknown = ''no embedded tokio version string; cannot key the internal layout''"
| "enumerate_error_display ContextSymbolMissing = ''tokio runtime CONTEXT thread-local symbol not found''"
| "enumerate_error_display ThreadPointerUnavailable = ''no thread pointer available; TLS-based enumeration is unavailable''"
| "enumerate_error_display LoadBaseUnavailable = ''executable load base unavailable; cannot map poll addresses to types''"
| "enumerate_error_display (Implausible s) = ''implausible runtime shape while walking OwnedTasks: '' @ s"
| "enumerate_error_display NoRuntimeHandle = ''no live Tokio runtime handle on any stopped thread''"
| "enumerate_error_display EnumNoDebugInfo = ''no DWARF debug info; cannot resolve task future types''"
| "enumerate_error_display (EnumParse s) = ''object/DWARF parse error: '' @ s"

subsection \<open>Version and layout\<close>

definition bytes_str :: "bytes \<Rightarrow> string" where
  "bytes_str bs = map (\<lambda>b. char_of (unat b)) bs"

definition tokio_parse_triple :: "bytes \<Rightarrow> tokio_version option" where
  "tokio_parse_triple bs =
     (let window = take (min 24 (length bs)) bs in
      if \<not> utf8_valid window then None
      else let token = bytes_str (takeWhile (\<lambda>b. 48 \<le> b \<and> b \<le> 57 \<or> b = 46) window) in
        case split_on {CHR ''.''} token of
          p # q # r # _ \<Rightarrow>
            Option.bind (parse_u16 p) (\<lambda>major.
            Option.bind (parse_u16 q) (\<lambda>minor.
            Option.bind (parse_u16 r) (\<lambda>patch.
            Some \<lparr>tv_major = major, tv_minor = minor, tv_patch = patch\<rparr>)))
        | _ \<Rightarrow> None)"

definition find_bytes :: "bytes \<Rightarrow> bytes \<Rightarrow> nat option" where
  "find_bytes haystack needle =
     (if needle = [] \<or> length haystack < length needle then None else sub_pos needle haystack)"

definition TOKIO_NEEDLE :: bytes where
  "TOKIO_NEEDLE = map of_char ''tokio-1.''"

lemma sub_pos_bound: "sub_pos pat s = Some i \<Longrightarrow> i + length pat \<le> length s"
proof (induction pat s arbitrary: i rule: sub_pos.induct)
  case (2 pat c cs)
  show ?case
  proof (cases "starts_with pat (c # cs)")
    case True
    then have "length (take (length pat) (c # cs)) = length pat" by (simp add: starts_with_def)
    with True "2.prems" show ?thesis by (simp add: min_def split: if_splits)
  next
    case False
    with 2 show ?thesis by auto
  qed
qed (simp split: if_splits)

lemma length_TOKIO_NEEDLE [simp]: "length TOKIO_NEEDLE = 8" by (simp add: TOKIO_NEEDLE_def)

lemma find_bytes_bound: "find_bytes hay TOKIO_NEEDLE = Some i \<Longrightarrow> i + 8 \<le> length hay"
  using sub_pos_bound [of TOKIO_NEEDLE hay i] by (auto simp: find_bytes_def split: if_splits)

function tokio_detect_from :: "bytes \<Rightarrow> nat \<Rightarrow> tokio_version option" where
  "tokio_detect_from bs from_pos =
     (case find_bytes (drop from_pos bs) TOKIO_NEEDLE of
        None \<Rightarrow> None
      | Some rel \<Rightarrow>
          (case tokio_parse_triple (drop (from_pos + rel + 6) bs) of
             Some v \<Rightarrow> Some v
           | None \<Rightarrow> tokio_detect_from bs (from_pos + (rel + 8))))"
  by auto
termination
  by (relation "measure (\<lambda>(bs, from_pos). length bs - from_pos)") (auto dest!: find_bytes_bound)

declare tokio_detect_from.simps [simp del]

definition tokio_detect_in_bytes :: "bytes \<Rightarrow> tokio_version option" where
  "tokio_detect_in_bytes bs = tokio_detect_from bs 0"

record tokio_runtime_layout =
  tl_context_current :: u64
  tl_handle_cell_value :: u64
  tl_arc_data :: u64
  tl_handle_shared :: u64
  tl_shared_owned :: u64
  tl_owned_list :: u64
  tl_sharded_lists :: u64
  tl_shard_stride :: u64
  tl_mutex_data :: u64
  tl_list_head :: u64
  tl_header_vtable :: u64
  tl_vtable_poll :: u64
  tl_vtable_trailer_offset :: u64
  tl_trailer_owned_next :: u64
  tl_future_offset :: u64

definition tokio_vendored :: "tokio_version \<Rightarrow> (tokio_runtime_layout, enumerate_error) result" where
  "tokio_vendored v =
     (if tv_major v = 1 \<and> tv_minor v = 44
      then Ok \<lparr>tl_context_current = 8, tl_handle_cell_value = 8, tl_arc_data = 16, tl_handle_shared = 0,
             tl_shared_owned = 104, tl_owned_list = 0, tl_sharded_lists = 0, tl_shard_stride = 24, tl_mutex_data = 8,
             tl_list_head = 0, tl_header_vtable = 16, tl_vtable_poll = 0, tl_vtable_trailer_offset = 56,
             tl_trailer_owned_next = 8, tl_future_offset = 56\<rparr>
      else Err (UnsupportedTokioVersion v))"

subsection \<open>Thread-local storage\<close>

definition AARCH64_TCB_SIZE :: u64 where "AARCH64_TCB_SIZE = 16"

datatype tls_variant = VariantI | VariantII

definition tls_host :: "bool \<Rightarrow> tls_variant" where
  "tls_host is_x86_64 = (if is_x86_64 then VariantII else VariantI)"

definition div_ceil :: "u64 \<Rightarrow> u64 \<Rightarrow> u64" where
  "div_ceil a b = (if a mod b > 0 then a div b + 1 else a div b)"

definition align_up :: "u64 \<Rightarrow> u64 \<Rightarrow> u64" where
  "align_up v align = (if align \<le> 1 then v else div_ceil v align * align)"

fun static_tls_address :: "tls_variant \<Rightarrow> u64 \<Rightarrow> u64 \<Rightarrow> u64 \<Rightarrow> u64 \<Rightarrow> u64" where
  "static_tls_address VariantI tp tls_offset tls_align block_size =
     tp + align_up AARCH64_TCB_SIZE (max tls_align 1) + tls_offset"
| "static_tls_address VariantII tp tls_offset tls_align block_size =
     tp - align_up block_size (max tls_align 1) + tls_offset"

subsection \<open>Facts about a binary\<close>

record binary_facts =
  bf_version :: tokio_version
  bf_context_tls_offset :: u64
  bf_tls_align :: u64
  bf_tls_block_size :: u64
  bf_min_load_vaddr :: u64
  bf_poll_types :: "(u64 \<times> string) list"

definition future_type_for :: "binary_facts \<Rightarrow> u64 \<Rightarrow> string option" where
  "future_type_for facts static_addr = map_option snd (List.find (\<lambda>(addr, _). addr = static_addr) (bf_poll_types facts))"

definition is_context_symbol :: "string \<Rightarrow> bool" where
  "is_context_symbol name \<longleftrightarrow> str_contains name ''7context7CONTEXT'' \<or> str_contains name ''context..CONTEXT''"

record tokio_object =
  to_symbols :: "(bool \<times> string option \<times> u64) list"
  to_has_debug_info :: bool
  to_subprograms :: "((string option \<times> (u64 option, string) result), string) result list"

definition context_tls_offset :: "tokio_object \<Rightarrow> (u64, enumerate_error) result" where
  "context_tls_offset f =
     ok_or ContextSymbolMissing (map_option (\<lambda>(_, _, addr). addr)
       (List.find (\<lambda>(is_tls, name, _). is_tls \<and> (case name of Some n \<Rightarrow> is_context_symbol n | None \<Rightarrow> False)) (to_symbols f)))"

definition elf_field :: "nat \<Rightarrow> bytes \<Rightarrow> nat \<Rightarrow> (u64, enumerate_error) result" where
  "elf_field n b at_pos =
     (if at_pos + n \<le> length b then Ok (from_le (take n (drop at_pos b))) else Err (EnumParse ''truncated ELF header''))"

text \<open>An offset sum wraps, as in a release build.\<close>

definition usize_add :: "nat \<Rightarrow> nat \<Rightarrow> nat" where
  "usize_add a b = (a + b) mod 2 ^ 64"

definition PT_LOAD :: u64 where "PT_LOAD = 1"
definition PT_TLS :: u64 where "PT_TLS = 7"

fun elf_headers :: "bytes \<Rightarrow> nat \<Rightarrow> nat \<Rightarrow> nat list \<Rightarrow> u64 \<times> u64 \<times> u64 \<Rightarrow> (u64 \<times> u64 \<times> u64, enumerate_error) result" where
  "elf_headers img phoff phentsize [] acc = Ok acc"
| "elf_headers img phoff phentsize (i # is) (tls_align, tls_memsz, min_load) =
     (let base = usize_add phoff (i * phentsize) in
      and_then (elf_field 4 img base) (\<lambda>p_type.
      and_then (elf_field 8 img (usize_add base 16)) (\<lambda>p_vaddr.
      and_then (elf_field 8 img (usize_add base 40)) (\<lambda>p_memsz.
      and_then (elf_field 8 img (usize_add base 48)) (\<lambda>p_align.
      elf_headers img phoff phentsize is
        (if p_type = PT_TLS then (max p_align 1, p_memsz, min_load)
         else if p_type = PT_LOAD then (tls_align, tls_memsz, min min_load p_vaddr)
         else (tls_align, tls_memsz, min_load)))))))"

definition elf_geometry :: "bytes \<Rightarrow> (u64 \<times> u64 \<times> u64, enumerate_error) result" where
  "elf_geometry img =
     (if length img < 64 \<or> take 4 img \<noteq> [0x7f, 0x45, 0x4c, 0x46] \<or> img ! 4 \<noteq> 2 \<or> img ! 5 \<noteq> 1
      then Err (EnumParse ''not a little-endian ELF64 image'')
      else and_then (elf_field 8 img 32) (\<lambda>phoff.
           and_then (elf_field 2 img 54) (\<lambda>phentsize.
           and_then (elf_field 2 img 56) (\<lambda>phnum.
           map_ok (\<lambda>(tls_align, tls_memsz, min_load). (tls_align, tls_memsz, if min_load = -1 then 0 else min_load))
             (elf_headers img (unat phoff) (unat phentsize) [0..<unat phnum] (8, 0, -1))))))"

definition trim :: "string \<Rightarrow> string" where
  "trim s = bytes_str (trim_both (map of_char s))"

fun generic_arg_end :: "nat \<Rightarrow> string \<Rightarrow> nat option" where
  "generic_arg_end depth [] = None"
| "generic_arg_end depth (c # cs) =
     (if c = CHR ''<'' then map_option Suc (generic_arg_end (depth + 1) cs)
      else if c = CHR ''>'' then (if depth = 0 then Some 0 else map_option Suc (generic_arg_end (depth - 1) cs))
      else if c = CHR '','' \<and> depth = 0 then Some 0
      else map_option Suc (generic_arg_end depth cs))"

definition first_generic_arg :: "string \<Rightarrow> string option" where
  "first_generic_arg name =
     (if starts_with ''poll<'' name
      then let inner = drop 5 name in map_option (\<lambda>i. trim (take i inner)) (generic_arg_end 0 inner)
      else None)"

fun collect_polls ::
  "((string option \<times> (u64 option, string) result), string) result list \<Rightarrow> ((u64 \<times> string) list, enumerate_error) result" where
  "collect_polls [] = Ok []"
| "collect_polls (entry # entries) =
     and_then (map_err EnumParse entry) (\<lambda>(name, low_pc).
     case (case name of Some n \<Rightarrow> (if starts_with ''poll<'' n then first_generic_arg n else None) | None \<Rightarrow> None) of
       None \<Rightarrow> collect_polls entries
     | Some future \<Rightarrow>
         and_then (map_err EnumParse low_pc) (\<lambda>addr.
         map_ok (\<lambda>out. case addr of Some a \<Rightarrow> (a, future) # out | None \<Rightarrow> out) (collect_polls entries)))"

definition facts_resolve :: "(bytes \<Rightarrow> (tokio_object, string) result) \<Rightarrow> bytes \<Rightarrow> (binary_facts, enumerate_error) result" where
  "facts_resolve parse_object img =
     and_then (ok_or TokioVersionUnknown (tokio_detect_in_bytes img)) (\<lambda>version.
     and_then (map_err EnumParse (parse_object img)) (\<lambda>f.
     and_then (context_tls_offset f) (\<lambda>off.
     if \<not> to_has_debug_info f then Err EnumNoDebugInfo
     else and_then (elf_geometry img) (\<lambda>(tls_align, tls_block_size, min_load_vaddr).
     and_then (collect_polls (to_subprograms f)) (\<lambda>poll_types.
     Ok \<lparr>bf_version = version, bf_context_tls_offset = off, bf_tls_align = tls_align, bf_tls_block_size = tls_block_size,
         bf_min_load_vaddr = min_load_vaddr, bf_poll_types = poll_types\<rparr>)))))"

subsection \<open>The walk\<close>

definition MAX_SHARDS :: u64 where "MAX_SHARDS = 0x10000"
definition ENUM_MAX_TASKS :: nat where "ENUM_MAX_TASKS = 2 ^ 20"

record raw_task =
  rt_header :: u64
  rt_poll_runtime :: u64
  rt_future :: u64

definition walk_read_u64 :: "process_view \<Rightarrow> u64 \<Rightarrow> (u64, decoder_error) result" where
  "walk_read_u64 view addr =
     and_then (pv_read_memory view addr 8) (\<lambda>bs.
     if length bs = 8 then Ok (from_le bs) else Err (MemoryReadFailed addr 8 ''short read''))"

definition walk_read :: "process_view \<Rightarrow> u64 \<Rightarrow> (u64, enumerate_error) result" where
  "walk_read view addr = map_err (\<lambda>e. Implausible (decoder_error_display e)) (walk_read_u64 view addr)"

definition owned_tasks_addr :: "process_view \<Rightarrow> u64 \<Rightarrow> tokio_runtime_layout \<Rightarrow> (u64 option, decoder_error) result" where
  "owned_tasks_addr view context_addr layout =
     (let handle_cell = context_addr + tl_context_current layout in
      map_ok (\<lambda>arc_ptr. if arc_ptr = 0 then None
         else Some (arc_ptr + tl_arc_data layout + tl_handle_shared layout + tl_shared_owned layout))
        (walk_read_u64 view (handle_cell + tl_handle_cell_value layout)))"

text \<open>What one node of a shard's list gives: the task and the following node.\<close>

definition read_node :: "process_view \<Rightarrow> u64 \<Rightarrow> tokio_runtime_layout \<Rightarrow> (raw_task \<times> u64, enumerate_error) result" where
  "read_node view node layout =
     and_then (walk_read view (node + tl_header_vtable layout)) (\<lambda>vtable.
     and_then (walk_read view (vtable + tl_vtable_poll layout)) (\<lambda>poll_runtime.
     and_then (walk_read view (vtable + tl_vtable_trailer_offset layout)) (\<lambda>trailer_offset.
     and_then (walk_read view (node + trailer_offset + tl_trailer_owned_next layout)) (\<lambda>following.
     Ok (\<lparr>rt_header = node, rt_poll_runtime = poll_runtime, rt_future = node + tl_future_offset layout\<rparr>, following)))))"

function walk_shard :: "process_view \<Rightarrow> u64 \<Rightarrow> tokio_runtime_layout \<Rightarrow> raw_task list \<Rightarrow> (raw_task list, enumerate_error) result" where
  "walk_shard view node layout out =
     (if node = 0 then Ok out
      else if ENUM_MAX_TASKS \<le> length out
      then Err (Implausible ''task count exceeded MAX_TASKS; list likely cyclic'')
      else case read_node view node layout of
        Err e \<Rightarrow> Err e
      | Ok (task, following) \<Rightarrow> walk_shard view following layout (out @ [task]))"
  by auto
termination
  by (relation "measure (\<lambda>(view, node, layout, out). ENUM_MAX_TASKS - length out)") auto

declare walk_shard.simps [simp del]

fun walk_shards :: "process_view \<Rightarrow> u64 \<Rightarrow> tokio_runtime_layout \<Rightarrow> nat list \<Rightarrow> raw_task list \<Rightarrow> (raw_task list, enumerate_error) result" where
  "walk_shards view data_ptr layout [] out = Ok out"
| "walk_shards view data_ptr layout (shard # shards) out =
     (let mutex = data_ptr + of_nat shard * tl_shard_stride layout in
      and_then (walk_read view (mutex + tl_mutex_data layout + tl_list_head layout)) (\<lambda>head.
      and_then (walk_shard view head layout out) (walk_shards view data_ptr layout shards)))"

definition collect_from_owned :: "process_view \<Rightarrow> u64 \<Rightarrow> tokio_runtime_layout \<Rightarrow> raw_task list \<Rightarrow> (raw_task list, enumerate_error) result" where
  "collect_from_owned view owned layout out =
     (let list_addr = owned + tl_owned_list layout in
      and_then (walk_read view (list_addr + tl_sharded_lists layout)) (\<lambda>data_ptr.
      and_then (walk_read view (list_addr + tl_sharded_lists layout + 8)) (\<lambda>len.
      if len > MAX_SHARDS then Err (Implausible (''ShardedList reports '' @ show_dec (unat len) @ '' shards''))
      else walk_shards view data_ptr layout [0..<unat len] out)))"

definition walk_context :: "process_view \<Rightarrow> u64 \<Rightarrow> tokio_runtime_layout \<Rightarrow> raw_task list \<Rightarrow> (bool \<times> raw_task list, enumerate_error) result" where
  "walk_context view context_addr layout out =
     and_then (map_err (\<lambda>e. Implausible (decoder_error_display e)) (owned_tasks_addr view context_addr layout)) (\<lambda>owned.
     case owned of
       Some o_addr \<Rightarrow> map_ok (Pair True) (collect_from_owned view o_addr layout out)
     | None \<Rightarrow> Ok (False, out))"

subsection \<open>The enumeration plan\<close>

record enumeration_plan =
  ep_facts :: binary_facts
  ep_layout :: tokio_runtime_layout

definition plan_resolve :: "(bytes \<Rightarrow> (tokio_object, string) result) \<Rightarrow> bytes \<Rightarrow> (enumeration_plan, enumerate_error) result" where
  "plan_resolve parse_object img =
     and_then (facts_resolve parse_object img) (\<lambda>facts.
     and_then (tokio_vendored (bf_version facts)) (\<lambda>layout.
     Ok \<lparr>ep_facts = facts, ep_layout = layout\<rparr>))"

definition plan_load_bias :: "enumeration_plan \<Rightarrow> process_view \<Rightarrow> (u64, enumerate_error) result" where
  "plan_load_bias plan view =
     map_ok (\<lambda>base. base - bf_min_load_vaddr (ep_facts plan)) (ok_or LoadBaseUnavailable (pv_executable_base view))"

fun collect_threads ::
  "tls_variant \<Rightarrow> enumeration_plan \<Rightarrow> process_view \<Rightarrow> thread_id list \<Rightarrow> (u64, raw_task) btree_map \<times> bool \<times> bool
     \<Rightarrow> ((u64, raw_task) btree_map \<times> bool \<times> bool, enumerate_error) result" where
  "collect_threads variant plan view [] acc = Ok acc"
| "collect_threads variant plan view (tid # tids) (by_header, any_tp, any_runtime) =
     and_then (map_err (\<lambda>e. Implausible (decoder_error_display e)) (pv_thread_pointer view tid)) (\<lambda>tp.
     case tp of
       None \<Rightarrow> collect_threads variant plan view tids (by_header, any_tp, any_runtime)
     | Some p \<Rightarrow>
         (let facts = ep_facts plan;
              ctxt = static_tls_address variant p (bf_context_tls_offset facts) (bf_tls_align facts) (bf_tls_block_size facts)
          in and_then (walk_context view ctxt (ep_layout plan) []) (\<lambda>(found, raw).
             if found
             then collect_threads variant plan view tids
                    (fold (\<lambda>task m. bt_insert (rt_header task) task m) raw by_header, True, True)
             else collect_threads variant plan view tids (by_header, True, any_runtime))))"

definition collect_raw :: "tls_variant \<Rightarrow> enumeration_plan \<Rightarrow> process_view \<Rightarrow> (raw_task list, enumerate_error) result" where
  "collect_raw variant plan view =
     and_then (collect_threads variant plan view (pv_thread_ids view) ([], False, False)) (\<lambda>(by_header, any_tp, any_runtime).
     if \<not> any_tp then Err ThreadPointerUnavailable
     else if \<not> any_runtime then Err NoRuntimeHandle
     else Ok (map snd by_header))"

fun roots_from_raw :: "enumeration_plan \<Rightarrow> raw_task list \<Rightarrow> u64 \<Rightarrow> async_layouts \<Rightarrow> u64 \<Rightarrow> task_root list" where
  "roots_from_raw plan [] load_bias layouts next_id = []"
| "roots_from_raw plan (task # tasks) load_bias layouts next_id =
     (case future_type_for (ep_facts plan) (rt_poll_runtime task - load_bias) of
        None \<Rightarrow> roots_from_raw plan tasks load_bias layouts next_id
      | Some type_name \<Rightarrow>
          if \<not> is_coroutine layouts type_name then roots_from_raw plan tasks load_bias layouts next_id
          else with_header (task_root_new next_id (rt_future task) type_name) (rt_header task)
                 # roots_from_raw plan tasks load_bias layouts (next_id + 1))"

definition enumerate_roots :: "tls_variant \<Rightarrow> enumeration_plan \<Rightarrow> process_view \<Rightarrow> async_layouts \<Rightarrow> (task_root list, enumerate_error) result" where
  "enumerate_roots variant plan view layouts =
     and_then (plan_load_bias plan view) (\<lambda>load_bias.
     map_ok (\<lambda>raw. roots_from_raw plan raw load_bias layouts 1) (collect_raw variant plan view))"

subsection \<open>Correctness\<close>

text \<open>The nodes from \<open>node\<close> to the end of a list, and a list that never ends.\<close>

fun shard_chain :: "process_view \<Rightarrow> tokio_runtime_layout \<Rightarrow> u64 \<Rightarrow> raw_task list \<Rightarrow> bool" where
  "shard_chain view layout node [] \<longleftrightarrow> node = 0"
| "shard_chain view layout node (t # ts) \<longleftrightarrow>
     node \<noteq> 0 \<and> (\<exists>following. read_node view node layout = Ok (t, following) \<and> shard_chain view layout following ts)"

definition endless :: "process_view \<Rightarrow> tokio_runtime_layout \<Rightarrow> (nat \<Rightarrow> u64) \<Rightarrow> bool" where
  "endless view layout nodes \<longleftrightarrow> (\<forall>k. nodes k \<noteq> 0 \<and> (\<exists>t. read_node view (nodes k) layout = Ok (t, nodes (Suc k))))"

lemma walk_shard_chain:
  "\<lbrakk>shard_chain view layout node ts; length out + length ts \<le> ENUM_MAX_TASKS\<rbrakk> \<Longrightarrow> walk_shard view node layout out = Ok (out @ ts)"
proof (induction ts arbitrary: node out)
  case Nil
  then show ?case by (simp add: walk_shard.simps)
next
  case (Cons t ts)
  then obtain following where f: "node \<noteq> 0" "read_node view node layout = Ok (t, following)" "shard_chain view layout following ts"
    by auto
  from Cons.IH [OF f(3), of "out @ [t]"] f(1,2) Cons.prems(2) show ?case by (simp add: walk_shard.simps [of view node])
qed

lemma walk_shard_endless:
  "endless view layout nodes \<Longrightarrow>
   walk_shard view (nodes k) layout out = Err (Implausible ''task count exceeded MAX_TASKS; list likely cyclic'')"
proof (induction "ENUM_MAX_TASKS - length out" arbitrary: k out rule: less_induct)
  case less
  from less.prems obtain t where t: "nodes k \<noteq> 0" "read_node view (nodes k) layout = Ok (t, nodes (Suc k))"
    unfolding endless_def by blast
  show ?case
  proof (cases "ENUM_MAX_TASKS \<le> length out")
    case True
    with t(1) show ?thesis by (subst walk_shard.simps) simp
  next
    case False
    then have "walk_shard view (nodes (Suc k)) layout (out @ [t]) = Err (Implausible ''task count exceeded MAX_TASKS; list likely cyclic'')"
      using less.prems by (intro less.hyps) auto
    with t False show ?thesis by (subst walk_shard.simps) simp
  qed
qed

text \<open>
  The walk of one shard is exact and ends: a list of up to a million tasks that ends is returned
  task by task in order, and one that never ends (a cycle) is reported as implausible instead of being
  walked forever.
\<close>

theorem shard_walk_exact:
  "(shard_chain view layout node ts \<and> length ts \<le> ENUM_MAX_TASKS \<longrightarrow> walk_shard view node layout [] = Ok ts)
   \<and> (endless view layout nodes \<longrightarrow>
        walk_shard view (nodes 0) layout [] = Err (Implausible ''task count exceeded MAX_TASKS; list likely cyclic''))"
  using walk_shard_chain [of view layout node ts "[]"] walk_shard_endless [of view layout nodes 0 "[]"] by simp

text \<open>Witness: one task, and a task whose link points to itself.\<close>

definition demo_tokio_layout :: tokio_runtime_layout where
  "demo_tokio_layout = \<lparr>tl_context_current = 8, tl_handle_cell_value = 8, tl_arc_data = 16, tl_handle_shared = 0,
     tl_shared_owned = 104, tl_owned_list = 0, tl_sharded_lists = 0, tl_shard_stride = 24, tl_mutex_data = 8,
     tl_list_head = 0, tl_header_vtable = 16, tl_vtable_poll = 0, tl_vtable_trailer_offset = 56,
     tl_trailer_owned_next = 8, tl_future_offset = 56\<rparr>"

lemma demo_tokio_vendored: "tokio_vendored \<lparr>tv_major = 1, tv_minor = 44, tv_patch = 2\<rparr> = Ok demo_tokio_layout"
  by (simp add: tokio_vendored_def demo_tokio_layout_def)

definition demo_shard_view :: "u64 \<Rightarrow> process_view" where
  "demo_shard_view link = \<lparr>pv_thread_ids = [1], pv_registers = \<lambda>_. Ok \<lparr>tr_pc = 0, tr_sp = 0\<rparr>,
     pv_read_memory = \<lambda>a n. Ok (take n (le_u64 (if a = 0x110 then 0x900 else if a = 0x900 then 0x40
        else if a = 0x938 then 0x80 else if a = 0x188 then link else 0))),
     pv_physical_frames = \<lambda>_. Ok [], pv_thread_pointer = \<lambda>_. Ok None, pv_executable_base = None\<rparr>"

definition demo_raw_task :: raw_task where
  "demo_raw_task = \<lparr>rt_header = 0x100, rt_poll_runtime = 0x40, rt_future = 0x138\<rparr>"

lemma demo_read_node: "read_node (demo_shard_view link) 0x100 demo_tokio_layout = Ok (demo_raw_task, link)"
  by (simp add: read_node_def walk_read_def walk_read_u64_def demo_shard_view_def demo_tokio_layout_def demo_raw_task_def)

theorem shard_walk_exact_witness:
  "walk_shard (demo_shard_view 0) 0x100 demo_tokio_layout [] = Ok [demo_raw_task]
   \<and> walk_shard (demo_shard_view 0x100) 0x100 demo_tokio_layout []
       = Err (Implausible ''task count exceeded MAX_TASKS; list likely cyclic'')"
proof -
  have chain: "shard_chain (demo_shard_view 0) demo_tokio_layout 0x100 [demo_raw_task]" "length [demo_raw_task] \<le> ENUM_MAX_TASKS"
    by (simp_all add: demo_read_node ENUM_MAX_TASKS_def)
  have loop: "endless (demo_shard_view 0x100) demo_tokio_layout (\<lambda>_. 0x100)" by (simp add: endless_def demo_read_node)
  from shard_walk_exact [of "demo_shard_view 0" demo_tokio_layout "0x100" "[demo_raw_task]"] chain
    shard_walk_exact [of "demo_shard_view 0x100" demo_tokio_layout _ _ "\<lambda>_. 0x100"] loop
  show ?thesis by blast
qed

text \<open>Type names as the compiler prints them: commas only inside brackets, every bracket closed.\<close>

fun bracketed :: "nat \<Rightarrow> string \<Rightarrow> nat option" where
  "bracketed depth [] = Some depth"
| "bracketed depth (c # cs) =
     (if c = CHR ''<'' then bracketed (depth + 1) cs
      else if c = CHR ''>'' then (if depth = 0 then None else bracketed (depth - 1) cs)
      else if c = CHR '','' \<and> depth = 0 then None
      else bracketed depth cs)"

lemma generic_arg_end_append:
  "bracketed depth t = Some d \<Longrightarrow> generic_arg_end depth (t @ rest) = map_option (\<lambda>i. i + length t) (generic_arg_end d rest)"
  by (induction depth t rule: bracketed.induct) (auto simp: option.map_comp comp_def option.map_ident split: if_splits)

text \<open>
  The future's type is recovered from the name of its poll function: for every type name whose
  brackets are closed and whose commas are inside brackets, the first argument of \<open>poll<T, S>\<close> (or of
  \<open>poll<T>\<close>) is \<open>T\<close> without the blanks around it, however deeply its own
  arguments are nested.
\<close>

theorem first_generic_arg_exact:
  assumes "bracketed 0 t = Some 0" and "c = CHR '','' \<or> c = CHR ''>''"
  shows "first_generic_arg (''poll<'' @ t @ c # rest) = Some (trim t)"
proof -
  have "generic_arg_end 0 (c # rest) = Some 0" using assms(2) by auto
  then have "generic_arg_end 0 (t @ c # rest) = Some (length t)" using generic_arg_end_append [OF assms(1), of "c # rest"] by simp
  then show ?thesis by (simp add: first_generic_arg_def starts_with_def)
qed

theorem first_generic_arg_exact_witness:
  "first_generic_arg (''poll<'' @ ''Pin<Box<F, G>>'' @ CHR '','' # '' S>'') = Some (trim ''Pin<Box<F, G>>'')"
  by (rule first_generic_arg_exact) simp_all

text \<open>
  Alignment of the thread-local block: for an alignment of at least 1, and as long as the sum of
  size and alignment fits in 64 bits, \<open>align_up\<close> returns the smallest multiple of the alignment that is
  not below the size.
\<close>

theorem align_up_least:
  assumes "1 \<le> align" and "unat v + unat align < 2 ^ 64"
  shows "unat align dvd unat (align_up v align) \<and> unat v \<le> unat (align_up v align)
    \<and> unat (align_up v align) < unat v + unat align"
proof -
  let ?v = "unat v" and ?a = "unat align"
  have pos: "0 < ?a" using assms(1) by (simp add: word_le_nat_alt)
  let ?q = "if ?v mod ?a > 0 then ?v div ?a + 1 else ?v div ?a"
  have dm: "?v = ?v div ?a * ?a + ?v mod ?a" by simp
  have modlt: "?v mod ?a < ?a" using pos by simp
  have "?v \<le> ?q * ?a \<and> ?q * ?a < ?v + ?a"
  proof (cases "?v mod ?a > 0")
    case True
    then have "?q * ?a = ?v div ?a * ?a + ?a" by simp
    with dm modlt True show ?thesis by linarith
  next
    case False
    then have "?q * ?a = ?v" using dm by simp
    with pos show ?thesis by linarith
  qed
  moreover have "unat (align_up v align) = ?q * ?a"
  proof (cases "align \<le> 1")
    case True
    with assms(1) have "align = 1" by simp
    then show ?thesis by (simp add: align_up_def)
  next
    case False
    have "?v div ?a + 1 \<le> ?v + 1" by simp
    then have small: "?v div ?a + 1 < 2 ^ 64" using assms(2) pos by linarith
    have "0 < v mod align \<longleftrightarrow> 0 < ?v mod ?a" by (simp add: word_less_nat_alt unat_mod)
    then have "unat (div_ceil v align) = ?q"
      using small by (auto simp: div_ceil_def unat_div unat_word_ariths)
    then show ?thesis
      using False calculation assms(2) by (simp add: align_up_def unat_word_ariths)
  qed
  ultimately show ?thesis by simp
qed

theorem align_up_least_witness: "unat (16 :: u64) dvd unat (align_up 20 16) \<and> unat (align_up 20 16) < 36"
  using align_up_least [of 16 20] by simp

end
