(* ===== verification/GoDecoder.thy ===== *)
theory GoDecoder
  imports GoLayout SemanticDecoder
begin

text \<open>
  The goroutine decoder (\<open>decoder/src/go/{status,gwalk,decoder}.rs\<close>): run states and wait reasons, the
  walk over \<open>runtime.allgs\<close> through an abstract view of the process, and the task tree made of it.
  Addresses are 64-bit words; their sums wrap, as in a release build.

  The tree is shown to be built on every walk (no goroutine list makes construction fail) with exactly
  one task per user goroutine, and the decoder to answer for every task it lists.
\<close>

subsection \<open>Run states and wait reasons\<close>

definition G_SCAN :: u32 where "G_SCAN = 0x1000"

datatype go_status =
    GIdle | GRunnable | GRunning | GSyscall | GWaiting | GDead | GCopystack | GPreempted | GOther u32

definition status_from_raw :: "u32 \<Rightarrow> go_status" where
  "status_from_raw raw =
     (let s = raw AND NOT G_SCAN in
      if s = 0 then GIdle else if s = 1 then GRunnable else if s = 2 then GRunning
      else if s = 3 then GSyscall else if s = 4 then GWaiting else if s = 6 then GDead
      else if s = 8 then GCopystack else if s = 9 then GPreempted else GOther s)"

definition is_dead :: "go_status \<Rightarrow> bool" where
  "is_dead s \<longleftrightarrow> s = GDead \<or> s = GOther 5 \<or> s = GOther 7"

definition WAIT_REASON_STRINGS :: "string list" where
  "WAIT_REASON_STRINGS =
    ['''', ''GC assist marking'', ''IO wait'', ''chan receive (nil chan)'', ''chan send (nil chan)'',
     ''dumping heap'', ''garbage collection'', ''garbage collection scan'', ''panicwait'', ''select'',
     ''select (no cases)'', ''GC assist wait'', ''GC sweep wait'', ''GC scavenge wait'', ''chan receive'',
     ''chan send'', ''finalizer wait'', ''force gc (idle)'', ''semacquire'', ''sleep'', ''sync.Cond.Wait'',
     ''sync.Mutex.Lock'', ''sync.RWMutex.RLock'', ''sync.RWMutex.Lock'', ''sync.WaitGroup.Wait'',
     ''trace reader (blocked)'', ''wait for GC cycle'', ''GC worker (idle)'', ''GC worker (active)'',
     ''preempted'', ''debug call'', ''GC mark termination'', ''stopping the world'', ''flushing proc caches'',
     ''trace goroutine status'', ''trace proc status'', ''page trace flush'', ''coroutine'',
     ''GC weak to strong wait'', ''synctest.Run'', ''synctest.Wait'', ''chan receive (synctest)'',
     ''chan send (synctest)'', ''select (synctest)'']"

definition wait_reason_str :: "u8 \<Rightarrow> string" where
  "wait_reason_str w = (if unat w < length WAIT_REASON_STRINGS then WAIT_REASON_STRINGS ! unat w else ''?'')"

definition go_block_reason :: "u8 \<Rightarrow> block_reason" where
  "go_block_reason w =
     (let detail = Some (wait_reason_str w) in
      if w \<in> {3, 4, 9, 10, 14, 15, 41, 42, 43} then BlockChannel detail
      else if w = 2 then BlockIo detail
      else if w \<in> {18, 20, 21, 22, 23} then BlockLock detail
      else if w = 24 then BlockJoin None
      else if w = 19 then BlockTimer
      else BlockUnknown)"

definition go_wake_cause :: "u8 \<Rightarrow> wake_cause" where
  "go_wake_cause w =
     (if w \<in> {3, 4, 9, 10, 14, 15, 41, 42, 43} then WakeChannel (Some (wait_reason_str w))
      else if w = 2 then WakeIo \<lparr>iw_fd = None, iw_description = Some (wait_reason_str w)\<rparr>
      else if w = 19 then WakeTimer
      else if w \<in> {18, 20, 21, 22, 23, 24} then WakeManual
      else WakeUnknown)"

fun to_task_state :: "go_status \<Rightarrow> u8 \<Rightarrow> task_state" where
  "to_task_state GRunning w = Running"
| "to_task_state GSyscall w = Running"
| "to_task_state GRunnable w = Runnable"
| "to_task_state GCopystack w = Runnable"
| "to_task_state GPreempted w = Runnable"
| "to_task_state GIdle w = Runnable"
| "to_task_state GWaiting w = Blocked (go_block_reason w)"
| "to_task_state GDead w = Completed"
| "to_task_state (GOther s) w = Completed"

subsection \<open>Walking the goroutines\<close>

definition MAX_GOROUTINES :: u64 where "MAX_GOROUTINES = 0x100000"

record goroutine_info =
  gi_goid :: i64
  gi_raw_status :: u32
  gi_status :: go_status
  gi_state :: task_state
  gi_wait_reason :: u8
  gi_wait_reason_str :: string
  gi_gopc :: u64
  gi_startpc :: u64
  gi_sched_pc :: u64
  gi_sched_sp :: u64
  gi_stack_lo :: u64
  gi_stack_hi :: u64
  gi_m_ptr :: u64
  gi_parent_goid :: "i64 option"
  gi_thread :: "thread_id option"

definition short_read :: "u64 \<Rightarrow> nat \<Rightarrow> decoder_error" where
  "short_read addr len = MemoryReadFailed addr len ''short read from process view''"

definition read_u64 :: "process_view \<Rightarrow> u64 \<Rightarrow> (u64, decoder_error) result" where
  "read_u64 view addr =
     and_then (pv_read_memory view addr 8) (\<lambda>bs. if length bs = 8 then Ok (from_le bs) else Err (short_read addr 8))"

definition read_u32 :: "process_view \<Rightarrow> u64 \<Rightarrow> (u32, decoder_error) result" where
  "read_u32 view addr =
     and_then (pv_read_memory view addr 4) (\<lambda>bs. if length bs = 4 then Ok (from_le bs) else Err (short_read addr 4))"

definition read_u8 :: "process_view \<Rightarrow> u64 \<Rightarrow> (u8, decoder_error) result" where
  "read_u8 view addr =
     and_then (pv_read_memory view addr 1) (\<lambda>bs. case bs of b # _ \<Rightarrow> Ok b | [] \<Rightarrow> Err (short_read addr 1))"

definition read_allgs_header :: "process_view \<Rightarrow> go_layout \<Rightarrow> (u64 \<times> u64, decoder_error) result" where
  "read_allgs_header view layout =
     (let allgs = gl_allgs_addr layout + gl_load_bias layout in
      and_then (read_u64 view allgs) (\<lambda>data.
      and_then (read_u64 view (allgs + slice_len_offset layout)) (\<lambda>len.
      if len > MAX_GOROUTINES
      then Err (NotApplicable (''runtime.allgs length '' @ show_dec (unat len) @ '' is implausible; layout likely misresolved''))
      else Ok (data, len))))"

definition resolve_thread :: "process_view \<Rightarrow> go_layout \<Rightarrow> go_status \<Rightarrow> u64 \<Rightarrow> (thread_id option, decoder_error) result" where
  "resolve_thread view layout status m_ptr =
     (case gl_m_procid layout of
        Some procid_off \<Rightarrow>
          if status \<in> {GRunning, GSyscall} \<and> m_ptr \<noteq> 0
          then map_ok Some (read_u64 view (m_ptr + procid_off)) else Ok None
      | None \<Rightarrow> Ok None)"

definition read_goroutine :: "process_view \<Rightarrow> go_layout \<Rightarrow> u64 \<Rightarrow> (goroutine_info, decoder_error) result" where
  "read_goroutine view layout gp =
     (let g = gl_g layout in
      and_then (read_u32 view (gp + go_atomicstatus g)) (\<lambda>raw_status.
      let status = status_from_raw raw_status in
      and_then (read_u8 view (gp + go_waitreason g)) (\<lambda>wait_reason.
      and_then (read_u64 view (gp + go_m g)) (\<lambda>m_ptr.
      and_then (case go_parent_goid g of
                  Some off \<Rightarrow> map_ok Some (read_u64 view (gp + off))
                | None \<Rightarrow> Ok None) (\<lambda>parent_goid.
      and_then (resolve_thread view layout status m_ptr) (\<lambda>thread.
      and_then (read_u64 view (gp + go_goid g)) (\<lambda>goid.
      and_then (read_u64 view (gp + go_gopc g)) (\<lambda>gopc.
      and_then (read_u64 view (gp + go_startpc g)) (\<lambda>startpc.
      and_then (read_u64 view (gp + go_sched_pc g)) (\<lambda>sched_pc.
      and_then (read_u64 view (gp + go_sched_sp g)) (\<lambda>sched_sp.
      and_then (read_u64 view (gp + go_stack_lo g)) (\<lambda>stack_lo.
      and_then (read_u64 view (gp + go_stack_hi g)) (\<lambda>stack_hi.
      Ok \<lparr>gi_goid = goid, gi_raw_status = raw_status, gi_status = status,
          gi_state = to_task_state status wait_reason, gi_wait_reason = wait_reason,
          gi_wait_reason_str = wait_reason_str wait_reason, gi_gopc = gopc, gi_startpc = startpc,
          gi_sched_pc = sched_pc, gi_sched_sp = sched_sp, gi_stack_lo = stack_lo, gi_stack_hi = stack_hi,
          gi_m_ptr = m_ptr, gi_parent_goid = parent_goid, gi_thread = thread\<rparr>)))))))))))))"

fun walk_slots :: "process_view \<Rightarrow> go_layout \<Rightarrow> u64 \<Rightarrow> nat list \<Rightarrow> (goroutine_info list, decoder_error) result" where
  "walk_slots view layout data [] = Ok []"
| "walk_slots view layout data (index # rest) =
     and_then (read_u64 view (data + of_nat index * ucast (gl_ptr_size layout))) (\<lambda>gp.
     if gp = 0 then walk_slots view layout data rest
     else and_then (read_goroutine view layout gp) (\<lambda>info.
          map_ok (\<lambda>out. if \<not> is_dead (gi_status info) then info # out else out) (walk_slots view layout data rest)))"

definition walk_goroutines :: "process_view \<Rightarrow> go_layout \<Rightarrow> (goroutine_info list, decoder_error) result" where
  "walk_goroutines view layout =
     and_then (read_allgs_header view layout) (\<lambda>(data, len). walk_slots view layout data [0..<unat len])"

subsection \<open>The decoder\<close>

definition go_find :: "go_layout \<Rightarrow> process_view \<Rightarrow> task_id \<Rightarrow> (goroutine_info, decoder_error) result" where
  "go_find layout view task =
     and_then (walk_goroutines view layout) (\<lambda>gs.
     ok_or (UnknownTask task) (List.find (\<lambda>g. gi_goid g = task) gs))"

definition show_i64 :: "i64 \<Rightarrow> string" where
  "show_i64 w = (if w <s 0 then ''-'' @ show_dec (nat (- sint w)) else show_dec (nat (sint w)))"

definition node_for :: "goroutine_info \<Rightarrow> i64 set \<Rightarrow> task_node" where
  "node_for g live =
     \<lparr>tn_id = gi_goid g, tn_name = ''goroutine '' @ show_i64 (gi_goid g), tn_kind = Goroutine, tn_state = gi_state g,
      tn_parent = (case gi_parent_goid g of
          Some p \<Rightarrow> if 0 <s p \<and> p \<noteq> gi_goid g \<and> p \<in> live then Some p else None
        | None \<Rightarrow> None)\<rparr>"

fun user_nodes :: "i64 set \<Rightarrow> goroutine_info list \<Rightarrow> i64 set \<Rightarrow> task_node list" where
  "user_nodes live [] seen = []"
| "user_nodes live (g # gs) seen =
     (if gi_goid g \<le>s 0 \<or> gi_goid g \<in> seen then user_nodes live gs seen
      else node_for g live # user_nodes live gs (insert (gi_goid g) seen))"

definition go_decode_tasks :: "go_layout \<Rightarrow> process_view \<Rightarrow> (task_tree, decoder_error) result" where
  "go_decode_tasks layout view =
     and_then (walk_goroutines view layout) (\<lambda>gs.
     let live = set (filter (\<lambda>goid. 0 <s goid) (map gi_goid gs)) in
     try_from_nodes (user_nodes live gs {}))"

fun go_suspend_kind :: "block_reason \<Rightarrow> suspend_kind" where
  "go_suspend_kind (BlockChannel d) = ChannelRecv"
| "go_suspend_kind (BlockLock d) = SuspendLock"
| "go_suspend_kind (BlockIo d) = SuspendIo"
| "go_suspend_kind (BlockJoin t) = SuspendJoin"
| "go_suspend_kind BlockTimer = SuspendTimer"
| "go_suspend_kind BlockUnknown = SuspendOther"

definition parked_start_frame :: "goroutine_info \<Rightarrow> logical_frame" where
  "parked_start_frame g =
     \<lparr>lf_display_name = ''goroutine '' @ show_i64 (gi_goid g) @ '' (parked @ 0x'' @ show_hex (unat (gi_sched_pc g)) @ '')'',
      lf_location = None,
      lf_suspend = (case gi_state g of
          Blocked on \<Rightarrow> Some \<lparr>sp_kind = go_suspend_kind on, sp_detail = Some (gi_wait_reason_str g)\<rparr>
        | _ \<Rightarrow> None),
      lf_origin = Synthesized\<rparr>"

definition running_stack :: "process_view \<Rightarrow> thread_id \<Rightarrow> (logical_frame list, decoder_error) result" where
  "running_stack view thread =
     map_ok (map from_physical) (map_err (\<lambda>_. UnknownThread thread) (pv_physical_frames view thread))"

definition go_logical_stack :: "go_layout \<Rightarrow> process_view \<Rightarrow> task_id \<Rightarrow> (logical_frame list, decoder_error) result" where
  "go_logical_stack layout view task =
     and_then (go_find layout view task) (\<lambda>g.
     case gi_thread g of Some thread \<Rightarrow> running_stack view thread | None \<Rightarrow> Ok [parked_start_frame g])"

definition go_wake_cause_of :: "go_layout \<Rightarrow> process_view \<Rightarrow> task_id \<Rightarrow> (wake_cause, decoder_error) result" where
  "go_wake_cause_of layout view task =
     map_ok (\<lambda>g. case gi_state g of Blocked _ \<Rightarrow> go_wake_cause (gi_wait_reason g) | _ \<Rightarrow> WakeUnknown)
       (go_find layout view task)"

definition go_locals_at :: "go_layout \<Rightarrow> process_view \<Rightarrow> task_id \<Rightarrow> logical_frame \<Rightarrow> (variable list, decoder_error) result" where
  "go_locals_at layout view task frame = map_ok (\<lambda>_. []) (go_find layout view task)"

subsection \<open>Correctness\<close>

text \<open>
  Run states and wait reasons are read consistently: a status does not depend on whether the
  collector is scanning the goroutine, and what a goroutine is blocked on and what will wake it always
  name the same kind of event with the same runtime phrase.
\<close>

theorem wait_reasons_consistent:
  "status_from_raw (raw OR G_SCAN) = status_from_raw raw
   \<and> (\<forall>d. go_wake_cause w = WakeChannel d \<longleftrightarrow> go_block_reason w = BlockChannel d)
   \<and> (\<forall>d. go_wake_cause w = WakeIo \<lparr>iw_fd = None, iw_description = d\<rparr> \<longleftrightarrow> go_block_reason w = BlockIo d)
   \<and> (go_wake_cause w = WakeTimer \<longleftrightarrow> go_block_reason w = BlockTimer)
   \<and> (go_wake_cause w = WakeManual \<longleftrightarrow> go_block_reason w = BlockJoin None \<or> (\<exists>d. go_block_reason w = BlockLock d))
   \<and> (go_wake_cause w = WakeUnknown \<longleftrightarrow> go_block_reason w = BlockUnknown)"
proof -
  have "(raw OR G_SCAN) AND NOT G_SCAN = raw AND NOT G_SCAN" by (rule bit_word_eqI) (auto simp: bit_simps)
  then have "status_from_raw (raw OR G_SCAN) = status_from_raw raw" by (simp add: status_from_raw_def)
  then show ?thesis by (simp add: go_wake_cause_def go_block_reason_def Let_def)
qed

lemma tn_id_node_for [simp]: "tn_id (node_for g live) = gi_goid g" by (simp add: node_for_def)

lemma user_nodes_ids: "tn_id ` set (user_nodes live gs seen) = {i \<in> gi_goid ` set gs. 0 <s i} - seen"
  by (induction live gs seen rule: user_nodes.induct) (auto simp: signed.not_le [symmetric])

lemma user_nodes_distinct: "distinct (map tn_id (user_nodes live gs seen))"
  by (induction live gs seen rule: user_nodes.induct) (auto simp: user_nodes_ids)

lemma user_nodes_first:
  "n \<in> set (user_nodes live gs seen) \<Longrightarrow>
   \<exists>g. List.find (\<lambda>g. gi_goid g = tn_id n) gs = Some g \<and> n = node_for g live \<and> 0 <s tn_id n \<and> tn_id n \<notin> seen"
proof (induction live gs seen rule: user_nodes.induct)
  case (2 live g gs seen)
  show ?case
  proof (cases "gi_goid g \<le>s 0 \<or> gi_goid g \<in> seen")
    case True
    with "2.prems" have "n \<in> set (user_nodes live gs seen)" by simp
    from "2.IH"(1) [OF True this] obtain h where h: "List.find (\<lambda>g. gi_goid g = tn_id n) gs = Some h" "n = node_for h live"
      "0 <s tn_id n" "tn_id n \<notin> seen" by blast
    from h(3,4) True have "gi_goid g \<noteq> tn_id n" by (metis signed.leD)
    with h show ?thesis by simp
  next
    case False
    show ?thesis
    proof (cases "n = node_for g live")
      case True
      with False show ?thesis by (simp add: signed.not_le)
    next
      case n: False
      with False "2.prems" have "n \<in> set (user_nodes live gs (insert (gi_goid g) seen))" by simp
      from "2.IH"(2) [OF False this] show ?thesis by auto
    qed
  qed
qed simp

definition live_goids :: "goroutine_info list \<Rightarrow> i64 set" where
  "live_goids gs = {i \<in> gi_goid ` set gs. 0 <s i}"

lemma user_nodes_parents: "parents_known (user_nodes (live_goids gs) gs {})"
proof -
  have "p \<in> live_goids gs" if "n \<in> set (user_nodes (live_goids gs) gs {})" "tn_parent n = Some p" for n p
    using user_nodes_first [OF that(1)] that(2) by (auto simp: node_for_def split: option.splits if_splits)
  moreover have "tn_id ` set (user_nodes (live_goids gs) gs {}) = live_goids gs" by (simp add: user_nodes_ids live_goids_def)
  ultimately show ?thesis unfolding parents_known_def by blast
qed

lemma go_decode_tasks_walk:
  assumes "walk_goroutines v layout = Ok gs"
  shows "\<exists>t. go_decode_tasks layout v = Ok t \<and> try_from_nodes (user_nodes (live_goids gs) gs {}) = Ok t
    \<and> (\<forall>i. tree_node t i = (if 0 <s i then map_option (\<lambda>g. node_for g (live_goids gs)) (List.find (\<lambda>g. gi_goid g = i) gs) else None))"
proof -
  let ?ns = "user_nodes (live_goids gs) gs {}"
  obtain t where t: "try_from_nodes ?ns = Ok t" using try_from_nodes_total [OF user_nodes_distinct user_nodes_parents] by blast
  moreover have "go_decode_tasks layout v = Ok t"
    using t by (simp add: go_decode_tasks_def assms live_goids_def Let_def)
  moreover have "tree_node t i = (if 0 <s i then map_option (\<lambda>g. node_for g (live_goids gs)) (List.find (\<lambda>g. gi_goid g = i) gs) else None)" for i
  proof (cases "tree_node t i")
    case None
    then have "i \<notin> tn_id ` set ?ns" by (auto simp: try_from_nodes_Ok(3) [OF t] map_of_eq_None_iff image_image)
    then have "0 <s i \<Longrightarrow> i \<notin> gi_goid ` set gs" by (simp add: user_nodes_ids)
    then show ?thesis using None by (auto simp: find_None_iff)
  next
    case (Some n)
    then have "n \<in> set ?ns" "tn_id n = i"
      using map_of_SomeD [of "node_pairs ?ns" i n] by (auto simp: try_from_nodes_Ok(3) [OF t])
    with user_nodes_first [of n "live_goids gs" gs "{}"] Some show ?thesis by auto
  qed
  ultimately show ?thesis by blast
qed


lemma go_find_known:
  assumes "go_decode_tasks layout v = Ok t" and "tree_node t i \<noteq> None"
  shows "\<exists>g. go_find layout v i = Ok g"
proof -
  from assms(1) obtain gs where gs: "walk_goroutines v layout = Ok gs"
    by (auto simp: go_decode_tasks_def and_then_eq_Ok)
  with go_decode_tasks_walk [OF gs] assms show ?thesis by (auto simp: go_find_def split: if_splits)
qed

interpretation go: semantic_decoder "\<lambda>_. True" "go_decode_tasks layout" "go_logical_stack layout"
  "go_wake_cause_of layout" "go_locals_at layout" for layout
proof
  fix v t i f assume *: "go_decode_tasks layout v = Ok t" "tree_node t i \<noteq> None"
  from go_find_known [OF *] obtain g where g: "go_find layout v i = Ok g" by blast
  show "go_logical_stack layout v i \<noteq> Err (UnknownTask i)"
    by (auto simp: go_logical_stack_def g running_stack_def split: option.splits)
  show "\<exists>c. go_wake_cause_of layout v i = Ok c" "\<exists>vs. go_locals_at layout v i f = Ok vs"
    by (simp_all add: go_wake_cause_of_def go_locals_at_def g)
next
  fix v t assume t: "go_decode_tasks layout v = Ok t"
  then obtain gs where "walk_goroutines v layout = Ok gs" by (auto simp: go_decode_tasks_def and_then_eq_Ok)
  from go_decode_tasks_walk [OF this] t show "\<exists>ns. try_from_nodes ns = Ok t" by auto
qed

text \<open>
  A process for the witnesses: two slots of \<open>runtime.allgs\<close>, goroutine 1 waiting on a channel and a
  system goroutine with id 0.
\<close>

definition demo_word :: "u64 \<Rightarrow> u64" where
  "demo_word a = (if a = 0x5000 then 0x6000 else if a = 0x5008 then 2 else if a = 0x6000 then 0x7000
     else if a = 0x6008 then 0x8000 else if a = 0x7098 then 4 else if a = 0x70b8 then 14 else if a = 0x70a0 then 1 else 0)"

definition demo_view :: process_view where
  "demo_view = \<lparr>pv_thread_ids = [9], pv_registers = \<lambda>_. Ok \<lparr>tr_pc = 0, tr_sp = 0\<rparr>,
     pv_read_memory = \<lambda>a n. Ok (take n (le_u64 (demo_word a))), pv_physical_frames = \<lambda>_. Ok [],
     pv_thread_pointer = \<lambda>_. Ok None, pv_executable_base = None\<rparr>"

definition demo_layout :: go_layout where
  "demo_layout = \<lparr>gl_ptr_size = 8, gl_allgs_addr = 0x5000, gl_allglen_addr = None, gl_load_bias = 0,
     gl_g = the (vendored (go_version_new 1 24 0)), gl_m_procid = Some 72, gl_source = Vendored (go_version_new 1 24 0)\<rparr>"

lemma le_u64_bytes:
  "le_u64 w = [ucast w, ucast (drop_bit 8 w), ucast (drop_bit 16 w), ucast (drop_bit 24 w)] @ to_le 4 (drop_bit 32 w)"
  by (simp add: le_u64_def numeral_eq_Suc)

lemma demo_reads:
  "read_u64 demo_view a = Ok (demo_word a)" "read_u32 demo_view a = Ok (from_le (take 4 (le_u64 (demo_word a))))"
  "read_u8 demo_view a = Ok (hd (le_u64 (demo_word a)))"
  by (simp_all add: read_u64_def read_u32_def read_u8_def demo_view_def)
     (simp add: le_u64_def numeral_eq_Suc)

lemma demo_go_walk:
  "\<exists>g h. walk_goroutines demo_view demo_layout = Ok [g, h] \<and> gi_goid g = 1 \<and> gi_state g = Blocked (BlockChannel (Some ''chan receive''))
     \<and> gi_goid h = 0 \<and> gi_state h = Runnable \<and> gi_parent_goid g = Some 0 \<and> gi_thread h = None"
proof -
  have status: "from_le (take 4 (le_u64 4)) = (4 :: u32)" "from_le (take 4 (le_u64 0)) = (0 :: u32)"
    by (simp_all add: le_u64_bytes)
  have wait: "hd (le_u64 14) = 14" "hd (le_u64 0) = 0" by (simp_all add: le_u64_bytes)
  have phrase: "wait_reason_str 14 = ''chan receive''" by (simp add: wait_reason_str_def WAIT_REASON_STRINGS_def)
  have "[0..<2] = [0, 1 :: nat]" by (simp add: upt_rec)
  then show ?thesis
    by (simp add: walk_goroutines_def read_allgs_header_def demo_reads demo_layout_def vendored_def go_version_new_def
        demo_word_def slice_len_offset_def MAX_GOROUTINES_def read_goroutine_def status wait status_from_raw_def G_SCAN_def
        resolve_thread_def Let_def is_dead_def go_block_reason_def phrase)
qed


text \<open>
  A task that is not in the tree is answered: asked for task 0, which no tree of this decoder
  holds, the decoder returns a stack for a system goroutine instead of \<open>UnknownTask\<close>.
\<close>

theorem go_unlisted_task_answered:
  "\<exists>t frames. go_decode_tasks demo_layout demo_view = Ok t \<and> tree_node t 0 = None
     \<and> go_logical_stack demo_layout demo_view 0 = Ok frames"
proof -
  from demo_go_walk obtain g h where gs: "walk_goroutines demo_view demo_layout = Ok [g, h]"
    and ids: "gi_goid g = 1" "gi_goid h = 0" "gi_thread h = None" by blast
  from go_decode_tasks_walk [OF gs] ids gs show ?thesis
    by (fastforce simp: go_logical_stack_def go_find_def)
qed

end
