(* ===== verification/TokioDecoder.thy ===== *)
theory TokioDecoder
  imports TokioEnumerate GoDecoder
begin

text \<open>
  The Tokio decoder (\<open>decoder/src/async_rust/decoder.rs\<close>) and the choice of a decoder for a binary
  (\<open>registry.rs\<close>): the roots to decode, their expansion into child tasks, and the task tree. The
  recursion of the expansion is on a fuel that stands for the depth of the call stack.

  A stack of \<open>MAX_TASKS\<close> calls is shown to be enough for every memory, and a successful expansion to give
  a tree in which every task is listed once, with reproducible ids.
\<close>

subsection \<open>Definitions\<close>

definition MAX_TASKS :: nat where "MAX_TASKS = 2 ^ 16"

record decoded_node =
  dn_id :: task_id
  dn_parent :: "task_id option"
  dn_base :: u64
  dn_type_name :: string
  dn_state :: task_state
  dn_wake :: wake_cause

record tokio_decoder =
  td_layouts :: async_layouts
  td_version :: rustc_version
  td_roots :: "task_root list"
  td_plan :: "enumeration_plan option"

definition tokio_from_parts :: "async_layouts \<Rightarrow> rustc_version \<Rightarrow> task_root list \<Rightarrow> tokio_decoder" where
  "tokio_from_parts layouts version roots = \<lparr>td_layouts = layouts, td_version = version, td_roots = roots, td_plan = None\<rparr>"

definition tokio_from_binary ::
  "(bytes \<Rightarrow> (async_layouts \<times> rustc_version, 'e) result) \<Rightarrow> (bytes \<Rightarrow> (tokio_object, string) result) \<Rightarrow> bytes
     \<Rightarrow> (tokio_decoder, 'e) result" where
  "tokio_from_binary load_layouts parse_object img =
     map_ok (\<lambda>(layouts, version). \<lparr>td_layouts = layouts, td_version = version, td_roots = [],
        td_plan = (case plan_resolve parse_object img of Ok p \<Rightarrow> Some p | Err _ \<Rightarrow> None)\<rparr>) (load_layouts img)"

definition can_enumerate :: "tokio_decoder \<Rightarrow> bool" where
  "can_enumerate d \<longleftrightarrow> td_plan d \<noteq> None"

definition with_roots :: "tokio_decoder \<Rightarrow> task_root list \<Rightarrow> tokio_decoder" where
  "with_roots d roots = d\<lparr>td_roots := roots\<rparr>"

definition effective_roots :: "tls_variant \<Rightarrow> tokio_decoder \<Rightarrow> process_view \<Rightarrow> (task_root list, decoder_error) result" where
  "effective_roots variant d view =
     (if td_roots d \<noteq> [] then Ok (td_roots d)
      else case td_plan d of
        None \<Rightarrow> Err (NotApplicable ''no task roots and no enumeration plan (target outside the verified tokio-enumeration window; see async_rust::enumerate)'')
      | Some plan \<Rightarrow>
          and_then (map_err (\<lambda>e. NotApplicable (''live tokio task enumeration declined: '' @ enumerate_error_display e))
                     (enumerate_roots variant plan view (td_layouts d))) (\<lambda>roots.
          if roots = [] then Err (NotApplicable ''tokio runtime present but no decodable spawned tasks were found'')
          else Ok roots))"

text \<open>
  \<open>expand\<close> pushes one task and then expands its children in order, with the id counter and the output
  list as state; \<open>None\<close> is a call stack deeper than the fuel.
\<close>

type_synonym expansion = "(u64 \<times> decoded_node list, decoder_error) result option"

fun expand :: "nat \<Rightarrow> async_layouts \<Rightarrow> process_view \<Rightarrow> u64 \<Rightarrow> string \<Rightarrow> u64 option \<Rightarrow> task_id \<Rightarrow> task_id option
      \<Rightarrow> u64 \<Rightarrow> decoded_node list \<Rightarrow> expansion"
  and expand_children :: "nat \<Rightarrow> async_layouts \<Rightarrow> process_view \<Rightarrow> (u64 \<times> string) list \<Rightarrow> task_id
      \<Rightarrow> u64 \<Rightarrow> decoded_node list \<Rightarrow> expansion" where
  "expand 0 layouts view base type_name header_addr i parent next_id out = None"
| "expand (Suc fuel) layouts view base type_name header_addr i parent next_id out =
     (if MAX_TASKS \<le> length out
      then Some (Err (NotApplicable ''task fan-out exceeded MAX_TASKS; layout likely misresolved''))
      else case ok_or (NotApplicable (''no coroutine layout for task type '' @ type_name)) (layouts type_name) of
        Err e \<Rightarrow> Some (Err e)
      | Ok layout \<Rightarrow>
        (case and_then (async_task_state view base layout layouts header_addr) (\<lambda>state.
              and_then (async_wake_cause view base layout layouts) (\<lambda>wake.
              map_ok (\<lambda>children. (state, wake, children)) (fan_out_children view base layout))) of
           Err e \<Rightarrow> Some (Err e)
         | Ok (state, wake, children) \<Rightarrow>
             expand_children fuel layouts view children i next_id
               (out @ [\<lparr>dn_id = i, dn_parent = parent, dn_base = base, dn_type_name = type_name, dn_state = state, dn_wake = wake\<rparr>])))"
| "expand_children fuel layouts view [] i next_id out = Some (Ok (next_id, out))"
| "expand_children fuel layouts view ((child_base, child_type) # children) i next_id out =
     (case expand fuel layouts view child_base child_type None next_id (Some i) (next_id + 1) out of
        Some (Ok (next_id', out')) \<Rightarrow> expand_children fuel layouts view children i next_id' out'
      | failed \<Rightarrow> failed)"

fun expand_roots :: "nat \<Rightarrow> async_layouts \<Rightarrow> process_view \<Rightarrow> task_root list \<Rightarrow> u64 \<Rightarrow> decoded_node list \<Rightarrow> expansion" where
  "expand_roots fuel layouts view [] next_id out = Some (Ok (next_id, out))"
| "expand_roots fuel layouts view (root # roots) next_id out =
     (case expand fuel layouts view (ro_base root) (ro_type_name root) (ro_header_addr root) (ro_id root) None next_id out of
        Some (Ok (next_id', out')) \<Rightarrow> expand_roots fuel layouts view roots next_id' out'
      | failed \<Rightarrow> failed)"

definition tokio_enumerate :: "tls_variant \<Rightarrow> nat \<Rightarrow> tokio_decoder \<Rightarrow> process_view \<Rightarrow> (decoded_node list, decoder_error) result option" where
  "tokio_enumerate variant fuel d view =
     (case effective_roots variant d view of
        Err e \<Rightarrow> Some (Err e)
      | Ok roots \<Rightarrow>
          (let next_id = (if roots = [] then 0 else Max (set (map ro_id roots))) + 1 in
           map_option (map_ok snd) (expand_roots fuel (td_layouts d) view roots next_id [])))"

definition decoded_task :: "decoded_node \<Rightarrow> task_node" where
  "decoded_task n = \<lparr>tn_id = dn_id n, tn_name = async_short_name (dn_type_name n), tn_kind = AsyncTask,
     tn_state = dn_state n, tn_parent = dn_parent n\<rparr>"

text \<open>The operations of the interface run with a call stack that suffices (shown below).\<close>

definition tokio_nodes :: "tls_variant \<Rightarrow> tokio_decoder \<Rightarrow> process_view \<Rightarrow> (decoded_node list, decoder_error) result" where
  "tokio_nodes variant d view = the (tokio_enumerate variant (Suc MAX_TASKS) d view)"

definition tokio_decode_tasks :: "tls_variant \<Rightarrow> tokio_decoder \<Rightarrow> process_view \<Rightarrow> (task_tree, decoder_error) result" where
  "tokio_decode_tasks variant d view = and_then (tokio_nodes variant d view) (\<lambda>nodes. try_from_nodes (map decoded_task nodes))"

definition tokio_node_for :: "decoded_node list \<Rightarrow> task_id \<Rightarrow> (decoded_node, decoder_error) result" where
  "tokio_node_for nodes task = ok_or (UnknownTask task) (List.find (\<lambda>n. dn_id n = task) nodes)"

definition tokio_logical_stack :: "tls_variant \<Rightarrow> tokio_decoder \<Rightarrow> process_view \<Rightarrow> task_id \<Rightarrow> (logical_frame list, decoder_error) result" where
  "tokio_logical_stack variant d view task =
     and_then (tokio_nodes variant d view) (\<lambda>nodes.
     and_then (tokio_node_for nodes task) (\<lambda>n. async_logical_stack view (dn_base n) (dn_type_name n) (td_layouts d)))"

definition tokio_wake_cause :: "tls_variant \<Rightarrow> tokio_decoder \<Rightarrow> process_view \<Rightarrow> task_id \<Rightarrow> (wake_cause, decoder_error) result" where
  "tokio_wake_cause variant d view task =
     and_then (tokio_nodes variant d view) (\<lambda>nodes. map_ok dn_wake (tokio_node_for nodes task))"

definition tokio_locals_at :: "tls_variant \<Rightarrow> tokio_decoder \<Rightarrow> process_view \<Rightarrow> task_id \<Rightarrow> logical_frame \<Rightarrow> (variable list, decoder_error) result" where
  "tokio_locals_at variant d view task frame =
     and_then (tokio_nodes variant d view) (\<lambda>nodes. map_ok (\<lambda>_. []) (tokio_node_for nodes task))"

datatype decoder_choice = GoDecoderFor go_layout | TokioDecoderFor tokio_decoder | NativeDecoder

definition select_decoder :: decoder_choice where
  "select_decoder = NativeDecoder"

definition select_decoder_for_binary ::
  "(bytes \<Rightarrow> (object_file, string) result) \<Rightarrow> (bytes \<Rightarrow> (async_layouts \<times> rustc_version, 'e) result)
     \<Rightarrow> (bytes \<Rightarrow> (tokio_object, string) result) \<Rightarrow> bytes \<Rightarrow> decoder_choice" where
  "select_decoder_for_binary parse_go load_layouts parse_tokio img =
     (case load_layout parse_go img of
        Ok layout \<Rightarrow> GoDecoderFor layout
      | Err _ \<Rightarrow> (case tokio_from_binary load_layouts parse_tokio img of
          Ok d \<Rightarrow> TokioDecoderFor d
        | Err _ \<Rightarrow> NativeDecoder))"

subsection \<open>The expansion ends\<close>

lemma expand_enough:
  "MAX_TASKS - length out < fuel \<Longrightarrow> expand fuel layouts view base ty hdr i parent nid out \<noteq> None
     \<and> (\<forall>n' out'. expand fuel layouts view base ty hdr i parent nid out = Some (Ok (n', out')) \<longrightarrow> length out \<le> length out')"
  "MAX_TASKS - length out < fuel \<Longrightarrow> expand_children fuel layouts view children i nid out \<noteq> None
     \<and> (\<forall>n' out'. expand_children fuel layouts view children i nid out = Some (Ok (n', out')) \<longrightarrow> length out \<le> length out')"
proof (induction fuel layouts view base ty hdr i parent nid out and fuel layouts view children i nid out
    rule: expand_expand_children.induct)
  case (2 fuel layouts view base ty hdr i parent nid out)
  show ?case
  proof (cases "MAX_TASKS \<le> length out")
    case False
    with "2.prems" have "MAX_TASKS - Suc (length out) < fuel" by linarith
    with 2 False show ?thesis by (fastforce split: result.splits prod.splits)
  qed simp
next
  case (4 fuel layouts view child_base child_type children i nid out)
  from "4.IH"(1) [OF "4.prems"] obtain r where
    r: "expand fuel layouts view child_base child_type None nid (Some i) (nid + 1) out = Some r"
    and len: "\<forall>n' out'. r = Ok (n', out') \<longrightarrow> length out \<le> length out'" by auto
  show ?case
  proof (cases r)
    case (Err e)
    with r show ?thesis by simp
  next
    case (Ok no)
    obtain n' out' where no: "no = (n', out')" by force
    with Ok len have "length out \<le> length out'" by simp
    with "4.prems" have "MAX_TASKS - length out' < fuel" by linarith
    from "4.IH"(2) [OF r Ok no [symmetric] this] r Ok no \<open>length out \<le> length out'\<close> show ?thesis by fastforce
  qed
qed auto

lemma expand_roots_enough:
  "MAX_TASKS - length out < fuel \<Longrightarrow> expand_roots fuel layouts view roots nid out \<noteq> None"
proof (induction roots arbitrary: nid out)
  case (Cons root roots)
  from expand_enough(1) [OF Cons.prems] obtain r where
    r: "expand fuel layouts view (ro_base root) (ro_type_name root) (ro_header_addr root) (ro_id root) None nid out = Some r"
    and len: "\<forall>n' out'. r = Ok (n', out') \<longrightarrow> length out \<le> length out'" by (metis option.exhaust option.inject)
  show ?case
  proof (cases r)
    case (Ok no)
    obtain n' out' where no: "no = (n', out')" by force
    with Ok len have "length out \<le> length out'" by simp
    with Cons.prems have "MAX_TASKS - length out' < fuel" by linarith
    from Cons.IH [OF this] r Ok no show ?thesis by simp
  qed (use r in simp)
qed simp

lemma tokio_enumerate_total: "\<exists>r. tokio_enumerate variant (Suc MAX_TASKS) d view = Some r"
proof (cases "effective_roots variant d view")
  case (Ok roots)
  with expand_roots_enough [of "[]" "Suc MAX_TASKS" "td_layouts d" view roots] show ?thesis
    by (auto simp: tokio_enumerate_def Let_def)
qed (simp add: tokio_enumerate_def)

text \<open>
  C31. The expansion of tasks ends on every memory: a call stack one deeper than \<open>MAX_TASKS\<close> is enough,
  whatever the layouts, the roots and the (possibly cyclic) contents of the target's memory are.
\<close>

theorem tokio_enumerate_terminates: "\<exists>r. tokio_enumerate variant (Suc MAX_TASKS) d view = Some r"
  by (rule tokio_enumerate_total)

subsection \<open>What it produces\<close>

fun parents_before :: "task_id set \<Rightarrow> decoded_node list \<Rightarrow> bool" where
  "parents_before seen [] \<longleftrightarrow> True"
| "parents_before seen (n # ns) \<longleftrightarrow>
     (case dn_parent n of None \<Rightarrow> True | Some p \<Rightarrow> p \<in> seen) \<and> parents_before (insert (dn_id n) seen) ns"

lemma parents_before_append:
  "parents_before seen (xs @ ys) \<longleftrightarrow> parents_before seen xs \<and> parents_before (seen \<union> dn_id ` set xs) ys"
  by (induction xs arbitrary: seen) auto

lemma parents_before_mono: "parents_before S ns \<Longrightarrow> S \<subseteq> T \<Longrightarrow> parents_before T ns"
proof (induction ns arbitrary: S T)
  case (Cons n ns)
  from Cons.IH [of "insert (dn_id n) S" "insert (dn_id n) T"] Cons.prems show ?case by (auto split: option.splits)
qed simp

text \<open>The \<open>k\<close> ids from \<open>n\<close> on.\<close>

definition fresh_ids :: "u64 \<Rightarrow> nat \<Rightarrow> u64 list" where
  "fresh_ids n k = map (\<lambda>j. n + of_nat j) [0..<k]"

lemma fresh_ids_Suc: "fresh_ids n (Suc k) = n # fresh_ids (n + 1) k"
proof -
  have "[0..<Suc k] = 0 # map Suc [0..<k]" by (simp only: upt_conv_Cons map_Suc_upt zero_less_Suc)
  then show ?thesis by (simp add: fresh_ids_def comp_def add.assoc)
qed

lemma fresh_ids_append: "fresh_ids n (k + l) = fresh_ids n k @ fresh_ids (n + of_nat k) l"
  by (induction k arbitrary: n) (simp_all add: fresh_ids_Suc add.assoc, simp add: fresh_ids_def)

definition expanded :: "task_id list \<Rightarrow> u64 \<Rightarrow> decoded_node list \<Rightarrow> u64 \<Rightarrow> decoded_node list \<Rightarrow> decoded_node list \<Rightarrow> bool" where
  "expanded own nid out nid' out' new \<longleftrightarrow> out' = out @ new
     \<and> map dn_id new = own @ fresh_ids nid (length new - length own) \<and> length own \<le> length new
     \<and> nid' = nid + of_nat (length new - length own) \<and> (length out \<le> MAX_TASKS \<longrightarrow> length out' \<le> MAX_TASKS)"

lemma expand_spec:
  "expand fuel layouts view base ty hdr i parent nid out = Some (Ok (nid', out')) \<Longrightarrow>
     \<exists>new. expanded [i] nid out nid' out' new \<and> (\<forall>S. (case parent of None \<Rightarrow> True | Some p \<Rightarrow> p \<in> S) \<longrightarrow> parents_before S new)"
  "expand_children fuel layouts view children i nid out = Some (Ok (nid', out')) \<Longrightarrow>
     \<exists>new. expanded [] nid out nid' out' new \<and> (\<forall>S. i \<in> S \<longrightarrow> parents_before S new)"
proof (induction fuel layouts view base ty hdr i parent nid out and fuel layouts view children i nid out
    arbitrary: nid' out' and nid' out' rule: expand_expand_children.induct)
  case (2 fuel layouts view base ty hdr i parent nid out)
  from "2.prems" obtain layout state wake children where
    len: "length out < MAX_TASKS" and lay: "layouts ty = Some layout"
    and dec: "and_then (async_task_state view base layout layouts hdr) (\<lambda>state.
              and_then (async_wake_cause view base layout layouts) (\<lambda>wake.
              map_ok (\<lambda>children. (state, wake, children)) (fan_out_children view base layout))) = Ok (state, wake, children)"
    and ch: "expand_children fuel layouts view children i nid
       (out @ [\<lparr>dn_id = i, dn_parent = parent, dn_base = base, dn_type_name = ty, dn_state = state, dn_wake = wake\<rparr>]) = Some (Ok (nid', out'))"
    by (auto split: if_splits result.splits prod.splits option.splits simp del: and_then.simps)
  let ?n = "\<lparr>dn_id = i, dn_parent = parent, dn_base = base, dn_type_name = ty, dn_state = state, dn_wake = wake\<rparr>"
  have ih: "\<exists>new. expanded [] nid (out @ [?n]) nid' out' new \<and> (\<forall>S. i \<in> S \<longrightarrow> parents_before S new)"
    by (rule "2.IH" [OF _ _ _ _ _ ch]) (use len lay dec in auto)
  then obtain new where "expanded [] nid (out @ [?n]) nid' out' new" "\<forall>S. i \<in> S \<longrightarrow> parents_before S new" by blast
  with len show ?case by (intro exI [of _ "?n # new"]) (auto simp: expanded_def)
next
  case (4 fuel layouts view child_base child_type children i nid out)
  from "4.prems" obtain n1 out1 where
    e: "expand fuel layouts view child_base child_type None nid (Some i) (nid + 1) out = Some (Ok (n1, out1))"
    and c: "expand_children fuel layouts view children i n1 out1 = Some (Ok (nid', out'))"
    by (auto split: option.splits result.splits prod.splits)
  from "4.IH"(1) [OF e] obtain a where a: "expanded [nid] (nid + 1) out n1 out1 a" "\<forall>S. i \<in> S \<longrightarrow> parents_before S a" by auto
  from "4.IH"(2) [OF e refl refl c] obtain b where b: "expanded [] n1 out1 nid' out' b" "\<forall>S. i \<in> S \<longrightarrow> parents_before S b" by auto
  from a(1) obtain k where k: "length a = Suc k" "map dn_id a = nid # fresh_ids (nid + 1) k" "n1 = nid + 1 + of_nat k"
    by (cases "length a") (auto simp: expanded_def)
  have "map dn_id (a @ b) = fresh_ids nid (length a + length b)"
    using k b(1) fresh_ids_append [of nid "length a" "length b"] by (simp add: expanded_def fresh_ids_Suc add.assoc)
  moreover have "parents_before S (a @ b)" if "i \<in> S" for S using that a(2) b(2) by (simp add: parents_before_append)
  ultimately show ?case using a(1) b(1) k by (intro exI [of _ "a @ b"]) (auto simp: expanded_def add.assoc)
qed (auto simp: expanded_def fresh_ids_def)

lemma fresh_ids_range:
  assumes "unat n + k \<le> 2 ^ 64"
  shows "distinct (fresh_ids n k)" "x \<in> set (fresh_ids n k) \<Longrightarrow> unat n \<le> unat x \<and> unat x < unat n + k"
proof -
  have un: "unat (n + of_nat j) = unat n + j" if "j < k" for j
  proof -
    have "unat (of_nat j :: u64) = j" using that assms by (intro unat_of_nat_len) simp
    with that assms show ?thesis by (simp add: unat_word_ariths)
  qed
  have "inj_on (\<lambda>j. n + of_nat j) {0..<k}" using un by (intro inj_onI) (metis add_left_cancel atLeastLessThan_iff)
  then show "distinct (fresh_ids n k)" by (simp add: fresh_ids_def distinct_map)
  show "unat n \<le> unat x \<and> unat x < unat n + k" if "x \<in> set (fresh_ids n k)" using that un by (auto simp: fresh_ids_def)
qed

text \<open>
  The expansion of a list of roots whose ids are distinct and below the counter: fresh ids never
  collide, and a task's parent comes before it.
\<close>

lemma expand_roots_spec:
  assumes "expand_roots fuel layouts view roots nid out = Some (Ok (nid', out'))"
    and "distinct (map ro_id roots)" and "\<forall>r \<in> set roots. unat (ro_id r) < unat nid"
    and "unat nid + (MAX_TASKS - length out) < 2 ^ 64" and "length out \<le> MAX_TASKS"
  shows "\<exists>new. out' = out @ new \<and> distinct (map dn_id new) \<and> (\<forall>S. parents_before S new)
    \<and> set (map ro_id roots) \<subseteq> dn_id ` set new
    \<and> (\<forall>i \<in> dn_id ` set new. i \<in> set (map ro_id roots) \<or> unat nid \<le> unat i)"
  using assms
proof (induction roots arbitrary: nid out)
  case (Cons root roots)
  from Cons.prems(1) obtain n1 out1 where
    e: "expand fuel layouts view (ro_base root) (ro_type_name root) (ro_header_addr root) (ro_id root) None nid out = Some (Ok (n1, out1))"
    and rest: "expand_roots fuel layouts view roots n1 out1 = Some (Ok (nid', out'))"
    by (auto split: option.splits result.splits prod.splits)
  from expand_spec(1) [OF e] obtain a where a: "expanded [ro_id root] nid out n1 out1 a" "\<forall>S. parents_before S a" by auto
  define k where "k = length a - 1"
  have ids: "map dn_id a = ro_id root # fresh_ids nid k" "n1 = nid + of_nat k" "out1 = out @ a" "length out1 \<le> MAX_TASKS"
    "length a = Suc k"
    using a(1) Cons.prems(5) by (auto simp: expanded_def k_def)
  have room: "unat nid + k < 2 ^ 64" using Cons.prems(4) ids(3,4,5) by simp
  then have n1: "unat n1 = unat nid + k" using unat_of_nat_len [of k, where 'a = 64] by (simp add: ids(2) unat_word_ariths)
  note fresh = fresh_ids_range [of nid k]
  from n1 have below: "\<forall>r \<in> set roots. unat (ro_id r) < unat n1" using Cons.prems(3) by fastforce
  have "unat n1 + (MAX_TASKS - length out1) < 2 ^ 64" using Cons.prems(4) ids(3,4,5) n1 by simp
  from Cons.IH [OF rest _ below this ids(4)] Cons.prems(2) obtain b where
    b: "out' = out1 @ b" "distinct (map dn_id b)" "\<forall>S. parents_before S b" "set (map ro_id roots) \<subseteq> dn_id ` set b"
    "\<forall>i \<in> dn_id ` set b. i \<in> set (map ro_id roots) \<or> unat n1 \<le> unat i" by auto
  have a_ids: "dn_id ` set a = insert (ro_id root) (set (fresh_ids nid k))" using ids(1) by (metis list.set_map list.simps(15))
  have root_old: "ro_id root \<notin> set (fresh_ids nid k)" using fresh(2) room Cons.prems(3) by fastforce
  have "distinct (map dn_id a)" unfolding ids(1) using fresh(1) room root_old by simp
  moreover have "dn_id ` set a \<inter> dn_id ` set b = {}"
  proof -
    have False if ia: "i \<in> insert (ro_id root) (set (fresh_ids nid k))" and ib: "i \<in> dn_id ` set b" for i
    proof -
      consider "i \<in> set (map ro_id roots)" | "unat n1 \<le> unat i" using b(5) ib by blast
      then show False
      proof cases
        case 1
        with Cons.prems(2,3) ia fresh(2) [of i] room show False by (auto simp: image_iff)
      next
        case 2
        with ia fresh(2) [of i] room n1 Cons.prems(3) show False by auto
      qed
    qed
    then show ?thesis unfolding a_ids by blast
  qed
  ultimately have "distinct (map dn_id (a @ b))" using b(2) by simp
  moreover have "parents_before S (a @ b)" for S using a(2) b(3) by (simp add: parents_before_append)
  moreover have "i \<in> set (map ro_id (root # roots)) \<or> unat nid \<le> unat i" if "i \<in> dn_id ` set (a @ b)" for i
  proof -
    from that consider "i \<in> dn_id ` set a" | "i \<in> dn_id ` set b" by auto
    then show ?thesis
    proof cases
      case 1
      then show ?thesis using fresh(2) [of i] room by (auto simp: a_ids)
    next
      case 2
      with b(5) n1 show ?thesis by fastforce
    qed
  qed
  moreover have "set (map ro_id (root # roots)) \<subseteq> dn_id ` set (a @ b)" using b(4) a_ids by auto
  ultimately show ?case using b(1) ids(3) by (intro exI [of _ "a @ b"]) auto
qed auto

lemma parents_before_known: "parents_before S ns \<Longrightarrow> n \<in> set ns \<Longrightarrow> dn_parent n = Some p \<Longrightarrow> p \<in> S \<union> dn_id ` set ns"
  by (induction S ns rule: parents_before.induct) auto

lemma decoded_task_ids [simp]: "tn_id (decoded_task n) = dn_id n" "tn_parent (decoded_task n) = dn_parent n"
  by (simp_all add: decoded_task_def)

text \<open>Every node of an expansion hangs below a root.\<close>

lemma parents_before_rooted:
  assumes "tree_ok t" and "parents_before S ns" and "\<And>p. p \<in> S \<Longrightarrow> \<exists>k. at_depth t k p"
    and "\<And>n. n \<in> set ns \<Longrightarrow> tree_node t (dn_id n) = Some (decoded_task n)" and "n \<in> set ns"
  shows "\<exists>k. at_depth t k (dn_id n)"
  using assms(2-5)
proof (induction S ns rule: parents_before.induct)
  case (2 S m ns)
  have node: "tree_node t (dn_id m) = Some (decoded_task m)" using "2.prems"(3) by simp
  have m: "\<exists>k. at_depth t k (dn_id m)"
  proof (cases "dn_parent m")
    case None
    with node have "dn_id m \<in> set (tt_roots t)" by (simp add: tree_okD(4) [OF assms(1)] parent_of_def)
    then show ?thesis by (auto simp: at_depth_def intro: exI [of _ 0])
  next
    case (Some p)
    with "2.prems"(1,2) obtain k where "at_depth t k p" by auto
    moreover have "dn_id m \<in> set (tree_children t p)"
      using node Some by (simp add: tree_okD(2) [OF assms(1)] parent_of_def)
    ultimately show ?thesis using at_depth_child [OF assms(1)] by blast
  qed
  show ?case
  proof (cases "n = m")
    case False
    with "2.prems" m show ?thesis by (intro "2.IH") auto
  qed (use m in simp)
qed simp

definition root_ids_ok :: "task_root list \<Rightarrow> bool" where
  "root_ids_ok roots \<longleftrightarrow> distinct (map ro_id roots) \<and> (\<forall>r \<in> set roots. unat (ro_id r) < 2 ^ 63)"

lemma tokio_nodes_spec:
  assumes "tokio_nodes variant d view = Ok nodes" and "effective_roots variant d view = Ok roots" and "root_ids_ok roots"
  shows "distinct (map dn_id nodes)" "parents_before {} nodes" "set (map ro_id roots) \<subseteq> dn_id ` set nodes"
proof -
  let ?nid = "(if roots = [] then 0 else Max (set (map ro_id roots))) + 1"
  have "\<exists>nid'. expand_roots (Suc MAX_TASKS) (td_layouts d) view roots ?nid [] = Some (Ok (nid', nodes))"
    using assms(1,2) tokio_enumerate_total [of variant d view]
    by (auto simp: tokio_nodes_def tokio_enumerate_def Let_def map_ok_eq_Ok)
  then obtain nid' where run: "expand_roots (Suc MAX_TASKS) (td_layouts d) view roots ?nid [] = Some (Ok (nid', nodes))" by blast
  let ?m = "if roots = [] then 0 else Max (set (map ro_id roots))"
  have m: "unat ?m < 2 ^ 63"
  proof (cases "roots = []")
    case False
    then have "Max (set (map ro_id roots)) \<in> set (map ro_id roots)" by (intro Max_in) simp_all
    then obtain r where "r \<in> set roots" "Max (set (map ro_id roots)) = ro_id r" by auto
    with assms(3) False show ?thesis by (auto simp: root_ids_ok_def simp del: set_map)
  qed simp
  then have nid: "unat ?nid = unat ?m + 1" by (simp add: unat_word_ariths)
  have "\<forall>r \<in> set roots. unat (ro_id r) < unat ?nid"
  proof
    fix r assume r: "r \<in> set roots"
    then have "ro_id r \<le> Max (set (map ro_id roots))" by (intro Max_ge) simp_all
    with r have "ro_id r \<le> ?m" by auto
    with nid show "unat (ro_id r) < unat ?nid" by (simp add: word_le_nat_alt)
  qed
  moreover have "unat ?nid + (MAX_TASKS - length ([] :: decoded_node list)) < 2 ^ 64" using nid m by (simp add: MAX_TASKS_def)
  ultimately show "distinct (map dn_id nodes)" "parents_before {} nodes" "set (map ro_id roots) \<subseteq> dn_id ` set nodes"
    using expand_roots_spec [OF run] assms(3) by (auto simp: root_ids_ok_def)
qed

text \<open>
  C26. The async task tree is complete: when the roots have distinct ids (below 2 to the 63) and the
  expansion succeeds, the tree is built, and flattening it lists every expanded task exactly once,
  among them every root; no child id collides with a root or another child.
\<close>

theorem tokio_tree_complete:
  assumes "effective_roots variant d view = Ok roots" and "root_ids_ok roots" and "tokio_nodes variant d view = Ok nodes"
  shows "\<exists>t out. tokio_decode_tasks variant d view = Ok t \<and> flatten_preorder (length nodes) t = Some out
    \<and> distinct out \<and> set out = dn_id ` set nodes \<and> length out = length nodes \<and> set (map ro_id roots) \<subseteq> set out
    \<and> (\<forall>n \<in> set nodes. tree_node t (dn_id n) = Some (decoded_task n))"
proof -
  note sp = tokio_nodes_spec [OF assms(3,1,2)]
  let ?ns = "map decoded_task nodes"
  have dist: "distinct (map tn_id ?ns)" using sp(1) by (simp add: comp_def)
  have "parents_known ?ns" using parents_before_known [OF sp(2)] by (auto simp: parents_known_def image_image)
  with try_from_nodes_total [OF dist] obtain t where t: "try_from_nodes ?ns = Ok t" by blast
  note ok = built_tree_ok [OF t]
  have node: "tree_node t (dn_id n) = Some (decoded_task n)" if "n \<in> set nodes" for n
    using that dist by (auto simp: try_from_nodes_Ok(3) [OF t] comp_def intro!: map_of_is_SomeI)
  have known: "i \<in> dn_id ` set nodes" if "tree_node t i \<noteq> None" for i
    using that by (auto simp: try_from_nodes_Ok(3) [OF t] map_of_eq_None_iff image_image comp_def)
  obtain out where out: "flatten_preorder (length nodes) t = Some out" "distinct out" "set out = {i. \<exists>k. at_depth t k i}"
    using flatten_preorder_total [OF t, of "length nodes"] by auto
  have "set out = dn_id ` set nodes"
  proof
    show "set out \<subseteq> dn_id ` set nodes" using out(3) known at_depth_known [OF ok] by blast
    show "dn_id ` set nodes \<subseteq> set out"
      using parents_before_rooted [OF ok sp(2) _ node] out(3) by auto
  qed
  moreover from this have "length out = length nodes"
    using distinct_card [OF out(2)] distinct_card [OF sp(1)] by simp
  moreover have "tokio_decode_tasks variant d view = Ok t" using assms(3) t by (simp add: tokio_decode_tasks_def)
  ultimately show ?thesis using out(1,2) node sp(3) by auto
qed

text \<open>Witness: one task of the demo process, whose \<open>outer\<close> awaits \<open>inner\<close>.\<close>

definition demo_tokio :: tokio_decoder where
  "demo_tokio = tokio_from_parts demo_layouts (rustc_version_new 1 85 1) [task_root_new 1 0x100 ''m::outer::{async_fn_env#0}'']"

lemma demo_tokio_roots: "effective_roots v demo_tokio demo_async_view = Ok [task_root_new 1 0x100 ''m::outer::{async_fn_env#0}'']"
  by (simp add: effective_roots_def demo_tokio_def tokio_from_parts_def)

lemma demo_tokio_nodes:
  "\<exists>n. tokio_nodes v demo_tokio demo_async_view = Ok [n] \<and> dn_id n = 1 \<and> dn_wake n = WakeTimer \<and> dn_base n = 0x100
     \<and> dn_type_name n = ''m::outer::{async_fn_env#0}''"
proof -
  have "demo_layouts ''m::outer::{async_fn_env#0}'' = Some (demo_async_layout ''m::outer::{async_fn_env#0}'' ''m::inner::{async_fn_env#0}'')"
    by (simp add: demo_layouts_def)
  moreover have "lc_wake (classify_leaf ''tokio::time::sleep::Sleep'') = WakeTimer"
    by (simp add: classify_leaf_def contains_any_def str_contains_def starts_with_def)
  moreover have "td_layouts demo_tokio = demo_layouts" by (simp add: demo_tokio_def tokio_from_parts_def)
  moreover have "\<not> MAX_TASKS \<le> 0" by (simp add: MAX_TASKS_def)
  ultimately show ?thesis
    by (simp add: tokio_nodes_def tokio_enumerate_def demo_tokio_roots Let_def task_root_new_def
        async_task_state_def demo_active demo_leaf async_wake_cause_def fan_out_children_def)
qed

theorem tokio_tree_complete_witness:
  "\<exists>t out. tokio_decode_tasks VariantI demo_tokio demo_async_view = Ok t \<and> flatten_preorder 1 t = Some out \<and> set out = {1}"
proof -
  from demo_tokio_nodes [of VariantI] obtain n where n: "tokio_nodes VariantI demo_tokio demo_async_view = Ok [n]" "dn_id n = 1" by blast
  have "root_ids_ok [task_root_new 1 0x100 ''m::outer::{async_fn_env#0}'']" by (simp add: root_ids_ok_def task_root_new_def)
  from tokio_tree_complete [OF demo_tokio_roots this n(1)] n(2) show ?thesis by auto
qed

subsection \<open>The interface\<close>

text \<open>Views whose memory reads do not blame a task.\<close>

definition honest_reads :: "process_view \<Rightarrow> bool" where
  "honest_reads v \<longleftrightarrow> (\<forall>a n i. pv_read_memory v a n \<noteq> Err (UnknownTask i))"

lemma active_variant_honest: "honest_reads v \<Longrightarrow> active_variant v base layout \<noteq> Err (UnknownTask i)"
  by (auto simp: active_variant_def read_discriminant_def and_then_eq_Err honest_reads_def)

lemma async_stack_honest: "honest_reads v \<Longrightarrow> async_stack_n n v base ty layouts \<noteq> Err (UnknownTask i)"
proof (induction n arbitrary: base ty)
  case (Suc n)
  then show ?case
    by (auto simp: and_then_eq_Err Let_def dest: active_variant_honest split: option.splits if_splits)
qed simp

interpretation tokio: semantic_decoder honest_reads "tokio_decode_tasks variant d" "tokio_logical_stack variant d"
  "tokio_wake_cause variant d" "tokio_locals_at variant d" for variant d
proof
  fix v t i f assume *: "honest_reads v" "tokio_decode_tasks variant d v = Ok t" "tree_node t i \<noteq> None"
  from *(2) obtain nodes where nodes: "tokio_nodes variant d v = Ok nodes" and t: "try_from_nodes (map decoded_task nodes) = Ok t"
    by (auto simp: tokio_decode_tasks_def and_then_eq_Ok)
  have "i \<in> dn_id ` set nodes"
    using *(3) by (auto simp: try_from_nodes_Ok(3) [OF t] map_of_eq_None_iff image_image comp_def)
  then have "List.find (\<lambda>n. dn_id n = i) nodes \<noteq> None" by (auto simp: find_None_iff)
  then obtain n where n: "tokio_node_for nodes i = Ok n" by (auto simp: tokio_node_for_def)
  show "tokio_logical_stack variant d v i \<noteq> Err (UnknownTask i)"
    using async_stack_honest [OF *(1)] by (simp add: tokio_logical_stack_def nodes n async_logical_stack_def)
  show "\<exists>c. tokio_wake_cause variant d v i = Ok c" "\<exists>vs. tokio_locals_at variant d v i f = Ok vs"
    by (simp_all add: tokio_wake_cause_def tokio_locals_at_def nodes n)
next
  fix v t assume "tokio_decode_tasks variant d v = Ok t"
  then show "\<exists>ns. try_from_nodes ns = Ok t" by (auto simp: tokio_decode_tasks_def and_then_eq_Ok)
qed

text \<open>The decoder chosen for a binary, as one set of operations.\<close>

fun chosen_decode_tasks :: "tls_variant \<Rightarrow> decoder_choice \<Rightarrow> process_view \<Rightarrow> (task_tree, decoder_error) result" where
  "chosen_decode_tasks variant (GoDecoderFor layout) = go_decode_tasks layout"
| "chosen_decode_tasks variant (TokioDecoderFor d) = tokio_decode_tasks variant d"
| "chosen_decode_tasks variant NativeDecoder = native_decode_tasks"

fun chosen_wake_cause :: "tls_variant \<Rightarrow> decoder_choice \<Rightarrow> process_view \<Rightarrow> task_id \<Rightarrow> (wake_cause, decoder_error) result" where
  "chosen_wake_cause variant (GoDecoderFor layout) = go_wake_cause_of layout"
| "chosen_wake_cause variant (TokioDecoderFor d) = tokio_wake_cause variant d"
| "chosen_wake_cause variant NativeDecoder = native_wake_cause"

fun chosen_logical_stack :: "tls_variant \<Rightarrow> decoder_choice \<Rightarrow> process_view \<Rightarrow> task_id \<Rightarrow> (logical_frame list, decoder_error) result" where
  "chosen_logical_stack variant (GoDecoderFor layout) = go_logical_stack layout"
| "chosen_logical_stack variant (TokioDecoderFor d) = tokio_logical_stack variant d"
| "chosen_logical_stack variant NativeDecoder = native_logical_stack"

fun chosen_locals_at :: "tls_variant \<Rightarrow> decoder_choice \<Rightarrow> process_view \<Rightarrow> task_id \<Rightarrow> logical_frame \<Rightarrow> (variable list, decoder_error) result" where
  "chosen_locals_at variant (GoDecoderFor layout) = go_locals_at layout"
| "chosen_locals_at variant (TokioDecoderFor d) = tokio_locals_at variant d"
| "chosen_locals_at variant NativeDecoder = native_locals_at"



end
