(* ===== verification/CoroutineDwarf.thy ===== *)
theory CoroutineDwarf
  imports TokioDecoder "HOL-Library.Multiset"
begin

text \<open>
  How the Tokio decoder learns the layouts of a binary's coroutines
  (\<open>decoder/src/async_rust/{dwarf,error,mod}.rs\<close>): the gate on the file, the index of qualified type names
  of a unit, and the translation of every coroutine type into a layout with its states, awaited futures
  and inline children. The object-file and DWARF libraries are parameters: a unit is its tree of debugging
  entries and the entry at each offset, and every read may fail.

  The layouts are shown to be sound (only a suspended state awaits, no child sits where the awaited future
  does), so that what the decoder proves of sound layouts holds for every binary, and the search for inline
  children is shown to find exactly the coroutines nested within its depth bound.
\<close>

subsection \<open>Debugging entries\<close>

datatype dw_tag = DW_TAG_namespace | DW_TAG_structure_type | DW_TAG_enumeration_type | DW_TAG_variant_part
  | DW_TAG_variant | DW_TAG_member | DW_TAG_other

datatype dw_at = DW_AT_byte_size | DW_AT_data_member_location | DW_AT_discr_value | DW_AT_decl_line | DW_AT_decl_file
  | DW_AT_type | DW_AT_discr

text \<open>
  An entry: its offset in the unit, its tag, its name as the library reads it, its attributes as unsigned
  constants and as references within the unit, its children, and the error with which the iteration over
  the children ends, if it does.
\<close>

datatype dw_entry = DwEntry (en_offset: nat) (en_tag: dw_tag) (en_name: "(string option, string) result")
  (en_udata: "dw_at \<Rightarrow> u64 option") (en_ref: "dw_at \<Rightarrow> (nat option, string) result")
  (en_children: "dw_entry list") (en_broken: "string option")

record dw_unit =
  un_root :: "(dw_entry, string) result"
  un_at :: "nat \<Rightarrow> (dw_entry, string) result"
  un_producer :: "(string option, string) result"
  un_line_files :: "(u64 \<Rightarrow> (string, string) result option) option"

definition end_children :: "string option \<Rightarrow> 'a \<Rightarrow> ('a, string) result" where
  "end_children broken x = (case broken of None \<Rightarrow> Ok x | Some e \<Rightarrow> Err e)"

subsection \<open>The index of a unit\<close>

datatype async_decode_error = AsyncObject string | AsyncDwarf string | NotTokioBinary | NoDebugInfo
  | UnsupportedLayout string | NoCoroutines

definition producer_version :: "dw_unit \<Rightarrow> (rustc_version option, string) result" where
  "producer_version u = map_ok (\<lambda>p. Option.bind p parse_producer) (un_producer u)"

record unit_index =
  ix_names :: "nat \<Rightarrow> string option"
  ix_coroutines :: "nat list"

fun join_path :: "string list \<Rightarrow> string" where
  "join_path [] = []"
| "join_path [p] = p"
| "join_path (p # ps) = p @ ''::'' @ join_path ps"

definition qualify :: "string list \<Rightarrow> string \<Rightarrow> string" where
  "qualify path name = (if path = [] then name else join_path path @ ''::'' @ name)"

definition coroutine_name :: "string \<Rightarrow> bool" where
  "coroutine_name name \<longleftrightarrow> starts_with ''{async_fn_env#'' name \<or> starts_with ''{async_block_env#'' name"

definition index_type :: "nat \<Rightarrow> string list \<Rightarrow> string \<Rightarrow> unit_index \<Rightarrow> unit_index" where
  "index_type off path name ix =
     \<lparr>ix_names = (ix_names ix)(off \<mapsto> qualify path name),
      ix_coroutines = (if coroutine_name name \<and> off \<notin> set (ix_coroutines ix) then ix_coroutines ix @ [off] else ix_coroutines ix)\<rparr>"

definition enter_entry :: "nat \<Rightarrow> dw_tag \<Rightarrow> string option \<Rightarrow> string list \<Rightarrow> unit_index \<Rightarrow> string list \<times> unit_index" where
  "enter_entry off tag local path ix =
     (case local of
        None \<Rightarrow> (path, ix)
      | Some name \<Rightarrow>
          if tag = DW_TAG_namespace then (path @ [name], ix)
          else if tag = DW_TAG_structure_type \<or> tag = DW_TAG_enumeration_type then (path @ [name], index_type off path name ix)
          else (path, ix))"

fun walk_names :: "dw_entry \<Rightarrow> string list \<Rightarrow> unit_index \<Rightarrow> (unit_index, string) result"
  and walk_children :: "dw_entry list \<Rightarrow> string list \<Rightarrow> unit_index \<Rightarrow> (unit_index, string) result" where
  "walk_names (DwEntry off tag name ud refs children broken) path ix =
     and_then name (\<lambda>local.
     case enter_entry off tag local path ix of (path', ix') \<Rightarrow>
     and_then (walk_children children path' ix') (end_children broken))"
| "walk_children [] path ix = Ok ix"
| "walk_children (c # cs) path ix = and_then (walk_names c path ix) (walk_children cs path)"

definition build_index :: "dw_unit \<Rightarrow> (unit_index, string) result" where
  "build_index u = and_then (un_root u) (\<lambda>root. walk_names root [] \<lparr>ix_names = Map.empty, ix_coroutines = []\<rparr>)"

subsection \<open>Members\<close>

record member_info =
  mi_name :: string
  mi_offset :: u64
  mi_type_ref :: nat

record struct_info =
  si_local_name :: string
  si_members :: "member_info list"

definition udata_or :: "dw_entry \<Rightarrow> dw_at \<Rightarrow> u64 \<Rightarrow> u64" where
  "udata_or entry attr d = (case en_udata entry attr of Some v \<Rightarrow> v | None \<Rightarrow> d)"

definition name_or_default :: "string option \<Rightarrow> string" where
  "name_or_default n = (case n of Some s \<Rightarrow> s | None \<Rightarrow> [])"

text \<open>An offset sum wraps, as in a release build.\<close>

definition push_member :: "dw_entry \<Rightarrow> u64 \<Rightarrow> member_info list \<Rightarrow> (member_info list, string) result" where
  "push_member entry base out =
     and_then (en_name entry) (\<lambda>name.
     map_ok (\<lambda>ty. case ty of
         Some type_ref \<Rightarrow> out @ [\<lparr>mi_name = name_or_default name,
            mi_offset = base + udata_or entry DW_AT_data_member_location 0, mi_type_ref = type_ref\<rparr>]
       | None \<Rightarrow> out) (en_ref entry DW_AT_type))"

fun payload_members :: "dw_entry list \<Rightarrow> u64 \<Rightarrow> member_info list \<Rightarrow> (member_info list, string) result" where
  "payload_members [] base out = Ok out"
| "payload_members (m # ms) base out =
     (if en_tag m \<noteq> DW_TAG_member then payload_members ms base out
      else and_then (push_member m base out) (payload_members ms base))"

fun variants_payloads :: "dw_entry list \<Rightarrow> u64 \<Rightarrow> member_info list \<Rightarrow> (member_info list, string) result" where
  "variants_payloads [] base out = Ok out"
| "variants_payloads (v # vs) base out =
     (if en_tag v \<noteq> DW_TAG_variant then variants_payloads vs base out
      else and_then (and_then (payload_members (en_children v) base out) (end_children (en_broken v))) (variants_payloads vs base))"

definition read_variant_payloads :: "dw_entry \<Rightarrow> u64 \<Rightarrow> member_info list \<Rightarrow> (member_info list, string) result" where
  "read_variant_payloads node base out =
     and_then (variants_payloads (en_children node) base out) (end_children (en_broken node))"

fun member_entries :: "dw_entry list \<Rightarrow> u64 \<Rightarrow> member_info list \<Rightarrow> (member_info list, string) result" where
  "member_entries [] base out = Ok out"
| "member_entries (c # cs) base out =
     (if en_tag c = DW_TAG_member then and_then (push_member c base out) (member_entries cs base)
      else if en_tag c = DW_TAG_variant_part then and_then (read_variant_payloads c base out) (member_entries cs base)
      else member_entries cs base out)"

definition read_entry_members :: "dw_entry \<Rightarrow> u64 \<Rightarrow> (member_info list, string) result" where
  "read_entry_members node base = and_then (member_entries (en_children node) base []) (end_children (en_broken node))"

definition read_struct :: "dw_unit \<Rightarrow> nat \<Rightarrow> (struct_info, string) result" where
  "read_struct u off =
     and_then (un_at u off) (\<lambda>root.
     and_then (en_name root) (\<lambda>name.
     map_ok (\<lambda>members. \<lparr>si_local_name = name_or_default name, si_members = members\<rparr>) (read_entry_members root 0)))"

definition discr_member_size :: "dw_unit \<Rightarrow> dw_entry \<Rightarrow> (u8 option, string) result" where
  "discr_member_size u entry =
     and_then (en_ref entry DW_AT_type) (\<lambda>ty. case ty of
         None \<Rightarrow> Ok None
       | Some type_ref \<Rightarrow> map_ok (\<lambda>root. map_option ucast (en_udata root DW_AT_byte_size)) (un_at u type_ref))"

definition file_name :: "dw_unit \<Rightarrow> u64 \<Rightarrow> string option" where
  "file_name u index =
     Option.bind (un_line_files u) (\<lambda>files.
     Option.bind (files index) (\<lambda>name. case name of Ok s \<Rightarrow> Some s | Err _ \<Rightarrow> None))"

definition decl_location :: "dw_unit \<Rightarrow> dw_entry \<Rightarrow> source_location option" where
  "decl_location u entry = map_option (\<lambda>line.
       \<lparr>sl_path = name_or_default (Option.bind (en_udata entry DW_AT_decl_file) (file_name u)), sl_line = ucast line, sl_column = 0\<rparr>)
     (en_udata entry DW_AT_decl_line)"

subsection \<open>Inline children\<close>

definition MAX_CHILD_DEPTH :: nat where "MAX_CHILD_DEPTH = 8"

definition child_ref_of :: "unit_index \<Rightarrow> member_info \<Rightarrow> child_ref option" where
  "child_ref_of ix m = map_option (\<lambda>name. \<lparr>cr_offset = mi_offset m, cr_type_name = name\<rparr>) (ix_names ix (mi_type_ref m))"

function collect_children :: "dw_unit \<Rightarrow> unit_index \<Rightarrow> u64 option \<Rightarrow> nat \<Rightarrow> nat \<Rightarrow> u64 \<Rightarrow> child_ref list
      \<Rightarrow> (child_ref list, string) result"
  and collect_members :: "dw_unit \<Rightarrow> unit_index \<Rightarrow> u64 option \<Rightarrow> nat \<Rightarrow> member_info list \<Rightarrow> u64 \<Rightarrow> child_ref list
      \<Rightarrow> (child_ref list, string) result" where
  "collect_children u ix skip_offset depth type_ref base out =
     (if depth > MAX_CHILD_DEPTH then Ok out
      else if type_ref \<in> set (ix_coroutines ix)
      then Ok (if Some base \<noteq> skip_offset
               then (case ix_names ix type_ref of
                       Some name \<Rightarrow> out @ [\<lparr>cr_offset = base, cr_type_name = name\<rparr>]
                     | None \<Rightarrow> out)
               else out)
      else and_then (read_struct u type_ref) (\<lambda>info. collect_members u ix skip_offset (depth + 1) (si_members info) base out))"
| "collect_members u ix skip_offset depth [] base out = Ok out"
| "collect_members u ix skip_offset depth (m # ms) base out =
     and_then (collect_children u ix skip_offset depth (mi_type_ref m) (base + mi_offset m) out)
       (collect_members u ix skip_offset depth ms base)"
  by pat_completeness auto
termination
  by (relation "measures [\<lambda>x. case x of Inl (u, ix, s, d, t, b, out) \<Rightarrow> MAX_CHILD_DEPTH + 2 - d
        | Inr (u, ix, s, d, ms, b, out) \<Rightarrow> MAX_CHILD_DEPTH + 2 - d,
      \<lambda>x. case x of Inl _ \<Rightarrow> 0 | Inr (u, ix, s, d, ms, b, out) \<Rightarrow> Suc (length ms)]") auto

declare collect_children.simps [simp del]

subsection \<open>Layouts\<close>

definition read_suspend :: "dw_unit \<Rightarrow> unit_index \<Rightarrow> variant_kind \<Rightarrow> source_location option \<Rightarrow> member_info list
    \<Rightarrow> (variant_info, string) result" where
  "read_suspend u ix kind await_location members =
     (let awaitee = Option.bind (List.find (\<lambda>m. mi_name m = ''__awaitee'') members) (child_ref_of ix) in
      map_ok (\<lambda>children. \<lparr>vi_kind = kind, vi_await_location = await_location, vi_awaitee = awaitee, vi_children = children\<rparr>)
        (collect_members u ix (map_option cr_offset awaitee) 0 members 0 []))"

definition read_variant :: "dw_unit \<Rightarrow> unit_index \<Rightarrow> dw_entry \<Rightarrow> ((u64 \<times> variant_info) option, string) result" where
  "read_variant u ix variant =
     (let discr_value = udata_or variant DW_AT_discr_value 0 in
      case en_children variant of
        [] \<Rightarrow> end_children (en_broken variant) None
      | m # _ \<Rightarrow>
          and_then (en_ref m DW_AT_type) (\<lambda>ty. case ty of
            None \<Rightarrow> Ok None
          | Some state_ref \<Rightarrow>
              and_then (read_struct u state_ref) (\<lambda>state.
              case from_struct_name (si_local_name state) of
                None \<Rightarrow> Ok None
              | Some kind \<Rightarrow>
                  if \<not> is_suspend kind then Ok (Some (discr_value, variant_terminal kind))
                  else map_ok (\<lambda>info. Some (discr_value, info))
                         (read_suspend u ix kind (decl_location u m) (si_members state)))))"

fun variant_part_entries :: "dw_unit \<Rightarrow> unit_index \<Rightarrow> nat \<Rightarrow> dw_entry list \<Rightarrow> u64 option \<times> u8 \<times> (u64, variant_info) btree_map
    \<Rightarrow> (u64 option \<times> u8 \<times> (u64, variant_info) btree_map, string) result" where
  "variant_part_entries u ix discr_ref [] acc = Ok acc"
| "variant_part_entries u ix discr_ref (c # cs) (discr_offset, discr_size, variants) =
     (if en_tag c = DW_TAG_member \<and> en_offset c = discr_ref
      then and_then (discr_member_size u c) (\<lambda>size.
           variant_part_entries u ix discr_ref cs
             (en_udata c DW_AT_data_member_location, (case size of Some s \<Rightarrow> s | None \<Rightarrow> 1), variants))
      else if en_tag c = DW_TAG_variant
      then and_then (read_variant u ix c) (\<lambda>r.
           variant_part_entries u ix discr_ref cs
             (discr_offset, discr_size, (case r of Some (value, info) \<Rightarrow> bt_insert value info variants | None \<Rightarrow> variants)))
      else variant_part_entries u ix discr_ref cs (discr_offset, discr_size, variants))"

definition build_from_variant_part :: "dw_unit \<Rightarrow> unit_index \<Rightarrow> dw_entry \<Rightarrow> string \<Rightarrow> u64 \<Rightarrow> (async_fn_layout option, string) result" where
  "build_from_variant_part u ix vp type_name byte_size =
     and_then (en_ref vp DW_AT_discr) (\<lambda>d. case d of
         None \<Rightarrow> Ok None
       | Some discr_ref \<Rightarrow>
           and_then (variant_part_entries u ix discr_ref (en_children vp) (None, 1, [])) (\<lambda>acc.
           and_then (end_children (en_broken vp) acc) (\<lambda>(discr_offset, discr_size, variants).
           Ok (map_option (\<lambda>off. \<lparr>al_type_name = type_name, al_byte_size = byte_size, al_discr_offset = off,
               al_discr_size = discr_size, al_variants = variants\<rparr>) discr_offset))))"

definition build_layout :: "dw_unit \<Rightarrow> unit_index \<Rightarrow> nat \<Rightarrow> (async_fn_layout option, string) result" where
  "build_layout u ix coro_off =
     (case ix_names ix coro_off of
        None \<Rightarrow> Ok None
      | Some type_name \<Rightarrow>
          and_then (un_at u coro_off) (\<lambda>root.
          case List.find (\<lambda>c. en_tag c = DW_TAG_variant_part) (en_children root) of
            Some vp \<Rightarrow> build_from_variant_part u ix vp type_name (udata_or root DW_AT_byte_size 0)
          | None \<Rightarrow> end_children (en_broken root) None))"

text \<open>A hash set yields its elements in an order that the program does not choose, given by \<open>order\<close>.\<close>

fun insert_layouts :: "dw_unit \<Rightarrow> unit_index \<Rightarrow> nat list \<Rightarrow> async_layouts \<Rightarrow> (async_layouts, string) result" where
  "insert_layouts u ix [] layouts = Ok layouts"
| "insert_layouts u ix (off # offs) layouts =
     and_then (build_layout u ix off) (\<lambda>l.
     insert_layouts u ix offs (case l of Some layout \<Rightarrow> layouts_insert layout layouts | None \<Rightarrow> layouts))"

definition collect_unit :: "(nat list \<Rightarrow> nat list) \<Rightarrow> dw_unit \<Rightarrow> async_layouts \<Rightarrow> (async_layouts, string) result" where
  "collect_unit order u layouts =
     and_then (build_index u) (\<lambda>ix. insert_layouts u ix (order (ix_coroutines ix)) layouts)"

subsection \<open>The file\<close>

record coroutine_object =
  co_symbols :: "string option list"
  co_dynamic_symbols :: "string option list"
  co_has_debug_info :: bool
  co_units :: "(dw_unit, string) result list"

record coroutine_extract =
  cx_version :: rustc_version
  cx_layouts :: async_layouts

definition is_tokio_object :: "coroutine_object \<Rightarrow> bool" where
  "is_tokio_object f \<longleftrightarrow> (\<exists>s \<in> set (co_symbols f @ co_dynamic_symbols f).
     case s of Some n \<Rightarrow> str_contains n ''5tokio7runtime'' | None \<Rightarrow> False)"

fun extract_units :: "(nat list \<Rightarrow> nat list) \<Rightarrow> (dw_unit, string) result list \<Rightarrow> rustc_version option \<times> async_layouts
    \<Rightarrow> (rustc_version option \<times> async_layouts, string) result" where
  "extract_units order [] acc = Ok acc"
| "extract_units order (r # us) (version, layouts) =
     and_then r (\<lambda>u.
     and_then (if version = None then producer_version u else Ok version) (\<lambda>version'.
     and_then (collect_unit order u layouts) (\<lambda>layouts'. extract_units order us (version', layouts'))))"

definition version_text :: "rustc_version \<Rightarrow> string" where
  "version_text v = ''rustc '' @ show_dec (unat (rv_major v)) @ ''.'' @ show_dec (unat (rv_minor v)) @ ''.''
     @ show_dec (unat (rv_patch v)) @ '' is outside the validated coroutine-layout window''"

definition async_extract :: "(nat list \<Rightarrow> nat list) \<Rightarrow> (bytes \<Rightarrow> (coroutine_object, string) result) \<Rightarrow> bytes
    \<Rightarrow> (coroutine_extract, async_decode_error) result" where
  "async_extract order parse_object img =
     and_then (map_err AsyncObject (parse_object img)) (\<lambda>f.
     if \<not> is_tokio_object f then Err NotTokioBinary
     else if \<not> co_has_debug_info f then Err NoDebugInfo
     else and_then (map_err AsyncDwarf (extract_units order (co_units f) (None, Map.empty))) (\<lambda>(found, layouts).
     and_then (ok_or (UnsupportedLayout ''no rustc producer string in DWARF'') found) (\<lambda>version.
     if \<not> is_supported version then Err (UnsupportedLayout (version_text version))
     else if dom layouts = {} then Err NoCoroutines
     else Ok \<lparr>cx_version = version, cx_layouts = layouts\<rparr>)))"

definition load_layouts :: "(nat list \<Rightarrow> nat list) \<Rightarrow> (bytes \<Rightarrow> (coroutine_object, string) result) \<Rightarrow> bytes
    \<Rightarrow> (async_layouts \<times> rustc_version, async_decode_error) result" where
  "load_layouts order parse_object img = map_ok (\<lambda>x. (cx_layouts x, cx_version x)) (async_extract order parse_object img)"

subsection \<open>Inline children\<close>

text \<open>
  The reference: the type at \<open>t'\<close> sits at \<open>b'\<close> inside the type \<open>t\<close> at \<open>b\<close>, \<open>k\<close> wrappers deep, and no wrapper
  is itself a coroutine.
\<close>

inductive nested :: "dw_unit \<Rightarrow> unit_index \<Rightarrow> nat \<Rightarrow> nat \<Rightarrow> u64 \<Rightarrow> nat \<Rightarrow> u64 \<Rightarrow> bool" for u ix where
  nested_here: "nested u ix 0 t b t b"
| nested_inner: "t \<notin> set (ix_coroutines ix) \<Longrightarrow> read_struct u t = Ok info \<Longrightarrow> m \<in> set (si_members info)
    \<Longrightarrow> nested u ix k (mi_type_ref m) (b + mi_offset m) t' b' \<Longrightarrow> nested u ix (Suc k) t b t' b'"

inductive_simps nested_0: "nested u ix 0 t b t' b'"
inductive_simps nested_Suc: "nested u ix (Suc k) t b t' b'"

definition inline_children :: "dw_unit \<Rightarrow> unit_index \<Rightarrow> u64 option \<Rightarrow> nat \<Rightarrow> nat \<Rightarrow> u64 \<Rightarrow> child_ref set" where
  "inline_children u ix skip d t b = {c. \<exists>k t'. d + k \<le> MAX_CHILD_DEPTH \<and> nested u ix k t b t' (cr_offset c)
     \<and> t' \<in> set (ix_coroutines ix) \<and> ix_names ix t' = Some (cr_type_name c) \<and> Some (cr_offset c) \<noteq> skip}"

lemma inline_children_deep: "d > MAX_CHILD_DEPTH \<Longrightarrow> inline_children u ix skip d t b = {}"
  by (auto simp: inline_children_def)

lemma inline_children_coroutine:
  assumes "t \<in> set (ix_coroutines ix)" and "d \<le> MAX_CHILD_DEPTH"
  shows "inline_children u ix skip d t b
    = (case ix_names ix t of None \<Rightarrow> {} | Some name \<Rightarrow> if Some b \<noteq> skip then {\<lparr>cr_offset = b, cr_type_name = name\<rparr>} else {})"
proof -
  have "nested u ix k t b t' b' \<longleftrightarrow> k = 0 \<and> t' = t \<and> b' = b" for k t' b'
    using assms(1) by (cases k) (auto simp: nested_0 nested_Suc)
  with assms show ?thesis by (auto simp: inline_children_def split: option.splits intro: child_ref.equality)
qed

lemma inline_children_wrapper:
  assumes "t \<notin> set (ix_coroutines ix)" and "read_struct u t = Ok info"
  shows "inline_children u ix skip d t b
    = (\<Union>m \<in> set (si_members info). inline_children u ix skip (d + 1) (mi_type_ref m) (b + mi_offset m))" (is "?l = ?r")
proof
  show "?l \<subseteq> ?r"
  proof
    fix c assume "c \<in> ?l"
    then obtain k t' where k: "d + k \<le> MAX_CHILD_DEPTH" "nested u ix k t b t' (cr_offset c)" "t' \<in> set (ix_coroutines ix)"
      "ix_names ix t' = Some (cr_type_name c)" "Some (cr_offset c) \<noteq> skip" by (auto simp: inline_children_def)
    from k(2,3) assms obtain j where j: "k = Suc j" by (cases k) (auto simp: nested_0)
    from k(2) assms(2) obtain m where "m \<in> set (si_members info)" "nested u ix j (mi_type_ref m) (b + mi_offset m) t' (cr_offset c)"
      unfolding j by (auto simp: nested_Suc)
    with k j show "c \<in> ?r" by (auto simp: inline_children_def intro!: bexI [of _ m])
  qed
  show "?r \<subseteq> ?l"
  proof
    fix c assume "c \<in> ?r"
    then obtain m k t' where m: "m \<in> set (si_members info)" "d + 1 + k \<le> MAX_CHILD_DEPTH"
      "nested u ix k (mi_type_ref m) (b + mi_offset m) t' (cr_offset c)" "t' \<in> set (ix_coroutines ix)"
      "ix_names ix t' = Some (cr_type_name c)" "Some (cr_offset c) \<noteq> skip" by (auto simp: inline_children_def)
    from nested_inner [OF assms m(1,3)] m show "c \<in> ?l"
      unfolding inline_children_def mem_Collect_eq by (intro exI [of _ "Suc k"] exI [of _ t']) auto
  qed
qed

lemma collect_exact:
  "collect_children u ix skip d t b out = Ok out' \<Longrightarrow> \<exists>new. out' = out @ new \<and> set new = inline_children u ix skip d t b"
  "collect_members u ix skip d ms b out = Ok out' \<Longrightarrow>
     \<exists>new. out' = out @ new \<and> set new = (\<Union>m \<in> set ms. inline_children u ix skip d (mi_type_ref m) (b + mi_offset m))"
proof (induction u ix skip d t b out and u ix skip d ms b out arbitrary: out' and out' rule: collect_children_collect_members.induct)
  case (1 u ix skip d t b out)
  consider "d > MAX_CHILD_DEPTH" | "d \<le> MAX_CHILD_DEPTH" "t \<in> set (ix_coroutines ix)"
    | info where "d \<le> MAX_CHILD_DEPTH" "t \<notin> set (ix_coroutines ix)" "read_struct u t = Ok info"
        "collect_members u ix skip (d + 1) (si_members info) b out = Ok out'"
    using "1.prems" by (auto simp: collect_children.simps and_then_eq_Ok split: if_splits)
  then show ?case
  proof cases
    case 1
    with "1.prems" show ?thesis by (simp add: collect_children.simps inline_children_deep)
  next
    case 2
    with "1.prems" show ?thesis
      by (auto simp: collect_children.simps inline_children_coroutine split: option.splits)
  next
    case 3
    with "1.IH" [of info out'] show ?thesis by (simp add: inline_children_wrapper)
  qed
next
  case (3 u ix skip d m ms b out)
  from "3.prems" obtain mid where mid: "collect_children u ix skip d (mi_type_ref m) (b + mi_offset m) out = Ok mid"
    "collect_members u ix skip d ms b mid = Ok out'" by (auto simp: and_then_eq_Ok)
  from "3.IH"(1) [OF mid(1)] "3.IH"(2) [OF mid(2)] show ?case by auto
qed simp

text \<open>
  C35. Inline children are found exactly: the children recorded for a suspended state are the coroutines
  that sit inside the state's members behind at most \<open>MAX_CHILD_DEPTH\<close> wrapper types, each at the sum of the
  member offsets that lead to it, except what sits at the offset of the awaited future.
\<close>

theorem inline_children_exact:
  assumes "read_suspend u ix kind loc members = Ok info"
  shows "set (vi_children info) = {c. \<exists>m \<in> set members. \<exists>k t'. k \<le> MAX_CHILD_DEPTH
      \<and> nested u ix k (mi_type_ref m) (mi_offset m) t' (cr_offset c) \<and> t' \<in> set (ix_coroutines ix)
      \<and> ix_names ix t' = Some (cr_type_name c) \<and> Some (cr_offset c) \<noteq> map_option cr_offset (vi_awaitee info)}"
proof -
  from assms obtain aw where aw: "vi_awaitee info = aw" "collect_members u ix (map_option cr_offset aw) 0 members 0 [] = Ok (vi_children info)"
    by (auto simp: read_suspend_def Let_def map_ok_eq_Ok)
  from collect_exact(2) [OF aw(2)] aw(1) show ?thesis by (auto simp: inline_children_def)
qed

subsection \<open>Soundness of the layouts\<close>

definition variant_sound :: "variant_info \<Rightarrow> bool" where
  "variant_sound v \<longleftrightarrow> (\<not> is_suspend (vi_kind v) \<longrightarrow> v = variant_terminal (vi_kind v))
     \<and> (\<forall>c \<in> set (vi_children v). Some (cr_offset c) \<noteq> map_option cr_offset (vi_awaitee v))"

definition variants_sound :: "(u64, variant_info) btree_map \<Rightarrow> bool" where
  "variants_sound vs \<longleftrightarrow> bt_wf vs \<and> (\<forall>d v. bt_get vs d = Some v \<longrightarrow> variant_sound v)"

definition layouts_sound :: "async_layouts \<Rightarrow> bool" where
  "layouts_sound layouts \<longleftrightarrow> (\<forall>name l. layouts name = Some l \<longrightarrow> al_type_name l = name \<and> variants_sound (al_variants l))"

lemma variants_sound_insert: "variants_sound vs \<Longrightarrow> variant_sound v \<Longrightarrow> variants_sound (bt_insert d v vs)"
  by (auto simp: variants_sound_def bt.wf_insert bt.get_insert)

lemma read_suspend_sound:
  assumes "read_suspend u ix kind loc members = Ok info"
  shows "vi_kind info = kind" and "is_suspend kind \<Longrightarrow> variant_sound info"
proof -
  from assms obtain aw where aw: "vi_kind info = kind" "vi_awaitee info = aw"
    "collect_members u ix (map_option cr_offset aw) 0 members 0 [] = Ok (vi_children info)"
    by (auto simp: read_suspend_def Let_def map_ok_eq_Ok)
  show "vi_kind info = kind" by (rule aw(1))
  from collect_exact(2) [OF aw(3)] aw(1,2) show "is_suspend kind \<Longrightarrow> variant_sound info"
    by (auto simp: variant_sound_def inline_children_def)
qed

lemma variant_terminal_sound: "variant_sound (variant_terminal kind)"
  by (simp add: variant_sound_def variant_terminal_def)

lemma read_variant_sound: "read_variant u ix e = Ok (Some (d, info)) \<Longrightarrow> variant_sound info"
  by (auto simp: read_variant_def Let_def and_then_eq_Ok map_ok_eq_Ok end_children_def variant_terminal_sound
      split: list.splits option.splits if_splits dest: read_suspend_sound(2))

lemma variant_part_sound:
  "variant_part_entries u ix r cs (off, sz, vs) = Ok (off', sz', vs') \<Longrightarrow> variants_sound vs \<Longrightarrow> variants_sound vs'"
proof (induction u ix r cs "(off, sz, vs)" arbitrary: off sz vs rule: variant_part_entries.induct)
  case (2 u ix r c cs off sz vs)
  have ins: "variants_sound (case r of Some (value, info) \<Rightarrow> bt_insert value info vs | None \<Rightarrow> vs)"
    if "read_variant u ix c = Ok r" for r
    using that 2(5) by (cases r) (auto intro: variants_sound_insert read_variant_sound)
  from 2 ins show ?case by (auto simp: and_then_eq_Ok split: if_splits)
qed simp

lemma build_layout_sound:
  assumes "build_layout u ix off = Ok (Some l)"
  shows "ix_names ix off = Some (al_type_name l) \<and> variants_sound (al_variants l)"
proof -
  have "variants_sound []" by (simp add: variants_sound_def bt.wf_empty bt.get_empty)
  with assms show ?thesis
    by (auto simp: build_layout_def build_from_variant_part_def and_then_eq_Ok end_children_def
        split: option.splits dest!: variant_part_sound)
qed

lemma insert_layouts_sound: "insert_layouts u ix offs layouts = Ok layouts' \<Longrightarrow> layouts_sound layouts \<Longrightarrow> layouts_sound layouts'"
proof (induction offs arbitrary: layouts)
  case (Cons off offs)
  from Cons.prems(1) obtain l where l: "build_layout u ix off = Ok l"
    and rest: "insert_layouts u ix offs (case l of Some x \<Rightarrow> layouts_insert x layouts | None \<Rightarrow> layouts) = Ok layouts'"
    by (auto simp: and_then_eq_Ok)
  have "layouts_sound (case l of Some x \<Rightarrow> layouts_insert x layouts | None \<Rightarrow> layouts)"
    using Cons.prems(2) build_layout_sound [of u ix off] l by (cases l) (auto simp: layouts_sound_def layouts_insert_def)
  with Cons.IH rest show ?case by blast
qed simp

lemma extract_units_sound:
  "extract_units order us (v, layouts) = Ok (v', layouts') \<Longrightarrow> layouts_sound layouts \<Longrightarrow> layouts_sound layouts'"
proof (induction us arbitrary: v layouts)
  case (Cons u us)
  then show ?case by (auto simp: and_then_eq_Ok collect_unit_def dest!: insert_layouts_sound split: if_splits)
qed simp

lemma load_layouts_Ok:
  assumes "load_layouts order parse_object img = Ok (layouts, version)"
  shows "is_supported version \<and> layouts_sound layouts \<and> (\<exists>name. layouts name \<noteq> None)
    \<and> (\<exists>f. parse_object img = Ok f \<and> is_tokio_object f \<and> co_has_debug_info f)"
proof -
  from assms obtain f where f: "parse_object img = Ok f" "is_tokio_object f" "co_has_debug_info f"
    "extract_units order (co_units f) (None, Map.empty) = Ok (Some version, layouts)" "is_supported version" "dom layouts \<noteq> {}"
    by (auto simp: load_layouts_def async_extract_def map_ok_eq_Ok and_then_eq_Ok split: if_splits)
  moreover have "layouts_sound Map.empty" by (simp add: layouts_sound_def)
  ultimately show ?thesis using extract_units_sound by (auto simp: dom_def)
qed

lemma layouts_sound_awaits: "layouts_sound layouts \<Longrightarrow> awaits_when_suspended layouts"
  by (auto simp: layouts_sound_def variants_sound_def variant_sound_def awaits_when_suspended_def variant_for_def variant_terminal_def)
    (metis option.distinct(1) variant_info.select_convs(3))

text \<open>
  C34. Extracted layouts are sound: whenever \<open>load_layouts\<close> answers, the file is a Tokio object with debug
  information and a supported compiler, at least one layout was found, every layout is filed under its own
  name, a state that is not suspended has neither an awaited future nor children nor a location, and no
  child sits at the offset of the awaited future.
\<close>

theorem extracted_layouts_sound:
  assumes "load_layouts order parse_object img = Ok (layouts, version)"
  shows "(\<exists>f. parse_object img = Ok f \<and> is_tokio_object f \<and> co_has_debug_info f) \<and> is_supported version
    \<and> (\<exists>name. layouts name \<noteq> None)
    \<and> (\<forall>name l. layouts name = Some l \<longrightarrow> al_type_name l = name \<and> sorted_wrt (<) (map fst (al_variants l))
         \<and> (\<forall>d v. variant_for l d = Some v \<longrightarrow>
              (\<not> is_suspend (vi_kind v) \<longrightarrow> v = variant_terminal (vi_kind v))
            \<and> (\<forall>c \<in> set (vi_children v). Some (cr_offset c) \<noteq> map_option cr_offset (vi_awaitee v))))"
  using load_layouts_Ok [OF assms]
  unfolding layouts_sound_def variants_sound_def variant_sound_def variant_for_def bt_wf_def by blast

subsection \<open>Decoded tasks\<close>

definition task_explained :: "async_layouts \<Rightarrow> process_view \<Rightarrow> decoded_node \<Rightarrow> bool" where
  "task_explained layouts view n \<longleftrightarrow> (\<exists>layout header. layouts (dn_type_name n) = Some layout
     \<and> async_task_state view (dn_base n) layout layouts header = Ok (dn_state n)
     \<and> async_wake_cause view (dn_base n) layout layouts = Ok (dn_wake n))"

lemma expand_explained:
  "expand fuel layouts view base ty hdr i parent nid out = Some (Ok (nid', out')) \<Longrightarrow>
     list_all (task_explained layouts view) out \<Longrightarrow> list_all (task_explained layouts view) out'"
  "expand_children fuel layouts view children i nid out = Some (Ok (nid', out')) \<Longrightarrow>
     list_all (task_explained layouts view) out \<Longrightarrow> list_all (task_explained layouts view) out'"
proof (induction fuel layouts view base ty hdr i parent nid out and fuel layouts view children i nid out
    arbitrary: nid' out' and nid' out' rule: expand_expand_children.induct)
  case (2 fuel layouts view base ty hdr i parent nid out)
  from "2.prems"(1) obtain layout state wake children where
    len: "\<not> MAX_TASKS \<le> length out" and lay: "layouts ty = Some layout"
    and dec: "and_then (async_task_state view base layout layouts hdr) (\<lambda>state.
              and_then (async_wake_cause view base layout layouts) (\<lambda>wake.
              map_ok (\<lambda>children. (state, wake, children)) (fan_out_children view base layout))) = Ok (state, wake, children)"
    and ch: "expand_children fuel layouts view children i nid
       (out @ [\<lparr>dn_id = i, dn_parent = parent, dn_base = base, dn_type_name = ty, dn_state = state, dn_wake = wake\<rparr>]) = Some (Ok (nid', out'))"
    by (auto split: if_splits result.splits prod.splits option.splits simp del: and_then.simps)
  have "task_explained layouts view \<lparr>dn_id = i, dn_parent = parent, dn_base = base, dn_type_name = ty, dn_state = state, dn_wake = wake\<rparr>"
    using dec lay by (auto simp: task_explained_def and_then_eq_Ok map_ok_eq_Ok)
  with "2.prems"(2) have "list_all (task_explained layouts view)
      (out @ [\<lparr>dn_id = i, dn_parent = parent, dn_base = base, dn_type_name = ty, dn_state = state, dn_wake = wake\<rparr>])" by simp
  from "2.IH" [OF len _ _ _ _ ch this] lay dec show ?case by auto
next
  case (4 fuel layouts view child_base child_type children i nid out)
  from "4.prems"(1) obtain n1 out1 where
    e: "expand fuel layouts view child_base child_type None nid (Some i) (nid + 1) out = Some (Ok (n1, out1))"
    and c: "expand_children fuel layouts view children i n1 out1 = Some (Ok (nid', out'))"
    by (auto split: option.splits result.splits prod.splits)
  from "4.IH"(2) [OF e refl refl c "4.IH"(1) [OF e "4.prems"(2)]] show ?case .
qed auto

lemma expand_roots_explained:
  "expand_roots fuel layouts view roots nid out = Some (Ok (nid', out')) \<Longrightarrow>
     list_all (task_explained layouts view) out \<Longrightarrow> list_all (task_explained layouts view) out'"
proof (induction roots arbitrary: nid out)
  case (Cons root roots)
  from Cons.prems(1) obtain n1 out1 where
    e: "expand fuel layouts view (ro_base root) (ro_type_name root) (ro_header_addr root) (ro_id root) None nid out = Some (Ok (n1, out1))"
    and rest: "expand_roots fuel layouts view roots n1 out1 = Some (Ok (nid', out'))"
    by (auto split: option.splits result.splits prod.splits)
  from Cons.IH [OF rest expand_explained(1) [OF e Cons.prems(2)]] show ?case .
qed simp

lemma tokio_node_explained:
  assumes "tokio_nodes variant d view = Ok nodes" and "tokio_node_for nodes task = Ok n"
  shows "task_explained (td_layouts d) view n"
proof -
  obtain r where "tokio_enumerate variant (Suc MAX_TASKS) d view = Some r" using tokio_enumerate_total [of variant d view] by blast
  with assms(1) have "tokio_enumerate variant (Suc MAX_TASKS) d view = Some (Ok nodes)" by (simp add: tokio_nodes_def)
  then have "\<exists>roots nid nid'. expand_roots (Suc MAX_TASKS) (td_layouts d) view roots nid [] = Some (Ok (nid', nodes))"
    by (auto simp: tokio_enumerate_def Let_def map_ok_eq_Ok split: result.splits)
  then have "list_all (task_explained (td_layouts d) view) nodes" using expand_roots_explained by fastforce
  moreover have "n \<in> set nodes" using assms(2) by (auto simp: tokio_node_for_def find_Some_iff)
  ultimately show ?thesis by (simp add: list_all_iff)
qed


subsection \<open>The order of a hash set\<close>

definition insert_built :: "dw_unit \<Rightarrow> unit_index \<Rightarrow> nat \<Rightarrow> async_layouts \<Rightarrow> async_layouts" where
  "insert_built u ix off layouts = (case build_layout u ix off of Ok (Some l) \<Rightarrow> layouts_insert l layouts | _ \<Rightarrow> layouts)"

lemma insert_layouts_fold:
  "insert_layouts u ix offs layouts = Ok layouts' \<longleftrightarrow>
     (\<forall>off \<in> set offs. is_ok (build_layout u ix off)) \<and> layouts' = fold (insert_built u ix) offs layouts"
proof (induction offs arbitrary: layouts)
  case (Cons off offs)
  then show ?case by (cases "build_layout u ix off") (auto simp: insert_built_def split: option.splits)
qed auto

lemma insert_built_commute:
  assumes "inj_on (ix_names ix) offs" and "x \<in> offs" and "y \<in> offs"
  shows "insert_built u ix x \<circ> insert_built u ix y = insert_built u ix y \<circ> insert_built u ix x"
proof (cases "x = y")
  case False
  with assms have "ix_names ix x \<noteq> ix_names ix y" by (auto dest: inj_onD)
  then show ?thesis
    by (auto simp: insert_built_def layouts_insert_def fun_eq_iff split: result.splits option.splits dest!: build_layout_sound)
qed simp

text \<open>
  The layouts do not depend on the order of the hash set: when the coroutines of a unit have different
  qualified names, collecting them in any order gives the same layouts.
\<close>

theorem layouts_order_independent:
  assumes "build_index u = Ok ix" and "inj_on (ix_names ix) (set (ix_coroutines ix))"
    and "mset (order (ix_coroutines ix)) = mset (ix_coroutines ix)" and "mset (order' (ix_coroutines ix)) = mset (ix_coroutines ix)"
    and "collect_unit order u layouts = Ok layouts'"
  shows "collect_unit order' u layouts = Ok layouts'"
proof -
  let ?a = "order (ix_coroutines ix)" and ?b = "order' (ix_coroutines ix)"
  have sets: "set ?a = set (ix_coroutines ix)" "set ?b = set (ix_coroutines ix)" using assms(3,4) by (metis set_mset_mset)+
  have "fold (insert_built u ix) ?a = fold (insert_built u ix) ?b"
    using assms(2-4) sets by (intro fold_multiset_equiv) (auto intro: insert_built_commute)
  with assms(1,5) sets show ?thesis by (simp add: collect_unit_def insert_layouts_fold)
qed

subsection \<open>Witnesses\<close>

text \<open>A binary whose \<open>outer\<close> awaits \<open>inner\<close>, which sleeps.\<close>

definition demo_entry :: "nat \<Rightarrow> dw_tag \<Rightarrow> string \<Rightarrow> (dw_at \<Rightarrow> u64 option) \<Rightarrow> (dw_at \<Rightarrow> nat option) \<Rightarrow> dw_entry list \<Rightarrow> dw_entry" where
  "demo_entry off tag name ud refs children = DwEntry off tag (Ok (Some name)) ud (\<lambda>a. Ok (refs a)) children None"

definition demo_member :: "nat \<Rightarrow> string \<Rightarrow> u64 \<Rightarrow> nat \<Rightarrow> dw_entry" where
  "demo_member off name loc ty = demo_entry off DW_TAG_member name [DW_AT_data_member_location \<mapsto> loc] [DW_AT_type \<mapsto> ty] []"

definition demo_struct :: "nat \<Rightarrow> string \<Rightarrow> dw_entry list \<Rightarrow> dw_entry" where
  "demo_struct off name children = demo_entry off DW_TAG_structure_type name [DW_AT_byte_size \<mapsto> 32] Map.empty children"

definition demo_namespace :: "string \<Rightarrow> dw_entry list \<Rightarrow> dw_entry" where
  "demo_namespace name children = demo_entry 0 DW_TAG_namespace name Map.empty Map.empty children"

definition demo_variant :: "u64 \<Rightarrow> nat \<Rightarrow> dw_entry" where
  "demo_variant d ty = demo_entry 0 DW_TAG_variant ''v'' [DW_AT_discr_value \<mapsto> d] Map.empty [demo_member 0 ''s'' 0 ty]"

definition demo_coroutine :: "nat \<Rightarrow> nat \<Rightarrow> dw_entry" where
  "demo_coroutine off suspended = demo_struct off ''{async_fn_env#0}''
     [demo_entry 0 DW_TAG_variant_part ''p'' Map.empty [DW_AT_discr \<mapsto> 9]
        [demo_member 9 ''__state'' 0 7, demo_variant 0 5, demo_variant 3 suspended]]"

definition demo_type :: "nat \<Rightarrow> dw_entry" where
  "demo_type off =
     (if off = 10 then demo_coroutine 10 20
      else if off = 50 then demo_coroutine 50 25
      else if off = 5 then demo_struct 5 ''Unresumed'' []
      else if off = 7 then demo_entry 7 DW_TAG_other ''u8'' [DW_AT_byte_size \<mapsto> 1] Map.empty []
      else if off = 20 then demo_struct 20 ''Suspend0'' [demo_member 0 ''__awaitee'' 8 50]
      else if off = 25 then demo_struct 25 ''Suspend0'' [demo_member 0 ''__awaitee'' 8 30]
      else if off = 40 then demo_struct 40 ''MaybeDone'' [demo_member 0 ''future'' 4 50]
      else demo_struct off ''Sleep'' [])"

definition demo_unit :: dw_unit where
  "demo_unit = \<lparr>un_root = Ok (demo_entry 0 DW_TAG_other ''main.rs'' Map.empty Map.empty
        [demo_namespace ''m'' [demo_namespace ''outer'' [demo_type 10], demo_namespace ''inner'' [demo_type 50]],
         demo_namespace ''tokio'' [demo_namespace ''time'' [demo_namespace ''sleep'' [demo_type 30]]]]),
     un_at = \<lambda>off. Ok (demo_type off), un_producer = Ok (Some ''clang LLVM (rustc version 1.85.1 (4eb161250))''), un_line_files = None\<rparr>"

definition demo_index :: unit_index where
  "demo_index = \<lparr>ix_names = [10 \<mapsto> ''m::outer::{async_fn_env#0}'', 50 \<mapsto> ''m::inner::{async_fn_env#0}'',
     30 \<mapsto> ''tokio::time::sleep::Sleep''], ix_coroutines = [10, 50]\<rparr>"

definition demo_coroutine_object :: coroutine_object where
  "demo_coroutine_object = \<lparr>co_symbols = [Some ''_ZN5tokio7runtime4task''], co_dynamic_symbols = [], co_has_debug_info = True,
     co_units = [Ok demo_unit]\<rparr>"

lemmas demo_entries = demo_type_def demo_coroutine_def demo_variant_def demo_namespace_def demo_struct_def demo_member_def demo_entry_def

lemma demo_build_index: "build_index demo_unit = Ok demo_index"
  by (simp add: build_index_def demo_unit_def demo_entries enter_entry_def index_type_def qualify_def coroutine_name_def starts_with_def
      end_children_def demo_index_def)

lemma demo_read_struct:
  "read_struct demo_unit 5 = Ok \<lparr>si_local_name = ''Unresumed'', si_members = []\<rparr>"
  "read_struct demo_unit 20 = Ok \<lparr>si_local_name = ''Suspend0'', si_members = [\<lparr>mi_name = ''__awaitee'', mi_offset = 8, mi_type_ref = 50\<rparr>]\<rparr>"
  "read_struct demo_unit 25 = Ok \<lparr>si_local_name = ''Suspend0'', si_members = [\<lparr>mi_name = ''__awaitee'', mi_offset = 8, mi_type_ref = 30\<rparr>]\<rparr>"
  "read_struct demo_unit 30 = Ok \<lparr>si_local_name = ''Sleep'', si_members = []\<rparr>"
  "read_struct demo_unit 40 = Ok \<lparr>si_local_name = ''MaybeDone'', si_members = [\<lparr>mi_name = ''future'', mi_offset = 4, mi_type_ref = 50\<rparr>]\<rparr>"
  by (simp_all add: read_struct_def demo_unit_def demo_entries read_entry_members_def push_member_def name_or_default_def
      udata_or_def end_children_def)

lemma demo_kinds: "from_struct_name ''Unresumed'' = Some Unresumed" "from_struct_name ''Suspend0'' = Some (Suspend 0)"
  by (simp_all add: from_struct_name_def starts_with_def parse_u16_def is_digit_char_def chars_number_def digits_value_def)

lemma demo_suspends:
  "read_suspend demo_unit demo_index (Suspend 0) None [\<lparr>mi_name = ''__awaitee'', mi_offset = 8, mi_type_ref = 50\<rparr>]
     = Ok \<lparr>vi_kind = Suspend 0, vi_await_location = None, vi_awaitee = Some \<lparr>cr_offset = 8, cr_type_name = ''m::inner::{async_fn_env#0}''\<rparr>,
           vi_children = []\<rparr>"
  "read_suspend demo_unit demo_index (Suspend 0) None [\<lparr>mi_name = ''__awaitee'', mi_offset = 8, mi_type_ref = 30\<rparr>]
     = Ok \<lparr>vi_kind = Suspend 0, vi_await_location = None, vi_awaitee = Some \<lparr>cr_offset = 8, cr_type_name = ''tokio::time::sleep::Sleep''\<rparr>,
           vi_children = []\<rparr>"
  by (simp_all add: read_suspend_def child_ref_of_def demo_index_def collect_children.simps MAX_CHILD_DEPTH_def demo_read_struct)

lemma demo_read_variant:
  "read_variant demo_unit demo_index (demo_variant 0 5) = Ok (Some (0, variant_terminal Unresumed))"
  "read_variant demo_unit demo_index (demo_variant 3 20) = Ok (Some (3, \<lparr>vi_kind = Suspend 0, vi_await_location = None,
     vi_awaitee = Some \<lparr>cr_offset = 8, cr_type_name = ''m::inner::{async_fn_env#0}''\<rparr>, vi_children = []\<rparr>))"
  "read_variant demo_unit demo_index (demo_variant 3 25) = Ok (Some (3, \<lparr>vi_kind = Suspend 0, vi_await_location = None,
     vi_awaitee = Some \<lparr>cr_offset = 8, cr_type_name = ''tokio::time::sleep::Sleep''\<rparr>, vi_children = []\<rparr>))"
  by (simp_all add: read_variant_def demo_variant_def demo_member_def demo_entry_def udata_or_def demo_read_struct demo_kinds demo_suspends
      decl_location_def)

lemma demo_layout_from:
  assumes "read_variant demo_unit demo_index (demo_variant 3 st) = Ok (Some (3, info))"
  shows "build_from_variant_part demo_unit demo_index (hd (en_children (demo_coroutine off st))) name 32
    = Ok (Some \<lparr>al_type_name = name, al_byte_size = 32, al_discr_offset = 0, al_discr_size = 1,
        al_variants = [(0, variant_terminal Unresumed), (3, info)]\<rparr>)"
proof -
  have tags: "en_tag (demo_variant d t) = DW_TAG_variant" for d t by (simp add: demo_variant_def demo_entry_def)
  have size: "discr_member_size demo_unit (demo_member 9 ''__state'' 0 7) = Ok (Some 1)"
    by (simp add: discr_member_size_def demo_unit_def demo_entries)
  have vp: "hd (en_children (demo_coroutine off st)) = demo_entry 0 DW_TAG_variant_part ''p'' Map.empty [DW_AT_discr \<mapsto> 9]
      [demo_member 9 ''__state'' 0 7, demo_variant 0 5, demo_variant 3 st]"
    by (simp add: demo_coroutine_def demo_struct_def demo_entry_def)
  have m: "en_tag (demo_member 9 ''__state'' 0 7) = DW_TAG_member" "en_offset (demo_member 9 ''__state'' 0 7) = 9"
    "en_udata (demo_member 9 ''__state'' 0 7) DW_AT_data_member_location = Some 0"
    by (simp_all add: demo_member_def demo_entry_def)
  show ?thesis unfolding vp
    by (simp add: build_from_variant_part_def demo_entry_def [of 0 DW_TAG_variant_part] end_children_def tags size m demo_read_variant(1) assms)
qed

lemma demo_build_layout:
  "build_layout demo_unit demo_index 10
     = Ok (Some (demo_async_layout ''m::outer::{async_fn_env#0}'' ''m::inner::{async_fn_env#0}''))"
  "build_layout demo_unit demo_index 50
     = Ok (Some (demo_async_layout ''m::inner::{async_fn_env#0}'' ''tokio::time::sleep::Sleep''))"
proof -
  have co: "un_at demo_unit 10 = Ok (demo_coroutine 10 20)" "un_at demo_unit 50 = Ok (demo_coroutine 50 25)"
    by (simp_all add: demo_unit_def demo_type_def)
  have find: "List.find (\<lambda>c. en_tag c = DW_TAG_variant_part) (en_children (demo_coroutine off st)) = Some (hd (en_children (demo_coroutine off st)))"
    "udata_or (demo_coroutine off st) DW_AT_byte_size 0 = 32" for off st
    by (simp_all add: demo_coroutine_def demo_struct_def demo_entry_def udata_or_def)
  have ix: "ix_names demo_index 10 = Some ''m::outer::{async_fn_env#0}''" "ix_names demo_index 50 = Some ''m::inner::{async_fn_env#0}''"
    by (simp_all add: demo_index_def)
  show "build_layout demo_unit demo_index 10
     = Ok (Some (demo_async_layout ''m::outer::{async_fn_env#0}'' ''m::inner::{async_fn_env#0}''))"
    using demo_layout_from [OF demo_read_variant(2), of 10] by (simp add: build_layout_def ix co find demo_async_layout_def)
  show "build_layout demo_unit demo_index 50
     = Ok (Some (demo_async_layout ''m::inner::{async_fn_env#0}'' ''tokio::time::sleep::Sleep''))"
    using demo_layout_from [OF demo_read_variant(3), of 50] by (simp add: build_layout_def ix co find demo_async_layout_def)
qed

lemma demo_collect: "collect_unit id demo_unit Map.empty = Ok demo_layouts"
  by (simp add: collect_unit_def demo_build_index, simp add: demo_index_def [THEN arg_cong, where f = ix_coroutines] demo_build_layout
      layouts_insert_def demo_layouts_def demo_async_layout_def fun_eq_iff)

lemma demo_producer: "parse_producer ''clang LLVM (rustc version 1.85.1 (4eb161250))'' = Some (rustc_version_new 1 85 1)"
  by (simp add: parse_producer_def second_part_def before_first_def starts_with_def parse_triple_def leading_number_def is_digit_char_def
      chars_number_def digits_value_def)

lemma demo_load: "load_layouts id (\<lambda>_. Ok demo_coroutine_object) img = Ok (demo_layouts, rustc_version_new 1 85 1)"
proof -
  have "dom demo_layouts \<noteq> {}" by (simp add: demo_layouts_def)
  moreover have "is_tokio_object demo_coroutine_object"
    by (simp add: is_tokio_object_def demo_coroutine_object_def str_contains_def starts_with_def)
  moreover have "is_supported (rustc_version_new 1 85 1)" by (simp add: is_supported_def rustc_version_new_def)
  moreover have "producer_version demo_unit = Ok (Some (rustc_version_new 1 85 1))"
    by (simp add: producer_version_def demo_unit_def demo_producer)
  moreover have "co_has_debug_info demo_coroutine_object" "co_units demo_coroutine_object = [Ok demo_unit]"
    by (simp_all add: demo_coroutine_object_def)
  ultimately show ?thesis by (simp add: load_layouts_def async_extract_def demo_collect)
qed

theorem extracted_layouts_sound_witness:
  "\<exists>l. demo_layouts ''m::outer::{async_fn_env#0}'' = Some l \<and> load_layouts id (\<lambda>_. Ok demo_coroutine_object) [] = Ok (demo_layouts, rustc_version_new 1 85 1)
     \<and> al_type_name l = ''m::outer::{async_fn_env#0}'' \<and> is_supported (rustc_version_new 1 85 1)"
proof -
  have "demo_layouts ''m::outer::{async_fn_env#0}'' \<noteq> None" by (simp add: demo_layouts_def)
  then obtain l where "demo_layouts ''m::outer::{async_fn_env#0}'' = Some l" by blast
  with extracted_layouts_sound [OF demo_load] demo_load show ?thesis by blast
qed

theorem layouts_order_independent_witness: "collect_unit rev demo_unit Map.empty = Ok demo_layouts"
  by (rule layouts_order_independent [OF demo_build_index _ _ _ demo_collect]) (simp_all add: demo_index_def inj_on_def)

text \<open>A state that joins \<open>inner\<close>, wrapped at offset 64, while it awaits another \<open>inner\<close> at offset 8.\<close>

definition demo_join_members :: "member_info list" where
  "demo_join_members = [\<lparr>mi_name = ''__awaitee'', mi_offset = 8, mi_type_ref = 50\<rparr>, \<lparr>mi_name = ''futures'', mi_offset = 64, mi_type_ref = 40\<rparr>]"

theorem inline_children_exact_witness:
  "\<exists>info. read_suspend demo_unit demo_index (Suspend 0) None demo_join_members = Ok info
     \<and> (\<exists>c \<in> set (vi_children info). cr_offset c = 68 \<and> nested demo_unit demo_index 1 40 64 50 68)"
proof -
  obtain info where info: "read_suspend demo_unit demo_index (Suspend 0) None demo_join_members = Ok info"
    "vi_awaitee info = Some \<lparr>cr_offset = 8, cr_type_name = ''m::inner::{async_fn_env#0}''\<rparr>"
    by (simp add: read_suspend_def child_ref_of_def demo_index_def collect_children.simps MAX_CHILD_DEPTH_def demo_read_struct demo_join_members_def)
  have nest: "nested demo_unit demo_index (Suc 0) 40 64 50 68"
    by (simp add: nested_Suc nested_0 demo_read_struct, simp add: demo_index_def)
  have "\<lparr>cr_offset = 68, cr_type_name = ''m::inner::{async_fn_env#0}''\<rparr> \<in> set (vi_children info)"
    unfolding inline_children_exact [OF info(1)] mem_Collect_eq using nest info(2)
    by (intro bexI [of _ "\<lparr>mi_name = ''futures'', mi_offset = 64, mi_type_ref = 40\<rparr>"] exI [of _ "Suc 0"] exI [of _ 50])
      (simp_all add: demo_join_members_def demo_index_def MAX_CHILD_DEPTH_def)
  with info(1) nest show ?thesis by force
qed


end
