(* ===== verification/PtraceView.thy ===== *)
theory PtraceView
  imports Unwind TokioDecoder
begin

text \<open>
  The view of a live, stopped process that decoders read (\<open>decoder/src/ptrace_view.rs\<close>): its threads with
  one unwinder each, its memory, thread pointers and the load base of its executable. The \<open>proc\<close> file
  system and the ptrace requests are parameters.

  A view that can be built is shown to satisfy what every decoder expects of a view as soon as the
  registers of its threads can be read, so that the decoders' guarantees hold on live processes.
\<close>

subsection \<open>Definitions\<close>

datatype ptrace_view_error = EnumerateThreads pid io_error | UnwinderFailed pid pid remote_error

record thread_view =
  tv_unwinder :: remote_unwinder
  tv_comm :: bytes

record ptrace_process_view =
  px_pid :: pid
  px_threads :: "(thread_id \<times> thread_view) list"

record proc_env =
  pe_remote :: remote_env
  pe_task_dir :: "pid \<Rightarrow> ((bytes option, io_error) result list, io_error) result"
  pe_comm :: "pid \<Rightarrow> pid \<Rightarrow> (bytes, io_error) result"
  pe_exe :: "pid \<Rightarrow> bytes option"
  pe_thread_pointer :: "pid \<Rightarrow> (u64 option, string) result"
  pe_errno_text :: "errno \<Rightarrow> string"
  pe_remote_text :: "remote_error \<Rightarrow> string"

fun task_dir_ids :: "(bytes option, io_error) result list \<Rightarrow> (pid list, io_error) result" where
  "task_dir_ids [] = Ok []"
| "task_dir_ids (entry # entries) =
     and_then entry (\<lambda>name.
     map_ok (\<lambda>ids. case Option.bind name parse_i32 of Some tid \<Rightarrow> tid # ids | None \<Rightarrow> ids) (task_dir_ids entries))"

definition task_ids :: "proc_env \<Rightarrow> pid \<Rightarrow> (pid list, io_error) result" where
  "task_ids env pid = and_then (pe_task_dir env pid) (\<lambda>entries. map_ok (sort_key sint) (task_dir_ids entries))"

definition read_comm :: "proc_env \<Rightarrow> pid \<Rightarrow> pid \<Rightarrow> (bytes, io_error) result" where
  "read_comm env pid tid = map_ok trim_end (pe_comm env pid tid)"

text \<open>\<open>tid as u64\<close> extends the sign; \<open>thread.0 as i32\<close> truncates.\<close>

definition thread_id_of :: "pid \<Rightarrow> thread_id" where
  "thread_id_of tid = scast tid"

fun thread_insert :: "thread_id \<Rightarrow> thread_view \<Rightarrow> (thread_id \<times> thread_view) list \<Rightarrow> (thread_id \<times> thread_view) list" where
  "thread_insert k v [] = [(k, v)]"
| "thread_insert k v ((k', v') # m) = (if k' = k then (k, v) # m else (k', v') # thread_insert k v m)"

fun view_threads :: "proc_env \<Rightarrow> pid \<Rightarrow> pid list \<Rightarrow> (thread_id \<times> thread_view) list
    \<Rightarrow> ((thread_id \<times> thread_view) list, ptrace_view_error) result" where
  "view_threads env pid [] threads = Ok threads"
| "view_threads env pid (tid # tids) threads =
     and_then (map_err (UnwinderFailed pid tid) (remote_for_pid (pe_remote env) tid)) (\<lambda>unwinder.
     view_threads env pid tids (thread_insert (thread_id_of tid)
       \<lparr>tv_unwinder = unwinder, tv_comm = or_unchanged [] (read_comm env pid tid)\<rparr> threads))"

definition view_for_pid :: "proc_env \<Rightarrow> pid \<Rightarrow> (ptrace_process_view, ptrace_view_error) result" where
  "view_for_pid env pid =
     and_then (map_err (EnumerateThreads pid) (task_ids env pid)) (\<lambda>tids.
     map_ok (\<lambda>threads. \<lparr>px_pid = pid, px_threads = threads\<rparr>) (view_threads env pid tids []))"

definition thread_name :: "ptrace_process_view \<Rightarrow> thread_id \<Rightarrow> bytes option" where
  "thread_name v th = map_option tv_comm (map_of (px_threads v) th)"

definition thread_view_of :: "ptrace_process_view \<Rightarrow> thread_id \<Rightarrow> (thread_view, decoder_error) result" where
  "thread_view_of v th = ok_or (UnknownThread th) (map_of (px_threads v) th)"

definition view_thread_ids :: "ptrace_process_view \<Rightarrow> thread_id list" where
  "view_thread_ids v = sort (map fst (px_threads v))"

definition view_registers :: "proc_env \<Rightarrow> ptrace_process_view \<Rightarrow> thread_id \<Rightarrow> (thread_registers, decoder_error) result" where
  "view_registers env v th =
     and_then (thread_view_of v th) (\<lambda>tv.
     map_ok (\<lambda>regs. \<lparr>tr_pc = ur_pc regs, tr_sp = ur_sp regs\<rparr>)
       (map_err (\<lambda>e. RegisterReadFailed th (pe_remote_text env e)) (remote_registers (pe_remote env) (tv_unwinder tv))))"

text \<open>The bytes that a short transfer does not deliver stay zero.\<close>

definition view_read_memory :: "proc_env \<Rightarrow> ptrace_process_view \<Rightarrow> u64 \<Rightarrow> nat \<Rightarrow> (bytes, decoder_error) result" where
  "view_read_memory env v addr len =
     map_ok (\<lambda>data. take len (data @ replicate len 0))
       (map_err (\<lambda>e. MemoryReadFailed addr len (pe_errno_text env e)) (rv_vm (pe_remote env) (px_pid v) addr len))"

definition read_thread_pointer_x86_64 :: "(pid \<Rightarrow> (x86_user_regs, string) result) \<Rightarrow> pid \<Rightarrow> (u64 option, string) result" where
  "read_thread_pointer_x86_64 getregs tid = map_ok (\<lambda>regs. Some (xr_fs_base regs)) (getregs tid)"

definition read_thread_pointer_aarch64 :: "(pid \<Rightarrow> (u64, string) result) \<Rightarrow> pid \<Rightarrow> (u64 option, string) result" where
  "read_thread_pointer_aarch64 get_tls tid = map_ok Some (get_tls tid)"

definition view_thread_pointer :: "proc_env \<Rightarrow> ptrace_process_view \<Rightarrow> thread_id \<Rightarrow> (u64 option, decoder_error) result" where
  "view_thread_pointer env v th =
     and_then (thread_view_of v th) (\<lambda>_. map_err (RegisterReadFailed th) (pe_thread_pointer env (ucast th)))"

definition ends_with :: "bytes \<Rightarrow> bytes \<Rightarrow> bool" where
  "ends_with suf s \<longleftrightarrow> length suf \<le> length s \<and> drop (length s - length suf) s = suf"

definition min_option :: "u64 list \<Rightarrow> u64 option" where
  "min_option xs = (if xs = [] then None else Some (Min (set xs)))"

definition executable_base :: "proc_env \<Rightarrow> pid \<Rightarrow> u64 option" where
  "executable_base env pid =
     Option.bind (pe_exe env pid) (\<lambda>exe.
     case rv_maps (pe_remote env) pid of
       Err _ \<Rightarrow> None
     | Ok maps \<Rightarrow> min_option (List.map_filter (\<lambda>line. parse_u64 16 (hd (split_bytes 45 line))) (filter (ends_with exe) (str_lines maps))))"

definition physical_frame_of :: "u64 \<Rightarrow> nat \<times> symbolized_frame \<Rightarrow> physical_frame" where
  "physical_frame_of leaf_sp = (\<lambda>(index, frame).
     \<lparr>pf_pc = sf_address frame, pf_sp = (if index = 0 then leaf_sp else 0), pf_function_name = map_option bytes_str (sf_function frame),
      pf_location = map_option (\<lambda>path. \<lparr>sl_path = bytes_str path, sl_line = (case sf_line frame of Some l \<Rightarrow> l | None \<Rightarrow> 0), sl_column = 0\<rparr>)
        (sf_file frame)\<rparr>)"

definition view_physical_frames :: "proc_env \<Rightarrow> ptrace_process_view \<Rightarrow> thread_id \<Rightarrow> (physical_frame list, decoder_error) result" where
  "view_physical_frames env v th =
     and_then (thread_view_of v th) (\<lambda>tv.
     and_then (view_registers env v th) (\<lambda>regs.
     map_ok (\<lambda>frames. map (physical_frame_of (tr_sp regs)) (enumerate 0 frames))
       (map_err (\<lambda>e. PhysicalFramesFailed th (pe_remote_text env e)) (backtrace_now (pe_remote env) (tv_unwinder tv)))))"

definition as_process_view :: "proc_env \<Rightarrow> ptrace_process_view \<Rightarrow> process_view" where
  "as_process_view env v = \<lparr>pv_thread_ids = view_thread_ids v, pv_registers = view_registers env v,
     pv_read_memory = view_read_memory env v, pv_physical_frames = view_physical_frames env v,
     pv_thread_pointer = view_thread_pointer env v, pv_executable_base = executable_base env (px_pid v)\<rparr>"

subsection \<open>The threads of a view\<close>

lemma thread_id_inj: "thread_id_of a = thread_id_of b \<Longrightarrow> a = b"
proof -
  have "(ucast (thread_id_of a) :: pid) = a" for a
    unfolding thread_id_of_def by (rule bit_word_eqI) (auto simp: bit_simps)
  then show "thread_id_of a = thread_id_of b \<Longrightarrow> a = b" by metis
qed

lemma thread_insert_map: "map_of (thread_insert k v m) = (map_of m)(k \<mapsto> v)"
  by (induction m) (auto simp: fun_eq_iff)

lemma thread_insert_keys: "fst ` set (thread_insert k v m) = insert k (fst ` set m)"
  by (induction k v m rule: thread_insert.induct) auto

lemma thread_insert_distinct: "distinct (map fst m) \<Longrightarrow> distinct (map fst (thread_insert k v m))"
  by (induction m) (auto simp: thread_insert_keys)

text \<open>Every thread's unwinder is for that thread.\<close>

definition threads_ok :: "(thread_id \<times> thread_view) list \<Rightarrow> bool" where
  "threads_ok m \<longleftrightarrow> distinct (map fst m) \<and> (\<forall>k v. map_of m k = Some v \<longrightarrow> thread_id_of (ru_pid (tv_unwinder v)) = k)"

lemma remote_for_pid_pid: "remote_for_pid env pid = Ok ru \<Longrightarrow> ru_pid ru = pid"
  by (auto simp: remote_for_pid_def and_then_eq_Ok case_prod_beta)

lemma view_threads_ok:
  "view_threads env pid tids m = Ok m' \<Longrightarrow> threads_ok m \<Longrightarrow>
     threads_ok m' \<and> fst ` set m' = fst ` set m \<union> thread_id_of ` set tids"
proof (induction tids arbitrary: m)
  case (Cons tid tids)
  from Cons.prems(1) obtain ru where ru: "remote_for_pid (pe_remote env) tid = Ok ru"
    and rest: "view_threads env pid tids (thread_insert (thread_id_of tid)
       \<lparr>tv_unwinder = ru, tv_comm = or_unchanged [] (read_comm env pid tid)\<rparr> m) = Ok m'"
    by (auto simp: and_then_eq_Ok)
  have "threads_ok (thread_insert (thread_id_of tid) \<lparr>tv_unwinder = ru, tv_comm = or_unchanged [] (read_comm env pid tid)\<rparr> m)"
    using Cons.prems(2) remote_for_pid_pid [OF ru] by (auto simp: threads_ok_def thread_insert_distinct thread_insert_map)
  from Cons.IH [OF rest this] show ?case by (auto simp: thread_insert_keys)
qed simp

lemma view_for_pid_Ok:
  assumes "view_for_pid env pid = Ok v" and "task_ids env pid = Ok tids"
  shows "px_pid v = pid" "threads_ok (px_threads v)" "set (view_thread_ids v) = thread_id_of ` set tids"
    "distinct (view_thread_ids v)" "sorted (view_thread_ids v)"
proof -
  from assms have v: "px_pid v = pid" "view_threads env pid tids [] = Ok (px_threads v)" by (auto simp: view_for_pid_def map_ok_eq_Ok)
  have "threads_ok []" by (simp add: threads_ok_def)
  from view_threads_ok [OF v(2) this] have "threads_ok (px_threads v)" "fst ` set (px_threads v) = thread_id_of ` set tids" by simp_all
  then show "px_pid v = pid" "threads_ok (px_threads v)" "set (view_thread_ids v) = thread_id_of ` set tids"
    "distinct (view_thread_ids v)" "sorted (view_thread_ids v)"
    using v(1) by (simp_all add: view_thread_ids_def threads_ok_def)
qed

lemma backtrace_now_Ok:
  assumes "remote_registers env ru = Ok regs"
  shows "\<exists>frames. backtrace_now env ru = Ok frames"
  using assms by (simp add: backtrace_now_def remote_backtrace_def unwind_symbolized_def unwind_def)

lemma thread_view_found:
  assumes "threads_ok (px_threads v)" and "th \<in> set (view_thread_ids v)"
  shows "\<exists>tv. thread_view_of v th = Ok tv \<and> thread_id_of (ru_pid (tv_unwinder tv)) = th"
proof -
  from assms(2) have "th \<in> fst ` set (px_threads v)" by (simp add: view_thread_ids_def)
  then obtain tv where "map_of (px_threads v) th = Some tv" by (metis map_of_eq_None_iff not_None_eq)
  with assms(1) show ?thesis by (auto simp: thread_view_of_def threads_ok_def)
qed

lemma view_contract:
  assumes "view_for_pid env pid = Ok v" and "task_ids env pid = Ok tids" and "\<forall>tid \<in> set tids. is_ok (rv_registers (pe_remote env) tid)"
  shows "threads_readable (as_process_view env v)" and "honest_reads (as_process_view env v)"
proof -
  note v = view_for_pid_Ok [OF assms(1,2)]
  have "is_ok (view_registers env v th) \<and> is_ok (view_physical_frames env v th)" if th: "th \<in> set (view_thread_ids v)" for th
  proof -
    from thread_view_found [OF v(2) th] obtain tv where tv: "thread_view_of v th = Ok tv" "thread_id_of (ru_pid (tv_unwinder tv)) = th" by blast
    from th v(3) obtain tid where "tid \<in> set tids" "th = thread_id_of tid" by auto
    with tv(2) thread_id_inj assms(3) have "is_ok (rv_registers (pe_remote env) (ru_pid (tv_unwinder tv)))" by metis
    then obtain regs where regs: "remote_registers (pe_remote env) (tv_unwinder tv) = Ok regs" by (auto simp: remote_registers_def is_ok_iff)
    from backtrace_now_Ok [OF regs] regs tv(1) show ?thesis by (auto simp: view_registers_def view_physical_frames_def)
  qed
  then show "threads_readable (as_process_view env v)" by (simp add: threads_readable_def as_process_view_def)
  show "honest_reads (as_process_view env v)"
    by (auto simp: honest_reads_def as_process_view_def view_read_memory_def)
qed

lemma native_decodes:
  assumes "distinct (pv_thread_ids view)"
  shows "\<exists>t. native_decode_tasks view = Ok t"
  unfolding native_decode_tasks_def
  by (rule try_from_nodes_total) (use assms in \<open>auto simp: node_root_def comp_def parents_known_def\<close>)


text \<open>Witness: one thread, besides an entry of the task directory that is not a number.\<close>

definition demo_proc :: proc_env where
  "demo_proc = \<lparr>pe_remote = demo_remote, pe_task_dir = \<lambda>_. Ok [Ok (Some (str_bytes ''7'')), Ok (Some (str_bytes ''x''))],
     pe_comm = \<lambda>_ _. Ok (str_bytes ''app''), pe_exe = \<lambda>_. Some (str_bytes ''/bin/app''), pe_thread_pointer = \<lambda>_. Ok None,
     pe_errno_text = \<lambda>_. ''EFAULT'', pe_remote_text = \<lambda>_. ''gone''\<rparr>"

lemma remote_for_pid_total: "rv_maps env pid = Ok content \<Longrightarrow> \<exists>ru. remote_for_pid env pid = Ok ru"
  by (simp add: remote_for_pid_def read_process_modules_def case_prod_beta)

lemma demo_task_ids: "task_ids demo_proc 7 = Ok [7]"
  by (simp add: task_ids_def demo_proc_def parse_i32_def parse_unsigned_def digit_value_def digits_value_def str_bytes_def)


text \<open>
  The stack pointer of the registers is given to the first reported frame, which is not the leaf frame when
  no loaded module covers the program counter (code in the kernel's shared page, or generated code).
\<close>

lemma leaf_sp_misattributed:
  "view_physical_frames (demo_proc\<lparr>pe_remote := demo_remote\<lparr>rv_registers := \<lambda>_. Ok \<lparr>ur_pc = 0x10, ur_sp = 0x7000, ur_fp = 0, ur_lr = 0\<rparr>,
       rv_iter := \<lambda>_ pc _ _. [Ok (Some pc), Ok (Some 0x400100), Ok None]\<rparr>\<rparr>)
     \<lparr>px_pid = 7, px_threads = [(7, \<lparr>tv_unwinder = demo_remote_unwinder, tv_comm = []\<rparr>)]\<rparr> 7
   = Ok [\<lparr>pf_pc = 0x400100, pf_sp = 0x7000, pf_function_name = Some (bytes_str (str_bytes ''main'')), pf_location = None\<rparr>]"
  by (simp add: view_physical_frames_def thread_view_of_def view_registers_def remote_registers_def backtrace_now_def remote_backtrace_def
      unwind_symbolized_def unwind_def demo_proc_def demo_remote_def demo_remote_unwinder_def resolve_def in_range_def demo_loader_def
      physical_frame_of_def)

subsection \<open>The load base of the executable\<close>

lemma ends_with_append: "ends_with suf (s @ suf)"
  by (simp add: ends_with_def)

lemma named_line: "ends_with (join_blank (vm_name m)) (mapping_text m)"
  using ends_with_append [of "join_blank (vm_name m)" "(hex8 (vm_start m) @ 45 # hex8 (vm_end m)) @ replicate (Suc 0) 32 @ vm_perms m
     @ replicate (Suc 0) 32 @ hex8 (vm_offset m) @ replicate (Suc 0) 32 @ vm_dev m @ replicate (Suc 0) 32 @ vm_inode m
     @ replicate (Suc (vm_pad m)) 32"]
  by (simp only: mapping_text_def append_assoc)

lemma line_start: "parse_u64 16 (hd (split_bytes 45 (mapping_text m))) = Some (vm_start m)"
proof -
  have "45 \<notin> set (hex8 (vm_start m))" using hex8_bytes [of 45 "vm_start m"] by auto
  then have "takeWhile (\<lambda>x. x \<noteq> 45) (mapping_text m) = hex8 (vm_start m)" by (auto simp: mapping_text_def takeWhile_append)
  then show ?thesis by (simp add: hd_split_bytes parse_hex8)
qed

lemma executable_base_listing:
  assumes "\<forall>m \<in> set ms. mapping_ok m" and "rv_maps (pe_remote env) pid = Ok (maps_text ms)" and "pe_exe env pid = Some exe"
  shows "executable_base env pid = min_option (map vm_start (filter (\<lambda>m. ends_with exe (mapping_text m)) ms))"
  using assms(2,3)
  by (simp add: executable_base_def str_lines_maps [OF assms(1)] filter_map comp_def map_filter_def line_start)

text \<open>
  The load base of the executable is its lowest mapping: when the kernel lists the process's mappings,
  at least one of them is of the executable, and no other mapped file's name ends in the executable's whole
  path, \<open>executable_base\<close> returns the lowest start address of the executable's mappings.
\<close>

theorem executable_base_lowest:
  assumes "\<forall>m \<in> set ms. mapping_ok m" and "rv_maps (pe_remote env) pid = Ok (maps_text ms)" and "pe_exe env pid = Some exe"
    and "\<forall>m \<in> set ms. ends_with exe (mapping_text m) \<longrightarrow> join_blank (vm_name m) = exe" and "\<exists>m \<in> set ms. join_blank (vm_name m) = exe"
  shows "\<exists>m \<in> set ms. join_blank (vm_name m) = exe \<and> executable_base env pid = Some (vm_start m)
    \<and> (\<forall>m' \<in> set ms. join_blank (vm_name m') = exe \<longrightarrow> vm_start m \<le> vm_start m')"
proof -
  let ?own = "filter (\<lambda>m. ends_with exe (mapping_text m)) ms"
  have own: "m \<in> set ?own \<longleftrightarrow> m \<in> set ms \<and> join_blank (vm_name m) = exe" for m using assms(4) named_line [of m] by auto
  with assms(5) have "?own \<noteq> []" by (metis empty_iff list.set(1))
  then have "vm_start ` set ?own \<noteq> {}" by (simp only: image_is_empty set_empty not_False_eq_True)
  then have "Min (vm_start ` set ?own) \<in> vm_start ` set ?own" by (intro Min_in) simp_all
  then obtain m where m: "m \<in> set ?own" "vm_start m = Min (vm_start ` set ?own)" by auto
  have "vm_start m \<le> vm_start m'" if "m' \<in> set ?own" for m' unfolding m(2) using that by (intro Min_le) auto
  moreover have "executable_base env pid = Some (vm_start m)"
    unfolding executable_base_listing [OF assms(1-3)] min_option_def m(2) using \<open>?own \<noteq> []\<close> by simp
  ultimately show ?thesis using m(1) own by (intro bexI [of _ m]) simp_all
qed

text \<open>Witness: the mappings of the demo process.\<close>

lemma ends_with_iff: "ends_with e s \<longleftrightarrow> (\<exists>p. s = p @ e)"
proof
  assume "ends_with e s"
  then show "\<exists>p. s = p @ e" unfolding ends_with_def by (metis append_take_drop_id)
qed (auto simp: ends_with_def)

lemma ends_with_word:
  assumes "32 \<notin> set e" and "ends_with e (s @ 32 # t)"
  shows "ends_with e t"
proof -
  from assms(2) obtain p where p: "s @ 32 # t = p @ e" unfolding ends_with_iff by blast
  then obtain us where "s = p @ us \<and> us @ 32 # t = e \<or> s @ us = p \<and> 32 # t = us @ e" by (auto simp: append_eq_append_conv2)
  with assms(1) show ?thesis by (cases us) (auto simp: ends_with_iff)
qed

lemma join_blank_last:
  assumes "ws \<noteq> []"
  shows "32 # join_blank ws = concat (map ((#) 32) (butlast ws)) @ 32 # last ws"
proof -
  have "32 # join_blank ws = concat (map ((#) 32) ws)" using assms by (cases ws) (auto simp: join_blank_def)
  also have "\<dots> = concat (map ((#) 32) (butlast ws @ [last ws]))" using append_butlast_last_id [OF assms] by simp
  finally show ?thesis by simp
qed

lemma ends_with_last_word:
  assumes "32 \<notin> set e" and "vm_name m \<noteq> []" and "ends_with e (mapping_text m)"
  shows "ends_with e (last (vm_name m))"
proof -
  let ?fields = "(hex8 (vm_start m) @ 45 # hex8 (vm_end m)) @ replicate (Suc 0) 32 @ vm_perms m @ replicate (Suc 0) 32
     @ hex8 (vm_offset m) @ replicate (Suc 0) 32 @ vm_dev m @ replicate (Suc 0) 32 @ vm_inode m"
  have "replicate (Suc (vm_pad m)) 32 @ join_blank (vm_name m) = replicate (vm_pad m) 32 @ 32 # join_blank (vm_name m)"
    by (simp add: replicate_app_Cons_same)
  then have "mapping_text m = (?fields @ replicate (vm_pad m) 32 @ concat (map ((#) 32) (butlast (vm_name m)))) @ 32 # last (vm_name m)"
    by (simp only: mapping_text_def join_blank_last [OF assms(2)] append_assoc)
  with assms(1,3) show ?thesis by (metis ends_with_word)
qed

theorem executable_base_lowest_witness: "executable_base demo_proc 7 = Some 0x400000"
proof -
  have ok: "\<forall>m \<in> set demo_maps. mapping_ok m" by (simp add: demo_maps_def demo_mapping_def mapping_ok_def plain_def str_bytes_def)
  have env: "rv_maps (pe_remote demo_proc) 7 = Ok (maps_text demo_maps)" "pe_exe demo_proc 7 = Some (str_bytes ''/bin/app'')"
    by (simp_all add: demo_proc_def demo_remote_def)
  have "\<forall>m \<in> set demo_maps. ends_with (str_bytes ''/bin/app'') (last (vm_name m)) \<longrightarrow> join_blank (vm_name m) = str_bytes ''/bin/app''"
    "\<forall>m \<in> set demo_maps. vm_name m \<noteq> []"
    by (simp_all add: demo_maps_def demo_mapping_def ends_with_def str_bytes_def join_blank_def)
  then have "\<forall>m \<in> set demo_maps. ends_with (str_bytes ''/bin/app'') (mapping_text m) \<longrightarrow> join_blank (vm_name m) = str_bytes ''/bin/app''"
    using ends_with_last_word by (simp add: str_bytes_def)
  moreover have "\<exists>m \<in> set demo_maps. join_blank (vm_name m) = str_bytes ''/bin/app''"
    by (simp add: demo_maps_def demo_mapping_def join_blank_def)
  ultimately obtain m where "m \<in> set demo_maps" "join_blank (vm_name m) = str_bytes ''/bin/app''" "executable_base demo_proc 7 = Some (vm_start m)"
    "\<forall>m' \<in> set demo_maps. join_blank (vm_name m') = str_bytes ''/bin/app'' \<longrightarrow> vm_start m \<le> vm_start m'"
    using executable_base_lowest [OF ok env] by blast
  then show ?thesis by (auto simp: demo_maps_def demo_mapping_def join_blank_def str_bytes_def)
qed

text \<open>
  Lines are matched by their end only: a file whose path ends in the path of the executable, mapped below
  it, is taken for the executable.
\<close>

lemma executable_base_confused:
  assumes "rv_maps (pe_remote env) pid = Ok (maps_text [demo_mapping 0x100000 0 [str_bytes ''/opt/bin/app''],
      demo_mapping 0x400000 0 [str_bytes ''/bin/app'']])"
    and "pe_exe env pid = Some (str_bytes ''/bin/app'')"
  shows "executable_base env pid = Some 0x100000"
proof -
  let ?ms = "[demo_mapping 0x100000 0 [str_bytes ''/opt/bin/app''], demo_mapping 0x400000 0 [str_bytes ''/bin/app'']]"
  have ok: "\<forall>m \<in> set ?ms. mapping_ok m" by (simp add: demo_mapping_def mapping_ok_def plain_def str_bytes_def)
  have names: "join_blank (vm_name (?ms ! 0)) = str_bytes ''/opt'' @ str_bytes ''/bin/app''" "join_blank (vm_name (?ms ! 1)) = str_bytes ''/bin/app''"
    by (simp_all add: demo_mapping_def join_blank_def str_bytes_def)
  have "ends_with (str_bytes ''/bin/app'') (mapping_text (?ms ! 0))" "ends_with (str_bytes ''/bin/app'') (mapping_text (?ms ! 1))"
    using named_line [of "?ms ! 0"] named_line [of "?ms ! 1"] unfolding names ends_with_iff by (metis append_assoc)+
  then show ?thesis
    by (simp add: executable_base_listing [OF ok assms] min_option_def) (simp add: demo_mapping_def)
qed

end
