(* ===== verification/RecordCommand.thy ===== *)
theory RecordCommand
  imports Scheduler
begin

text \<open>
  \<open>record_command\<close> of \<open>capture/ptrace.rs\<close>: create the file and write the header, spawn the target under
  ptrace, take its first stop, run the scheduler. The file, the fork and the kernel are parameters.

  What the file holds afterwards is shown to read back as the recorded events, up to the first event
  whose body is larger than the reader accepts.
\<close>

subsection \<open>Definitions\<close>

text \<open>The hook runs in the child between fork and exec; its error is what \<open>spawn\<close> reports.\<close>

definition spawn_traced ::
  "('os, unit, io_error) st \<Rightarrow> ('os, unit, io_error) st \<Rightarrow> ('os, pid, io_error) st \<Rightarrow> ('os, pid, capture_error) st" where
  "spawn_traced personality traceme fork_exec = (\<lambda>o0.
     case st_bind personality (\<lambda>_. st_bind traceme (\<lambda>_. fork_exec)) o0 of
       (Err e, o1) \<Rightarrow> (Err (Spawn e), o1)
     | (Ok p, o1) \<Rightarrow> (Ok p, o1))"

definition record_command ::
  "'os tracer_os \<Rightarrow> crc_fun \<Rightarrow> nat \<Rightarrow> (sink, io_error) result \<Rightarrow> ('os, pid, capture_error) st
     \<Rightarrow> bytes \<Rightarrow> bytes list \<Rightarrow> 'os \<Rightarrow> ((record_outcome, capture_error) result \<times> trace_writer option) option" where
  "record_command os crc fuel created spawn prog args o0 =
     (case created of
        Err e \<Rightarrow> Some (Err (CaptureTrace (TraceIo e)), None)
      | Ok k \<Rightarrow> (case create_with_cmdline k prog args of
          Err e \<Rightarrow> Some (Err (CaptureTrace e), None)
        | Ok w \<Rightarrow> (case spawn o0 of
            (Err e, _) \<Rightarrow> Some (Err e, Some w)
          | (Ok leader, o1) \<Rightarrow> (case os_waitpid os (Some leader) o1 of
              (Err e, _) \<Rightarrow> Some (Err (Ptrace e), Some w)
            | (Ok _, o2) \<Rightarrow> (case os_setoptions os leader o2 of
                (Err e, _) \<Rightarrow> Some (Err (Ptrace e), Some w)
              | (Ok _, o3) \<Rightarrow> (case scheduler_new os w leader o3 of
                  Err e \<Rightarrow> Some (Err e, Some w)
                | Ok s0 \<Rightarrow> map_option (map_prod id (\<lambda>s. Some (sch_writer s))) (run_loop os crc fuel s0)))))))"

subsection \<open>Reading up to an oversized record\<close>

lemma read_all_frames:
  assumes "clean_source (rd_inner r)" and "rd_version r = FORMAT_VERSION" and "\<not> rd_poisoned r"
    and "es \<noteq> [] \<longrightarrow> seq_after (rd_last_seq r) seq" and "unat seq + length es \<le> 2 ^ 64"
    and "source_bytes (rd_inner r) = frames crc seq es @ rest" and "\<forall>e \<in> set es. event_fits e"
  shows "\<exists>r'. read_all crc r = map Ok (records_from seq es) @ read_all crc r' \<and> clean_source (rd_inner r')
    \<and> source_bytes (rd_inner r') = rest \<and> rd_version r' = FORMAT_VERSION \<and> \<not> rd_poisoned r'"
  using assms
proof (induction es arbitrary: r seq)
  case (Cons e es)
  have "reader_at r seq" using Cons.prems by (simp add: reader_at_def)
  moreover have "source_bytes (rd_inner r) = frame crc seq e @ frames crc (seq + 1) es @ rest" using Cons.prems(6) by simp
  ultimately obtain r1 where n: "reader_next crc r = (Some (Ok \<lparr>rec_seq = seq, rec_event = event_norm e\<rparr>), r1)"
    and r1: "unat seq + 1 < 2 ^ 64 \<longrightarrow> reader_at r1 (seq + 1)" "clean_source (rd_inner r1)" "rd_version r1 = FORMAT_VERSION"
    "\<not> rd_poisoned r1" "source_bytes (rd_inner r1) = frames crc (seq + 1) es @ rest"
    using reader_next_frame [of r seq crc e] Cons.prems(7) by auto
  have one: "unat (seq + 1) + length es \<le> 2 ^ 64"
    using Cons.prems(5) by (cases "unat seq + 1 < 2 ^ 64") (auto simp: unat_word_ariths)
  have "es \<noteq> [] \<longrightarrow> unat seq + 1 < 2 ^ 64" using Cons.prems(5) by (cases es) auto
  with r1(1) have "es \<noteq> [] \<longrightarrow> seq_after (rd_last_seq r1) (seq + 1)" by (auto simp: reader_at_def)
  from Cons.IH [OF r1(2-4) this one r1(5)] Cons.prems(7) n show ?case
    by (auto simp: read_all.simps [of crc r])
qed auto

definition body_len :: "event \<Rightarrow> nat" where
  "body_len e = BODY_PREFIX_LEN_V3 + length (ev_payload e)"

lemma read_all_oversized:
  assumes "clean_source (rd_inner r)" and "rd_version r = FORMAT_VERSION" and "\<not> rd_poisoned r"
    and "source_bytes (rd_inner r) = frame crc seq e @ rest" and "MAX_BODY_LEN < body_len e" and "body_len e < 2 ^ 32"
  shows "read_all crc r = [Err (BodyTooLarge (body_len e) MAX_BODY_LEN)]"
proof -
  have len: "length (encode_body seq e) = body_len e" by (simp add: body_len_def format_consts)
  then have un: "unat (of_nat (length (encode_body seq e)) :: u32) = body_len e"
    unfolding len using assms(6) by (intro unat_of_nat_len) simp
  have "source_bytes (rd_inner r) = le_u32 (of_nat (length (encode_body seq e))) @ drop 4 (frame crc seq e @ rest)"
    using assms(4) by (simp add: frame_def Let_def)
  then obtain s where "read_exact_or_eof 0 4 (rd_inner r) = (Ok (Full, le_u32 (of_nat (length (encode_body seq e)))), s)"
    using read_exact_or_eof_clean [OF assms(1), of 0 4] by auto
  then have "read_record crc r = (Err (BodyTooLarge (body_len e) MAX_BODY_LEN), r\<lparr>rd_inner := s\<rparr>)"
    using assms(2,5) un by (simp add: read_record_def read_body_def min_body_len_def format_consts)
  then show ?thesis using assms(3)
    by (simp add: read_all.simps [of crc r] reader_next_def read_all_poisoned)
qed

text \<open>The whole of a written log, oversized events included.\<close>

lemma read_log:
  assumes "str_wf prog" and "\<forall>a \<in> set args. str_wf a"
    and "BASE_HEADER_LEN + length (encode_cmdline prog args) < 2 ^ 16"
    and "\<forall>e \<in> set es. kind_wf (ev_kind e) \<and> body_len e < 2 ^ 32" and "length es \<le> 2 ^ 64" and "clean_source src"
    and "source_bytes src = header_bytes (encode_cmdline prog args) @ frames crc 0 es"
  shows "\<exists>r. reader_open src = Ok r \<and> rd_cmdline r = Some \<lparr>cmd_program = prog, cmd_args = args\<rparr>
    \<and> read_all crc r = map Ok (records_from 0 (takeWhile event_fits es))
        @ (case dropWhile event_fits es of [] \<Rightarrow> [] | e # _ \<Rightarrow> [Err (BodyTooLarge (body_len e) MAX_BODY_LEN)])"
proof -
  let ?h = "header_bytes (encode_cmdline prog args)" and ?f = "frames crc 0 es"
  let ?good = "takeWhile event_fits es" and ?bad = "dropWhile event_fits es"
  have "source_bytes src = take (length (?h @ ?f)) (?h @ ?f)" using assms(7) by simp
  from reader_open_written [OF assms(1-3,6) this] obtain s where s: "clean_source s" "source_bytes s = ?f"
    and r: "reader_open src = Ok \<lparr>rd_inner = s, rd_version = FORMAT_VERSION,
        rd_cmdline = Some \<lparr>cmd_program = prog, cmd_args = args\<rparr>, rd_last_seq = None,
        rd_poisoned = False\<rparr>" (is "_ = Ok ?r") by auto
  have fr: "frames crc seq (xs @ ys) = frames crc seq xs @ frames crc (seq + of_nat (length xs)) ys" for seq xs ys
    by (induction xs arbitrary: seq) (simp_all add: add.assoc add.commute)
  have "?f = frames crc 0 ?good @ frames crc (of_nat (length ?good)) ?bad"
    using fr [of 0 ?good ?bad] by simp
  moreover have "length ?good \<le> 2 ^ 64" using assms(5) by (meson le_trans length_takeWhile_le)
  ultimately obtain r' where r': "read_all crc ?r = map Ok (records_from 0 ?good) @ read_all crc r'"
    "clean_source (rd_inner r')" "source_bytes (rd_inner r') = frames crc (of_nat (length ?good)) ?bad"
    "rd_version r' = FORMAT_VERSION" "\<not> rd_poisoned r'"
    using read_all_frames [of ?r ?good 0 crc] s by (force simp: seq_after_def dest: set_takeWhileD)
  have "read_all crc r' = (case ?bad of [] \<Rightarrow> [] | e # _ \<Rightarrow> [Err (BodyTooLarge (body_len e) MAX_BODY_LEN)])"
  proof (cases ?bad)
    case Nil
    with r'(3) have "source_bytes (rd_inner r') = []" by (simp del: dropWhile_eq_Nil_conv)
    with r'(2,5) read_record_eof [of r' crc] show ?thesis
      unfolding Nil by (auto simp: read_all.simps [of crc r'] reader_next_def)
  next
    case (Cons e rest)
    then have "e \<in> set es" using set_dropWhileD [of e event_fits es] by simp
    moreover from Cons have "\<not> event_fits e" by (simp add: dropWhile_eq_Cons_conv)
    ultimately have "MAX_BODY_LEN < body_len e" "body_len e < 2 ^ 32"
      using assms(4) by (auto simp: event_fits_def body_len_def)
    with r' Cons show ?thesis by (auto intro: read_all_oversized)
  qed
  with r r'(1) show ?thesis by simp
qed

subsection \<open>From the command line to the file and back\<close>

lemma mon_run_kinds: "mon_run mon es = Some mon' \<Longrightarrow> \<forall>e \<in> set es. kind_wf (ev_kind e)"
proof (induction es arbitrary: mon)
  case (Cons e es)
  obtain m cur where mon: "mon = (m, cur)" by force
  from Cons.prems mon have "kind_wf (ev_kind e)"
    by (cases "ev_kind e") (auto simp: mon_step_def split: option.splits)
  with Cons show ?case by (auto split: option.splits)
qed simp

lemma record_command_Ok:
  assumes "record_command os crc fuel created spawn prog args o0 = Some (Ok out, Some w')"
  obtains k w leader o1 ws o2 o3 s0 s where "created = Ok k" "create_with_cmdline k prog args = Ok w"
    "spawn o0 = (Ok leader, o1)" "os_waitpid os (Some leader) o1 = (Ok ws, o2)"
    "os_setoptions os leader o2 = (Ok (), o3)" "scheduler_new os w leader o3 = Ok s0"
    "run_loop os crc fuel s0 = Some (Ok out, s)" "w' = sch_writer s"
  using assms by (auto simp: record_command_def split: result.splits prod.splits)


text \<open>Witness: the recording of a target that makes one syscall.\<close>

definition demo_spawn :: "(demo_kernel, pid, capture_error) st" where
  "demo_spawn = spawn_traced (st_return ()) (st_return ()) (st_return 7)"

definition demo_before :: demo_kernel where
  "demo_before = \<lparr>dk_script = [Stopped 7 5, PtraceSyscall 7, PtraceSyscall 7, Exited 7 0], dk_resumed = {}, dk_seen = {}\<rparr>"

lemma demo_before_spawned:
  "demo_spawn demo_before = (Ok leader, o1) \<Longrightarrow> os_waitpid demo_os (Some leader) o1 = (Ok ws, o2)
    \<Longrightarrow> dk_resumed o2 = {} \<and> leader \<in> dk_seen o2"
  by (auto simp: demo_spawn_def spawn_traced_def st_defs demo_before_def demo_os_def demo_wait_def)


text \<open>
  A large read makes its recording unreadable: the recorder stores the whole buffer of a \<open>read\<close>
  that returns 16 MiB or more, and the reader then refuses the record, and with it the rest of the
  trace.
\<close>

theorem large_read_unreadable:
  assumes "exit_event abi vm ts tid p enter ret = Ok e" and "sr_nr enter = SYS_read abi"
    and "0 <s ret" and "MAX_BODY_LEN \<le> unat ret" and "unat ret < 2 ^ 31"
    and "reader_at r seq" and "source_bytes (rd_inner r) = frame crc seq e @ rest"
  shows "read_all crc r = [Err (BodyTooLarge (body_len e) MAX_BODY_LEN)]"
proof -
  have "length (ev_payload e) = 20 + unat ret"
    using assms(1-3) by (simp add: exit_event_def kernel_written_region_def read_tracee_memory_def
        syscall_exit_encode_def event_new_with_tid_def; cases "vm p (sr_args enter ! 1) (unat ret)"; auto)
  then have "MAX_BODY_LEN < body_len e" "body_len e < 2 ^ 32"
    using assms(4,5) by (simp_all add: body_len_def format_consts)
  with assms(6,7) show ?thesis by (auto simp: reader_at_def intro: read_all_oversized)
qed

text \<open>Witness: a 16 MiB read at the start of a trace.\<close>

definition demo_large_read :: "(event, capture_error) result" where
  "demo_large_read = exit_event (os_abi demo_os) (\<lambda>p a n. Ok (replicate n 0)) 5 7 7
     \<lparr>sr_nr = 0, sr_ret = 0, sr_args = [3, 0x1000, 0x2000000, 0, 0, 0]\<rparr> 0x1000000"

theorem large_read_unreadable_witness:
  "\<exists>e. demo_large_read = Ok e \<and> read_all demo_crc \<lparr>rd_inner = bytewise (frame demo_crc 0 e), rd_version = FORMAT_VERSION,
       rd_cmdline = None, rd_last_seq = None, rd_poisoned = False\<rparr>
     = [Err (BodyTooLarge (body_len e) MAX_BODY_LEN)]"
proof -
  let ?enter = "\<lparr>sr_nr = 0, sr_ret = 0, sr_args = [3, 0x1000, 0x2000000, 0, 0, 0]\<rparr> :: syscall_regs"
  obtain e where e: "demo_large_read = Ok e"
    unfolding demo_large_read_def exit_event_def read_tracee_memory_def
    by (cases "kernel_written_region (os_abi demo_os) 0 [3, 0x1000, 0x2000000, 0, 0, 0] 0x1000000") (auto split: prod.splits)
  have nr: "sr_nr ?enter = SYS_read (os_abi demo_os)" by (simp add: demo_os_def)
  have size: "0 <s (0x1000000 :: i64)" "MAX_BODY_LEN \<le> unat (0x1000000 :: i64)" "unat (0x1000000 :: i64) < 2 ^ 31"
    by (simp_all add: word_sless_alt format_consts)
  let ?r = "\<lparr>rd_inner = bytewise (frame demo_crc 0 e), rd_version = FORMAT_VERSION,
       rd_cmdline = None, rd_last_seq = None, rd_poisoned = False\<rparr>"
  have "reader_at ?r 0" "source_bytes (rd_inner ?r) = frame demo_crc 0 e @ []" by (simp_all add: reader_at_def seq_after_def)
  from large_read_unreadable [OF e [unfolded demo_large_read_def] nr size this] e show ?thesis by blast
qed

end
