(* ===== verification/EbpfCapture.thy ===== *)
theory EbpfCapture
  imports Scheduler
begin

text \<open>
  The eBPF capture path: the tracepoint programs of \<open>recorder-ebpf-programs/src/main.rs\<close>, which
  filter on one process and queue raw records in a ring buffer, and the userspace collector of
  \<open>recorder-ebpf/src/capture.rs\<close>, which pairs entries and exits by thread and appends them to the
  trace. Parameters: kernel memory (\<open>probe\<close>), whether the ring buffer has room (\<open>reserve\<close>), and the
  sequence of polls the collector makes.

  The collector is shown to attribute every exit to the last entry of its thread, and what it does
  when that entry was lost.
\<close>

subsection \<open>The tracepoint programs\<close>

definition matching_target :: "u32 option \<Rightarrow> u64 \<Rightarrow> (u32 \<times> u32) option" where
  "matching_target slot pid_tgid =
     (let target = (case slot of Some t \<Rightarrow> t | None \<Rightarrow> 0) in
      if target = 0 then None
      else let tgid = ucast (drop_bit 32 pid_tgid) in
        if tgid \<noteq> target then None
        else Some (tgid, ucast pid_tgid))"

definition read_u64_at :: "(u64 \<Rightarrow> u64 option) \<Rightarrow> u64 \<Rightarrow> nat \<Rightarrow> u64 option" where
  "read_u64_at probe base offset = probe (base + of_nat offset)"

definition read_syscall_args_x86_64 :: "(u64 \<Rightarrow> u64 option) \<Rightarrow> u64 \<Rightarrow> u64 list option" where
  "read_syscall_args_x86_64 probe regs_ptr =
     Option.bind (read_u64_at probe regs_ptr 112) (\<lambda>rdi.
     Option.bind (read_u64_at probe regs_ptr 104) (\<lambda>rsi.
     Option.bind (read_u64_at probe regs_ptr 96) (\<lambda>rdx.
     Option.bind (read_u64_at probe regs_ptr 56) (\<lambda>r10.
     Option.bind (read_u64_at probe regs_ptr 72) (\<lambda>r8.
     Option.bind (read_u64_at probe regs_ptr 64) (\<lambda>r9.
     Some [rdi, rsi, rdx, r10, r8, r9]))))))"

fun read_args_from :: "(u64 \<Rightarrow> u64 option) \<Rightarrow> u64 \<Rightarrow> nat list \<Rightarrow> u64 list option" where
  "read_args_from probe base [] = Some []"
| "read_args_from probe base (i # is) =
     Option.bind (read_u64_at probe base (i * 8)) (\<lambda>a. map_option ((#) a) (read_args_from probe base is))"

definition read_syscall_args_aarch64 :: "(u64 \<Rightarrow> u64 option) \<Rightarrow> u64 \<Rightarrow> u64 list option" where
  "read_syscall_args_aarch64 probe regs_ptr = read_args_from probe regs_ptr [0..<6]"

text \<open>\<open>emit\<close> reports a full ring buffer as an error, which its callers drop.\<close>

definition emit :: "(bytes list \<Rightarrow> bool) \<Rightarrow> raw_syscall_event \<Rightarrow> bytes list \<Rightarrow> (unit, unit) result \<times> bytes list" where
  "emit reserve event ring =
     (if reserve ring then (Ok (), ring @ [raw_encode event]) else (Err (), ring))"

definition try_sys_enter ::
  "u32 option \<Rightarrow> (u64 \<Rightarrow> u64 list option) \<Rightarrow> (bytes list \<Rightarrow> bool) \<Rightarrow> u64 \<Rightarrow> u64 \<Rightarrow> u64 \<Rightarrow> u64 \<Rightarrow> bytes list
     \<Rightarrow> (unit, unit) result \<times> bytes list" where
  "try_sys_enter slot read_args reserve pid_tgid regs_ptr nr ktime ring =
     (case matching_target slot pid_tgid of
        None \<Rightarrow> (Ok (), ring)
      | Some (tgid, tid) \<Rightarrow>
          (case read_args regs_ptr of
             None \<Rightarrow> (Err (), ring)
           | Some args \<Rightarrow> emit reserve \<lparr>raw_kind = KIND_ENTER, raw_tgid = tgid, raw_tid = tid,
                raw_timestamp_ns = ktime, raw_nr = nr, raw_args = args, raw_ret = 0\<rparr> ring))"

definition try_sys_exit ::
  "u32 option \<Rightarrow> (bytes list \<Rightarrow> bool) \<Rightarrow> u64 \<Rightarrow> u64 \<Rightarrow> u64 \<Rightarrow> bytes list \<Rightarrow> (unit, unit) result \<times> bytes list" where
  "try_sys_exit slot reserve pid_tgid ret ktime ring =
     (case matching_target slot pid_tgid of
        None \<Rightarrow> (Ok (), ring)
      | Some (tgid, tid) \<Rightarrow> emit reserve \<lparr>raw_kind = KIND_EXIT, raw_tgid = tgid, raw_tid = tid,
           raw_timestamp_ns = ktime, raw_nr = 0, raw_args = replicate 6 0, raw_ret = ret\<rparr> ring)"

text \<open>A firing of one of the two tracepoints, with the arguments the kernel passes.\<close>

datatype firing = SysEnter u64 u64 u64 u64 | SysExit u64 u64 u64

fun run_program :: "u32 option \<Rightarrow> (u64 \<Rightarrow> u64 list option) \<Rightarrow> (bytes list \<Rightarrow> bool) \<Rightarrow> firing \<Rightarrow> bytes list \<Rightarrow> bytes list" where
  "run_program slot read_args reserve (SysEnter pid_tgid regs_ptr nr ktime) ring =
     snd (try_sys_enter slot read_args reserve pid_tgid regs_ptr nr ktime ring)"
| "run_program slot read_args reserve (SysExit pid_tgid ret ktime) ring =
     snd (try_sys_exit slot reserve pid_tgid ret ktime ring)"

definition run_programs :: "u32 option \<Rightarrow> (u64 \<Rightarrow> u64 list option) \<Rightarrow> (bytes list \<Rightarrow> bool) \<Rightarrow> firing list \<Rightarrow> bytes list \<Rightarrow> bytes list" where
  "run_programs slot read_args reserve fs ring = fold (run_program slot read_args reserve) fs ring"

subsection \<open>The collector\<close>

datatype ebpf_error =
    LoadObject | MissingProgram string | ProgramError string | MissingMap string | MapError string
  | EbpfSpawn io_error | EbpfProcess errno | EbpfTrace trace_error

record collector =
  co_writer :: trace_writer
  co_pending :: in_flight

definition collect_event :: "raw_syscall_event \<Rightarrow> in_flight \<Rightarrow> (event \<times> in_flight) option" where
  "collect_event raw pending =
     (if raw_kind raw = KIND_ENTER
      then Some (event_new_with_tid SyscallEnter (raw_timestamp_ns raw) (raw_tid raw)
             (syscall_enter_encode \<lparr>se_nr = raw_nr raw, se_args = raw_args raw\<rparr>),
           pending(raw_tid raw \<mapsto> raw_nr raw))
      else if raw_kind raw = KIND_EXIT
      then Some (event_new_with_tid SyscallExit (raw_timestamp_ns raw) (raw_tid raw)
             (syscall_exit_encode \<lparr>sx_nr = (case pending (raw_tid raw) of Some nr \<Rightarrow> nr | None \<Rightarrow> 0),
                sx_ret = raw_ret raw, sx_data = []\<rparr>),
           pending(raw_tid raw := None))
      else None)"

fun drain_ready :: "crc_fun \<Rightarrow> bytes list \<Rightarrow> (collector, nat, ebpf_error) st" where
  "drain_ready crc [] c = (Ok 0, c)"
| "drain_ready crc (item # items) c =
     (case raw_decode item of
        None \<Rightarrow> drain_ready crc items c
      | Some raw \<Rightarrow>
          (case collect_event raw (co_pending c) of
             None \<Rightarrow> drain_ready crc items c
           | Some (event, pending) \<Rightarrow>
               (case append_event crc event (co_writer c) of
                  (Err e, w) \<Rightarrow> (Err (EbpfTrace e), c\<lparr>co_writer := w, co_pending := pending\<rparr>)
                | (Ok _, w) \<Rightarrow>
                    (case drain_ready crc items (c\<lparr>co_writer := w, co_pending := pending\<rparr>) of
                       (Ok n, c') \<Rightarrow> (Ok (n + 1), c')
                     | (Err e, c') \<Rightarrow> (Err e, c')))))"

text \<open>
  What one poll of the target finds: the records that became ready, and the answer of \<open>waitpid\<close>. The
  list runs out while the target is still alive: then there is no result yet.
\<close>

datatype poll_status = PollAlive | PollExited i32 | PollSignaled | PollOther

fun drain_until_exit ::
  "crc_fun \<Rightarrow> (bytes list \<times> (poll_status, errno) result) list \<Rightarrow> bytes list \<Rightarrow> nat \<Rightarrow> collector
     \<Rightarrow> ((record_outcome, ebpf_error) result \<times> collector) option" where
  "drain_until_exit crc [] rest count c = None"
| "drain_until_exit crc ((items, status) # polls) rest count c =
     (case drain_ready crc items c of
        (Err e, c') \<Rightarrow> Some (Err e, c')
      | (Ok n, c') \<Rightarrow>
          (let finish = (\<lambda>code. case drain_ready crc rest c' of
                 (Err e, c'') \<Rightarrow> Some (Err e, c'')
               | (Ok m, c'') \<Rightarrow> Some (Ok \<lparr>ro_exit_code = code, ro_events_recorded = count + n + m,
                    ro_threads_followed = 1\<rparr>, c''))
           in case status of
             Err e \<Rightarrow> Some (Err (EbpfProcess e), c')
           | Ok PollAlive \<Rightarrow> drain_until_exit crc polls rest (count + n) c'
           | Ok (PollExited code) \<Rightarrow> finish (Some code)
           | Ok PollSignaled \<Rightarrow> finish None
           | Ok PollOther \<Rightarrow> drain_until_exit crc polls rest (count + n) c'))"

text \<open>
  What the loader library answers for a loaded object: per program name whether it exists, is a raw
  tracepoint, loads and attaches; per map name whether it exists and opens; whether a slot is set.
\<close>

record bpf_object =
  bpf_has_program :: "string \<Rightarrow> bool"
  bpf_is_raw_tracepoint :: "string \<Rightarrow> bool"
  bpf_loads :: "string \<Rightarrow> bool"
  bpf_attaches :: "string \<Rightarrow> bool"
  bpf_has_map :: "string \<Rightarrow> bool"
  bpf_opens_map :: "string \<Rightarrow> bool"
  bpf_sets_slot :: bool

definition attach_raw_tracepoint :: "bpf_object \<Rightarrow> string \<Rightarrow> (unit, ebpf_error) result" where
  "attach_raw_tracepoint bpf name =
     (if \<not> bpf_has_program bpf name then Err (MissingProgram name)
      else if \<not> bpf_is_raw_tracepoint bpf name then Err (ProgramError name)
      else if \<not> bpf_loads bpf name then Err (ProgramError name)
      else if \<not> bpf_attaches bpf name then Err (ProgramError name)
      else Ok ())"

definition load_and_attach :: "bpf_object option \<Rightarrow> (bpf_object, ebpf_error) result" where
  "load_and_attach loaded = (case loaded of
       None \<Rightarrow> Err LoadObject
     | Some bpf \<Rightarrow> and_then (attach_raw_tracepoint bpf ''sys_enter'') (\<lambda>_.
         and_then (attach_raw_tracepoint bpf ''sys_exit'') (\<lambda>_. Ok bpf)))"

text \<open>The new content of the one slot of \<open>TARGET_TGID\<close>.\<close>

definition configure_target :: "bpf_object \<Rightarrow> u32 \<Rightarrow> (u32 option, ebpf_error) result" where
  "configure_target bpf target =
     (if \<not> bpf_has_map bpf ''TARGET_TGID'' then Err (MissingMap ''TARGET_TGID'')
      else if \<not> bpf_opens_map bpf ''TARGET_TGID'' then Err (MapError ''TARGET_TGID'')
      else if \<not> bpf_sets_slot bpf then Err (MapError ''TARGET_TGID'')
      else Ok (Some target))"

text \<open>
  \<open>record_command\<close>, with what the kernel answers as arguments: the loaded object, the spawned process,
  the created file, and what each poll finds once \<open>TARGET_TGID\<close> holds the given slot content.
\<close>

definition ebpf_record_command ::
  "crc_fun \<Rightarrow> bytes \<Rightarrow> bytes list \<Rightarrow> bpf_object option \<Rightarrow> (u32, io_error) result \<Rightarrow> (sink, io_error) result
     \<Rightarrow> (u32 option \<Rightarrow> (bytes list \<times> (poll_status, errno) result) list \<times> bytes list)
     \<Rightarrow> ((record_outcome, ebpf_error) result \<times> collector option) option" where
  "ebpf_record_command crc prog args loaded spawned created polls =
     (case load_and_attach loaded of
        Err e \<Rightarrow> Some (Err e, None)
      | Ok bpf \<Rightarrow>
        if \<not> bpf_has_map bpf ''EVENTS'' then Some (Err (MissingMap ''EVENTS''), None)
        else if \<not> bpf_opens_map bpf ''EVENTS'' then Some (Err (MapError ''EVENTS''), None)
        else (case spawned of
          Err e \<Rightarrow> Some (Err (EbpfSpawn e), None)
        | Ok pid \<Rightarrow> (case configure_target bpf pid of
            Err e \<Rightarrow> Some (Err e, None)
          | Ok slot \<Rightarrow> (case created of
              Err e \<Rightarrow> Some (Err (EbpfTrace (TraceIo e)), None)
            | Ok k \<Rightarrow> (case create_with_cmdline k prog args of
                Err e \<Rightarrow> Some (Err (EbpfTrace e), None)
              | Ok w \<Rightarrow> (case polls slot of (ps, rest) \<Rightarrow>
                  map_option (map_prod id Some)
                    (drain_until_exit crc ps rest 0 \<lparr>co_writer = w, co_pending = Map.empty\<rparr>)))))))"

subsection \<open>Attribution\<close>

text \<open>
  The reference: the firings of the target in order, each exit attributed to the entry that is the
  last firing of its thread, and to syscall 0 when the thread's last firing is not an entry.
\<close>

fun fired_by :: "u32 option \<Rightarrow> firing \<Rightarrow> u32 option" where
  "fired_by slot (SysEnter pt regs nr kt) = map_option snd (matching_target slot pt)"
| "fired_by slot (SysExit pt ret kt) = map_option snd (matching_target slot pt)"

fun entry_nr :: "firing \<Rightarrow> u64 option" where
  "entry_nr (SysEnter pt regs nr kt) = Some nr"
| "entry_nr (SysExit pt ret kt) = None"

definition open_entry :: "u32 option \<Rightarrow> firing list \<Rightarrow> u32 \<Rightarrow> u64 option" where
  "open_entry slot past tid = (let mine = filter (\<lambda>f. fired_by slot f = Some tid) past in
     if mine = [] then None else entry_nr (last mine))"

fun spec_event :: "u32 option \<Rightarrow> (u64 \<Rightarrow> u64 list option) \<Rightarrow> firing list \<Rightarrow> firing \<Rightarrow> event list" where
  "spec_event slot read_args past (SysEnter pt regs nr kt) = (case matching_target slot pt of
       None \<Rightarrow> []
     | Some (tgid, tid) \<Rightarrow> [event_new_with_tid SyscallEnter kt tid
          (syscall_enter_encode \<lparr>se_nr = nr, se_args = the (read_args regs)\<rparr>)])"
| "spec_event slot read_args past (SysExit pt ret kt) = (case matching_target slot pt of
       None \<Rightarrow> []
     | Some (tgid, tid) \<Rightarrow> [event_new_with_tid SyscallExit kt tid
          (syscall_exit_encode \<lparr>sx_nr = (case open_entry slot past tid of Some nr \<Rightarrow> nr | None \<Rightarrow> 0),
             sx_ret = ret, sx_data = []\<rparr>)])"

definition spec_events :: "u32 option \<Rightarrow> (u64 \<Rightarrow> u64 list option) \<Rightarrow> firing list \<Rightarrow> event list" where
  "spec_events slot read_args fs = concat (map (\<lambda>i. spec_event slot read_args (take i fs) (fs ! i)) [0..<length fs])"

lemma spec_events_snoc: "spec_events slot ra (fs @ [f]) = spec_events slot ra fs @ spec_event slot ra fs f"
  by (auto simp: spec_events_def nth_append intro!: arg_cong [where f = concat] map_cong)

definition readable :: "(u64 \<Rightarrow> u64 list option) \<Rightarrow> firing \<Rightarrow> bool" where
  "readable read_args f \<longleftrightarrow> (case f of SysEnter pt regs nr kt \<Rightarrow> (\<exists>args. read_args regs = Some args \<and> args6 args) | _ \<Rightarrow> True)"

text \<open>The records one firing adds when the buffer has room.\<close>

fun firing_items :: "u32 option \<Rightarrow> (u64 \<Rightarrow> u64 list option) \<Rightarrow> firing \<Rightarrow> raw_syscall_event list" where
  "firing_items slot ra (SysEnter pt regs nr kt) = (case matching_target slot pt of None \<Rightarrow> []
     | Some (tgid, tid) \<Rightarrow> [\<lparr>raw_kind = KIND_ENTER, raw_tgid = tgid, raw_tid = tid, raw_timestamp_ns = kt,
          raw_nr = nr, raw_args = the (ra regs), raw_ret = 0\<rparr>])"
| "firing_items slot ra (SysExit pt ret kt) = (case matching_target slot pt of None \<Rightarrow> []
     | Some (tgid, tid) \<Rightarrow> [\<lparr>raw_kind = KIND_EXIT, raw_tgid = tgid, raw_tid = tid, raw_timestamp_ns = kt,
          raw_nr = 0, raw_args = replicate 6 0, raw_ret = ret\<rparr>])"

lemma run_program_items:
  "readable ra f \<Longrightarrow> run_program slot ra (\<lambda>_. True) f ring = ring @ map raw_encode (firing_items slot ra f)"
  by (cases f) (auto simp: readable_def try_sys_enter_def try_sys_exit_def emit_def split: option.splits)

lemma firing_items_args6: "readable ra f \<Longrightarrow> \<forall>e \<in> set (firing_items slot ra f). args6 (raw_args e)"
  by (cases f) (auto simp: readable_def args6_def split: option.splits)

lemma raw_decode_encode: "args6 (raw_args e) \<Longrightarrow> raw_decode (raw_encode e) = Some e"
  using raw_event_codec.dec_prefix [of e "[]"] by (simp add: raw_decode_result_def split: option.splits)

lemma open_entry_snoc:
  "open_entry slot (fs @ [f]) = (case fired_by slot f of None \<Rightarrow> open_entry slot fs
     | Some tid \<Rightarrow> (open_entry slot fs)(tid := entry_nr f))"
  by (auto simp: open_entry_def Let_def fun_eq_iff split: option.splits)

text \<open>What a run of the collector over decoded records appends, and the entries it leaves open.\<close>

fun collect_all :: "raw_syscall_event list \<Rightarrow> in_flight \<Rightarrow> event list \<times> in_flight" where
  "collect_all [] pending = ([], pending)"
| "collect_all (raw # raws) pending = (case collect_event raw pending of
       None \<Rightarrow> collect_all raws pending
     | Some (e, pending') \<Rightarrow> (case collect_all raws pending' of (es, p) \<Rightarrow> (e # es, p)))"

lemma collect_all_append:
  "collect_all (xs @ ys) p = (case collect_all xs p of (es, p') \<Rightarrow> (case collect_all ys p' of (fs, p'') \<Rightarrow> (es @ fs, p'')))"
  by (induction xs arbitrary: p) (auto split: option.splits prod.splits)

lemma drain_ready_spec:
  assumes "drain_ready crc items c = (Ok n, c')"
  shows "\<exists>es. collect_all (List.map_filter raw_decode items) (co_pending c) = (es, co_pending c')
    \<and> n = length es \<and> appended crc (co_writer c) es (co_writer c')"
  using assms
proof (induction crc items c arbitrary: n rule: drain_ready.induct)
  case (1 crc c)
  then show ?case by (auto simp: appended_def st_return_def List.map_filter_def)
next
  case (2 crc item items c)
  show ?case
  proof (cases "raw_decode item")
    case None
    with 2 show ?thesis by (simp add: List.map_filter_def)
  next
    case (Some raw)
    show ?thesis
    proof (cases "collect_event raw (co_pending c)")
      case None
      with Some 2 show ?thesis by (simp add: List.map_filter_def)
    next
      case coll: (Some ep)
      obtain e pend where ep: "ep = (e, pend)" by force
      with 2(4) Some coll obtain q w m where a: "append_event crc e (co_writer c) = (Ok q, w)"
        and d: "drain_ready crc items (c\<lparr>co_writer := w, co_pending := pend\<rparr>) = (Ok m, c')" and n: "n = m + 1"
        by (auto split: prod.splits result.splits)
      from 2(3) [OF Some coll ep [symmetric] a [symmetric] refl d] obtain es where
        "collect_all (List.map_filter raw_decode items) pend = (es, co_pending c')" "m = length es"
        and r: "appended crc w es (co_writer c')" by auto
      moreover from r a have "appended crc (co_writer c) (e # es) (co_writer c')"
        by (auto simp: appended_def st_bind_def st_return_def)
      ultimately show ?thesis using n Some coll ep by (auto simp: List.map_filter_def)
    qed
  qed
qed

text \<open>Over the records of a list of firings the collector computes the reference.\<close>

lemma collect_firing:
  "\<lbrakk>readable ra f; p = open_entry slot past\<rbrakk> \<Longrightarrow>
   collect_all (firing_items slot ra f) p = (spec_event slot ra past f, open_entry slot (past @ [f]))"
  by (cases f) (auto simp: collect_event_def KIND_ENTER_def KIND_EXIT_def open_entry_snoc fun_eq_iff
      split: option.splits)

lemma collect_firings:
  "\<forall>f \<in> set fs. readable ra f \<Longrightarrow>
   collect_all (concat (map (firing_items slot ra) fs)) Map.empty = (spec_events slot ra fs, open_entry slot fs)"
proof (induction fs rule: rev_induct)
  case Nil
  then show ?case by (simp add: spec_events_def open_entry_def fun_eq_iff)
next
  case (snoc f fs)
  then show ?case by (simp add: collect_all_append collect_firing spec_events_snoc)
qed

lemma run_programs_items:
  "\<forall>f \<in> set fs. readable ra f \<Longrightarrow>
   run_programs slot ra (\<lambda>_. True) fs ring = ring @ map raw_encode (concat (map (firing_items slot ra) fs))"
  by (induction fs arbitrary: ring) (simp_all add: run_programs_def run_program_items)

lemma map_filter_encoded:
  "\<forall>e \<in> set es. args6 (raw_args e) \<Longrightarrow> List.map_filter raw_decode (map raw_encode es) = es"
  by (induction es) (simp_all add: List.map_filter_def raw_decode_encode)

lemma run_programs_decoded:
  assumes "\<forall>f \<in> set fs. readable ra f"
  shows "List.map_filter raw_decode (run_programs slot ra (\<lambda>_. True) fs []) = concat (map (firing_items slot ra) fs)"
proof -
  have "\<forall>e \<in> set (concat (map (firing_items slot ra) fs)). args6 (raw_args e)"
    using assms firing_items_args6 by (auto 4 4)
  then show ?thesis using assms by (simp only: run_programs_items map_filter_encoded append_Nil)
qed

text \<open>On a sink that does not fill up a drain cannot fail.\<close>

lemma drain_ready_unbounded:
  "sk_room (wr_inner (co_writer c)) = None \<Longrightarrow>
   \<exists>n c'. drain_ready crc items c = (Ok n, c') \<and> sk_room (wr_inner (co_writer c')) = None"
proof (induction items arbitrary: c)
  case (Cons item items)
  show ?case
  proof (cases "Option.bind (raw_decode item) (\<lambda>raw. collect_event raw (co_pending c))")
    case None
    with Cons show ?thesis by (auto simp: bind_eq_None_conv split: option.splits)
  next
    case (Some ep)
    obtain e pend where ep: "ep = (e, pend)" by force
    let ?c = "c\<lparr>co_writer := snd (append_event crc e (co_writer c)), co_pending := pend\<rparr>"
    from Cons.prems have "sk_room (wr_inner (co_writer ?c)) = None" by (simp add: append_event_unbounded)
    from Cons.IH [OF this] obtain n c' where "drain_ready crc items ?c = (Ok n, c')"
      "sk_room (wr_inner (co_writer c')) = None" by blast
    with Some ep Cons.prems show ?thesis
      by (auto simp: bind_eq_Some_conv append_event_unbounded)
  qed
qed simp

lemma drain_ready_append:
  "drain_ready crc (xs @ ys) c = (case drain_ready crc xs c of
       (Err e, c') \<Rightarrow> (Err e, c')
     | (Ok n, c') \<Rightarrow> (case drain_ready crc ys c' of (Err e, c'') \<Rightarrow> (Err e, c'') | (Ok m, c'') \<Rightarrow> (Ok (n + m), c'')))"
  by (induction crc xs c rule: drain_ready.induct) (auto split: option.splits prod.splits result.splits)

fun exit_status :: "poll_status \<Rightarrow> i32 option option" where
  "exit_status PollAlive = None"
| "exit_status PollOther = None"
| "exit_status (PollExited code) = Some (Some code)"
| "exit_status PollSignaled = Some None"

text \<open>
  Polling in any number of rounds is one drain of everything that became ready: the collector
  returns at the poll that sees the target gone, with the drain's count and state.
\<close>

lemma drain_until_exit_drains:
  assumes "\<forall>p \<in> set pre. \<exists>st. snd p = Ok st \<and> exit_status st = None" and "exit_status st = Some code"
    and "drain_ready crc (concat (map fst pre) @ items @ rest) c = (Ok n, c')"
  shows "drain_until_exit crc (pre @ (items, Ok st) # later) rest count c
    = Some (Ok \<lparr>ro_exit_code = code, ro_events_recorded = count + n, ro_threads_followed = 1\<rparr>, c')"
  using assms
proof (induction pre arbitrary: c count n)
  case Nil
  then show ?case by (cases st) (auto simp: drain_ready_append split: prod.splits result.splits)
next
  case (Cons p pre)
  from Cons.prems(1) obtain its st' where p: "p = (its, Ok st')" "exit_status st' = None" by (cases p) auto
  from Cons.prems(3) p obtain a c1 b where d: "drain_ready crc its c = (Ok a, c1)"
    "drain_ready crc (concat (map fst pre) @ items @ rest) c1 = (Ok b, c')" "n = a + b"
    by (auto simp: drain_ready_append split: prod.splits result.splits)
  from Cons.IH [OF _ Cons.prems(2) d(2), of "count + a"] Cons.prems(1) p d(1,3) show ?case
    by (cases st') (simp_all add: add.assoc)
qed

lemma spec_event_fits:
  "\<forall>e \<in> set (spec_event slot ra past f). event_fits e" if "readable ra f"
  using that by (cases f) (auto simp: event_fits_def readable_def args6_def event_new_with_tid_def syscall_enter_encode_def
      syscall_exit_encode_def foldl_le_u64 format_consts upt6 split: option.splits)

lemma spec_events_fit: "\<forall>f \<in> set fs. readable ra f \<Longrightarrow> \<forall>e \<in> set (spec_events slot ra fs). event_fits e"
  using spec_event_fits by (fastforce simp: spec_events_def)

subsection \<open>The capture as a whole\<close>

definition bpf_usable :: "bpf_object \<Rightarrow> bool" where
  "bpf_usable bpf \<longleftrightarrow> bpf_sets_slot bpf
     \<and> list_all (\<lambda>n. bpf_has_program bpf n \<and> bpf_is_raw_tracepoint bpf n \<and> bpf_loads bpf n \<and> bpf_attaches bpf n)
         [''sys_enter'', ''sys_exit'']
     \<and> list_all (\<lambda>n. bpf_has_map bpf n \<and> bpf_opens_map bpf n) [''TARGET_TGID'', ''EVENTS'']"

lemma ebpf_record_command_usable:
  assumes "bpf_usable bpf"
  shows "ebpf_record_command crc prog args (Some bpf) (Ok pid) (Ok k) polls =
    (case create_with_cmdline k prog args of
       Err e \<Rightarrow> Some (Err (EbpfTrace e), None)
     | Ok w \<Rightarrow> (case polls (Some pid) of (ps, rest) \<Rightarrow> map_option (map_prod id Some)
         (drain_until_exit crc ps rest 0 \<lparr>co_writer = w, co_pending = Map.empty\<rparr>)))"
  using assms by (simp add: bpf_usable_def ebpf_record_command_def load_and_attach_def attach_raw_tracepoint_def
      configure_target_def)


definition demo_bpf :: bpf_object where
  "demo_bpf = \<lparr>bpf_has_program = \<lambda>_. True, bpf_is_raw_tracepoint = \<lambda>_. True, bpf_loads = \<lambda>_. True,
     bpf_attaches = \<lambda>_. True, bpf_has_map = \<lambda>_. True, bpf_opens_map = \<lambda>_. True, bpf_sets_slot = True\<rparr>"

text \<open>
  Witness: process 7 enters syscall 63, process 8 interleaves a syscall of its own, process 7 returns;
  the exit record arrives in a later poll than the entry.
\<close>

definition demo_firings :: "firing list" where
  "demo_firings = [SysEnter 0x700000007 0 63 10, SysEnter 0x800000008 0 1 11, SysExit 0x800000008 5 12,
     SysExit 0x700000007 2 13]"

definition demo_probe_args :: "u64 \<Rightarrow> u64 list option" where
  "demo_probe_args = (\<lambda>_. Some [1, 2, 3, 4, 5, 6])"

definition demo_polls :: "u32 option \<Rightarrow> (bytes list \<times> (poll_status, errno) result) list \<times> bytes list" where
  "demo_polls slot = (let ring = run_programs slot demo_probe_args (\<lambda>_. True) demo_firings [] in
     ([(take 1 ring, Ok PollAlive), ([], Ok (PollExited 0))], drop 1 ring))"

lemma demo_target: "matching_target (Some 7) 0x700000007 = Some (7, 7)" "matching_target (Some 7) 0x800000008 = None"
  by (simp_all add: matching_target_def word_uint_eq_iff)

lemma demo_spec_events:
  "spec_events (Some 7) demo_probe_args demo_firings =
     [event_new_with_tid SyscallEnter 10 7 (syscall_enter_encode \<lparr>se_nr = 63, se_args = [1, 2, 3, 4, 5, 6]\<rparr>),
      event_new_with_tid SyscallExit 13 7 (syscall_exit_encode \<lparr>sx_nr = 63, sx_ret = 2, sx_data = []\<rparr>)]"
  by (simp add: spec_events_def demo_firings_def demo_probe_args_def demo_target open_entry_def upt_rec)


text \<open>
  A lost entry is misattributed: when the ring buffer is full at a syscall's entry and has room
  again at its exit, the trace gets an exit of syscall 0, whatever the syscall was, and no count of
  dropped records.
\<close>

theorem ebpf_lost_entry_misattributed:
  "drain_ready crc
      (run_program (Some 7) ra (\<lambda>_. True) (SysExit 0x700000007 ret t')
        (run_program (Some 7) ra (\<lambda>_. False) (SysEnter 0x700000007 regs nr t) []))
      \<lparr>co_writer = demo_writer, co_pending = Map.empty\<rparr>
   = (Ok 1, \<lparr>co_writer = snd (append_event crc (event_new_with_tid SyscallExit t' 7
        (syscall_exit_encode \<lparr>sx_nr = 0, sx_ret = ret, sx_data = []\<rparr>)) demo_writer), co_pending = Map.empty\<rparr>)"
  by (auto simp: demo_target try_sys_enter_def try_sys_exit_def emit_def raw_decode_encode args6_def
      collect_event_def KIND_ENTER_def KIND_EXIT_def append_event_unbounded demo_writer_def demo_sink_def
      fun_upd_idem split: option.splits)

end
