(* ===== verification/DapProtocol.thy ===== *)
theory DapProtocol
  imports TraceLog GoLayout "HOL-Library.Finite_Map"
begin

text \<open>
  The Debug Adapter Protocol's framing (\<open>dap/src/transport.rs\<close>) and message envelopes
  (\<open>protocol.rs\<close>). A JSON value is a finite tree whose objects are finite maps; parsing and printing
  JSON is the work of the crate \<open>serde_json\<close> and a parameter. The reader is a source that may split its
  input anywhere, the writer a sink that may fill up.

  Messages written one after the other are shown to be read back exactly, however the input is split.
\<close>

subsection \<open>JSON values\<close>

datatype json = JNull | JBool bool | JNum int | JFloat string | JStr string | JArr "json list" | JObj "(string, json) fmap"

definition jobj :: "(string \<times> json) list \<Rightarrow> json" where
  "jobj kvs = JObj (fmap_of_list kvs)"

text \<open>\<open>Value::get\<close>, \<open>as_str\<close> and \<open>as_u64\<close>: \<open>None\<close> on a value of another kind or out of range.\<close>

fun jget :: "json \<Rightarrow> string \<Rightarrow> json option" where
  "jget (JObj m) key = fmlookup m key"
| "jget v key = None"

fun jset :: "json \<Rightarrow> string \<Rightarrow> json \<Rightarrow> json" where
  "jset (JObj m) key x = JObj (fmupd key x m)"
| "jset v key x = v"

fun as_str :: "json \<Rightarrow> string option" where
  "as_str (JStr s) = Some s"
| "as_str v = None"

fun as_u64 :: "json \<Rightarrow> u64 option" where
  "as_u64 (JNum n) = (if 0 \<le> n \<and> n < 2 ^ 64 then Some (of_int n) else None)"
| "as_u64 v = None"

definition ju64 :: "u64 \<Rightarrow> json" where
  "ju64 n = JNum (uint n)"

lemma as_u64_ju64 [simp]: "as_u64 (ju64 n) = Some n"
  using uint_lt2p [of n] by (simp add: ju64_def)

lemma jget_jobj [simp]: "jget (jobj kvs) key = map_of kvs key"
  by (simp add: jobj_def fmlookup_of_list)

lemma jobj_jset [simp]: "jset (jobj kvs) key x = jobj ((key, x) # kvs)"
  by (simp add: jobj_def)

subsection \<open>Envelopes\<close>

record request =
  rq_seq :: u64
  rq_command :: string
  rq_arguments :: json

text \<open>
  The derived deserializer of \<open>Request\<close>: an object with the fields, or an array with them in order; the
  arguments may be left out.
\<close>

definition request_of_fields :: "json option \<Rightarrow> json option \<Rightarrow> json option \<Rightarrow> request option" where
  "request_of_fields s c a =
     Option.bind (Option.bind s as_u64) (\<lambda>seq.
     Option.bind (Option.bind c as_str) (\<lambda>command.
     Some \<lparr>rq_seq = seq, rq_command = command, rq_arguments = (case a of Some v \<Rightarrow> v | None \<Rightarrow> JNull)\<rparr>))"

fun request_of_json :: "json \<Rightarrow> request option" where
  "request_of_json (JObj m) = request_of_fields (fmlookup m ''seq'') (fmlookup m ''command'') (fmlookup m ''arguments'')"
| "request_of_json (JArr [s, c]) = request_of_fields (Some s) (Some c) None"
| "request_of_json (JArr [s, c, a]) = request_of_fields (Some s) (Some c) (Some a)"
| "request_of_json v = None"

definition dap_success :: "u64 \<Rightarrow> request \<Rightarrow> json \<Rightarrow> json" where
  "dap_success seq request body = jobj [(''seq'', ju64 seq), (''type'', JStr ''response''),
     (''request_seq'', ju64 (rq_seq request)), (''command'', JStr (rq_command request)),
     (''success'', JBool True), (''body'', body)]"

definition dap_failure :: "u64 \<Rightarrow> request \<Rightarrow> string \<Rightarrow> json" where
  "dap_failure seq request message = jobj [(''seq'', ju64 seq), (''type'', JStr ''response''),
     (''request_seq'', ju64 (rq_seq request)), (''command'', JStr (rq_command request)),
     (''success'', JBool False), (''message'', JStr message)]"

definition dap_event :: "u64 \<Rightarrow> string \<Rightarrow> json \<Rightarrow> json" where
  "dap_event seq name body = jobj [(''seq'', ju64 seq), (''type'', JStr ''event''), (''event'', JStr name), (''body'', body)]"

subsection \<open>Lines\<close>

text \<open>
  The variants of \<open>TransportError\<close>, and one value more: \<open>CapacityPanic\<close> stands for the panic of
  \<open>vec![0u8; n]\<close> when \<open>n\<close> exceeds \<open>isize::MAX\<close>.
\<close>

datatype transport_error =
    MissingContentLength | InvalidContentLength bytes | MalformedJson string | TransportIo io_error | CapacityPanic

definition push_back :: "bytes \<Rightarrow> source \<Rightarrow> source" where
  "push_back bs cs = (if bs = [] then cs else Data bs # cs)"

text \<open>\<open>BufRead::read_until\<close> a line feed, and \<open>read_line\<close>, which also checks that the line is UTF-8.\<close>

fun read_until_lf :: "source \<Rightarrow> (bytes, io_error) result \<times> source" where
  "read_until_lf [] = (Ok [], [])"
| "read_until_lf (IoFail e # cs) = (if e = Interrupted then read_until_lf cs else (Err e, cs))"
| "read_until_lf (Data bs # cs) =
     (if bs = [] then (Ok [], cs)
      else if 10 \<in> set bs
      then let line = takeWhile (\<lambda>b. b \<noteq> 10) bs @ [10] in (Ok line, push_back (drop (length line) bs) cs)
      else (case read_until_lf cs of (r, t) \<Rightarrow> (map_ok ((@) bs) r, t)))"

definition read_line :: "source \<Rightarrow> (bytes, io_error) result \<times> source" where
  "read_line s = (case read_until_lf s of
       (Ok bs, t) \<Rightarrow> (if utf8_valid bs then Ok bs else Err InvalidData, t)
     | (Err e, t) \<Rightarrow> (Err e, t))"

lemma src_size_push_back [simp]: "src_size (push_back bs cs) \<le> Suc (length bs + src_size cs)"
  by (simp add: push_back_def)

lemma takeWhile_lf: "10 \<notin> set line \<Longrightarrow> takeWhile (\<lambda>b. b \<noteq> 10) (line @ (10 :: u8) # r) = line"
  by (induction line) auto

lemma read_until_lf_size:
  "read_until_lf s = (r, t) \<Longrightarrow> src_size t \<le> src_size s \<and> (r \<noteq> Ok [] \<longrightarrow> src_size t < src_size s)"
proof (induction s arbitrary: r t rule: read_until_lf.induct)
  case (3 bs cs)
  show ?case
  proof (cases "bs \<noteq> [] \<and> 10 \<in> set bs")
    case True
    then obtain l r where "bs = l @ 10 # r" "10 \<notin> set l" by (meson split_list_first)
    with "3.prems" True have "t = push_back r cs" "length r < length bs" by (auto simp: Let_def takeWhile_lf)
    then show ?thesis by (auto simp: push_back_def)
  next
    case False
    show ?thesis
    proof (cases "bs = []")
      case True
      with "3.prems" show ?thesis by simp
    next
      case ne: False
      obtain r' t' where rt: "read_until_lf cs = (r', t')" by force
      with "3.IH" ne False have "src_size t' \<le> src_size cs" by blast
      with "3.prems" ne False rt show ?thesis by auto
    qed
  qed
qed (auto split: if_splits)

lemma read_line_size: "read_line s = (Ok line, t) \<Longrightarrow> line \<noteq> [] \<Longrightarrow> src_size t < src_size s"
  using read_until_lf_size [of s] by (auto simp: read_line_def split: prod.splits result.splits if_splits)

subsection \<open>Frames\<close>

definition parse_usize :: "bytes \<Rightarrow> nat option" where
  "parse_usize s =
     (let ds = (case s of c # cs \<Rightarrow> if c = 43 then cs else s | [] \<Rightarrow> []) in
      if ds \<noteq> [] \<and> list_all is_ascii_digit ds \<and> digit_number ds < 2 ^ 64 then Some (digit_number ds) else None)"

function read_headers_from :: "nat option \<Rightarrow> bool \<Rightarrow> source \<Rightarrow> (nat option, transport_error) result \<times> source" where
  "read_headers_from content_length saw_any s =
     (case read_line s of
        (Err e, t) \<Rightarrow> (Err (TransportIo e), t)
      | (Ok line, t) \<Rightarrow>
          (if line = [] then (if saw_any then Err MissingContentLength else Ok None, t)
           else let trimmed = trim_end line in
             if trimmed = [] then (map_ok Some (ok_or MissingContentLength content_length), t)
             else case strip_prefix_bytes (str_bytes ''Content-Length:'') trimmed of
               None \<Rightarrow> read_headers_from content_length True t
             | Some v \<Rightarrow>
                 (case parse_usize (trim_both v) of
                    None \<Rightarrow> (Err (InvalidContentLength (trim_both v)), t)
                  | Some n \<Rightarrow> read_headers_from (Some n) True t)))"
  by pat_completeness auto
termination
  by (relation "measure (\<lambda>(_, _, s). src_size s)") (auto dest!: read_line_size [OF sym])

declare read_headers_from.simps [simp del]

definition read_headers :: "source \<Rightarrow> (nat option, transport_error) result \<times> source" where
  "read_headers s = read_headers_from None False s"

definition ISIZE_MAX :: nat where "ISIZE_MAX = 2 ^ 63 - 1"

definition read_frame :: "(bytes \<Rightarrow> (json, string) result) \<Rightarrow> source \<Rightarrow> (json option, transport_error) result \<times> source" where
  "read_frame parse s = (case read_headers s of
       (Err e, t) \<Rightarrow> (Err e, t)
     | (Ok None, t) \<Rightarrow> (Ok None, t)
     | (Ok (Some len), t) \<Rightarrow>
         (if ISIZE_MAX < len then (Err CapacityPanic, t)
          else case read_exact len t of
            (Err e, u) \<Rightarrow> (Err (TransportIo e), u)
          | (Ok payload, u) \<Rightarrow> (map_ok Some (map_err MalformedJson (parse payload)), u)))"

definition io_write :: "bytes \<Rightarrow> (sink, unit, transport_error) st" where
  "io_write bs = (\<lambda>k. case write_all bs k of (r, k') \<Rightarrow> (map_err (\<lambda>_. TransportIo StorageFull) r, k'))"

definition frame_header :: "nat \<Rightarrow> bytes" where
  "frame_header n = str_bytes (''Content-Length: '' @ show_dec n) @ [13, 10, 13, 10]"

definition write_frame :: "(json \<Rightarrow> (bytes, string) result) \<Rightarrow> json \<Rightarrow> (sink, unit, transport_error) st" where
  "write_frame print message =
     st_bind (st_lift (map_err MalformedJson (print message))) (\<lambda>payload.
     st_bind (io_write (frame_header (length payload))) (\<lambda>_.
     io_write payload))"

subsection \<open>Round trip\<close>

lemma read_until_lf_clean:
  assumes "clean_source s" and "source_bytes s = line @ 10 # rest" and "10 \<notin> set line"
  shows "\<exists>t. read_until_lf s = (Ok (line @ [10]), t) \<and> clean_source t \<and> source_bytes t = rest"
  using assms
proof (induction s arbitrary: line rule: read_until_lf.induct)
  case (3 bs cs)
  then have ne: "bs \<noteq> []" and cl: "clean_source cs" and eq: "bs @ source_bytes cs = line @ 10 # rest" by simp_all
  show ?case
  proof (cases "10 \<in> set bs")
    case True
    then obtain l r where bs: "bs = l @ 10 # r" "10 \<notin> set l" by (meson split_list_first)
    with eq have "l @ 10 # (r @ source_bytes cs) = line @ 10 # rest" by simp
    with bs(2) "3.prems"(3) have "l = line \<and> r @ source_bytes cs = rest"
      by (metis (no_types, lifting) append_same_eq list.inject same_append_eq takeWhile_lf)
    with bs have bs: "bs = line @ 10 # r" "r @ source_bytes cs = rest" and "takeWhile (\<lambda>b. b \<noteq> 10) bs = line"
      using takeWhile_lf by auto
    with bs cl True show ?thesis by (auto simp: push_back_def Let_def)
  next
    case False
    with eq obtain l where l: "line = bs @ l" "source_bytes cs = l @ 10 # rest"
      by (auto simp: append_eq_append_conv2 append_eq_Cons_conv Cons_eq_append_conv)
    with "3.prems"(3) have "10 \<notin> set l" by simp
    from "3.IH" [OF ne False cl l(2) this] obtain t where
      "read_until_lf cs = (Ok (l @ [10]), t)" "clean_source t" "source_bytes t = rest" by blast
    with ne False l(1) show ?thesis by simp
  qed
qed simp_all

lemma read_line_clean:
  assumes "clean_source s" and "source_bytes s = line @ 10 # rest" and "\<forall>b \<in> set line. b \<noteq> 10 \<and> b < 128"
  shows "\<exists>t. read_line s = (Ok (line @ [10]), t) \<and> clean_source t \<and> source_bytes t = rest"
proof -
  have "utf8_valid (line @ [10])" using assms(3) by (intro utf8_valid_ascii) auto
  moreover have "10 \<notin> set line" using assms(3) by auto
  ultimately show ?thesis using read_until_lf_clean [OF assms(1,2)] by (auto simp: read_line_def)
qed

lemma strip_any_step:
  "List.find (\<lambda>w. w \<noteq> [] \<and> take (length w) s = w) ws = Some w \<Longrightarrow> strip_any ws s = strip_any ws (drop (length w) s)"
  by (subst strip_any.simps) simp

lemma digit_not_space:
  assumes "is_ascii_digit b"
  shows "\<forall>w \<in> set WHITE_SPACE. hd w \<noteq> b" "\<forall>w \<in> set (map rev WHITE_SPACE). hd w \<noteq> b"
  using assms by (auto simp: WHITE_SPACE_def is_ascii_digit_def)

lemma strip_crlf: "strip_any (map rev WHITE_SPACE) (10 # 13 # s) = strip_any (map rev WHITE_SPACE) s"
proof -
  have "strip_any (map rev WHITE_SPACE) (10 # t) = strip_any (map rev WHITE_SPACE) t" for t
    by (subst strip_any_step [where w = "[10]"]) (simp_all add: WHITE_SPACE_def)
  moreover have "strip_any (map rev WHITE_SPACE) (13 # t) = strip_any (map rev WHITE_SPACE) t" for t
    by (subst strip_any_step [where w = "[13]"]) (simp_all add: WHITE_SPACE_def)
  ultimately show ?thesis by simp
qed

lemma trim_end_digit: "s \<noteq> [] \<Longrightarrow> is_ascii_digit (last s) \<Longrightarrow> strip_any (map rev WHITE_SPACE) (rev s) = rev s"
  using digit_not_space(2) [of "last s"] by (cases s rule: rev_cases) (auto intro!: strip_any_stop)

lemma trim_end_crlf: "s \<noteq> [] \<Longrightarrow> is_ascii_digit (last s) \<Longrightarrow> trim_end (s @ [13, 10]) = s"
  by (simp add: trim_end_def strip_crlf trim_end_digit)

lemma trim_end_blank: "trim_end [13, 10] = []"
proof -
  have "List.find (\<lambda>w. w \<noteq> [] \<and> take (length w) [] = w) (map rev WHITE_SPACE) = None" by (auto simp: find_None_iff)
  then have "strip_any (map rev WHITE_SPACE) [] = []" by (subst strip_any.simps) simp
  then show ?thesis by (simp add: trim_end_def strip_crlf)
qed

lemma trim_both_digits: "ds \<noteq> [] \<Longrightarrow> \<forall>b \<in> set ds. is_ascii_digit b \<Longrightarrow> trim_both (32 # ds) = ds"
proof -
  assume ds: "ds \<noteq> []" "\<forall>b \<in> set ds. is_ascii_digit b"
  then have "trim_end (32 # ds) = 32 # ds" using trim_end_digit [of "32 # ds"] by (simp add: trim_end_def)
  moreover have "strip_any WHITE_SPACE (32 # ds) = strip_any WHITE_SPACE ds"
    by (subst strip_any_step [where w = "[32]"]) (simp_all add: WHITE_SPACE_def)
  moreover have "strip_any WHITE_SPACE ds = ds"
    using ds digit_not_space(1) by (cases ds) (auto intro!: strip_any_stop)
  ultimately show ?thesis by (simp add: trim_both_def trim_start_def)
qed

lemma parse_usize_dec: "n < 2 ^ 64 \<Longrightarrow> parse_usize (str_bytes (show_dec n)) = Some n"
proof -
  assume n: "n < 2 ^ 64"
  obtain d ds where dec: "str_bytes (show_dec n) = d # ds" using dec_bytes(3) [of n] by (cases "str_bytes (show_dec n)") auto
  with dec_bytes(1) [of n] have "d \<noteq> 43" by (auto simp: is_ascii_digit_def)
  with n dec dec_bytes(1,2) [of n] show ?thesis by (simp add: parse_usize_def list_all_iff)
qed

text \<open>The header block is consumed exactly.\<close>

lemma read_headers_clean:
  assumes "clean_source s" and "source_bytes s = frame_header n @ rest" and "n < 2 ^ 64"
  shows "\<exists>t. read_headers s = (Ok (Some n), t) \<and> clean_source t \<and> source_bytes t = rest"
proof -
  let ?ds = "str_bytes (show_dec n)" and ?cl = "str_bytes ''Content-Length:''"
  let ?line = "?cl @ 32 # ?ds"
  have split: "frame_header n @ rest = (?line @ [13]) @ 10 # ([13] @ 10 # rest)"
    by (simp add: frame_header_def str_bytes_def)
  have dig: "b \<noteq> 10 \<and> b < 128" if "is_ascii_digit b" for b
    using that by (auto simp: is_ascii_digit_def word_le_nat_alt word_less_nat_alt)
  have "\<forall>b \<in> set (?line @ [13]). b \<noteq> 10 \<and> b < 128"
    using dig dec_bytes(1) [of n] by (auto simp: str_bytes_def)
  from read_line_clean [OF assms(1) assms(2) [unfolded split] this] obtain t where
    l1: "read_line s = (Ok (?line @ [13, 10]), t)" "clean_source t" "source_bytes t = [13] @ 10 # rest" by auto
  from read_line_clean [OF l1(2,3)] obtain u where
    l2: "read_line t = (Ok [13, 10], u)" "clean_source u" "source_bytes u = rest" by auto
  have "is_ascii_digit (last ?line)" using dec_bytes [of n] by simp
  then have tr: "trim_end (?line @ [13, 10]) = ?line" by (intro trim_end_crlf) simp_all
  have strip: "strip_prefix_bytes ?cl ?line = Some (32 # ?ds)" by (simp add: strip_prefix_bytes_def)
  have "read_headers_from (Some n) True t = (Ok (Some n), u)"
    by (subst read_headers_from.simps) (simp add: l2(1) trim_end_blank)
  then have "read_headers s = (Ok (Some n), u)"
    unfolding read_headers_def
    by (subst read_headers_from.simps)
      (simp add: l1(1) tr [simplified] strip trim_both_digits dec_bytes parse_usize_dec [OF assms(3)])
  with l2 show ?thesis by blast
qed

definition frame_bytes :: "bytes \<Rightarrow> bytes" where
  "frame_bytes payload = frame_header (length payload) @ payload"

lemma read_frame_clean:
  assumes "clean_source s" and "source_bytes s = frame_bytes p @ rest" and "length p \<le> ISIZE_MAX"
  shows "\<exists>t. read_frame parse s = (map_ok Some (map_err MalformedJson (parse p)), t) \<and> clean_source t \<and> source_bytes t = rest"
proof -
  have "length p < 2 ^ 64" using assms(3) by (simp add: ISIZE_MAX_def)
  with read_headers_clean [OF assms(1), of "length p" "p @ rest"] assms(2) obtain t where
    t: "read_headers s = (Ok (Some (length p)), t)" "clean_source t" "source_bytes t = p @ rest"
    by (auto simp: frame_bytes_def)
  from read_exact_clean [OF t(2), of "length p"] t(3) obtain u where
    "read_exact (length p) t = (Ok p, u)" "clean_source u" "source_bytes u = rest" by auto
  with t(1) assms(3) show ?thesis by (simp add: read_frame_def)
qed

lemma read_frame_eof: "clean_source s \<Longrightarrow> source_bytes s = [] \<Longrightarrow> read_frame parse s = (Ok None, s)"
  by (cases s rule: clean_source.cases) (simp_all add: read_frame_def read_headers_def read_headers_from.simps read_line_def)

fun write_frames :: "(json \<Rightarrow> (bytes, string) result) \<Rightarrow> json list \<Rightarrow> (sink, unit, transport_error) st" where
  "write_frames print [] = st_return ()"
| "write_frames print (m # ms) = st_bind (write_frame print m) (\<lambda>_. write_frames print ms)"

fun read_frames :: "(bytes \<Rightarrow> (json, string) result) \<Rightarrow> nat \<Rightarrow> source \<Rightarrow> (json option, transport_error) result list" where
  "read_frames parse 0 s = []"
| "read_frames parse (Suc n) s = (case read_frame parse s of (r, t) \<Rightarrow> r # read_frames parse n t)"

lemma write_frame_unbounded:
  assumes "print m = Ok p" and "sk_room k = None"
  shows "write_frame print m k = (Ok (), k\<lparr>sk_bytes := sk_bytes k @ frame_bytes p\<rparr>)"
  using assms by (simp add: write_frame_def st_defs io_write_def write_all_def frame_bytes_def)

definition printable :: "(json \<Rightarrow> (bytes, string) result) \<Rightarrow> (bytes \<Rightarrow> (json, string) result) \<Rightarrow> json \<Rightarrow> bool" where
  "printable print parse m \<longleftrightarrow> (\<exists>p. print m = Ok p \<and> parse p = Ok m \<and> length p \<le> ISIZE_MAX)"

lemma write_frames_unbounded:
  assumes "\<forall>m \<in> set msgs. printable print parse m" and "sk_room k = None"
  shows "\<exists>ps. length ps = length msgs \<and> (\<forall>i < length ps. parse (ps ! i) = Ok (msgs ! i) \<and> length (ps ! i) \<le> ISIZE_MAX)
    \<and> write_frames print msgs k = (Ok (), k\<lparr>sk_bytes := sk_bytes k @ concat (map frame_bytes ps)\<rparr>)"
  using assms
proof (induction msgs arbitrary: k)
  case Nil
  then show ?case by (auto simp: st_return_def)
next
  case (Cons m ms)
  then obtain p where p: "print m = Ok p" "parse p = Ok m" "length p \<le> ISIZE_MAX" by (auto simp: printable_def)
  from Cons.IH [of "k\<lparr>sk_bytes := sk_bytes k @ frame_bytes p\<rparr>"] Cons.prems obtain ps where
    ps: "length ps = length ms" "\<forall>i < length ps. parse (ps ! i) = Ok (ms ! i) \<and> length (ps ! i) \<le> ISIZE_MAX"
    "write_frames print ms (k\<lparr>sk_bytes := sk_bytes k @ frame_bytes p\<rparr>)
      = (Ok (), k\<lparr>sk_bytes := sk_bytes k @ frame_bytes p @ concat (map frame_bytes ps)\<rparr>)" by auto
  have "\<forall>i < length (p # ps). parse ((p # ps) ! i) = Ok ((m # ms) ! i) \<and> length ((p # ps) ! i) \<le> ISIZE_MAX"
    using p ps by (auto simp: nth_Cons split: nat.splits)
  with ps write_frame_unbounded [where print = print and m = m, OF p(1) Cons.prems(2)] show ?case
    by (intro exI [of _ "p # ps"]) (simp add: st_bind_def)
qed

lemma read_frames_clean:
  assumes "length ps = length msgs" and "\<forall>i < length ps. parse (ps ! i) = Ok (msgs ! i) \<and> length (ps ! i) \<le> ISIZE_MAX"
    and "clean_source s" and "source_bytes s = concat (map frame_bytes ps)"
  shows "read_frames parse (Suc (length msgs)) s = map (\<lambda>m. Ok (Some m)) msgs @ [Ok None]"
  using assms
proof (induction ps msgs arbitrary: s rule: list_induct2)
  case Nil
  then show ?case by (simp add: read_frame_eof)
next
  case (Cons p ps m ms)
  from Cons.prems(1) have p: "parse p = Ok m" "length p \<le> ISIZE_MAX"
    and ps: "\<forall>i < length ps. parse (ps ! i) = Ok (ms ! i) \<and> length (ps ! i) \<le> ISIZE_MAX" by auto
  from read_frame_clean [OF Cons.prems(2), of p "concat (map frame_bytes ps)" parse] Cons.prems(3) p obtain t where
    t: "read_frame parse s = (Ok (Some m), t)" "clean_source t" "source_bytes t = concat (map frame_bytes ps)" by auto
  from Cons.IH [OF ps t(2,3)] t(1) show ?case by simp
qed

text \<open>
  C25. Framing round trip: messages that JSON printing and parsing preserve, written one after the other,
  are read back in order and then end of input is reported, however the reader's input is split into
  pieces.
\<close>

theorem frames_roundtrip:
  assumes "\<forall>m \<in> set msgs. printable print parse m" and "sk_room k = None"
  shows "\<exists>k'. write_frames print msgs k = (Ok (), k') \<and>
    (\<forall>s. clean_source s \<and> sk_bytes k' = sk_bytes k @ source_bytes s
       \<longrightarrow> read_frames parse (Suc (length msgs)) s = map (\<lambda>m. Ok (Some m)) msgs @ [Ok None])"
proof -
  from write_frames_unbounded [OF assms] obtain ps where
    ps: "length ps = length msgs" "\<forall>i < length ps. parse (ps ! i) = Ok (msgs ! i) \<and> length (ps ! i) \<le> ISIZE_MAX"
    and w: "write_frames print msgs k = (Ok (), k\<lparr>sk_bytes := sk_bytes k @ concat (map frame_bytes ps)\<rparr>)" by blast
  from read_frames_clean [OF ps] w show ?thesis by auto
qed

theorem frames_roundtrip_witness:
  "\<exists>k'. write_frames (\<lambda>_. Ok [0x6e, 0x75, 0x6c, 0x6c]) [JNull, JNull] \<lparr>sk_bytes = [], sk_room = None\<rparr> = (Ok (), k')
     \<and> read_frames (\<lambda>_. Ok JNull) 3 [Data (sk_bytes k')] = [Ok (Some JNull), Ok (Some JNull), Ok None]"
proof -
  let ?print = "\<lambda>_ :: json. Ok [0x6e, 0x75, 0x6c, 0x6c] :: (bytes, string) result"
  let ?parse = "\<lambda>_ :: bytes. Ok JNull :: (json, string) result"
  let ?k = "\<lparr>sk_bytes = [], sk_room = None\<rparr>"
  have "\<forall>m \<in> set [JNull, JNull]. printable ?print ?parse m" by (simp add: printable_def ISIZE_MAX_def)
  from frames_roundtrip [OF this, of ?k] obtain k' where
    w: "write_frames ?print [JNull, JNull] ?k = (Ok (), k')"
    and r: "\<And>s. clean_source s \<and> sk_bytes k' = source_bytes s \<Longrightarrow> read_frames ?parse 3 s = [Ok (Some JNull), Ok (Some JNull), Ok None]"
    by (auto simp: numeral_3_eq_3)
  from w have "sk_bytes k' \<noteq> []"
    by (auto simp: write_frame_def st_defs io_write_def write_all_def frame_header_def)
  with r [of "[Data (sk_bytes k')]"] w show ?thesis by auto
qed

text \<open>A header that announces more than \<open>isize::MAX\<close> bytes makes the reader panic.\<close>

lemma oversized_content_length_panics:
  assumes "clean_source s" and "source_bytes s = frame_header n @ rest" and "ISIZE_MAX < n" and "n < 2 ^ 64"
  shows "\<exists>t. read_frame parse s = (Err CapacityPanic, t)"
  using read_headers_clean [OF assms(1,2,4)] assms(3) by (auto simp: read_frame_def)

end
