(* ===== verification/DapServer.thy ===== *)
theory DapServer
  imports DapProtocol
begin

text \<open>
  The request loop of the debug adapter (\<open>dap/src/server.rs\<close>), the interface of debug targets and the
  static stub target (\<open>backend.rs\<close>, \<open>stub.rs\<close>). A target is a record of the operations of the trait over
  its state; an operation that may drive a tracee forever answers with \<open>None\<close> when it does not return.

  Every request is shown to be answered by exactly one response, with consecutive sequence numbers and
  with every failure announced, for every target. A locale states what a client relies on: after a stop
  the target can be inspected.
\<close>

subsection \<open>Targets\<close>

datatype stop_info = InfoStopped string u64 | InfoExited i32

datatype resume_kind = Continue | ReverseContinue | StepBack | StepNext | StepIn | StepOut

datatype backend_error = NotSupported string | Engine string | NoTracee | BadArgs string

fun backend_error_display :: "backend_error \<Rightarrow> string" where
  "backend_error_display (NotSupported m) = m"
| "backend_error_display (Engine m) = m"
| "backend_error_display NoTracee = ''no live replay tracee: the target has exited or was not launched from a trace''"
| "backend_error_display (BadArgs m) = ''invalid request arguments: '' @ m"

type_synonym ('b, 'a) backend_op = "'b \<Rightarrow> (('a, backend_error) result \<times> 'b) option"

record 'b debug_backend =
  be_launch :: "json \<Rightarrow> ('b, stop_info) backend_op"
  be_threads :: "('b, json) backend_op"
  be_stack_trace :: "json \<Rightarrow> ('b, json) backend_op"
  be_scopes :: "json \<Rightarrow> ('b, json) backend_op"
  be_variables :: "json \<Rightarrow> ('b, json) backend_op"
  be_resume :: "resume_kind \<Rightarrow> ('b, stop_info) backend_op"
  be_list_checkpoints :: "('b, json) backend_op"
  be_task_timeline :: "('b, json) backend_op"
  be_jump_to_event :: "json \<Rightarrow> ('b, stop_info) backend_op"
  be_checkpoint_note :: "'b \<Rightarrow> string option"

definition MAIN_THREAD_ID :: u64 where "MAIN_THREAD_ID = 1"

definition info_stopped :: "string \<Rightarrow> stop_info" where
  "info_stopped reason = InfoStopped reason MAIN_THREAD_ID"

subsection \<open>The stub target\<close>

text \<open>A dash outside ASCII, as its UTF-8 bytes.\<close>

definition EM_DASH :: string where
  "EM_DASH = map char_of [0xE2 :: nat, 0x80, 0x94]"

definition stub_threads :: json where
  "stub_threads = jobj [(''threads'', JArr [jobj [(''id'', ju64 MAIN_THREAD_ID), (''name'', JStr ''main'')]])]"

definition stub_stack_trace :: json where
  "stub_stack_trace = jobj [(''stackFrames'', JArr [
       jobj [(''id'', JNum 1), (''name'', JStr (''main (stub target '' @ EM_DASH @ '' recording/replay not yet wired)'')),
         (''line'', JNum 1), (''column'', JNum 1)],
       jobj [(''id'', JNum 2), (''name'', JStr ''_start (stub)''), (''line'', JNum 0), (''column'', JNum 0)]]),
     (''totalFrames'', JNum 2)]"

definition stub_scopes :: json where
  "stub_scopes = jobj [(''scopes'', JArr [jobj [(''name'', JStr ''Locals''), (''variablesReference'', JNum 1),
     (''expensive'', JBool False)]])]"

definition stub_variables :: json where
  "stub_variables = jobj [(''variables'', JArr [jobj [(''name'', JStr ''mirrorscope''),
     (''value'', JStr (''stub target '' @ EM_DASH @ '' see issues #4/#6 for real state'')), (''variablesReference'', JNum 0)]])]"

definition REVERSE_STUB_MESSAGE :: string where
  "REVERSE_STUB_MESSAGE =
     ''not wired to the replay engine: reverse execution needs a recording (launch with a \"trace\" argument)''"

definition pure_op :: "('a, backend_error) result \<Rightarrow> ('b, 'a) backend_op" where
  "pure_op r b = Some (r, b)"

fun stub_resume :: "resume_kind \<Rightarrow> (stop_info, backend_error) result" where
  "stub_resume StepBack = Err (NotSupported REVERSE_STUB_MESSAGE)"
| "stub_resume ReverseContinue = Err (NotSupported REVERSE_STUB_MESSAGE)"
| "stub_resume Continue = Ok (info_stopped ''step'')"
| "stub_resume StepNext = Ok (info_stopped ''step'')"
| "stub_resume StepIn = Ok (info_stopped ''step'')"
| "stub_resume StepOut = Ok (info_stopped ''step'')"

definition stub_backend :: "'w debug_backend" where
  "stub_backend = \<lparr>be_launch = \<lambda>_. pure_op (Ok (info_stopped ''entry'')),
     be_threads = pure_op (Ok stub_threads),
     be_stack_trace = \<lambda>_. pure_op (Ok stub_stack_trace),
     be_scopes = \<lambda>_. pure_op (Ok stub_scopes),
     be_variables = \<lambda>_. pure_op (Ok stub_variables),
     be_resume = \<lambda>kind. pure_op (stub_resume kind),
     be_list_checkpoints = pure_op (Ok (jobj [(''checkpoints'', JArr [])])),
     be_task_timeline = pure_op (Ok (jobj [(''tasks'', JArr [])])),
     be_jump_to_event = \<lambda>_. pure_op (Err (NotSupported
       ''jumpToEvent needs the replay engine: launch with a \"trace\" argument'')),
     be_checkpoint_note = \<lambda>_. None\<rparr>"

subsection \<open>The server\<close>

definition DEFAULT_CHECKPOINT_INTERVAL :: u64 where "DEFAULT_CHECKPOINT_INTERVAL = 200"

text \<open>
  The state of a server is its sequence counter, its target and the writer. What it depends on: JSON
  printing and parsing, the operations of the target, and \<open>select_replay_backend\<close>, which replaces the
  target (\<open>Ok True\<close>), finds the platform unsupported (\<open>Ok False\<close>) or fails with a message.
\<close>

record 'b server =
  sv_next_seq :: u64
  sv_backend :: 'b
  sv_writer :: sink

record 'b server_env =
  se_print :: "json \<Rightarrow> (bytes, string) result"
  se_parse :: "bytes \<Rightarrow> (json, string) result"
  se_dyn :: "'b debug_backend"
  se_select :: "string \<Rightarrow> u64 \<Rightarrow> 'b \<Rightarrow> (bool, string) result \<times> 'b"

type_synonym ('b, 'a) serve = "'b server \<Rightarrow> (('a, transport_error) result \<times> 'b server) option"

datatype outgoing = SuccessFor request json | FailureFor request string | EventFor string json

fun render :: "u64 \<Rightarrow> outgoing \<Rightarrow> json" where
  "render seq (SuccessFor request body) = dap_success seq request body"
| "render seq (FailureFor request message) = dap_failure seq request message"
| "render seq (EventFor name body) = dap_event seq name body"

definition bump_seq :: "'b server \<Rightarrow> u64 \<times> 'b server" where
  "bump_seq s = (sv_next_seq s + 1, s\<lparr>sv_next_seq := sv_next_seq s + 1\<rparr>)"

definition send :: "'b server_env \<Rightarrow> outgoing \<Rightarrow> ('b server, unit, transport_error) st" where
  "send env out = (\<lambda>s. case bump_seq s of (seq, s1) \<Rightarrow>
     (case write_frame (se_print env) (render seq out) (sv_writer s1) of (r, k) \<Rightarrow> (r, s1\<lparr>sv_writer := k\<rparr>)))"

definition respond_success :: "'b server_env \<Rightarrow> request \<Rightarrow> json \<Rightarrow> ('b server, unit, transport_error) st" where
  "respond_success env request body = send env (SuccessFor request body)"

definition respond_failure :: "'b server_env \<Rightarrow> request \<Rightarrow> string \<Rightarrow> ('b server, unit, transport_error) st" where
  "respond_failure env request message = send env (FailureFor request message)"

definition emit_event :: "'b server_env \<Rightarrow> string \<Rightarrow> json \<Rightarrow> ('b server, unit, transport_error) st" where
  "emit_event env name body = send env (EventFor name body)"

definition output_body :: "string \<Rightarrow> json" where
  "output_body message = jobj [(''category'', JStr ''stderr''), (''output'', JStr (message @ [CHR 0x0A]))]"

definition emit_output :: "'b server_env \<Rightarrow> string \<Rightarrow> ('b server, unit, transport_error) st" where
  "emit_output env message = emit_event env ''output'' (output_body message)"

fun emit_stop :: "'b server_env \<Rightarrow> stop_info \<Rightarrow> ('b server, unit, transport_error) st" where
  "emit_stop env (InfoStopped reason thread_id) =
     emit_event env ''stopped'' (jobj [(''reason'', JStr reason), (''threadId'', ju64 thread_id), (''allThreadsStopped'', JBool True)])"
| "emit_stop env (InfoExited code) =
     st_bind (emit_event env ''exited'' (jobj [(''exitCode'', JNum (sint code))])) (\<lambda>_.
     emit_event env ''terminated'' (jobj []))"

definition fail_request :: "'b server_env \<Rightarrow> request \<Rightarrow> backend_error \<Rightarrow> ('b server, unit, transport_error) st" where
  "fail_request env request error =
     (let message = backend_error_display error in
      st_bind (emit_output env message) (\<lambda>_. respond_failure env request message))"

definition answer :: "'b server_env \<Rightarrow> request \<Rightarrow> (json, backend_error) result \<Rightarrow> ('b server, unit, transport_error) st" where
  "answer env request body = (case body of
       Ok b \<Rightarrow> respond_success env request b
     | Err error \<Rightarrow> fail_request env request error)"

text \<open>A call of the target: its answer is a value, and the target changes.\<close>

definition call_backend :: "('b, 'a) backend_op \<Rightarrow> ('b, ('a, backend_error) result) serve" where
  "call_backend op = (\<lambda>s. map_option (\<lambda>(r, b). (Ok r, s\<lparr>sv_backend := b\<rparr>)) (op (sv_backend s)))"

definition query :: "'b server_env \<Rightarrow> request \<Rightarrow> ('b, json) backend_op \<Rightarrow> ('b, unit) serve" where
  "query env request op = opt_bind (call_backend op) (\<lambda>body. opt_lift (answer env request body))"

definition on_initialize :: "'b server_env \<Rightarrow> request \<Rightarrow> ('b server, unit, transport_error) st" where
  "on_initialize env request =
     st_bind (respond_success env request (jobj [(''supportsConfigurationDoneRequest'', JBool True),
       (''supportsStepBack'', JBool True), (''supportsRestartRequest'', JBool False), (''supportsSetVariable'', JBool False)])) (\<lambda>_.
     emit_event env ''initialized'' (jobj []))"

definition launch_target :: "'b server_env \<Rightarrow> request \<Rightarrow> ('b, unit) serve" where
  "launch_target env request =
     opt_bind (call_backend (be_launch (se_dyn env) (rq_arguments request))) (\<lambda>r.
     case r of
       Ok stop \<Rightarrow> opt_lift (
         st_bind (respond_success env request (jobj [])) (\<lambda>_.
         st_bind (\<lambda>s. case be_checkpoint_note (se_dyn env) (sv_backend s) of
                    Some note \<Rightarrow> emit_output env note s
                  | None \<Rightarrow> (Ok (), s)) (\<lambda>_.
         emit_stop env stop)))
     | Err error \<Rightarrow> opt_lift (fail_request env request error))"

definition on_launch :: "'b server_env \<Rightarrow> request \<Rightarrow> ('b, unit) serve" where
  "on_launch env request =
     (case Option.bind (jget (rq_arguments request) ''trace'') as_str of
        None \<Rightarrow> launch_target env request
      | Some trace \<Rightarrow>
          (let interval = (case Option.bind (jget (rq_arguments request) ''checkpointInterval'') as_u64 of
                             Some n \<Rightarrow> n | None \<Rightarrow> DEFAULT_CHECKPOINT_INTERVAL) in
           opt_bind (\<lambda>s. case se_select env trace interval (sv_backend s) of (r, b) \<Rightarrow> Some (Ok r, s\<lparr>sv_backend := b\<rparr>)) (\<lambda>r.
           case r of
             Ok True \<Rightarrow> launch_target env request
           | Ok False \<Rightarrow>
               opt_bind (opt_lift (emit_output env ''replay backend unavailable on this platform; serving the stub target'')) (\<lambda>_.
               launch_target env request)
           | Err message \<Rightarrow>
               opt_lift (st_bind (emit_output env message) (\<lambda>_. respond_failure env request message)))))"

definition on_resume :: "'b server_env \<Rightarrow> request \<Rightarrow> resume_kind \<Rightarrow> ('b, unit) serve" where
  "on_resume env request kind =
     opt_bind (call_backend (be_resume (se_dyn env) kind)) (\<lambda>r. opt_lift (case r of
       Ok stop \<Rightarrow>
         st_bind (respond_success env request
           (if kind = Continue then jobj [(''allThreadsContinued'', JBool True)] else jobj [])) (\<lambda>_.
         emit_stop env stop)
     | Err error \<Rightarrow> fail_request env request error))"

definition on_jump :: "'b server_env \<Rightarrow> request \<Rightarrow> ('b, unit) serve" where
  "on_jump env request =
     opt_bind (call_backend (be_jump_to_event (se_dyn env) (rq_arguments request))) (\<lambda>r. opt_lift (case r of
       Ok stop \<Rightarrow> st_bind (respond_success env request (jobj [])) (\<lambda>_. emit_stop env stop)
     | Err error \<Rightarrow> fail_request env request error))"

definition dispatch :: "'b server_env \<Rightarrow> request \<Rightarrow> ('b, unit) serve" where
  "dispatch env request =
     (let c = rq_command request; args = rq_arguments request; be = se_dyn env in
      if c = ''initialize'' then opt_lift (on_initialize env request)
      else if c = ''launch'' \<or> c = ''attach'' then on_launch env request
      else if c = ''configurationDone'' \<or> c = ''disconnect'' \<or> c = ''setBreakpoints'' \<or> c = ''setExceptionBreakpoints''
      then opt_lift (respond_success env request (jobj []))
      else if c = ''threads'' then query env request (be_threads be)
      else if c = ''stackTrace'' then query env request (be_stack_trace be args)
      else if c = ''scopes'' then query env request (be_scopes be args)
      else if c = ''variables'' then query env request (be_variables be args)
      else if c = ''listCheckpoints'' then query env request (be_list_checkpoints be)
      else if c = ''taskTimeline'' then query env request (be_task_timeline be)
      else if c = ''continue'' then on_resume env request Continue
      else if c = ''reverseContinue'' then on_resume env request ReverseContinue
      else if c = ''stepBack'' then on_resume env request StepBack
      else if c = ''next'' then on_resume env request StepNext
      else if c = ''stepIn'' then on_resume env request StepIn
      else if c = ''stepOut'' then on_resume env request StepOut
      else if c = ''jumpToEvent'' then on_jump env request
      else opt_lift (respond_failure env request (''unsupported request: '' @ c)))"

lemma read_headers_size:
  "read_headers_from cl saw s = (Ok (Some n), t) \<Longrightarrow> src_size t < src_size s"
proof (induction cl saw s rule: read_headers_from.induct)
  case (1 cl saw s)
  obtain r u where u: "read_line s = (r, u)" by force
  show ?case
  proof (cases r)
    case (Err e)
    with "1.prems" u show ?thesis by (subst (asm) read_headers_from.simps) simp
  next
    case (Ok line)
    show ?thesis
    proof (cases "line = []")
      case True
      with "1.prems" u Ok show ?thesis by (subst (asm) read_headers_from.simps) (simp split: if_splits)
    next
      case False
      with read_line_size u Ok have less: "src_size u < src_size s" by simp
      have "t = u \<or> src_size t < src_size u"
        using "1.prems" "1.IH" [OF u [symmetric] Ok False refl] u Ok False
        by (subst (asm) read_headers_from.simps) (auto simp: Let_def split: if_splits option.splits)
      with less show ?thesis by auto
    qed
  qed
qed

lemma read_frame_size: "read_frame parse s = (Ok (Some v), t) \<Longrightarrow> src_size t < src_size s"
  using read_headers_size [of None False s] read_exact_size
  by (fastforce simp: read_frame_def read_headers_def split: prod.splits result.splits option.splits if_splits)

function run_buffered :: "'b server_env \<Rightarrow> source \<Rightarrow> ('b, unit) serve" where
  "run_buffered env src s = (case read_frame (se_parse env) src of
       (Err e, _) \<Rightarrow> Some (Err e, s)
     | (Ok None, _) \<Rightarrow> Some (Ok (), s)
     | (Ok (Some message), src') \<Rightarrow>
         (case request_of_json message of
            None \<Rightarrow> run_buffered env src' s
          | Some request \<Rightarrow>
              (case dispatch env request s of
                 None \<Rightarrow> None
               | Some (Err e, s') \<Rightarrow> Some (Err e, s')
               | Some (Ok _, s') \<Rightarrow>
                   (if rq_command request = ''disconnect'' then Some (Ok (), s') else run_buffered env src' s'))))"
  by pat_completeness auto
termination
  by (relation "measure (\<lambda>(_, src, _). src_size src)") (auto dest!: read_frame_size [OF sym])

declare run_buffered.simps [simp del]

definition server_new :: "'b \<Rightarrow> sink \<Rightarrow> 'b server" where
  "server_new stub writer = \<lparr>sv_next_seq = 0, sv_backend = stub, sv_writer = writer\<rparr>"

subsection \<open>Specification of a reply\<close>

text \<open>
  What a request is answered with, as the list of messages and the target afterwards, without
  sequence numbers, framing and I/O.
\<close>

definition output_event :: "string \<Rightarrow> outgoing" where
  "output_event message = EventFor ''output'' (output_body message)"

definition fail_outs :: "request \<Rightarrow> backend_error \<Rightarrow> outgoing list" where
  "fail_outs request error = [output_event (backend_error_display error), FailureFor request (backend_error_display error)]"

fun stop_outs :: "stop_info \<Rightarrow> outgoing list" where
  "stop_outs (InfoStopped reason thread_id) = [EventFor ''stopped'' (jobj [(''reason'', JStr reason), (''threadId'', ju64 thread_id),
     (''allThreadsStopped'', JBool True)])]"
| "stop_outs (InfoExited code) = [EventFor ''exited'' (jobj [(''exitCode'', JNum (sint code))]), EventFor ''terminated'' (jobj [])]"

type_synonym 'b reply = "'b \<Rightarrow> (outgoing list \<times> 'b) option"

definition reply_query :: "request \<Rightarrow> ('b, json) backend_op \<Rightarrow> 'b reply" where
  "reply_query request op b = map_option (\<lambda>(r, b').
     (case r of Ok body \<Rightarrow> [SuccessFor request body] | Err e \<Rightarrow> fail_outs request e, b')) (op b)"

definition reply_move :: "request \<Rightarrow> json \<Rightarrow> ('b, stop_info) backend_op \<Rightarrow> 'b reply" where
  "reply_move request body op b = map_option (\<lambda>(r, b').
     (case r of Ok stop \<Rightarrow> SuccessFor request body # stop_outs stop | Err e \<Rightarrow> fail_outs request e, b')) (op b)"

definition reply_target :: "'b debug_backend \<Rightarrow> request \<Rightarrow> 'b reply" where
  "reply_target be request b = map_option (\<lambda>(r, b').
     (case r of
        Ok stop \<Rightarrow> SuccessFor request (jobj [])
          # (case be_checkpoint_note be b' of Some note \<Rightarrow> [output_event note] | None \<Rightarrow> []) @ stop_outs stop
      | Err e \<Rightarrow> fail_outs request e, b')) (be_launch be (rq_arguments request) b)"

definition reply_launch :: "'b server_env \<Rightarrow> request \<Rightarrow> 'b reply" where
  "reply_launch env request b =
     (case Option.bind (jget (rq_arguments request) ''trace'') as_str of
        None \<Rightarrow> reply_target (se_dyn env) request b
      | Some trace \<Rightarrow>
          (case se_select env trace (case Option.bind (jget (rq_arguments request) ''checkpointInterval'') as_u64 of
                   Some n \<Rightarrow> n | None \<Rightarrow> DEFAULT_CHECKPOINT_INTERVAL) b of
             (Ok True, b') \<Rightarrow> reply_target (se_dyn env) request b'
           | (Ok False, b') \<Rightarrow> map_option (\<lambda>(outs, b''). (output_event
                 ''replay backend unavailable on this platform; serving the stub target'' # outs, b''))
                 (reply_target (se_dyn env) request b')
           | (Err message, b') \<Rightarrow> Some ([output_event message, FailureFor request message], b')))"

definition reply :: "'b server_env \<Rightarrow> request \<Rightarrow> 'b reply" where
  "reply env request =
     (let c = rq_command request; args = rq_arguments request; be = se_dyn env in
      if c = ''initialize'' then (\<lambda>b. Some ([SuccessFor request (jobj [(''supportsConfigurationDoneRequest'', JBool True),
        (''supportsStepBack'', JBool True), (''supportsRestartRequest'', JBool False), (''supportsSetVariable'', JBool False)]),
        EventFor ''initialized'' (jobj [])], b))
      else if c = ''launch'' \<or> c = ''attach'' then reply_launch env request
      else if c = ''configurationDone'' \<or> c = ''disconnect'' \<or> c = ''setBreakpoints'' \<or> c = ''setExceptionBreakpoints''
      then (\<lambda>b. Some ([SuccessFor request (jobj [])], b))
      else if c = ''threads'' then reply_query request (be_threads be)
      else if c = ''stackTrace'' then reply_query request (be_stack_trace be args)
      else if c = ''scopes'' then reply_query request (be_scopes be args)
      else if c = ''variables'' then reply_query request (be_variables be args)
      else if c = ''listCheckpoints'' then reply_query request (be_list_checkpoints be)
      else if c = ''taskTimeline'' then reply_query request (be_task_timeline be)
      else if c = ''continue'' then reply_move request (jobj [(''allThreadsContinued'', JBool True)]) (be_resume be Continue)
      else if c = ''reverseContinue'' then reply_move request (jobj []) (be_resume be ReverseContinue)
      else if c = ''stepBack'' then reply_move request (jobj []) (be_resume be StepBack)
      else if c = ''next'' then reply_move request (jobj []) (be_resume be StepNext)
      else if c = ''stepIn'' then reply_move request (jobj []) (be_resume be StepIn)
      else if c = ''stepOut'' then reply_move request (jobj []) (be_resume be StepOut)
      else if c = ''jumpToEvent'' then reply_move request (jobj []) (be_jump_to_event be args)
      else (\<lambda>b. Some ([FailureFor request (''unsupported request: '' @ c)], b)))"

subsection \<open>The server implements it\<close>

text \<open>A writer that never fails and a printer that never refuses.\<close>

definition can_write :: "'b server_env \<Rightarrow> 'b server \<Rightarrow> bool" where
  "can_write env s \<longleftrightarrow> sk_room (sv_writer s) = None \<and> (\<forall>m. \<exists>p. se_print env m = Ok p)"

fun sends :: "'b server_env \<Rightarrow> outgoing list \<Rightarrow> 'b server \<Rightarrow> 'b server" where
  "sends env [] s = s"
| "sends env (x # xs) s = sends env xs (snd (send env x s))"

lemma sends_append: "sends env (xs @ ys) s = sends env ys (sends env xs s)"
  by (induction xs arbitrary: s) simp_all

lemma send_can_write:
  assumes "can_write env s"
  shows "fst (send env x s) = Ok ()" "can_write env (snd (send env x s))" "sv_backend (snd (send env x s)) = sv_backend s"
proof -
  let ?n = "sv_next_seq s + 1"
  from assms obtain p where p: "se_print env (render ?n x) = Ok p" by (auto simp: can_write_def)
  from assms have "sk_room (sv_writer s) = None" by (simp add: can_write_def)
  from write_frame_unbounded [where print = "se_print env" and m = "render ?n x", OF p this] assms
  show "fst (send env x s) = Ok ()" "can_write env (snd (send env x s))" "sv_backend (snd (send env x s)) = sv_backend s"
    by (auto simp: send_def bump_seq_def can_write_def)
qed

lemma sends_can_write: "can_write env s \<Longrightarrow> can_write env (sends env xs s) \<and> sv_backend (sends env xs s) = sv_backend s"
  by (induction xs arbitrary: s) (simp_all add: send_can_write)

definition says :: "'b server_env \<Rightarrow> ('b server, unit, transport_error) st \<Rightarrow> outgoing list \<Rightarrow> bool" where
  "says env m xs \<longleftrightarrow> (\<forall>s. can_write env s \<longrightarrow> m s = (Ok (), sends env xs s))"

lemma says_send: "says env (send env x) [x]"
  using send_can_write(1) by (fastforce simp: says_def prod_eq_iff)

lemma says_bind: "says env m xs \<Longrightarrow> says env (f ()) ys \<Longrightarrow> says env (st_bind m f) (xs @ ys)"
  by (simp add: says_def st_bind_def sends_append sends_can_write)

lemma says_respond: "says env (respond_success env rq body) [SuccessFor rq body]"
  "says env (respond_failure env rq msg) [FailureFor rq msg]" "says env (emit_event env name body) [EventFor name body]"
  "says env (emit_output env msg) [output_event msg]"
  by (simp_all add: respond_success_def respond_failure_def emit_event_def emit_output_def output_event_def says_send)

lemma says_fail: "says env (fail_request env rq e) (fail_outs rq e)"
  unfolding fail_request_def fail_outs_def Let_def
  using says_bind [OF says_respond(4) says_respond(2)] by simp

lemma says_stop: "says env (emit_stop env stop) (stop_outs stop)"
  by (cases stop) (auto simp: says_respond intro: says_bind [OF says_respond(3) says_respond(3), simplified])

lemma says_answer: "says env (answer env rq r) (case r of Ok body \<Rightarrow> [SuccessFor rq body] | Err e \<Rightarrow> fail_outs rq e)"
  by (cases r) (simp_all add: answer_def says_respond says_fail)

lemma says_move: "says env (st_bind (respond_success env rq body) (\<lambda>_. emit_stop env stop)) (SuccessFor rq body # stop_outs stop)"
  using says_bind [OF says_respond(1) says_stop] by fastforce

text \<open>The server does what the reply says, on a target that answers.\<close>

definition replies :: "'b server_env \<Rightarrow> ('b, unit) serve \<Rightarrow> 'b reply \<Rightarrow> bool" where
  "replies env m rep \<longleftrightarrow> (\<forall>s. can_write env s \<longrightarrow>
     m s = map_option (\<lambda>(outs, b). (Ok (), sends env outs (s\<lparr>sv_backend := b\<rparr>))) (rep (sv_backend s)))"

lemma can_write_backend [simp]: "can_write env (s\<lparr>sv_backend := b\<rparr>) = can_write env s"
  by (simp add: can_write_def)

lemma replies_lift: "says env m outs \<Longrightarrow> replies env (opt_lift m) (\<lambda>b. Some (outs, b))"
  by (simp add: replies_def says_def opt_lift_def)

lemma replies_call:
  assumes "\<And>r. says env (f r) (outs r)"
  shows "replies env (opt_bind (call_backend op) (\<lambda>r. opt_lift (f r))) (\<lambda>b. map_option (\<lambda>(r, b'). (outs r, b')) (op b))"
  using assms
  by (auto simp: replies_def says_def opt_bind_def opt_lift_def call_backend_def option.map_comp comp_def
      split: option.splits prod.splits)

lemma replies_query: "replies env (query env rq op) (reply_query rq op)"
  unfolding query_def reply_query_def by (rule replies_call [OF says_answer])

lemma replies_move:
  "replies env (opt_bind (call_backend op) (\<lambda>r. opt_lift (case r of
       Ok stop \<Rightarrow> st_bind (respond_success env rq body) (\<lambda>_. emit_stop env stop)
     | Err e \<Rightarrow> fail_request env rq e))) (reply_move rq body op)"
  unfolding reply_move_def
  by (rule replies_call) (auto simp: says_fail says_move split: result.splits)

lemma replies_target: "replies env (launch_target env rq) (reply_target (se_dyn env) rq)"
proof -
  have "can_write env s \<Longrightarrow> st_bind (respond_success env rq (jobj [])) (\<lambda>_.
         st_bind (\<lambda>s. case be_checkpoint_note (se_dyn env) (sv_backend s) of
                    Some note \<Rightarrow> emit_output env note s
                  | None \<Rightarrow> (Ok (), s)) (\<lambda>_.
         emit_stop env stop)) s = (Ok (), sends env (SuccessFor rq (jobj [])
          # (case be_checkpoint_note (se_dyn env) (sv_backend s) of Some note \<Rightarrow> [output_event note] | None \<Rightarrow> []) @ stop_outs stop) s)"
    for s stop
    by (cases "be_checkpoint_note (se_dyn env) (sv_backend s)")
      (simp_all add: st_bind_def send_can_write says_respond(1,4) [unfolded says_def, rule_format]
        says_stop [unfolded says_def, rule_format])
  moreover have "can_write env s \<Longrightarrow> fail_request env rq e s = (Ok (), sends env (fail_outs rq e) s)" for s e
    by (simp add: says_fail [unfolded says_def, rule_format])
  ultimately show ?thesis
    by (auto simp: replies_def launch_target_def reply_target_def opt_bind_def opt_lift_def call_backend_def
        split: option.splits prod.splits result.splits)
qed

lemma send_backend [simp]: "snd (send env x (s\<lparr>sv_backend := b\<rparr>))\<lparr>sv_backend := b'\<rparr> = snd (send env x (s\<lparr>sv_backend := b'\<rparr>))"
  by (simp add: send_def bump_seq_def split: prod.splits)

lemma replies_launch: "replies env (on_launch env rq) (reply_launch env rq)"
proof -
  note target = replies_target [of env rq, unfolded replies_def, rule_format]
  note out = says_respond(4) [of env, unfolded says_def, rule_format]
  have "says env (st_bind (emit_output env m) (\<lambda>_. respond_failure env rq m)) ([output_event m] @ [FailureFor rq m])" for m
    by (rule says_bind [OF says_respond(4) says_respond(2)])
  then have fails: "can_write env s \<Longrightarrow> st_bind (emit_output env m) (\<lambda>_. respond_failure env rq m) s
      = (Ok (), sends env [output_event m, FailureFor rq m] s)" for m s
    by (simp add: says_def)
  show ?thesis
    by (auto simp: replies_def on_launch_def reply_launch_def Let_def opt_bind_def opt_lift_def target out fails
        send_can_write option.map_comp comp_def case_prod_unfold
        split: option.splits prod.splits result.splits bool.splits)
qed

text \<open>The refinement: dispatching a request is its reply, numbered, framed and written.\<close>

lemma dispatch_replies: "replies env (dispatch env rq) (reply env rq)"
proof -
  have init: "says env (on_initialize env rq) [SuccessFor rq (jobj [(''supportsConfigurationDoneRequest'', JBool True),
        (''supportsStepBack'', JBool True), (''supportsRestartRequest'', JBool False), (''supportsSetVariable'', JBool False)]),
        EventFor ''initialized'' (jobj [])]"
    unfolding on_initialize_def using says_bind [OF says_respond(1) says_respond(3)] by fastforce
  show ?thesis
    unfolding dispatch_def reply_def Let_def on_resume_def on_jump_def
    by (simp add: replies_query replies_launch replies_move [where body = "jobj []"]
        replies_move [where body = "jobj [(''allThreadsContinued'', JBool True)]"]
        replies_lift [OF init] replies_lift [OF says_respond(1)] replies_lift [OF says_respond(2)])
qed

subsection \<open>One response per request\<close>

fun is_event :: "outgoing \<Rightarrow> bool" where
  "is_event (EventFor name body) = True"
| "is_event m = False"

definition one_response :: "request \<Rightarrow> outgoing list \<Rightarrow> bool" where
  "one_response request outs \<longleftrightarrow> (\<exists>pre post. list_all is_event pre \<and> list_all is_event post
     \<and> ((\<exists>body. outs = pre @ SuccessFor request body # post)
      \<or> (\<exists>message. outs = pre @ [FailureFor request message]
           \<and> (pre \<noteq> [] \<and> last pre = output_event message \<or> message = ''unsupported request: '' @ rq_command request))))"

lemma one_response_success: "list_all is_event post \<Longrightarrow> one_response rq (SuccessFor rq body # post)"
  unfolding one_response_def by (rule exI [of _ "[]"], rule exI [of _ post]) simp

lemma one_response_fail: "one_response rq (fail_outs rq e)" "one_response rq [output_event m, FailureFor rq m]"
  unfolding one_response_def fail_outs_def
  by (rule exI [of _ "[output_event _]"], rule exI [of _ "[]"], force simp: output_event_def)+

lemma one_response_unsupported: "one_response rq [FailureFor rq (''unsupported request: '' @ rq_command rq)]"
  unfolding one_response_def by (rule exI [of _ "[]"], rule exI [of _ "[]"]) simp

lemma one_response_more: "one_response rq outs \<Longrightarrow> one_response rq (output_event m # outs)"
  unfolding one_response_def
  by (elim exE conjE, rule_tac x = "output_event m # pre" in exI, rule_tac x = post in exI) (auto simp: output_event_def)

lemma events_stop [simp]: "list_all is_event (stop_outs stop)" "is_event (output_event m)"
  by (cases stop) (simp_all add: output_event_def)

lemma reply_calls_one:
  "reply_query rq op b = Some (outs, b') \<Longrightarrow> one_response rq outs"
  "reply_move rq body mv b = Some (outs, b') \<Longrightarrow> one_response rq outs"
  "reply_target be rq b = Some (outs, b') \<Longrightarrow> one_response rq outs"
  by (auto simp: reply_query_def reply_move_def reply_target_def intro!: one_response_success one_response_fail(1)
      split: option.splits) (auto intro!: one_response_success one_response_fail(1) split: result.splits)

lemma reply_one_response: "reply env rq b = Some (outs, b') \<Longrightarrow> one_response rq outs"
  by (auto simp: reply_def Let_def reply_launch_def intro!: one_response_success one_response_fail(2) one_response_unsupported [simplified]
      one_response_more dest: reply_calls_one
      split: if_splits result.splits option.splits prod.splits bool.splits)

text \<open>The bytes of a list of messages, numbered from one past \<open>seq\<close>.\<close>

fun transcript :: "(json \<Rightarrow> (bytes, string) result) \<Rightarrow> u64 \<Rightarrow> outgoing list \<Rightarrow> bytes" where
  "transcript print seq [] = []"
| "transcript print seq (x # xs) =
     (case print (render (seq + 1) x) of Ok p \<Rightarrow> frame_bytes p | Err _ \<Rightarrow> []) @ transcript print (seq + 1) xs"

lemma transcript_append:
  "transcript print seq (xs @ ys) = transcript print seq xs @ transcript print (seq + of_nat (length xs)) ys"
  by (induction xs arbitrary: seq) (simp_all add: add.assoc)

lemma sends_transcript:
  "can_write env s \<Longrightarrow> sv_next_seq (sends env xs s) = sv_next_seq s + of_nat (length xs)
     \<and> sk_bytes (sv_writer (sends env xs s)) = sk_bytes (sv_writer s) @ transcript (se_print env) (sv_next_seq s) xs"
proof (induction xs arbitrary: s)
  case (Cons x xs)
  let ?n = "sv_next_seq s + 1"
  from Cons.prems obtain p where p: "se_print env (render ?n x) = Ok p" by (auto simp: can_write_def)
  from Cons.prems have "sk_room (sv_writer s) = None" by (simp add: can_write_def)
  from write_frame_unbounded [where print = "se_print env" and m = "render ?n x", OF p this]
  have "sv_next_seq (snd (send env x s)) = ?n" "sk_bytes (sv_writer (snd (send env x s))) = sk_bytes (sv_writer s) @ frame_bytes p"
    by (simp_all add: send_def bump_seq_def)
  with Cons.IH [OF send_can_write(2) [OF Cons.prems]] p show ?case by (simp add: add.assoc)
qed simp

lemma dispatch_sends:
  assumes "can_write env s" and "reply env rq (sv_backend s) = Some (outs, b)"
  shows "\<exists>s'. dispatch env rq s = Some (Ok (), s') \<and> sv_backend s' = b \<and> can_write env s'
    \<and> sv_next_seq s' = sv_next_seq s + of_nat (length outs)
    \<and> sk_bytes (sv_writer s') = sk_bytes (sv_writer s) @ transcript (se_print env) (sv_next_seq s) outs"
  using dispatch_replies [of env rq] assms sends_can_write [of env "s\<lparr>sv_backend := b\<rparr>" outs]
    sends_transcript [of env "s\<lparr>sv_backend := b\<rparr>" outs] by (auto simp: replies_def)

lemma dispatch_stuck: "can_write env s \<Longrightarrow> dispatch env rq s = None \<longleftrightarrow> reply env rq (sv_backend s) = None"
  using dispatch_replies [of env rq] by (auto simp: replies_def)

text \<open>The exchange of a whole conversation, on the level of replies.\<close>

fun converse :: "'b server_env \<Rightarrow> request list \<Rightarrow> 'b \<Rightarrow> (outgoing list list \<times> 'b) option" where
  "converse env [] b = Some ([], b)"
| "converse env (rq # rqs) b =
     Option.bind (reply env rq b) (\<lambda>(outs, b').
     map_option (\<lambda>(outss, b''). (outs # outss, b'')) (converse env rqs b'))"

definition delivers :: "'b server_env \<Rightarrow> request list \<Rightarrow> source \<Rightarrow> bool" where
  "delivers env rqs src \<longleftrightarrow> clean_source src \<and> (\<exists>ps. source_bytes src = concat (map frame_bytes ps)
     \<and> (\<forall>p \<in> set ps. length p \<le> ISIZE_MAX)
     \<and> list_all2 (\<lambda>p rq. \<exists>m. se_parse env p = Ok m \<and> request_of_json m = Some rq) ps rqs)"

lemma delivers_Cons:
  assumes "delivers env (rq # rqs) src"
  shows "\<exists>m src'. read_frame (se_parse env) src = (Ok (Some m), src') \<and> request_of_json m = Some rq \<and> delivers env rqs src'"
proof -
  from assms obtain p ps m where cl: "clean_source src" and src: "source_bytes src = frame_bytes p @ concat (map frame_bytes ps)"
    and len: "length p \<le> ISIZE_MAX" "\<forall>p \<in> set ps. length p \<le> ISIZE_MAX" and m: "se_parse env p = Ok m" "request_of_json m = Some rq"
    and rest: "list_all2 (\<lambda>p rq. \<exists>m. se_parse env p = Ok m \<and> request_of_json m = Some rq) ps rqs"
    by (auto simp: delivers_def list_all2_Cons2)
  from read_frame_clean [OF cl src len(1), of "se_parse env"] m(1) obtain src' where
    "read_frame (se_parse env) src = (Ok (Some m), src')" "clean_source src'" "source_bytes src' = concat (map frame_bytes ps)"
    by auto
  with m(2) len(2) rest show ?thesis by (auto simp: delivers_def)
qed

lemma delivers_Nil: "delivers env [] src \<Longrightarrow> read_frame (se_parse env) src = (Ok None, src)"
  by (auto simp: delivers_def read_frame_eof)

lemma run_converses:
  assumes "can_write env s" and "delivers env rqs src" and "\<forall>rq \<in> set rqs. rq_command rq \<noteq> ''disconnect''"
    and "converse env rqs (sv_backend s) = Some (outss, b)"
  shows "\<exists>s'. run_buffered env src s = Some (Ok (), s') \<and> sv_backend s' = b
    \<and> list_all2 one_response rqs outss \<and> can_write env s'
    \<and> sk_bytes (sv_writer s') = sk_bytes (sv_writer s) @ transcript (se_print env) (sv_next_seq s) (concat outss)
    \<and> sv_next_seq s' = sv_next_seq s + of_nat (length (concat outss))"
  using assms
proof (induction rqs arbitrary: src s outss)
  case Nil
  then show ?case by (subst run_buffered.simps) (simp add: delivers_Nil)
next
  case (Cons rq rqs)
  from delivers_Cons [OF Cons.prems(2)] obtain m src' where
    m: "read_frame (se_parse env) src = (Ok (Some m), src')" "request_of_json m = Some rq" and del: "delivers env rqs src'" by blast
  from Cons.prems(4) obtain outs b1 rest where
    o: "reply env rq (sv_backend s) = Some (outs, b1)" "converse env rqs b1 = Some (rest, b)" "outss = outs # rest"
    by (auto simp: bind_eq_Some_conv)
  from dispatch_sends [OF Cons.prems(1) o(1)] obtain s1 where
    d: "dispatch env rq s = Some (Ok (), s1)" "sv_backend s1 = b1" "can_write env s1"
    "sv_next_seq s1 = sv_next_seq s + of_nat (length outs)"
    "sk_bytes (sv_writer s1) = sk_bytes (sv_writer s) @ transcript (se_print env) (sv_next_seq s) outs" by blast
  from Cons.IH [OF d(3) del, of rest] Cons.prems(3) o(2) d(2) obtain s' where
    "run_buffered env src' s1 = Some (Ok (), s')" "sv_backend s' = b" "list_all2 one_response rqs rest" "can_write env s'"
    "sk_bytes (sv_writer s') = sk_bytes (sv_writer s1) @ transcript (se_print env) (sv_next_seq s1) (concat rest)"
    "sv_next_seq s' = sv_next_seq s1 + of_nat (length (concat rest))" by auto
  moreover from this(1) have "run_buffered env src s = Some (Ok (), s')"
    using Cons.prems(3) by (subst run_buffered.simps) (simp add: m d(1))
  ultimately show ?case using d o(3) reply_one_response [OF o(1)] by (auto simp: transcript_append add.assoc)
qed

lemma run_stuck:
  assumes "can_write env s" and "delivers env rqs src" and "\<forall>rq \<in> set rqs. rq_command rq \<noteq> ''disconnect''"
    and "converse env rqs (sv_backend s) = None"
  shows "run_buffered env src s = None"
  using assms
proof (induction rqs arbitrary: src s)
  case (Cons rq rqs)
  from delivers_Cons [OF Cons.prems(2)] obtain m src' where
    m: "read_frame (se_parse env) src = (Ok (Some m), src')" "request_of_json m = Some rq" and del: "delivers env rqs src'" by blast
  show ?case
  proof (cases "reply env rq (sv_backend s)")
    case None
    with dispatch_stuck [OF Cons.prems(1), of rq] have "dispatch env rq s = None" by simp
    with m show ?thesis by (subst run_buffered.simps) simp
  next
    case (Some ob)
    obtain outs b1 where ob: "ob = (outs, b1)" by force
    from dispatch_sends [OF Cons.prems(1) Some [unfolded ob]] obtain s1 where
      d: "dispatch env rq s = Some (Ok (), s1)" "sv_backend s1 = b1" "can_write env s1" by blast
    with Cons.prems(4) Some ob have "converse env rqs (sv_backend s1) = None" by simp
    from Cons.IH [OF d(3) del _ this] Cons.prems(3) m d(1) show ?thesis by (subst run_buffered.simps) simp
  qed
qed simp

text \<open>
  C23. Every request is answered exactly once: over any target, a server that is delivered a conversation
  of requests (split into reads in any way) returns exactly when the target answers, and then it has
  written, for each request in turn, events and exactly one response carrying that request; a failure
  response is preceded by an output event with its message unless the command is unsupported; sequence
  numbers are consecutive over the whole conversation.
\<close>

theorem every_request_answered_once:
  assumes "can_write env s" and "delivers env rqs src" and "\<forall>rq \<in> set rqs. rq_command rq \<noteq> ''disconnect''"
  shows "case converse env rqs (sv_backend s) of
      None \<Rightarrow> run_buffered env src s = None
    | Some (outss, b) \<Rightarrow> (\<exists>s'. run_buffered env src s = Some (Ok (), s') \<and> sv_backend s' = b
        \<and> list_all2 one_response rqs outss
        \<and> sk_bytes (sv_writer s') = sk_bytes (sv_writer s) @ transcript (se_print env) (sv_next_seq s) (concat outss)
        \<and> sv_next_seq s' = sv_next_seq s + of_nat (length (concat outss)))"
  using run_converses [OF assms] run_stuck [OF assms] by (auto split: option.splits)

text \<open>Witness: the stub target asked to initialize.\<close>

definition demo_request :: request where
  "demo_request = \<lparr>rq_seq = 1, rq_command = ''initialize'', rq_arguments = JNull\<rparr>"

definition demo_env :: "unit server_env" where
  "demo_env = \<lparr>se_print = \<lambda>_. Ok [], se_parse = \<lambda>_. Ok (JArr [JNum 1, JStr ''initialize'']),
     se_dyn = stub_backend, se_select = \<lambda>_ _ b. (Ok False, b)\<rparr>"

lemma demo_delivers: "delivers demo_env [demo_request] [Data (frame_bytes [])]"
proof -
  have "request_of_json (JArr [JNum 1, JStr ''initialize'']) = Some demo_request"
    by (simp add: request_of_fields_def demo_request_def)
  then show ?thesis
    by (auto simp: delivers_def demo_env_def frame_bytes_def frame_header_def list_all2_Cons2 intro!: exI [of _ "[[]]"])
qed

theorem every_request_answered_once_witness:
  "\<exists>s' outss. run_buffered demo_env [Data (frame_bytes [])] (server_new () \<lparr>sk_bytes = [], sk_room = None\<rparr>) = Some (Ok (), s')
     \<and> list_all2 one_response [demo_request] outss \<and> sk_bytes (sv_writer s') = transcript (\<lambda>_. Ok []) 0 (concat outss)"
proof -
  let ?s = "server_new () \<lparr>sk_bytes = [], sk_room = None\<rparr>"
  have cw: "can_write demo_env ?s" by (simp add: can_write_def demo_env_def server_new_def)
  have "\<forall>rq \<in> set [demo_request]. rq_command rq \<noteq> ''disconnect''" by (simp add: demo_request_def)
  moreover obtain outss b where "converse demo_env [demo_request] (sv_backend ?s) = Some (outss, b)"
    by (simp add: reply_def demo_request_def)
  ultimately show ?thesis using every_request_answered_once [OF cw demo_delivers] by (auto simp: demo_env_def server_new_def)
qed

subsection \<open>What a client relies on\<close>

fun is_stopped :: "stop_info \<Rightarrow> bool" where
  "is_stopped (InfoStopped reason thread_id) = True"
| "is_stopped (InfoExited code) = False"

definition moves :: "'b debug_backend \<Rightarrow> ('b, stop_info) backend_op set" where
  "moves be = range (be_launch be) \<union> range (be_resume be) \<union> range (be_jump_to_event be)"

definition queries :: "'b debug_backend \<Rightarrow> ('b, json) backend_op set" where
  "queries be = {be_threads be, be_list_checkpoints be, be_task_timeline be}
     \<union> range (be_stack_trace be) \<union> range (be_scopes be) \<union> range (be_variables be)"

text \<open>What the client concludes from the events it is sent: whether the target is stopped.\<close>

fun believe :: "bool \<Rightarrow> outgoing \<Rightarrow> bool" where
  "believe b (EventFor name body) = (if name = ''stopped'' then True else if name = ''terminated'' then False else b)"
| "believe b m = b"

locale inspectable_target =
  fixes be :: "'b debug_backend" and live :: "'b \<Rightarrow> bool"
  assumes move_stop: "\<lbrakk>m \<in> moves be; m b = Some (Ok stop, b')\<rbrakk> \<Longrightarrow> live b' = is_stopped stop"
    and move_fail: "\<lbrakk>m \<in> moves be; m b = Some (Err e, b'); live b\<rbrakk> \<Longrightarrow> live b'"
    and query_live: "\<lbrakk>q \<in> queries be; q b = Some (r, b'); live b\<rbrakk> \<Longrightarrow> live b' \<and> r \<noteq> Err NoTracee"
begin

lemma believe_stop: "foldl believe p (stop_outs stop) = is_stopped stop"
  by (cases stop) simp_all

lemma believe_plain: "foldl believe p (fail_outs rq e) = p" "believe p (output_event m) = p" "believe p (SuccessFor rq body) = p"
  by (simp_all add: fail_outs_def output_event_def)

lemma target_live:
  assumes "reply_target be rq b = Some (outs, b')" and "p \<longrightarrow> live b"
  shows "foldl believe p outs \<longrightarrow> live b'"
proof -
  have m: "be_launch be (rq_arguments rq) \<in> moves be" by (simp add: moves_def)
  from assms(1) obtain r where r: "be_launch be (rq_arguments rq) b = Some (r, b')" by (auto simp: reply_target_def)
  show ?thesis
    using assms r move_stop [OF m] move_fail [OF m]
    by (cases r) (auto simp: reply_target_def believe_plain believe_stop split: option.splits)
qed

lemma move_live:
  assumes "reply_move rq body m b = Some (outs, b')" and "m \<in> moves be" and "p \<longrightarrow> live b"
  shows "foldl believe p outs \<longrightarrow> live b'"
proof -
  from assms(1) obtain r where r: "m b = Some (r, b')" by (auto simp: reply_move_def)
  show ?thesis
    using assms r move_stop [OF assms(2)] move_fail [OF assms(2)]
    by (cases r) (auto simp: reply_move_def believe_plain believe_stop)
qed

lemma query_live_reply:
  assumes "reply_query rq q b = Some (outs, b')" and "q \<in> queries be" and "p \<longrightarrow> live b"
  shows "foldl believe p outs \<longrightarrow> live b'"
proof -
  from assms(1) obtain r where r: "q b = Some (r, b')" by (auto simp: reply_query_def)
  show ?thesis
    using assms r query_live [OF assms(2)] by (cases r) (auto simp: reply_query_def believe_plain)
qed

text \<open>Selecting a target may replace it by a live one, and otherwise keeps it live.\<close>

definition select_live :: "'b server_env \<Rightarrow> bool" where
  "select_live env \<longleftrightarrow> se_dyn env = be \<and> (\<forall>trace i b r b'. se_select env trace i b = (r, b') \<longrightarrow> r = Ok True \<or> live b \<longrightarrow> live b')"

lemma launch_live:
  assumes "select_live env" and "reply_launch env rq b = Some (outs, b')" and "p \<longrightarrow> live b"
  shows "foldl believe p outs \<longrightarrow> live b'"
proof -
  have dyn: "se_dyn env = be" and sel: "\<And>trace i b r b'. se_select env trace i b = (r, b') \<Longrightarrow> r = Ok True \<or> live b \<Longrightarrow> live b'"
    using assms(1) by (auto simp: select_live_def)
  show ?thesis
    using assms(2,3) sel target_live [of rq _ _ b' p]
    by (fastforce simp: reply_launch_def dyn believe_plain split: option.splits prod.splits result.splits bool.splits)
qed

lemma reply_live:
  assumes "select_live env" and "reply env rq b = Some (outs, b')" and "p \<longrightarrow> live b"
  shows "foldl believe p outs \<longrightarrow> live b'"
proof -
  have "se_dyn env = be" using assms(1) by (simp add: select_live_def)
  moreover have "be_resume be k \<in> moves be" "be_jump_to_event be a \<in> moves be" "be_threads be \<in> queries be"
    "be_list_checkpoints be \<in> queries be" "be_task_timeline be \<in> queries be" "be_stack_trace be a \<in> queries be"
    "be_scopes be a \<in> queries be" "be_variables be a \<in> queries be" for k a
    by (auto simp: moves_def queries_def)
  ultimately show ?thesis
    using assms(2,3) launch_live [OF assms(1) _ assms(3)] move_live [of rq _ _ b outs b' p] query_live_reply [of rq _ b outs b' p]
    by (auto simp: reply_def Let_def split: if_splits)
qed

lemma converse_live:
  assumes "select_live env" and "converse env rqs b = Some (outss, b')" and "p \<longrightarrow> live b"
  shows "foldl believe p (concat outss) \<longrightarrow> live b'"
  using assms(2,3)
proof (induction rqs arbitrary: b p outss)
  case (Cons rq rqs)
  then obtain outs b1 rest where "reply env rq b = Some (outs, b1)" "converse env rqs b1 = Some (rest, b')" "outss = outs # rest"
    by (auto simp: bind_eq_Some_conv)
  with Cons.IH [of b1 rest "foldl believe p outs"] reply_live [OF assms(1)] Cons.prems(2) show ?case by auto
qed simp

text \<open>A client that was told of a stop, and of no end since, can inspect the target.\<close>

lemma stopped_inspectable:
  assumes "select_live env" and "converse env rqs b = Some (outss, b')" and "foldl believe False (concat outss)"
    and "q \<in> queries be" and "q b' = Some (r, b'')"
  shows "r \<noteq> Err NoTracee"
  using converse_live [OF assms(1,2), of False] assms(3) query_live [OF assms(4,5)] by auto

end

interpretation stub: inspectable_target stub_backend "\<lambda>_. True"
proof
  fix m :: "('w, stop_info) backend_op" and b stop b'
  assume "m \<in> moves stub_backend" "m b = Some (Ok stop, b')"
  moreover have "stub_resume k = Ok stop \<Longrightarrow> is_stopped stop" for k by (cases k) (auto simp: info_stopped_def)
  ultimately show "True = is_stopped stop"
    by (auto simp: moves_def stub_backend_def pure_op_def info_stopped_def)
next
  fix q :: "('w, json) backend_op" and b r b'
  assume "q \<in> queries stub_backend" "q b = Some (r, b')"
  then show "True \<and> r \<noteq> Err NoTracee" by (auto simp: queries_def stub_backend_def pure_op_def)
qed simp_all

end
