(* ===== verification/ReplayBackend.thy ===== *)
theory ReplayBackend
  imports DapServer ReplayReach TokioDecoder
begin

text \<open>
  The debug target driven by the replay engine (\<open>dap/src/replay_backend.rs\<close>) and the selection of a
  target by the server. The replay session, the native decoder and the trace reader are the definitions
  of the other theories; the process view of a live tracee, its registers and the texts of operating
  system errors are parameters.

  Stepping is shown to land exactly on the recorded events and to be undone by stepping back; a target
  that reported a stop can be inspected.
\<close>

subsection \<open>Texts of errors\<close>

record error_texts =
  et_io :: "io_error \<Rightarrow> string"
  et_errno :: "errno \<Rightarrow> string"
  et_status :: "wait_status \<Rightarrow> string"
  et_unwind :: "remote_error \<Rightarrow> string"

definition show_i32 :: "i32 \<Rightarrow> string" where
  "show_i32 w = (if sint w < 0 then ''-'' @ show_dec (nat (- sint w)) else show_dec (nat (sint w)))"

abbreviation show_word :: "'a :: len word \<Rightarrow> string" where
  "show_word w \<equiv> show_dec (unat w)"

fun event_kind_debug :: "event_kind \<Rightarrow> string" where
  "event_kind_debug SyscallEnter = ''SyscallEnter''"
| "event_kind_debug SyscallExit = ''SyscallExit''"
| "event_kind_debug SchedSwitch = ''SchedSwitch''"
| "event_kind_debug Signal = ''Signal''"
| "event_kind_debug SyncAcquire = ''SyncAcquire''"
| "event_kind_debug SyncRelease = ''SyncRelease''"
| "event_kind_debug Fork = ''Fork''"
| "event_kind_debug Checkpoint = ''Checkpoint''"
| "event_kind_debug ThreadSpawn = ''ThreadSpawn''"
| "event_kind_debug ThreadExit = ''ThreadExit''"
| "event_kind_debug (UnknownKind n) = ''Unknown('' @ show_word n @ '')''"

text \<open>\<open>DecodePanic\<close> is not an error of the source and never reaches a text.\<close>

fun trace_error_display :: "error_texts \<Rightarrow> trace_error \<Rightarrow> string" where
  "trace_error_display tx BadMagic = ''not a Mirrorscope trace (bad magic)''"
| "trace_error_display tx (UnsupportedVersion found supported) =
     ''unsupported trace format version '' @ show_word found @ '' (max supported '' @ show_word supported @ '')''"
| "trace_error_display tx (ChecksumMismatch seq) = ''checksum mismatch in record at seq '' @ show_word seq"
| "trace_error_display tx Truncated = ''trace truncated mid-record''"
| "trace_error_display tx (BodyTooLarge found maximum) =
     ''record body length '' @ show_dec found @ '' exceeds the maximum of '' @ show_dec maximum @ '' bytes''"
| "trace_error_display tx MalformedHeader = ''malformed trace header (bad embedded command line)''"
| "trace_error_display tx (NonMonotonicSequence found previous) =
     ''non-monotonic sequence number '' @ show_word found @ '' after '' @ show_word previous"
| "trace_error_display tx (TraceIo e) = ''trace I/O error: '' @ et_io tx e"
| "trace_error_display tx DecodePanic = ''''"

fun payload_error_display :: "payload_error \<Rightarrow> string" where
  "payload_error_display (TooShort found need) =
     ''syscall payload too short: '' @ show_dec found @ '' bytes, need at least '' @ show_dec need"
| "payload_error_display LengthMismatch = ''syscall payload data length mismatch''"

fun watchpoint_error_display :: "watchpoint_error \<Rightarrow> string" where
  "watchpoint_error_display (InvalidLen len) =
     ''unsupported watchpoint length '' @ show_word len @ '': must be 1, 2, 4, or 8 bytes''"
| "watchpoint_error_display (Misaligned addr len) =
     ''watchpoint address 0x'' @ show_hex (unat addr) @ '' is not aligned to its '' @ show_word len @ ''-byte length''"

fun tid_map_error_debug :: "tid_map_error \<Rightarrow> string" where
  "tid_map_error_debug (RecordedRebound recorded existing attempted) =
     ''RecordedRebound { recorded: '' @ show_word recorded @ '', existing: '' @ show_i32 existing
       @ '', attempted: '' @ show_i32 attempted @ '' }''"
| "tid_map_error_debug (LiveRebound live existing attempted) =
     ''LiveRebound { live: '' @ show_i32 live @ '', existing: '' @ show_word existing
       @ '', attempted: '' @ show_word attempted @ '' }''"

fun diverged_detail_text :: "error_texts \<Rightarrow> diverged_detail \<Rightarrow> string" where
  "diverged_detail_text tx (SignalMismatch recorded got) =
     ''expected delivered signal '' @ show_i32 recorded @ '', got '' @ show_i32 got"
| "diverged_detail_text tx (NoMatchingEntry tid) =
     ''syscall-exit for recorded tid '' @ show_word tid @ '' with no matching entry''"
| "diverged_detail_text tx (ChildDidNotStop child other) =
     ''cloned child '' @ show_i32 child @ '' did not stop as expected: '' @ et_status tx other"
| "diverged_detail_text tx (ThreadSignalMismatch tid recorded got) =
     ''thread '' @ show_word tid @ '': expected delivered signal '' @ show_i32 recorded @ '', got '' @ show_i32 got"
| "diverged_detail_text tx MissingTid = ''v3 multi-threaded record is missing its tid''"
| "diverged_detail_text tx (WrongThread expected tid) =
     ''schedule says thread '' @ show_word expected @ '' runs next, but the record is tagged tid '' @ show_word tid"
| "diverged_detail_text tx (UnboundTid tid) = ''record names unbound tid '' @ show_word tid"
| "diverged_detail_text tx (WrongStop tid expected got) =
     ''thread '' @ show_word tid @ '': expected '' @ expected @ '', got '' @ et_status tx got"
| "diverged_detail_text tx (MapConflict e) = ''recorded/live tid mapping conflict: '' @ tid_map_error_debug e"

fun replay_error_display :: "error_texts \<Rightarrow> replay_error \<Rightarrow> string" where
  "replay_error_display tx (ReTrace e) = ''trace error: '' @ trace_error_display tx e"
| "replay_error_display tx (RePayload e) = ''payload decode error: '' @ payload_error_display e"
| "replay_error_display tx NoCmdline = ''trace has no recorded command line to replay''"
| "replay_error_display tx (ReSpawn e) = ''failed to spawn replay target: '' @ et_io tx e"
| "replay_error_display tx (RePtrace e) = ''ptrace failure: '' @ et_errno tx e"
| "replay_error_display tx (ReMemory addr len e) =
     ''tracee memory access failed at 0x'' @ show_hex (unat addr) @ '' for '' @ show_dec len @ '' bytes: '' @ et_errno tx e"
| "replay_error_display tx (Diverged seq expected found) =
     ''replay diverged at seq '' @ show_word seq @ '': expected syscall '' @ show_word expected @ '', found '' @ show_word found"
| "replay_error_display tx (ScheduleDiverged seq detail) =
     ''replay schedule diverged at seq '' @ show_word seq @ '': '' @ diverged_detail_text tx detail"
| "replay_error_display tx (UnexpectedRecord seq expected found) =
     ''unexpected record kind at seq '' @ show_word seq @ '': expected '' @ expected @ '', found '' @ event_kind_debug found"
| "replay_error_display tx TraceExhausted = ''trace exhausted before the tracee finished replaying''"
| "replay_error_display tx (ReCheckpoint seq reason) =
     ''checkpoint operation failed'' @ (case seq of Some s \<Rightarrow> '' at seq '' @ show_word s | None \<Rightarrow> '''') @ '': '' @ reason"
| "replay_error_display tx (ReOutput e) = ''failed to read replay output: '' @ et_io tx e"
| "replay_error_display tx (WatchpointRequest e) = ''invalid watchpoint request: '' @ watchpoint_error_display e"
| "replay_error_display tx (ReWatchpoint reason) = ''watchpoint failure: '' @ reason"
| "replay_error_display tx (ReUnwind e) = ''backtrace at watchpoint hit failed: '' @ et_unwind tx e"

subsection \<open>State and environment\<close>

record 'os replay_env =
  re_os :: "'os replay_os"
  re_crc :: crc_fun
  re_fuel :: nat
  re_files :: "string \<Rightarrow> (source, io_error) result"
  re_view :: "pid \<Rightarrow> 'os \<Rightarrow> (process_view, decoder_error) result"
  re_registers :: "pid \<Rightarrow> 'os \<Rightarrow> (unwind_regs, string) result"
  re_texts :: error_texts

record 'os replay_backend =
  rb_session :: "'os session"
  rb_events :: "u64 list"
  rb_cursor :: nat
  rb_exited :: "i32 option"
  rb_multithreaded :: bool

definition REGISTERS_REF :: u64 where "REGISTERS_REF = 1000"

definition rb_engine :: "'os replay_env \<Rightarrow> replay_error \<Rightarrow> backend_error" where
  "rb_engine env error = Engine (replay_error_display (re_texts env) error)"

subsection \<open>Opening a trace\<close>

definition read_trace_meta :: "'os replay_env \<Rightarrow> string \<Rightarrow> (u64 list \<times> bool, backend_error) result" where
  "read_trace_meta env path =
     and_then (map_err (\<lambda>e. Engine (''opening trace: '' @ et_io (re_texts env) e)) (re_files env path)) (\<lambda>src.
     and_then (map_err (\<lambda>e. Engine (trace_error_display (re_texts env) e)) (reader_open src)) (\<lambda>rd.
     and_then (map_err (\<lambda>e. Engine (trace_error_display (re_texts env) e)) (collect_results (read_all (re_crc env) rd))) (\<lambda>records.
     Ok (map rec_seq (filter (\<lambda>r. ev_kind (rec_event r) = SyscallExit) records), trace_is_multithreaded records))))"

text \<open>A session that is dropped on the way out leaves the system it tore down.\<close>

definition rb_open :: "'os replay_env \<Rightarrow> string \<Rightarrow> u64 \<Rightarrow> 'os \<Rightarrow> ('os replay_backend, backend_error) result \<times> 'os" where
  "rb_open env path interval o0 = (case launch (re_crc env) (re_os env) (re_files env path) o0 of
       (Err e, o1) \<Rightarrow> (Err (rb_engine env e), o1)
     | (Ok launched, o1) \<Rightarrow>
         (let session = set_checkpoint_interval interval launched in
          case read_trace_meta env path of
            Err e \<Rightarrow> (Err e, rs_os (snd (session_drop (re_os env) session)))
          | Ok (events, multithreaded) \<Rightarrow>
              (Ok \<lparr>rb_session = session, rb_events = events, rb_cursor = 0, rb_exited = None, rb_multithreaded = multithreaded\<rparr>, o1)))"

subsection \<open>Movement\<close>

definition rb_classify :: "exit_outcome \<Rightarrow> string \<Rightarrow> 'os replay_backend \<Rightarrow> stop_info \<times> 'os replay_backend" where
  "rb_classify outcome reason b = (case outcome of
       exit_outcome.Running \<Rightarrow> (InfoStopped reason MAIN_THREAD_ID, b\<lparr>rb_exited := None\<rparr>)
     | OutExited code \<Rightarrow> (InfoExited code, b\<lparr>rb_exited := Some code\<rparr>)
     | OutSignaled signal \<Rightarrow> (InfoExited (128 + signal), b\<lparr>rb_exited := Some (128 + signal)\<rparr>))"

text \<open>The end of a movement: the session afterwards, then the cursor and the exit state.\<close>

definition rb_arrive :: "'os replay_env \<Rightarrow> string \<Rightarrow> ('os replay_backend \<Rightarrow> nat) \<Rightarrow> 'os replay_backend
    \<Rightarrow> (exit_outcome, replay_error) result \<times> 'os session \<Rightarrow> (stop_info, backend_error) result \<times> 'os replay_backend" where
  "rb_arrive env reason cursor b = (\<lambda>(r, session).
     let b' = b\<lparr>rb_session := session\<rparr> in
     case r of
       Err e \<Rightarrow> (Err (rb_engine env e), b')
     | Ok outcome \<Rightarrow> (case rb_classify outcome reason (b'\<lparr>rb_cursor := cursor b'\<rparr>) of (stop, b'') \<Rightarrow> (Ok stop, b'')))"

definition rb_goto :: "'os replay_env \<Rightarrow> nat \<Rightarrow> string \<Rightarrow> ('os replay_backend, stop_info) backend_op" where
  "rb_goto env index reason b =
     map_option (rb_arrive env reason (\<lambda>_. index) b)
       (run_to (re_os env) (re_fuel env) (rb_events b ! index) (rb_session b))"

definition rb_run_to_end :: "'os replay_env \<Rightarrow> ('os replay_backend, stop_info) backend_op" where
  "rb_run_to_end env b =
     map_option (rb_arrive env ''step'' (\<lambda>b. length (rb_events b)) b) (run_to_end (re_os env) (re_fuel env) (rb_session b))"

definition rb_launch :: "'os replay_env \<Rightarrow> ('os replay_backend, stop_info) backend_op" where
  "rb_launch env b = (if rb_events b = [] then rb_run_to_end env b else rb_goto env 0 ''entry'' b)"

fun rb_resume :: "'os replay_env \<Rightarrow> resume_kind \<Rightarrow> ('os replay_backend, stop_info) backend_op" where
  "rb_resume env Continue b = rb_run_to_end env b"
| "rb_resume env ReverseContinue b = (if rb_events b = [] then rb_run_to_end env b else rb_goto env 0 ''step'' b)"
| "rb_resume env StepBack b =
     (if rb_events b = [] then Some (Err (NotSupported ''no recorded events to step back over''), b)
      else rb_goto env (rb_cursor b - 1) ''step'' b)"
| "rb_resume env kind b =
     (let next = rb_cursor b + 1 in
      if length (rb_events b) \<le> next then rb_run_to_end env b else rb_goto env next ''step'' b)"

definition rposition :: "('a \<Rightarrow> bool) \<Rightarrow> 'a list \<Rightarrow> nat option" where
  "rposition P xs = (case filter (\<lambda>i. P (xs ! i)) [0..<length xs] of [] \<Rightarrow> None | is \<Rightarrow> Some (last is))"

definition event_cursor :: "'os replay_backend \<Rightarrow> nat" where
  "event_cursor b =
     (let reached_seq = (case rs_current_seq (rb_session b) of Some s \<Rightarrow> s | None \<Rightarrow> 0) in
      case rposition (\<lambda>s. s \<le> reached_seq) (rb_events b) of Some index \<Rightarrow> index | None \<Rightarrow> 0)"

definition rb_jump_to_event :: "'os replay_env \<Rightarrow> json \<Rightarrow> ('os replay_backend, stop_info) backend_op" where
  "rb_jump_to_event env arguments b =
     (case Option.bind (jget arguments ''seq'') as_u64 of
        None \<Rightarrow> Some (Err (BadArgs ''jumpToEvent requires a numeric \"seq\"''), b)
      | Some seq \<Rightarrow> map_option (rb_arrive env ''step'' event_cursor b) (run_to (re_os env) (re_fuel env) seq (rb_session b)))"

subsection \<open>Inspection\<close>

definition rb_tracee_pid :: "'os replay_backend \<Rightarrow> (pid, backend_error) result" where
  "rb_tracee_pid b = (if rb_exited b \<noteq> None then Err NoTracee else Ok (rs_pid (rb_session b)))"

definition decoder_failed :: "decoder_error \<Rightarrow> backend_error" where
  "decoder_failed e = Engine (decoder_error_display e)"

definition rb_view :: "'os replay_env \<Rightarrow> 'os replay_backend \<Rightarrow> (process_view, backend_error) result" where
  "rb_view env b =
     and_then (rb_tracee_pid b) (\<lambda>pid. map_err decoder_failed (re_view env pid (rs_os (rb_session b))))"

text \<open>The decoder is the one of \<open>select_decoder\<close>; the layout variant is read by the Tokio decoder only.\<close>

definition rb_decode :: "'os replay_env \<Rightarrow> 'os replay_backend \<Rightarrow> (process_view \<times> task_tree, backend_error) result" where
  "rb_decode env b =
     and_then (rb_view env b) (\<lambda>view.
     map_ok (Pair view) (map_err decoder_failed (chosen_decode_tasks VariantI select_decoder view)))"

definition rb_threads :: "'os replay_env \<Rightarrow> ('os replay_backend, json) backend_op" where
  "rb_threads env b = Some (map_ok (\<lambda>(view, tree). jobj [(''threads'', JArr (map (\<lambda>(index, i).
       jobj [(''id'', JNum (int index + 1)),
             (''name'', JStr (case tree_node tree i of Some n \<Rightarrow> tn_name n | None \<Rightarrow> ''''))]) (enumerate 0 (tt_roots tree))))])
     (rb_decode env b), b)"

definition path_file_name :: "string \<Rightarrow> string" where
  "path_file_name path =
     (let parts = filter (\<lambda>c. c \<noteq> '''' \<and> c \<noteq> ''.'') (split_on {CHR ''/''} path) in
      if parts = [] \<or> last parts = ''..'' then path else last parts)"

definition logical_frame_to_dap :: "nat \<Rightarrow> logical_frame \<Rightarrow> json" where
  "logical_frame_to_dap index lf =
     (let out = jobj [(''id'', JNum (int index + 1)), (''name'', JStr (lf_display_name lf)), (''line'', JNum 0), (''column'', JNum 0)] in
      case lf_location lf of
        None \<Rightarrow> out
      | Some location \<Rightarrow>
          jset (jset (jset out ''line'' (JNum (uint (sl_line location)))) ''column'' (JNum (uint (sl_column location))))
            ''source'' (jobj [(''name'', JStr (path_file_name (sl_path location))), (''path'', JStr (sl_path location))]))"

definition rb_stack_trace :: "'os replay_env \<Rightarrow> json \<Rightarrow> ('os replay_backend, json) backend_op" where
  "rb_stack_trace env arguments b = Some (and_then (rb_decode env b) (\<lambda>(view, tree).
     case tt_roots tree of
       [] \<Rightarrow> Ok (jobj [(''stackFrames'', JArr []), (''totalFrames'', JNum 0)])
     | task # _ \<Rightarrow>
         map_ok (\<lambda>frames. let stack = map (\<lambda>(index, f). logical_frame_to_dap index f) (enumerate 0 frames) in
             jobj [(''stackFrames'', JArr stack), (''totalFrames'', JNum (int (length stack)))])
           (map_err decoder_failed (chosen_logical_stack VariantI select_decoder view task))), b)"

definition rb_scopes :: "json \<Rightarrow> ('os replay_backend, json) backend_op" where
  "rb_scopes arguments = pure_op (Ok (jobj [(''scopes'', JArr [jobj [(''name'', JStr ''Registers''),
     (''variablesReference'', ju64 REGISTERS_REF), (''expensive'', JBool False)]])]))"

definition register_var :: "string \<Rightarrow> u64 \<Rightarrow> json" where
  "register_var name v =
     (let h = show_hex (unat v) in
      jobj [(''name'', JStr name), (''value'', JStr (''0x'' @ replicate (16 - length h) (CHR ''0'') @ h)), (''type'', JStr ''u64''),
        (''variablesReference'', JNum 0)])"

definition rb_variables :: "'os replay_env \<Rightarrow> json \<Rightarrow> ('os replay_backend, json) backend_op" where
  "rb_variables env arguments b =
     (if Option.bind (jget arguments ''variablesReference'') as_u64 \<noteq> Some REGISTERS_REF
      then Some (Ok (jobj [(''variables'', JArr [])]), b)
      else Some (and_then (rb_tracee_pid b) (\<lambda>pid.
        map_ok (\<lambda>regs. jobj [(''variables'', JArr [register_var ''pc'' (ur_pc regs), register_var ''sp'' (ur_sp regs),
            register_var ''fp'' (ur_fp regs), register_var ''lr'' (ur_lr regs),
            jobj [(''name'', JStr ''(locals)''), (''value'', JStr
              ''DWARF local-variable evaluation is not yet implemented (Layer 5, issue-tracked); showing registers only.''),
              (''variablesReference'', JNum 0)]])])
          (map_err Engine (re_registers env pid (rs_os (rb_session b))))), b))"

definition rb_list_checkpoints :: "('os replay_backend, json) backend_op" where
  "rb_list_checkpoints b = Some (Ok (jobj [(''checkpoints'',
     JArr (map (\<lambda>cp. jobj [(''seq'', ju64 (cp_seq cp))]) (rs_checkpoints (rb_session b))))]), b)"

fun task_kind_label :: "task_kind \<Rightarrow> string" where
  "task_kind_label Thread = ''thread''"
| "task_kind_label AsyncTask = ''async_task''"
| "task_kind_label Goroutine = ''goroutine''"
| "task_kind_label Coroutine = ''coroutine''"

fun task_state_label :: "task_state \<Rightarrow> string" where
  "task_state_label Runnable = ''runnable''"
| "task_state_label task_state.Running = ''running''"
| "task_state_label (Blocked on) = ''blocked''"
| "task_state_label Completed = ''completed''"

definition serialize_task :: "task_id \<Rightarrow> task_node \<Rightarrow> json" where
  "serialize_task i node = jobj [(''id'', ju64 i), (''name'', JStr (tn_name node)), (''kind'', JStr (task_kind_label (tn_kind node))),
     (''state'', JStr (task_state_label (tn_state node))),
     (''parent'', case tn_parent node of Some p \<Rightarrow> ju64 p | None \<Rightarrow> JNull)]"

text \<open>The recursion of the flattening needs a call stack as deep as the number of tasks at most.\<close>

definition rb_task_timeline :: "'os replay_env \<Rightarrow> ('os replay_backend, json) backend_op" where
  "rb_task_timeline env b = (case rb_decode env b of
       Err e \<Rightarrow> Some (Err e, b)
     | Ok (view, tree) \<Rightarrow>
         map_option (\<lambda>ids. (Ok (jobj [(''tasks'', JArr (List.map_filter (\<lambda>i.
             map_option (serialize_task i) (tree_node tree i)) ids))]), b))
           (flatten_preorder (tree_len tree) tree))"

definition rb_checkpoint_note :: "'os replay_backend \<Rightarrow> string option" where
  "rb_checkpoint_note b = (if rb_multithreaded b then Some
     (''checkpointing disabled: this trace records a multi-threaded schedule, and fork '' @
      ''snapshots can only capture a single live thread, so listCheckpoints will stay '' @
      ''empty and stepBack/reverseContinue re-execute from process entry.'') else None)"

definition replay_ops :: "'os replay_env \<Rightarrow> 'os replay_backend debug_backend" where
  "replay_ops env = \<lparr>be_launch = \<lambda>_. rb_launch env, be_threads = rb_threads env, be_stack_trace = rb_stack_trace env,
     be_scopes = rb_scopes, be_variables = rb_variables env, be_resume = rb_resume env,
     be_list_checkpoints = rb_list_checkpoints, be_task_timeline = rb_task_timeline env,
     be_jump_to_event = rb_jump_to_event env, be_checkpoint_note = rb_checkpoint_note\<rparr>"

subsection \<open>The target of a server\<close>

text \<open>
  What the server's box holds: the stub or a replay target, each with the operating system it runs on.
  Replacing a replay target drops its session.
\<close>

datatype 'os target = StubTarget 'os | ReplayTarget "'os replay_backend"

fun target_os :: "'os target \<Rightarrow> 'os" where
  "target_os (StubTarget w) = w"
| "target_os (ReplayTarget b) = rs_os (rb_session b)"

fun with_target_os :: "'os \<Rightarrow> 'os target \<Rightarrow> 'os target" where
  "with_target_os w (StubTarget _) = StubTarget w"
| "with_target_os w (ReplayTarget b) = ReplayTarget (b\<lparr>rb_session := (rb_session b)\<lparr>rs_os := w\<rparr>\<rparr>)"

fun drop_target :: "'os replay_env \<Rightarrow> 'os target \<Rightarrow> 'os \<Rightarrow> 'os" where
  "drop_target env (StubTarget _) w = w"
| "drop_target env (ReplayTarget b) w = rs_os (snd (session_drop (re_os env) ((rb_session b)\<lparr>rs_os := w\<rparr>)))"

definition select_replay_backend :: "'os replay_env \<Rightarrow> string \<Rightarrow> u64 \<Rightarrow> 'os target \<Rightarrow> (bool, string) result \<times> 'os target" where
  "select_replay_backend env trace interval t = (case rb_open env trace interval (target_os t) of
       (Err e, w) \<Rightarrow> (Err (backend_error_display e), with_target_os w t)
     | (Ok b, w) \<Rightarrow> (Ok True, with_target_os (drop_target env t w) (ReplayTarget b)))"

text \<open>A call through the box reaches the operations of what it holds.\<close>

definition dyn_op :: "('os, 'a) backend_op \<Rightarrow> ('os replay_backend, 'a) backend_op \<Rightarrow> ('os target, 'a) backend_op" where
  "dyn_op stub_op replay_op t = (case t of
       StubTarget w \<Rightarrow> map_option (map_prod id StubTarget) (stub_op w)
     | ReplayTarget b \<Rightarrow> map_option (map_prod id ReplayTarget) (replay_op b))"

definition target_ops :: "'os replay_env \<Rightarrow> 'os target debug_backend" where
  "target_ops env = (let st = stub_backend; re = replay_ops env in
     \<lparr>be_launch = \<lambda>a. dyn_op (be_launch st a) (be_launch re a),
      be_threads = dyn_op (be_threads st) (be_threads re),
      be_stack_trace = \<lambda>a. dyn_op (be_stack_trace st a) (be_stack_trace re a),
      be_scopes = \<lambda>a. dyn_op (be_scopes st a) (be_scopes re a),
      be_variables = \<lambda>a. dyn_op (be_variables st a) (be_variables re a),
      be_resume = \<lambda>k. dyn_op (be_resume st k) (be_resume re k),
      be_list_checkpoints = dyn_op (be_list_checkpoints st) (be_list_checkpoints re),
      be_task_timeline = dyn_op (be_task_timeline st) (be_task_timeline re),
      be_jump_to_event = \<lambda>a. dyn_op (be_jump_to_event st a) (be_jump_to_event re a),
      be_checkpoint_note = \<lambda>t. (case t of StubTarget w \<Rightarrow> be_checkpoint_note st w | ReplayTarget b \<Rightarrow> be_checkpoint_note re b)\<rparr>)"

definition dap_env :: "(json \<Rightarrow> (bytes, string) result) \<Rightarrow> (bytes \<Rightarrow> (json, string) result) \<Rightarrow> 'os replay_env \<Rightarrow> 'os target server_env" where
  "dap_env print parse env = \<lparr>se_print = print, se_parse = parse, se_dyn = target_ops env, se_select = select_replay_backend env\<rparr>"

text \<open>\<open>serve_stdio\<close>: a new server on the stub target, from standard input to standard output.\<close>

definition serve_stdio ::
  "(json \<Rightarrow> (bytes, string) result) \<Rightarrow> (bytes \<Rightarrow> (json, string) result) \<Rightarrow> 'os replay_env \<Rightarrow> source \<Rightarrow> sink \<Rightarrow> 'os
     \<Rightarrow> ((unit, transport_error) result \<times> 'os target server) option" where
  "serve_stdio print parse env stdin stdout w = run_buffered (dap_env print parse env) stdin (server_new (StubTarget w) stdout)"

subsection \<open>Reachable targets\<close>

text \<open>
  The targets reached from opening a trace by operations that answer. An operation that fails leaves a
  session whose position the engine does not vouch for.
\<close>

inductive backend_of :: "'os replay_env \<Rightarrow> string \<Rightarrow> trace_record list \<Rightarrow> 'os replay_backend \<Rightarrow> bool" for env path records where
  opened: "rb_open env path interval o0 = (Ok b, o1) \<Longrightarrow> rs_records (rb_session b) = records \<Longrightarrow> backend_of env path records b"
| moved: "backend_of env path records b \<Longrightarrow> m \<in> moves (replay_ops env) \<Longrightarrow> m b = Some (Ok stop, b') \<Longrightarrow> backend_of env path records b'"

definition exit_seqs :: "trace_record list \<Rightarrow> u64 list" where
  "exit_seqs records = map rec_seq (filter (\<lambda>r. ev_kind (rec_event r) = SyscallExit) records)"

lemma rb_open_Ok:
  assumes "rb_open env path interval o0 = (Ok b, o1)"
  shows "session_of (re_crc env) (re_os env) (re_files env path) (rs_records (rb_session b)) (rb_session b)"
    and "rb_events b = exit_seqs (rs_records (rb_session b))" and "rb_cursor b = 0" and "rb_exited b = None"
proof -
  from assms obtain s events mt where s: "launch (re_crc env) (re_os env) (re_files env path) o0 = (Ok s, o1)"
    and meta: "read_trace_meta env path = Ok (events, mt)"
    and b: "b = \<lparr>rb_session = set_checkpoint_interval interval s, rb_events = events, rb_cursor = 0, rb_exited = None, rb_multithreaded = mt\<rparr>"
    by (auto simp: rb_open_def Let_def split: prod.splits result.splits)
  show "session_of (re_crc env) (re_os env) (re_files env path) (rs_records (rb_session b)) (rb_session b)"
    using stepped [OF launched [OF s refl] step_interval, of interval] by (simp add: b set_checkpoint_interval_def)
  from s obtain src rd cmd records pid where "re_files env path = Ok src" "reader_open src = Ok rd"
    "read_all (re_crc env) rd = map Ok records" "s = session_new pid cmd records o1" by (rule launch_Ok)
  with meta show "rb_events b = exit_seqs (rs_records (rb_session b))"
    by (simp add: read_trace_meta_def exit_seqs_def b set_checkpoint_interval_def session_new_def)
  show "rb_cursor b = 0" "rb_exited b = None" by (simp_all add: b)
qed

lemma rb_arrive_Ok:
  assumes "rb_arrive env reason cursor b (r, s) = (Ok stop, b')"
  obtains outcome where "r = Ok outcome" and "rb_session b' = s" and "rb_events b' = rb_events b"
    and "rb_cursor b' = cursor (b\<lparr>rb_session := s\<rparr>)" and "(rb_exited b' = None) = is_stopped stop"
    and "is_stopped stop = (outcome = exit_outcome.Running)"
  using assms
  by (cases r) (auto simp: rb_arrive_def rb_classify_def Let_def split: exit_outcome.splits)

text \<open>A movement that answers is a movement of the session.\<close>

definition session_move :: "'os replay_env \<Rightarrow> 'os replay_backend \<Rightarrow> stop_info \<Rightarrow> 'os replay_backend \<Rightarrow> bool" where
  "session_move env b stop b' \<longleftrightarrow> session_step (re_os env) (rb_session b) (rb_session b') \<and> rb_events b' = rb_events b
     \<and> (rb_exited b' = None) = is_stopped stop"

lemma rb_goto_Ok:
  assumes "rb_goto env index reason b = Some (Ok stop, b')"
  shows "session_move env b stop b'" and "rb_cursor b' = index"
    and "is_stopped stop \<Longrightarrow> run_to (re_os env) (re_fuel env) (rb_events b ! index) (rb_session b) = Some (Ok exit_outcome.Running, rb_session b')"
proof -
  from assms obtain r s where r: "run_to (re_os env) (re_fuel env) (rb_events b ! index) (rb_session b) = Some (r, s)"
    and a: "rb_arrive env reason (\<lambda>_. index) b (r, s) = (Ok stop, b')" by (auto simp: rb_goto_def)
  from a obtain outcome where "r = Ok outcome" "rb_session b' = s" "rb_events b' = rb_events b" "rb_cursor b' = index"
    "(rb_exited b' = None) = is_stopped stop" "is_stopped stop = (outcome = exit_outcome.Running)" by (rule rb_arrive_Ok)
  with r show "session_move env b stop b'" "rb_cursor b' = index"
    "is_stopped stop \<Longrightarrow> run_to (re_os env) (re_fuel env) (rb_events b ! index) (rb_session b) = Some (Ok exit_outcome.Running, rb_session b')"
    by (auto simp: session_move_def intro: step_run_to)
qed

lemma rb_run_to_end_Ok:
  assumes "rb_run_to_end env b = Some (Ok stop, b')"
  shows "session_move env b stop b'" and "session_inv (rb_session b) \<Longrightarrow> \<not> is_stopped stop"
    and "rb_cursor b' = length (rb_events b)"
proof -
  from assms obtain r s where r: "run_to_end (re_os env) (re_fuel env) (rb_session b) = Some (r, s)"
    and a: "rb_arrive env ''step'' (\<lambda>b. length (rb_events b)) b (r, s) = (Ok stop, b')" by (auto simp: rb_run_to_end_def)
  from a obtain outcome where o: "r = Ok outcome" "rb_session b' = s" "rb_events b' = rb_events b"
    "rb_cursor b' = length (rb_events b)" "(rb_exited b' = None) = is_stopped stop"
    "is_stopped stop = (outcome = exit_outcome.Running)" by (rule rb_arrive_Ok) simp
  with r show "session_move env b stop b'" "rb_cursor b' = length (rb_events b)"
    by (auto simp: session_move_def intro: step_run_to_end)
  show "\<not> is_stopped stop" if "session_inv (rb_session b)"
    using drive_drives [of "re_os env" "re_fuel env" None "rb_session b" outcome s] r o that
    by (auto simp: run_to_end_def reached_def)
qed

lemma rb_jump_Ok:
  assumes "rb_jump_to_event env args b = Some (Ok stop, b')"
  shows "session_move env b stop b'" and "rb_cursor b' = event_cursor (b\<lparr>rb_session := rb_session b'\<rparr>)"
proof -
  from assms obtain seq r s where r: "run_to (re_os env) (re_fuel env) seq (rb_session b) = Some (r, s)"
    and a: "rb_arrive env ''step'' event_cursor b (r, s) = (Ok stop, b')" by (auto simp: rb_jump_to_event_def split: option.splits)
  from a obtain outcome where "r = Ok outcome" "rb_session b' = s" "rb_events b' = rb_events b"
    "rb_cursor b' = event_cursor (b\<lparr>rb_session := s\<rparr>)" "(rb_exited b' = None) = is_stopped stop" by (rule rb_arrive_Ok)
  with r show "session_move env b stop b'" "rb_cursor b' = event_cursor (b\<lparr>rb_session := rb_session b'\<rparr>)"
    by (auto simp: session_move_def intro: step_run_to)
qed

lemma rb_resume_Ok: "rb_resume env kind b = Some (Ok stop, b') \<Longrightarrow> session_move env b stop b'"
  by (cases kind) (auto simp: Let_def split: if_splits dest: rb_goto_Ok(1) rb_run_to_end_Ok(1))

lemma moves_session:
  assumes "m \<in> moves (replay_ops env)" and "m b = Some (Ok stop, b')"
  shows "session_move env b stop b'"
  using assms
  by (auto simp: moves_def replay_ops_def rb_launch_def split: if_splits
      dest: rb_goto_Ok(1) rb_run_to_end_Ok(1) rb_resume_Ok rb_jump_Ok(1))

lemma backend_of_inv:
  "backend_of env path records b \<Longrightarrow>
   session_of (re_crc env) (re_os env) (re_files env path) records (rb_session b) \<and> rb_events b = exit_seqs records"
proof (induction rule: backend_of.induct)
  case (opened interval o0 b o1)
  then show ?case using rb_open_Ok [OF opened(1)] by simp
next
  case (moved b m stop b')
  from moves_session [OF moved(2,3)] moved(4) show ?case by (auto simp: session_move_def intro: stepped)
qed

subsection \<open>Stepping\<close>

lemma find_exact:
  assumes "sorted_wrt (<) (map rec_seq records)" and "r0 \<in> set records" and "concrete r0"
  shows "find (\<lambda>r. concrete r \<and> rec_seq r0 \<le> rec_seq r) records = Some r0"
  using assms
proof (induction records)
  case (Cons r rs)
  show ?case
  proof (cases "r0 = r")
    case False
    with Cons.prems have "rec_seq r < rec_seq r0" by auto
    with Cons False show ?thesis by auto
  qed (use Cons.prems in auto)
qed simp

lemma goto_lands:
  assumes "session_of crc os trace records s" and "i < length (exit_seqs records)"
    and "run_to os fuel (exit_seqs records ! i) s = Some (Ok exit_outcome.Running, s')"
  shows "rs_current_seq s' = Some (exit_seqs records ! i)
    \<and> consumed s' = filter (\<lambda>r. concrete r \<and> rec_seq r \<le> exit_seqs records ! i) records"
proof -
  have inv: "session_inv s" "rs_records s = records" using session_of_inv [OF assms(1)] by auto
  from nth_mem [OF assms(2)] obtain r0 where r0: "r0 \<in> set records" "ev_kind (rec_event r0) = SyscallExit"
    "exit_seqs records ! i = rec_seq r0" by (auto simp: exit_seqs_def)
  have "find (\<lambda>r. concrete r \<and> rec_seq r0 \<le> rec_seq r) records = Some r0"
    using inv r0 by (intro find_exact) (auto simp: session_inv_def concrete_def)
  with run_to_landing [OF assms(3) inv(1)] r0(3) inv(2) show ?thesis by auto
qed

definition step_target :: "resume_kind \<Rightarrow> nat \<Rightarrow> nat" where
  "step_target kind c = (case kind of StepBack \<Rightarrow> c - 1 | ReverseContinue \<Rightarrow> 0 | _ \<Rightarrow> c + 1)"

lemma resume_lands:
  assumes "backend_of env path records b" and "rb_resume env kind b = Some (Ok (InfoStopped reason tid), b')"
    and "rb_cursor b \<le> length (rb_events b)"
  shows "kind \<noteq> Continue \<and> rb_cursor b' = step_target kind (rb_cursor b) \<and> rb_cursor b' < length (exit_seqs records)
    \<and> rs_current_seq (rb_session b') = Some (exit_seqs records ! rb_cursor b')
    \<and> consumed (rb_session b') = filter (\<lambda>r. concrete r \<and> rec_seq r \<le> exit_seqs records ! rb_cursor b') records"
proof -
  note i = backend_of_inv [OF assms(1)]
  then have "session_inv (rb_session b)" using session_of_inv by blast
  then have no_end: "rb_run_to_end env b \<noteq> Some (Ok (InfoStopped reason tid), b')" using rb_run_to_end_Ok(2) by fastforce
  have land: "rb_cursor b' = index \<and> rs_current_seq (rb_session b') = Some (exit_seqs records ! index)
      \<and> consumed (rb_session b') = filter (\<lambda>r. concrete r \<and> rec_seq r \<le> exit_seqs records ! index) records"
    if "rb_goto env index why b = Some (Ok (InfoStopped reason tid), b')" "index < length (rb_events b)" for index why
    using rb_goto_Ok(2,3) [OF that(1)] goto_lands [OF conjunct1 [OF i], of index "re_fuel env" "rb_session b'"] that(2) i by simp
  have "rb_events b \<noteq> [] \<Longrightarrow> rb_cursor b - 1 < length (rb_events b)" using assms(3) by (cases "rb_events b") auto
  then have "kind \<noteq> Continue \<and> (\<exists>why. rb_goto env (step_target kind (rb_cursor b)) why b = Some (Ok (InfoStopped reason tid), b'))
      \<and> step_target kind (rb_cursor b) < length (rb_events b)"
    using assms(2,3) no_end
    by (cases kind) (auto simp: Let_def step_target_def not_le split: if_splits)
  with land i show ?thesis by auto
qed

lemma rposition_Some:
  assumes "rposition P xs = Some i"
  shows "i < length xs \<and> P (xs ! i)"
proof -
  let ?is = "filter (\<lambda>i. P (xs ! i)) [0..<length xs]"
  from assms have "?is \<noteq> []" "i = last ?is" by (auto simp: rposition_def split: list.splits)
  then have "i \<in> set ?is" using last_in_set by blast
  then show ?thesis by simp
qed

lemma event_cursor_le: "event_cursor b \<le> length (rb_events b)"
  by (auto simp: event_cursor_def Let_def split: option.splits dest!: rposition_Some)

lemma resume_cursor:
  "rb_resume env kind b = Some (Ok stop, b') \<Longrightarrow> rb_cursor b \<le> length (rb_events b) \<Longrightarrow> rb_cursor b' \<le> length (rb_events b)"
  by (cases kind) (auto simp: Let_def split: if_splits dest: rb_goto_Ok(2) rb_run_to_end_Ok(3))

lemma backend_of_cursor: "backend_of env path records b \<Longrightarrow> rb_cursor b \<le> length (rb_events b)"
proof (induction rule: backend_of.induct)
  case (opened interval o0 b o1)
  then show ?case by (simp add: rb_open_Ok(3) [OF opened(1)])
next
  case (moved b m stop b')
  have ev: "rb_events b' = rb_events b" using moves_session [OF moved(2,3)] by (simp add: session_move_def)
  from moved(2) consider (launch) a where "m = be_launch (replay_ops env) a" | (resume) k where "m = rb_resume env k"
    | (jump) a where "m = rb_jump_to_event env a" by (auto simp: moves_def replay_ops_def)
  then show ?case
  proof cases
    case launch
    with moved(3) ev show ?thesis
      by (auto simp: replay_ops_def rb_launch_def split: if_splits dest: rb_goto_Ok(2) rb_run_to_end_Ok(3))
  next
    case resume
    with moved(3,4) ev show ?thesis using resume_cursor by metis
  next
    case jump
    with moved(3) rb_jump_Ok(2) ev show ?thesis using event_cursor_le [of "b\<lparr>rb_session := rb_session b'\<rparr>"] by fastforce
  qed
qed

subsection \<open>A concrete target\<close>

text \<open>Two system calls replayed by the scripted kernel, for the witnesses.\<close>

definition demo_es :: "event list" where
  "demo_es = [demo_enter, demo_exit, demo_enter, demo_exit]"

definition demo_renv :: "wait_status list replay_env" where
  "demo_renv = \<lparr>re_os = demo_replay_os, re_crc = demo_crc, re_fuel = Suc (Suc (Suc (Suc (Suc 0)))),
     re_files = \<lambda>_. demo_trace demo_es, re_view = \<lambda>_ _. Ok demo_async_view, re_registers = \<lambda>_ _. Err [],
     re_texts = \<lparr>et_io = \<lambda>_. [], et_errno = \<lambda>_. [], et_status = \<lambda>_. [], et_unwind = \<lambda>_. []\<rparr>\<rparr>"

definition demo_b :: "wait_status list \<Rightarrow> wait_status list replay_backend" where
  "demo_b script = \<lparr>rb_session = session_new 7 demo_cmd (records_from 0 demo_es) script, rb_events = [1, 3], rb_cursor = 0,
     rb_exited = None, rb_multithreaded = False\<rparr>"

lemma demo_records: "exit_seqs (records_from 0 demo_es) = [1, 3]" "\<not> trace_is_multithreaded (records_from 0 demo_es)"
  by (simp_all add: exit_seqs_def demo_es_def demo_enter_def demo_exit_def event_new_with_tid_def event_norm_def
      trace_is_multithreaded_def is_lifecycle_kind_def)

lemma demo_open: "rb_open demo_renv path 0 (Stopped 7 5 # script) = (Ok (demo_b script), script)"
proof -
  have l: "launch demo_crc demo_replay_os (demo_trace demo_es) (Stopped 7 5 # script)
    = (Ok (session_new 7 demo_cmd (records_from 0 demo_es) script), script)"
    by (rule demo_launch) (simp_all add: demo_es_def)
  from l obtain src rd cmd records pid where "demo_trace demo_es = Ok src" "reader_open src = Ok rd"
    "read_all demo_crc rd = map Ok records"
    "session_new 7 demo_cmd (records_from 0 demo_es) script = session_new pid cmd records script" by (rule launch_Ok)
  moreover from this(4) have "records = records_from 0 demo_es" by (simp add: session_new_def)
  ultimately have "read_trace_meta demo_renv path = Ok ([1, 3], False)"
    using demo_records by (simp add: read_trace_meta_def demo_renv_def exit_seqs_def)
  then show ?thesis
    by (simp add: rb_open_def demo_renv_def l demo_b_def set_checkpoint_interval_def session_new_def)
qed

lemma demo_backend: "backend_of demo_renv path (records_from 0 demo_es) (demo_b script)"
  by (rule opened [OF demo_open]) (simp add: demo_b_def session_new_def)

lemmas demo_backend_simps = demo_renv_def demo_b_def demo_es_def rb_goto_def rb_launch_def rb_arrive_def rb_classify_def
  rb_jump_to_event_def event_cursor_def rposition_def
  demo_replay_simps respawn_def kill_active_def ros_ignore_def session_spawn_def setup_options_def rearm_watchpoint_def
  restart_at_def

definition demo_stops :: "wait_status list" where
  "demo_stops = [PtraceSyscall 7, PtraceSyscall 7, PtraceSyscall 7, PtraceSyscall 7, PtraceSyscall 7, PtraceSyscall 7,
     PtraceSyscall 7, PtraceSyscall 7]"

lemma demo_walk:
  "\<exists>b0 b1 b2. be_launch (replay_ops demo_renv) JNull (demo_b demo_stops) = Some (Ok (InfoStopped ''entry'' 1), b0)
    \<and> rs_current_seq (rb_session b0) = Some (rb_events b0 ! rb_cursor b0)
    \<and> rb_resume demo_renv StepNext b0 = Some (Ok (InfoStopped ''step'' 1), b1)
    \<and> rb_resume demo_renv StepBack b1 = Some (Ok (InfoStopped ''step'' 1), b2)"
  by (simp add: demo_backend_simps replay_ops_def MAIN_THREAD_ID_def demo_stops_def)

lemma demo_jump:
  "\<exists>b1 b2. rb_jump_to_event demo_renv (jobj [(''seq'', JNum 0)]) (demo_b demo_stops) = Some (Ok (InfoStopped ''step'' 1), b1)
    \<and> rs_current_seq (rb_session b1) = Some 0
    \<and> rb_resume demo_renv StepNext b1 = Some (Ok (InfoStopped ''step'' 1), b2)"
  by (simp add: demo_backend_simps replay_ops_def MAIN_THREAD_ID_def demo_stops_def)



text \<open>
  C22. Stepping back undoes a step: on a target stopped at an event, a step forward followed by a step
  back that both report a stop restore the cursor, the replayed position and the set of replayed records.
\<close>

theorem step_back_undoes_next:
  assumes "backend_of env path records b" and "rs_current_seq (rb_session b) = Some (rb_events b ! rb_cursor b)"
    and "rb_resume env StepNext b = Some (Ok (InfoStopped reason tid), b1)"
    and "rb_resume env StepBack b1 = Some (Ok (InfoStopped reason' tid'), b2)"
  shows "rb_cursor b2 = rb_cursor b \<and> rs_current_seq (rb_session b2) = rs_current_seq (rb_session b)
    \<and> consumed (rb_session b2) = consumed (rb_session b)"
proof -
  have m: "rb_resume env StepNext \<in> moves (replay_ops env)" by (simp add: moves_def replay_ops_def)
  note b1 = moved [OF assms(1) m assms(3)]
  note one = resume_lands [OF assms(1,3) backend_of_cursor [OF assms(1)]]
    and two = resume_lands [OF b1 assms(4) backend_of_cursor [OF b1]]
  from one two have "rb_cursor b2 = rb_cursor b" by (simp add: step_target_def)
  moreover have "session_inv (rb_session b)" "rs_records (rb_session b) = records" "rb_events b = exit_seqs records"
    using backend_of_inv [OF assms(1)] session_of_inv by blast+
  ultimately show ?thesis using two assms(2) consumed_upto [of "rb_session b"] by simp
qed

theorem step_back_undoes_next_witness:
  "\<exists>b b1 b2. rb_resume demo_renv StepNext b = Some (Ok (InfoStopped ''step'' 1), b1)
     \<and> rb_resume demo_renv StepBack b1 = Some (Ok (InfoStopped ''step'' 1), b2)
     \<and> rs_current_seq (rb_session b2) = rs_current_seq (rb_session b) \<and> consumed (rb_session b2) = consumed (rb_session b)"
proof -
  from demo_walk obtain b0 b1 b2 where w: "be_launch (replay_ops demo_renv) JNull (demo_b demo_stops) = Some (Ok (InfoStopped ''entry'' 1), b0)"
    "rs_current_seq (rb_session b0) = Some (rb_events b0 ! rb_cursor b0)"
    "rb_resume demo_renv StepNext b0 = Some (Ok (InfoStopped ''step'' 1), b1)"
    "rb_resume demo_renv StepBack b1 = Some (Ok (InfoStopped ''step'' 1), b2)" by blast
  have "be_launch (replay_ops demo_renv) JNull \<in> moves (replay_ops demo_renv)" by (simp add: moves_def)
  from step_back_undoes_next [OF moved [OF demo_backend this w(1)] w(2-4)] w show ?thesis by blast
qed

text \<open>
  A jump before the first event makes the next step skip it: the cursor is put on the first event
  although the target has not reached it, so that a step forward goes to the second one.
\<close>

theorem next_after_jump_skips_event:
  assumes "backend_of env path records b" and "rb_jump_to_event env args b = Some (Ok (InfoStopped reason tid), b1)"
    and "rs_current_seq (rb_session b1) = Some seq" and "\<forall>e \<in> set (exit_seqs records). seq < e"
    and "rb_resume env StepNext b1 = Some (Ok (InfoStopped reason' tid'), b2)"
  shows "rs_current_seq (rb_session b2) = Some (exit_seqs records ! 1)"
proof -
  have m: "rb_jump_to_event env args \<in> moves (replay_ops env)" by (simp add: moves_def replay_ops_def)
  note b1 = moved [OF assms(1) m assms(2)]
  have ev: "rb_events b = exit_seqs records" using backend_of_inv [OF assms(1)] by blast
  have "rposition (\<lambda>s. s \<le> seq) (exit_seqs records) = None"
    using assms(4) rposition_Some [of "\<lambda>s. s \<le> seq" "exit_seqs records"] nth_mem by (cases "rposition (\<lambda>s. s \<le> seq) (exit_seqs records)") fastforce+
  with rb_jump_Ok(2) [OF assms(2)] assms(3) ev have "rb_cursor b1 = 0" by (simp add: event_cursor_def)
  with resume_lands [OF b1 assms(5) backend_of_cursor [OF b1]] show ?thesis by (simp add: step_target_def)
qed

theorem next_after_jump_skips_event_witness:
  "\<exists>b1 b2. rb_jump_to_event demo_renv (jobj [(''seq'', JNum 0)]) (demo_b demo_stops) = Some (Ok (InfoStopped ''step'' 1), b1)
     \<and> rs_current_seq (rb_session b1) = Some 0 \<and> rb_resume demo_renv StepNext b1 = Some (Ok (InfoStopped ''step'' 1), b2)
     \<and> rs_current_seq (rb_session b2) = Some 3"
proof -
  from demo_jump obtain b1 b2 where w:
    "rb_jump_to_event demo_renv (jobj [(''seq'', JNum 0)]) (demo_b demo_stops) = Some (Ok (InfoStopped ''step'' 1), b1)"
    "rs_current_seq (rb_session b1) = Some 0" "rb_resume demo_renv StepNext b1 = Some (Ok (InfoStopped ''step'' 1), b2)" by blast
  have "\<forall>e \<in> set (exit_seqs (records_from 0 demo_es)). 0 < e" by (simp add: demo_records)
  from next_after_jump_skips_event [OF demo_backend w(1,2) this w(3)] w demo_records(1) show ?thesis by auto
qed

subsection \<open>Inspection\<close>

lemma rb_arrive_Err: "rb_arrive env reason cursor b (r, s) = (Err e, b') \<Longrightarrow> rb_exited b' = rb_exited b"
  by (cases r) (auto simp: rb_arrive_def Let_def split: prod.splits)

lemma goto_Err: "rb_goto env index reason b = Some (Err e, b') \<Longrightarrow> rb_exited b' = rb_exited b"
  "rb_run_to_end env b = Some (Err e, b') \<Longrightarrow> rb_exited b' = rb_exited b"
  by (auto simp: rb_goto_def rb_run_to_end_def dest: rb_arrive_Err)

lemma resume_Err: "rb_resume env kind b = Some (Err e, b') \<Longrightarrow> rb_exited b' = rb_exited b"
  by (cases kind) (auto simp: Let_def split: if_splits dest: goto_Err)

lemma moves_Err: "m \<in> moves (replay_ops env) \<Longrightarrow> m b = Some (Err e, b') \<Longrightarrow> rb_exited b' = rb_exited b"
  by (auto simp: moves_def replay_ops_def rb_launch_def rb_jump_to_event_def
      split: if_splits option.splits dest: rb_arrive_Err goto_Err resume_Err)

lemma live_view: "rb_exited b = None \<Longrightarrow> rb_decode env b \<noteq> Err NoTracee"
  by (auto simp: rb_decode_def rb_view_def rb_tracee_pid_def and_then_eq_Err decoder_failed_def)

lemma queries_replay:
  assumes "q \<in> queries (replay_ops env)" and "q b = Some (r, b')" and "rb_exited b = None"
  shows "rb_exited b' = None \<and> r \<noteq> Err NoTracee"
  using assms live_view [OF assms(3), of env]
  by (auto simp: queries_def replay_ops_def rb_threads_def rb_stack_trace_def rb_scopes_def rb_variables_def
      rb_list_checkpoints_def rb_task_timeline_def pure_op_def and_then_eq_Err decoder_failed_def rb_tracee_pid_def
      neq_Nil_conv split: list.splits result.splits if_splits)

interpretation replay_target: inspectable_target "replay_ops env" "\<lambda>b. rb_exited b = None" for env
proof
  fix m b stop b' assume "m \<in> moves (replay_ops env)" "m b = Some (Ok stop, b')"
  then show "(rb_exited b' = None) = is_stopped stop" using moves_session unfolding session_move_def by blast
next
  fix m b e b' assume "m \<in> moves (replay_ops env)" "m b = Some (Err e, b')" "rb_exited b = None"
  then show "rb_exited b' = None" using moves_Err by metis
qed (rule queries_replay)

fun target_live :: "'os target \<Rightarrow> bool" where
  "target_live (StubTarget w) = True"
| "target_live (ReplayTarget b) = (rb_exited b = None)"

lemma moves_dyn:
  assumes "m \<in> moves (target_ops env)"
  obtains st re where "st \<in> moves stub_backend" and "re \<in> moves (replay_ops env)" and "m = dyn_op st re"
  using assms that by (simp add: moves_def target_ops_def Let_def) blast

lemma queries_dyn:
  assumes "q \<in> queries (target_ops env)"
  obtains st re where "st \<in> queries stub_backend" and "re \<in> queries (replay_ops env)" and "q = dyn_op st re"
  using assms that by (simp add: queries_def target_ops_def Let_def) blast

interpretation target: inspectable_target "target_ops env" target_live for env :: "'os replay_env"
proof
  fix m and t :: "'os target" and stop t' assume "m \<in> moves (target_ops env)" "m t = Some (Ok stop, t')"
  then show "target_live t' = is_stopped stop"
    using stub.move_stop replay_target.move_stop by (elim moves_dyn) (fastforce simp: dyn_op_def split: target.splits)
next
  fix m and t :: "'os target" and e t' assume "m \<in> moves (target_ops env)" "m t = Some (Err e, t')" "target_live t"
  then show "target_live t'"
    using replay_target.move_fail by (elim moves_dyn) (fastforce simp: dyn_op_def split: target.splits)
next
  fix q and t :: "'os target" and r t' assume "q \<in> queries (target_ops env)" "q t = Some (r, t')" "target_live t"
  then show "target_live t' \<and> r \<noteq> Err NoTracee"
    using stub.query_live replay_target.query_live by (elim queries_dyn) (fastforce simp: dyn_op_def split: target.splits)
qed

lemma select_keeps_live: "target.select_live env (dap_env print parse env)"
proof -
  have "target_live (with_target_os w t) = target_live t" for w and t :: "'a target" by (cases t) simp_all
  then show ?thesis
    by (auto simp: target.select_live_def dap_env_def select_replay_backend_def dest: rb_open_Ok(4) split: prod.splits result.splits)
qed

text \<open>
  C24. A stopped target can be inspected: in a whole session over standard input and output, from the
  stub target through launches of traces and movements in any order, whenever the last stop event sent
  to the client is \<open>stopped\<close> and not \<open>terminated\<close>, no inspection request is refused for want of a tracee.
\<close>

theorem stopped_target_inspectable:
  assumes "\<forall>m. \<exists>p. print m = Ok p" and "delivers (dap_env print parse env) rqs stdin"
    and "\<forall>rq \<in> set rqs. rq_command rq \<noteq> ''disconnect''"
    and "serve_stdio print parse env stdin \<lparr>sk_bytes = [], sk_room = None\<rparr> w = Some (r, s')"
  shows "\<exists>outss. sk_bytes (sv_writer s') = transcript print 0 (concat outss) \<and> list_all2 one_response rqs outss
    \<and> (foldl believe False (concat outss) \<longrightarrow>
        (\<forall>q \<in> queries (target_ops env). \<forall>a t. q (sv_backend s') = Some (a, t) \<longrightarrow> a \<noteq> Err NoTracee))"
proof -
  let ?env = "dap_env print parse env" and ?s = "server_new (StubTarget w) \<lparr>sk_bytes = [], sk_room = None\<rparr>"
  have cw: "can_write ?env ?s" using assms(1) by (simp add: can_write_def dap_env_def server_new_def)
  have run: "run_buffered ?env stdin ?s = Some (r, s')" using assms(4) by (simp add: serve_stdio_def)
  then obtain outss b where c: "converse ?env rqs (sv_backend ?s) = Some (outss, b)"
    using run_stuck [OF cw assms(2,3)] by fastforce
  from run_converses [OF cw assms(2,3) c] run have s': "sv_backend s' = b" "list_all2 one_response rqs outss"
    "sk_bytes (sv_writer s') = transcript print 0 (concat outss)" by (auto simp: dap_env_def server_new_def)
  with target.stopped_inspectable [OF select_keeps_live c] show ?thesis by blast
qed

text \<open>Witness: the stub target launched without a trace.\<close>

definition demo_launch_request :: request where
  "demo_launch_request = \<lparr>rq_seq = 1, rq_command = ''launch'', rq_arguments = JNull\<rparr>"

theorem stopped_target_inspectable_witness:
  "\<exists>s' outss. serve_stdio (\<lambda>_. Ok []) (\<lambda>_. Ok (JArr [JNum 1, JStr ''launch''])) demo_renv [Data (frame_bytes [])]
       \<lparr>sk_bytes = [], sk_room = None\<rparr> [] = Some (Ok (), s')
     \<and> list_all2 one_response [demo_launch_request] outss"
proof -
  let ?parse = "\<lambda>_ :: bytes. Ok (JArr [JNum 1, JStr ''launch'']) :: (json, string) result"
  let ?env = "dap_env (\<lambda>_. Ok []) ?parse demo_renv"
  have rq: "request_of_json (JArr [JNum 1, JStr ''launch'']) = Some demo_launch_request"
    by (simp add: request_of_fields_def demo_launch_request_def)
  have del: "delivers ?env [demo_launch_request] [Data (frame_bytes [])]"
    using rq by (auto simp: delivers_def dap_env_def frame_bytes_def frame_header_def list_all2_Cons2 intro!: exI [of _ "[[]]"])
  have nd: "\<forall>rq \<in> set [demo_launch_request]. rq_command rq \<noteq> ''disconnect''" by (simp add: demo_launch_request_def)
  have cw: "can_write ?env (server_new (StubTarget []) \<lparr>sk_bytes = [], sk_room = None\<rparr>)"
    by (simp add: can_write_def dap_env_def server_new_def)
  obtain outss b where "converse ?env [demo_launch_request] (StubTarget []) = Some (outss, b)"
    by (simp add: reply_def demo_launch_request_def reply_launch_def reply_target_def dap_env_def target_ops_def Let_def
        dyn_op_def stub_backend_def pure_op_def)
  with run_converses [OF cw del nd] obtain s' where
    run: "serve_stdio (\<lambda>_. Ok []) ?parse demo_renv [Data (frame_bytes [])] \<lparr>sk_bytes = [], sk_room = None\<rparr> [] = Some (Ok (), s')"
    by (auto simp: serve_stdio_def server_new_def)
  from stopped_target_inspectable [OF _ del nd run] run show ?thesis by blast
qed

end
