(* ===== verification/Cli.thy ===== *)
theory Cli
  imports RecordCommand EbpfCapture ReplayBackend
begin

text \<open>
  The command line program (\<open>mirrorscope-cli/src/main.rs\<close>, built for Linux): the parsers of its
  subcommands' arguments, the subcommands \<open>record\<close> (with and without eBPF), \<open>replay\<close>, \<open>watch\<close> and \<open>dap\<close> over the
  models of the libraries they call, and the texts they print. Arguments are strings of bytes; the
  environment supplies files, processes and the environment variable.

  Argument lists are shown to be parsed back to what they were printed from, printed values to be read
  back, and requests that the hardware cannot watch to be refused before the target runs.
\<close>

subsection \<open>Environment and output\<close>

datatype exit_code = ExitSuccess | ExitFailure

record cli_output =
  out_code :: exit_code
  out_stdout :: "string list"
  out_stderr :: "string list"

definition fail_with :: "string list \<Rightarrow> cli_output" where
  "fail_with lines = \<lparr>out_code = ExitFailure, out_stdout = [], out_stderr = lines\<rparr>"

definition succeed_with :: "string list \<Rightarrow> cli_output" where
  "succeed_with lines = \<lparr>out_code = ExitSuccess, out_stdout = [], out_stderr = lines\<rparr>"

record ('r, 'p) cli_env =
  ce_tracer :: "'r tracer_os"
  ce_spawn :: "bytes \<Rightarrow> bytes list \<Rightarrow> ('r, pid, capture_error) st"
  ce_create :: "string \<Rightarrow> (sink, io_error) result"
  ce_fuel :: nat
  ce_ebpf_feature :: bool
  ce_bpf_object :: "string \<Rightarrow> bpf_object option"
  ce_bpf_spawn :: "bytes \<Rightarrow> bytes list \<Rightarrow> (u32, io_error) result"
  ce_bpf_polls :: "u32 option \<Rightarrow> (bytes list \<times> (poll_status, errno) result) list \<times> bytes list"
  ce_var :: "string \<Rightarrow> string option"
  ce_replay :: "'p replay_env"
  ce_capture_text :: "capture_error \<Rightarrow> string"
  ce_ebpf_text :: "ebpf_error \<Rightarrow> string"
  ce_transport_text :: "transport_error \<Rightarrow> string"
  ce_print :: "json \<Rightarrow> (bytes, string) result"
  ce_parse :: "bytes \<Rightarrow> (json, string) result"
  ce_stdin :: source
  ce_stdout :: sink
  ce_version :: string

subsection \<open>Recording\<close>

record record_args =
  ra_trace_path :: string
  ra_ebpf :: bool
  ra_ebpf_object :: "string option"
  ra_program :: string
  ra_program_args :: "string list"

text \<open>The loop over the options before the separator.\<close>

fun record_options :: "string list \<Rightarrow> string \<times> bool \<times> string option \<Rightarrow> (string \<times> bool \<times> string option) option" where
  "record_options [] acc = Some acc"
| "record_options (opt # opts) (trace_path, ebpf, ebpf_object) =
     (if opt = ''-o'' then (case opts of [] \<Rightarrow> None | v # rest \<Rightarrow> record_options rest (v, ebpf, ebpf_object))
      else if opt = ''--ebpf'' then record_options opts (trace_path, True, ebpf_object)
      else if opt = ''--ebpf-object''
        then (case opts of [] \<Rightarrow> None | v # rest \<Rightarrow> record_options rest (trace_path, ebpf, Some v))
      else None)"

definition parse_record_args :: "string list \<Rightarrow> record_args option" where
  "parse_record_args args =
     (case dropWhile (\<lambda>a. a \<noteq> ''--'') args of
        _ # program # program_args \<Rightarrow>
          map_option (\<lambda>(trace_path, ebpf, ebpf_object).
            \<lparr>ra_trace_path = trace_path, ra_ebpf = ebpf, ra_ebpf_object = ebpf_object, ra_program = program, ra_program_args = program_args\<rparr>)
            (record_options (takeWhile (\<lambda>a. a \<noteq> ''--'') args) (''trace.mscope'', False, None))
      | _ \<Rightarrow> None)"

definition exit_debug :: "i32 option \<Rightarrow> string" where
  "exit_debug code = (case code of Some c \<Rightarrow> ''Some('' @ show_i32 c @ '')'' | None \<Rightarrow> ''None'')"

definition ELLIPSIS :: string where
  "ELLIPSIS = [CHR 0xE2, CHR 0x80, CHR 0xA6]"

definition RECORD_USAGE :: string where
  "RECORD_USAGE = ''usage: mirrorscope record [-o <trace>] [--ebpf [--ebpf-object <path>]] -- <cmd> [args'' @ ELLIPSIS @ '']''"

definition recorded_line :: "record_args \<Rightarrow> string \<Rightarrow> record_outcome \<Rightarrow> string" where
  "recorded_line parsed via outcome = ''recorded '' @ show_dec (ro_events_recorded outcome) @ '' events to '' @ ra_trace_path parsed @ via
     @ '' (target exit: '' @ exit_debug (ro_exit_code outcome) @ '')''"

definition run_record_ebpf :: "('r, 'p) cli_env \<Rightarrow> record_args \<Rightarrow> (cli_output \<times> collector option) option" where
  "run_record_ebpf env parsed =
     (if \<not> ce_ebpf_feature env
      then Some (fail_with [''mirrorscope record --ebpf: this build was compiled without the `ebpf` feature (cargo build --features ebpf -p mirrorscope-cli)''], None)
      else case (case ra_ebpf_object parsed of Some p \<Rightarrow> Some p | None \<Rightarrow> ce_var env ''MIRRORSCOPE_EBPF_OBJECT'') of
        None \<Rightarrow> Some (fail_with [''mirrorscope record --ebpf: no BPF object given (--ebpf-object <path> or $MIRRORSCOPE_EBPF_OBJECT); build it first ''
            @ [CHR 0xE2, CHR 0x80, CHR 0x94] @ '' see crates/recorder-ebpf-programs/README.md''], None)
      | Some object_path \<Rightarrow>
          map_option (\<lambda>(r, c). (case r of
              Ok outcome \<Rightarrow> succeed_with [recorded_line parsed '' via eBPF'' outcome]
            | Err e \<Rightarrow> fail_with [''mirrorscope record --ebpf: '' @ ce_ebpf_text env e], c))
            (ebpf_record_command (re_crc (ce_replay env)) (str_bytes (ra_program parsed)) (map str_bytes (ra_program_args parsed))
               (ce_bpf_object env object_path) (ce_bpf_spawn env (str_bytes (ra_program parsed)) (map str_bytes (ra_program_args parsed)))
               (ce_create env (ra_trace_path parsed)) (ce_bpf_polls env)))"

definition run_record_ptrace :: "('r, 'p) cli_env \<Rightarrow> record_args \<Rightarrow> 'r \<Rightarrow> (cli_output \<times> trace_writer option) option" where
  "run_record_ptrace env parsed o0 =
     map_option (\<lambda>(r, w). (case r of
         Ok outcome \<Rightarrow> succeed_with [recorded_line parsed '''' outcome]
       | Err e \<Rightarrow> fail_with [''mirrorscope record: '' @ ce_capture_text env e], w))
       (record_command (ce_tracer env) (re_crc (ce_replay env)) (ce_fuel env) (ce_create env (ra_trace_path parsed))
          (ce_spawn env (str_bytes (ra_program parsed)) (map str_bytes (ra_program_args parsed)))
          (str_bytes (ra_program parsed)) (map str_bytes (ra_program_args parsed)) o0)"

definition run_record :: "('r, 'p) cli_env \<Rightarrow> string list \<Rightarrow> 'r \<Rightarrow> cli_output option" where
  "run_record env args o0 =
     (case parse_record_args args of
        None \<Rightarrow> Some (fail_with [RECORD_USAGE])
      | Some parsed \<Rightarrow>
          if ra_ebpf parsed then map_option fst (run_record_ebpf env parsed)
          else map_option fst (run_record_ptrace env parsed o0))"

subsection \<open>Replaying\<close>

fun replay_options :: "string list \<Rightarrow> string \<times> u64 option \<Rightarrow> (string \<times> u64 option) option" where
  "replay_options [] acc = Some acc"
| "replay_options (opt # opts) (trace_path, to) =
     (if opt = ''-t'' then (case opts of [] \<Rightarrow> None | v # rest \<Rightarrow> replay_options rest (v, to))
      else if opt = ''--to''
        then (case opts of [] \<Rightarrow> None
              | v # rest \<Rightarrow> (case parse_u64 10 (str_bytes v) of None \<Rightarrow> None | Some n \<Rightarrow> replay_options rest (trace_path, Some n)))
      else None)"

definition parse_replay_args :: "string list \<Rightarrow> (string \<times> u64 option) option" where
  "parse_replay_args args = replay_options args (''trace.mscope'', None)"

definition seq_debug :: "u64 option \<Rightarrow> string" where
  "seq_debug s = (case s of Some n \<Rightarrow> ''Some('' @ show_word n @ '')'' | None \<Rightarrow> ''None'')"

definition report_replay :: "'p session \<Rightarrow> exit_outcome \<Rightarrow> cli_output" where
  "report_replay session outcome = (case outcome of
       OutExited code \<Rightarrow> succeed_with [''replay finished: target exited with code '' @ show_i32 code]
     | OutSignaled sig \<Rightarrow> succeed_with [''replay finished: target killed by signal '' @ show_i32 sig]
     | exit_outcome.Running \<Rightarrow> succeed_with [''replay stopped at seq '' @ seq_debug (rs_current_seq session)])"

definition replay_failed :: "('r, 'p) cli_env \<Rightarrow> replay_error \<Rightarrow> cli_output" where
  "replay_failed env e = fail_with [''mirrorscope replay: '' @ replay_error_display (re_texts (ce_replay env)) e]"

text \<open>The session is dropped when the command returns; the result is paired with the kernel after it.\<close>

definition run_replay :: "('r, 'p) cli_env \<Rightarrow> string list \<Rightarrow> 'p \<Rightarrow> (cli_output \<times> 'p) option" where
  "run_replay env args o0 =
     (case parse_replay_args args of
        None \<Rightarrow> Some (fail_with [''usage: mirrorscope replay [-t <trace>] [--to <seq>]''], o0)
      | Some (trace_path, to) \<Rightarrow>
          (case launch (re_crc (ce_replay env)) (re_os (ce_replay env)) (re_files (ce_replay env) trace_path) o0 of
             (Err e, o1) \<Rightarrow> Some (replay_failed env e, o1)
           | (Ok session, o1) \<Rightarrow>
               map_option (\<lambda>(outcome, s). (case outcome of Ok oc \<Rightarrow> report_replay s oc | Err e \<Rightarrow> replay_failed env e,
                   rs_os (snd (session_drop (re_os (ce_replay env)) s))))
                 ((case to of
                     Some seq \<Rightarrow> step_to (re_os (ce_replay env)) (re_fuel (ce_replay env)) seq
                   | None \<Rightarrow> run_to_end (re_os (ce_replay env)) (re_fuel (ce_replay env))) (session\<lparr>rs_os := o1\<rparr>))))"

subsection \<open>Watching\<close>

record watch_args =
  wa_trace_path :: string
  wa_addr :: u64
  wa_len :: u8
  wa_reads :: bool

definition parse_int :: "string \<Rightarrow> u64 option" where
  "parse_int txt =
     (case (case strip_prefix_bytes (str_bytes ''0x'') (str_bytes txt) of
              Some hex \<Rightarrow> Some hex
            | None \<Rightarrow> strip_prefix_bytes (str_bytes ''0X'') (str_bytes txt)) of
        Some hex \<Rightarrow> parse_u64 16 hex
      | None \<Rightarrow> parse_u64 10 (str_bytes txt))"

definition parse_u8 :: "string \<Rightarrow> u8 option" where
  "parse_u8 s = map_option of_nat (parse_unsigned 10 8 (str_bytes s))"

fun watch_options :: "string list \<Rightarrow> string option \<times> u64 option \<times> u8 option \<times> bool
    \<Rightarrow> (string option \<times> u64 option \<times> u8 option \<times> bool) option" where
  "watch_options [] acc = Some acc"
| "watch_options (arg # args) (trace_path, addr, len, reads) =
     (if arg = ''--addr''
        then (case args of [] \<Rightarrow> None
              | v # rest \<Rightarrow> (case parse_int v of None \<Rightarrow> None | Some a \<Rightarrow> watch_options rest (trace_path, Some a, len, reads)))
      else if arg = ''--len''
        then (case args of [] \<Rightarrow> None
              | v # rest \<Rightarrow> (case parse_u8 v of None \<Rightarrow> None | Some n \<Rightarrow> watch_options rest (trace_path, addr, Some n, reads)))
      else if arg = ''--rw'' then watch_options args (trace_path, addr, len, True)
      else if starts_with ''-'' arg then None
      else if trace_path \<noteq> None then None
      else watch_options args (Some arg, addr, len, reads))"

definition parse_watch_args :: "string list \<Rightarrow> watch_args option" where
  "parse_watch_args args =
     Option.bind (watch_options args (None, None, None, False)) (\<lambda>(trace_path, addr, len, reads).
     Option.bind trace_path (\<lambda>p. Option.bind addr (\<lambda>a. Option.bind len (\<lambda>n.
     Some \<lparr>wa_trace_path = p, wa_addr = a, wa_len = n, wa_reads = reads\<rparr>))))"

text \<open>The value is collected in 128 bits; a shift amount past the width is reduced, as in a release build.\<close>

definition format_value :: "bytes \<Rightarrow> string" where
  "format_value bs =
     (let value = fold (\<lambda>(i, b) v. v OR push_bit ((8 * i) mod 128) (ucast b)) (enumerate 0 bs) (0 :: 128 word)
      in ''0x'' @ show_hex (unat value))"

text \<open>\<open>{:#018x}\<close>\<close>

definition hex16 :: "u64 \<Rightarrow> string" where
  "hex16 w = (let h = show_hex (unat w) in ''0x'' @ replicate (16 - length h) (CHR ''0'') @ h)"

definition hit_line :: "watch_hit \<Rightarrow> string" where
  "hit_line hit =
     (let frame = (case wh_backtrace hit of f # _ \<Rightarrow> Some f | [] \<Rightarrow> None);
          function_name = (case Option.bind frame sf_function of Some f \<Rightarrow> bytes_str f | None \<Rightarrow> ''<unknown>'');
          location = (case Option.bind frame (\<lambda>f. map_option (\<lambda>p. (bytes_str p, sf_line f)) (sf_file f)) of
              Some (p, Some line) \<Rightarrow> p @ '':'' @ show_word line
            | Some (p, None) \<Rightarrow> p
            | None \<Rightarrow> ''<no source>'');
          seq = (case wh_seq hit of Some s \<Rightarrow> show_word s | None \<Rightarrow> ''-'')
      in ''  seq '' @ seq @ ''  pc '' @ hex16 (wh_pc hit) @ ''  '' @ function_name @ ''  ('' @ location @ '')  = '' @ format_value (wh_new_value hit))"

definition report_watch :: "watch_hit list \<Rightarrow> u64 \<Rightarrow> u8 \<Rightarrow> cli_output" where
  "report_watch hits addr len =
     \<lparr>out_code = ExitSuccess, out_stdout = map hit_line hits,
      out_stderr = [show_dec (length hits) @ '' access(es) to '' @ show_word len @ '' byte(s) at 0x'' @ show_hex (unat addr) @ '' across history:'']\<rparr>"

definition run_watch :: "('r, 'p) cli_env \<Rightarrow> string list \<Rightarrow> 'p \<Rightarrow> (cli_output \<times> 'p) option" where
  "run_watch env args o0 =
     (case parse_watch_args args of
        None \<Rightarrow> Some (fail_with [''usage: mirrorscope watch <trace> --addr <addr> --len <1|2|4|8> [--rw]''], o0)
      | Some parsed \<Rightarrow>
          (let scan = scan_new (re_files (ce_replay env) (wa_trace_path parsed)) (wa_addr parsed) (wa_len parsed);
               scan = (if wa_reads parsed then watch_reads scan else scan)
           in map_option (\<lambda>(r, o1). (case r of
                  Ok hits \<Rightarrow> report_watch hits (wa_addr parsed) (wa_len parsed)
                | Err e \<Rightarrow> fail_with [''mirrorscope watch: '' @ replay_error_display (re_texts (ce_replay env)) e], o1))
                (scan_run (re_crc (ce_replay env)) (re_os (ce_replay env)) (re_fuel (ce_replay env)) scan o0)))"

subsection \<open>The program\<close>

definition USAGE :: "string list" where
  "USAGE = [''usage: mirrorscope <command>'', '''', ''commands:'',
     ''  dap                                             serve DAP over stdio'',
     ''  record [-o <trace>] [--ebpf [--ebpf-object <path>]] -- <cmd> [args]'',
     ''                                                  record a target (Linux)'',
     ''  replay [-t <trace>] [--to <seq>]                replay a trace (Linux)'',
     ''  watch <trace> --addr <a> --len <n>              every write to an address (Linux)'',
     ''  --version                                       print the version'']"

definition main :: "('r, 'p) cli_env \<Rightarrow> string list \<Rightarrow> 'r \<Rightarrow> 'p \<Rightarrow> cli_output option" where
  "main env args tracer o0 =
     (case args of
        [] \<Rightarrow> Some (succeed_with USAGE)
      | command # rest \<Rightarrow>
          if command = ''dap''
          then map_option (\<lambda>(r, _). case r of
                   Ok _ \<Rightarrow> succeed_with []
                 | Err e \<Rightarrow> fail_with [''mirrorscope dap: '' @ ce_transport_text env e])
                 (serve_stdio (ce_print env) (ce_parse env) (ce_replay env) (ce_stdin env) (ce_stdout env) o0)
          else if command = ''record'' then run_record env rest tracer
          else if command = ''replay'' then map_option fst (run_replay env rest o0)
          else if command = ''watch'' then map_option fst (run_watch env rest o0)
          else if command = ''--version''
          then Some \<lparr>out_code = ExitSuccess, out_stdout = [''mirrorscope '' @ ce_version env], out_stderr = []\<rparr>
          else Some (fail_with ((''unknown command: '' @ command) # USAGE)))"

subsection \<open>Argument lists\<close>

definition record_argv :: "record_args \<Rightarrow> string list" where
  "record_argv r = [''-o'', ra_trace_path r] @ (if ra_ebpf r then [''--ebpf''] else [])
     @ (case ra_ebpf_object r of Some p \<Rightarrow> [''--ebpf-object'', p] | None \<Rightarrow> []) @ ''--'' # ra_program r # ra_program_args r"

lemma split_separator:
  "sep \<notin> set xs \<Longrightarrow> takeWhile (\<lambda>a. a \<noteq> sep) (xs @ sep # ys) = xs \<and> dropWhile (\<lambda>a. a \<noteq> sep) (xs @ sep # ys) = sep # ys"
  by (induction xs) auto

text \<open>
  The arguments of \<open>record\<close> are understood: any request, printed as an argument list whose option
  values are not the separator, is parsed back, and whenever a list is accepted, everything after its first
  separator, options and further separators included, is the target's command line unchanged.
\<close>

theorem record_args_understood:
  "(ra_trace_path r \<noteq> ''--'' \<and> ra_ebpf_object r \<noteq> Some ''--'' \<longrightarrow> parse_record_args (record_argv r) = Some r)
   \<and> (parse_record_args args = Some q \<longrightarrow> (\<exists>opts. args = opts @ ''--'' # ra_program q # ra_program_args q \<and> ''--'' \<notin> set opts))"
proof (intro conjI impI)
  assume ok: "ra_trace_path r \<noteq> ''--'' \<and> ra_ebpf_object r \<noteq> Some ''--''"
  let ?opts = "[''-o'', ra_trace_path r] @ (if ra_ebpf r then [''--ebpf''] else [])
     @ (case ra_ebpf_object r of Some p \<Rightarrow> [''--ebpf-object'', p] | None \<Rightarrow> [])"
  have argv: "record_argv r = ?opts @ ''--'' # ra_program r # ra_program_args r" by (simp only: record_argv_def append_assoc)
  have "''--'' \<notin> set ?opts" using ok by (auto split: option.splits)
  note sp = split_separator [OF this, of "ra_program r # ra_program_args r"]
  have "record_options ?opts (''trace.mscope'', False, None) = Some (ra_trace_path r, ra_ebpf r, ra_ebpf_object r)"
    by (cases "ra_ebpf r"; cases "ra_ebpf_object r") simp_all
  then show "parse_record_args (record_argv r) = Some r" unfolding parse_record_args_def argv using sp by simp
next
  assume p: "parse_record_args args = Some q"
  let ?t = "takeWhile (\<lambda>a. a \<noteq> ''--'') args" and ?d = "dropWhile (\<lambda>a. a \<noteq> ''--'') args"
  from p obtain sep where d: "?d = sep # ra_program q # ra_program_args q"
    by (auto simp: parse_record_args_def split: list.splits)
  then have "sep = ''--''" using hd_dropWhile [of "\<lambda>a. a \<noteq> ''--''" args] by auto
  moreover have "args = ?t @ ?d" by simp
  moreover have "''--'' \<notin> set ?t" by (auto dest: set_takeWhileD)
  ultimately show "\<exists>opts. args = opts @ ''--'' # ra_program q # ra_program_args q \<and> ''--'' \<notin> set opts" using d by metis
qed

text \<open>Witness: a target that is given a separator of its own.\<close>

theorem record_args_understood_witness:
  "parse_record_args [''-o'', ''t'', ''--ebpf'', ''--'', ''sh'', ''--'', ''-o''] = Some \<lparr>ra_trace_path = ''t'', ra_ebpf = True, ra_ebpf_object = None,
     ra_program = ''sh'', ra_program_args = [''--'', ''-o'']\<rparr>"
proof -
  let ?r = "\<lparr>ra_trace_path = ''t'', ra_ebpf = True, ra_ebpf_object = None, ra_program = ''sh'', ra_program_args = [''--'', ''-o'']\<rparr>"
  have "record_argv ?r = [''-o'', ''t'', ''--ebpf'', ''--'', ''sh'', ''--'', ''-o'']" by (simp add: record_argv_def)
  with record_args_understood [of ?r] show ?thesis by simp
qed

definition watch_argv :: "watch_args \<Rightarrow> string list" where
  "watch_argv w = [wa_trace_path w, ''--addr'', ''0x'' @ show_hex (unat (wa_addr w)), ''--len'', show_word (wa_len w)]
     @ (if wa_reads w then [''--rw''] else [])"

lemma str_bytes_Cons: "str_bytes (c # s) = of_char c # str_bytes s"
  by (simp add: str_bytes_def)

lemma parse_int_hex: "parse_int (CHR ''0'' # CHR ''x'' # show_hex (unat w)) = Some w"
  by (simp add: parse_int_def strip_prefix_bytes_def str_bytes_Cons parse_hex_shown)

lemma parse_u8_shown: "parse_u8 (show_word w) = Some w"
  using parse_unsigned_digits [of 10 "unat w" 8] unat_less_len [of w] by (simp add: parse_u8_def show_dec_def)

lemma format_value_hex:
  assumes "length bs \<le> 8"
  shows "format_value bs = ''0x'' @ show_hex (unat (from_le bs :: u64))"
proof -
  have "fold (\<lambda>(i, b) v. v OR push_bit ((8 * i) mod 128) (ucast b)) (enumerate 0 bs) (0 :: 128 word) = from_le bs"
    using fold_le_bytes [of 0 bs "0 :: 128 word"] assms by simp
  moreover have "(from_le bs :: 128 word) = ucast (from_le bs :: u64)"
    using ucast_from_le [where 'a = 128 and 'b = 64, of bs] assms by simp
  moreover have "unat (ucast (w :: u64) :: 128 word) = unat w" for w
    by (simp add: unsigned_ucast_eq take_bit_nat_eq_self order_less_le_trans [OF unat_less_len])
  ultimately show ?thesis by (simp add: format_value_def)
qed

text \<open>
  What \<open>watch\<close> is asked and what it prints are read back: any request on a trace whose path does not
  start with a dash is parsed from its printed arguments, and a printed value of up to eight bytes is the
  hexadecimal numeral of the little-endian integer that the bytes are.
\<close>

theorem watch_texts_roundtrip:
  "(\<not> starts_with ''-'' (wa_trace_path w) \<longrightarrow> parse_watch_args (watch_argv w) = Some w)
   \<and> (length bs \<le> 8 \<longrightarrow> parse_int (format_value bs) = Some (from_le bs))"
proof (intro conjI impI)
  assume p: "\<not> starts_with ''-'' (wa_trace_path w)"
  then have "wa_trace_path w \<noteq> ''--addr''" "wa_trace_path w \<noteq> ''--len''" "wa_trace_path w \<noteq> ''--rw''" by (auto simp: starts_with_def)
  with p show "parse_watch_args (watch_argv w) = Some w"
    by (cases "wa_reads w") (simp_all add: parse_watch_args_def watch_argv_def parse_int_hex parse_u8_shown)
next
  assume "length bs \<le> 8"
  then show "parse_int (format_value bs) = Some (from_le bs)" by (simp add: format_value_hex parse_int_hex)
qed

text \<open>Witness: a request for eight bytes.\<close>

theorem watch_texts_roundtrip_witness:
  "parse_watch_args (watch_argv \<lparr>wa_trace_path = ''t'', wa_addr = 0x7f00, wa_len = 8, wa_reads = True\<rparr>)
     = Some \<lparr>wa_trace_path = ''t'', wa_addr = 0x7f00, wa_len = 8, wa_reads = True\<rparr>
   \<and> parse_int (format_value [1, 2]) = Some 0x201"
  using watch_texts_roundtrip [of "\<lparr>wa_trace_path = ''t'', wa_addr = 0x7f00, wa_len = 8, wa_reads = True\<rparr>" "[1, 2]"]
  by (simp add: starts_with_def)

subsection \<open>Refused requests\<close>

lemma scan_refused:
  assumes "watch_validate (sc_addr sc) (sc_len sc) = Err e"
  shows "\<exists>o1. scan_run crc os fuel sc o0
    = Some (Err (case fst (launch crc os (sc_source sc) o0) of Err x \<Rightarrow> x | Ok _ \<Rightarrow> WatchpointRequest e), o1)"
proof (cases "launch crc os (sc_source sc) o0")
  case (Pair r o1)
  then show ?thesis
    using assms by (cases r) (simp_all add: scan_run_def watch_def st_defs opt_bind_def opt_lift_def)
qed

text \<open>
  C40. A request that the debug registers cannot watch is refused: when the parsed length is not 1, 2, 4 or
  8, or the address is not a multiple of it, \<open>watch\<close> always comes back, with a failure, no line of hits, and
  (if the trace could be launched at all) the validation error as its message.
\<close>

theorem watch_unsupported_refused:
  assumes "parse_watch_args args = Some w" and "wa_len w \<notin> {1, 2, 4, 8} \<or> wa_addr w mod ucast (wa_len w) \<noteq> 0"
  shows "\<exists>out o1. run_watch env args o0 = Some (out, o1) \<and> out_code out = ExitFailure \<and> out_stdout out = []
    \<and> (\<forall>s o'. launch (re_crc (ce_replay env)) (re_os (ce_replay env)) (re_files (ce_replay env) (wa_trace_path w)) o0 = (Ok s, o') \<longrightarrow>
         (\<exists>e. watch_validate (wa_addr w) (wa_len w) = Err e
            \<and> out_stderr out = [''mirrorscope watch: invalid watchpoint request: '' @ watchpoint_error_display e]))"
proof -
  obtain e where e: "watch_validate (wa_addr w) (wa_len w) = Err e"
    using assms(2) by (cases "is_valid_len (wa_len w)") (auto simp: watch_validate_def is_valid_len_def)
  let ?launch = "launch (re_crc (ce_replay env)) (re_os (ce_replay env)) (re_files (ce_replay env) (wa_trace_path w)) o0"
  let ?scan = "\<lparr>sc_source = re_files (ce_replay env) (wa_trace_path w), sc_addr = wa_addr w, sc_len = wa_len w,
    sc_kind = (if wa_reads w then WatchReadWrite else WatchWrite)\<rparr>"
  let ?err = "case fst ?launch of Err x \<Rightarrow> x | Ok _ \<Rightarrow> WatchpointRequest e"
  obtain o1 where "scan_run (re_crc (ce_replay env)) (re_os (ce_replay env)) (re_fuel (ce_replay env)) ?scan o0 = Some (Err ?err, o1)"
    using scan_refused [of ?scan e "re_crc (ce_replay env)" "re_os (ce_replay env)" "re_fuel (ce_replay env)" o0] e by auto
  then have "run_watch env args o0 = Some (fail_with [''mirrorscope watch: '' @ replay_error_display (re_texts (ce_replay env)) ?err], o1)"
    by (cases "wa_reads w") (simp_all add: run_watch_def assms(1) scan_new_def watch_reads_def)
  then show ?thesis using e by (auto simp: fail_with_def)
qed

text \<open>Witness: three bytes, which the parser accepts and no debug register watches, in every environment.\<close>

lemma parse_watch_three:
  "parse_watch_args [''t'', ''--addr'', ''16'', ''--len'', ''3''] = Some \<lparr>wa_trace_path = ''t'', wa_addr = 16, wa_len = 3, wa_reads = False\<rparr>"
  by (simp add: parse_watch_args_def parse_int_def parse_u8_def parse_u64_def parse_unsigned_def strip_prefix_bytes_def str_bytes_def
      digit_value_def digits_value_def starts_with_def)

theorem watch_unsupported_refused_witness:
  "\<forall>(env :: (unit, unit) cli_env) o0. \<exists>out o1. run_watch env [''t'', ''--addr'', ''16'', ''--len'', ''3''] o0 = Some (out, o1)
     \<and> out_code out = ExitFailure \<and> out_stdout out = []"
proof (intro allI)
  fix env :: "(unit, unit) cli_env" and o0
  from watch_unsupported_refused [OF parse_watch_three, of env o0]
  show "\<exists>out o1. run_watch env [''t'', ''--addr'', ''16'', ''--len'', ''3''] o0 = Some (out, o1) \<and> out_code out = ExitFailure \<and> out_stdout out = []"
    by (simp, blast)
qed

end
