(* ===== verification/ArmReplay.thy ===== *)
theory ArmReplay
  imports ReplayPosition
begin

text \<open>
  The replay engine on aarch64: the register operations of \<open>replay/src/regs.rs\<close> for that architecture, where
  the dispatched syscall number is a register set of its own, and the single step over a watchpoint hit of
  \<open>session.rs\<close>, which traps before the access. What the engine needs of an architecture's registers is a
  locale, interpreted for both.
\<close>

subsection \<open>Definitions\<close>

record arm_full_regs = arm_user_regs +
  ar_pstate :: u64

record 'os arm_os =
  ao_sys_clone :: u64
  ao_getregset :: "pid \<Rightarrow> ('os, arm_full_regs, errno) st"
  ao_setregset :: "pid \<Rightarrow> arm_full_regs \<Rightarrow> ('os, unit, errno) st"
  ao_set_system_call :: "pid \<Rightarrow> i32 \<Rightarrow> ('os, unit, errno) st"
  ao_hw_watch :: "pid \<Rightarrow> 'os regset_fun"

definition regs_of_arm :: "arm_full_regs \<Rightarrow> registers" where
  "regs_of_arm r = \<lparr>sr_nr = ar_regs r 8, sr_ret = ar_regs r 0, sr_args = map (ar_regs r) [0, 1, 2, 3, 4, 5]\<rparr>"

definition regs_read_aarch64 :: "'os arm_os \<Rightarrow> pid \<Rightarrow> ('os, registers) replay" where
  "regs_read_aarch64 ao pid = st_bind (ros_do RePtrace (ao_getregset ao pid)) (\<lambda>r. st_return (regs_of_arm r))"

definition set_syscall_nr :: "'os arm_os \<Rightarrow> pid \<Rightarrow> i32 \<Rightarrow> ('os, unit) replay" where
  "set_syscall_nr ao pid nr = ros_do RePtrace (ao_set_system_call ao pid nr)"

definition suppress_syscall_aarch64 :: "'os arm_os \<Rightarrow> pid \<Rightarrow> ('os, unit) replay" where
  "suppress_syscall_aarch64 ao pid = set_syscall_nr ao pid (- 1)"

definition arm_with_return :: "i64 \<Rightarrow> arm_full_regs \<Rightarrow> arm_full_regs" where
  "arm_with_return ret r = r\<lparr>ar_regs := (ar_regs r)(0 := ret)\<rparr>"

definition set_return_aarch64 :: "'os arm_os \<Rightarrow> pid \<Rightarrow> i64 \<Rightarrow> ('os, unit) replay" where
  "set_return_aarch64 ao pid ret =
     st_bind (ros_do RePtrace (ao_getregset ao pid)) (\<lambda>r. ros_do RePtrace (ao_setregset ao pid (arm_with_return ret r)))"

definition save_full_aarch64 :: "'os arm_os \<Rightarrow> pid \<Rightarrow> ('os, arm_full_regs) replay" where
  "save_full_aarch64 ao pid = ros_do RePtrace (ao_getregset ao pid)"

definition restore_full_aarch64 :: "'os arm_os \<Rightarrow> pid \<Rightarrow> arm_full_regs \<Rightarrow> ('os, unit) replay" where
  "restore_full_aarch64 ao pid r = ros_do RePtrace (ao_setregset ao pid r)"

definition prepare_fork_aarch64 :: "u64 \<Rightarrow> arm_full_regs \<Rightarrow> arm_full_regs" where
  "prepare_fork_aarch64 sys_clone r = r\<lparr>ar_pc := ar_pc r - 4,
     ar_regs := (ar_regs r)(8 := sys_clone, 0 := SIGCHLD, 1 := 0, 2 := 0, 3 := 0, 4 := 0)\<rparr>"

definition step_over_watch_aarch64 :: "'os replay_os \<Rightarrow> 'os arm_os \<Rightarrow> pid \<Rightarrow> ('os, unit) replay" where
  "step_over_watch_aarch64 os ao pid =
     st_bind (st_get rs_watchpoint) (\<lambda>watchpoint. case watchpoint of
         None \<Rightarrow> st_return ()
       | Some wp \<Rightarrow>
           st_bind (ros_do hw_to_replay (disarm_aarch64 (ao_hw_watch ao pid))) (\<lambda>_.
           st_bind (ros_do RePtrace (po_step os pid)) (\<lambda>_.
           st_bind (ros_do RePtrace (po_waitpid os WALL pid)) (\<lambda>status.
           st_bind (if \<exists>p. status = Stopped p SIGTRAP then st_return ()
                    else st_fail (ReWatchpoint ''unexpected stop while stepping over a watchpoint hit'')) (\<lambda>_.
           ros_do hw_to_replay (arm_aarch64 (ao_hw_watch ao pid) (wp_addr wp) (wp_len wp) (wp_kind wp)))))))"

subsection \<open>What an architecture's registers offer\<close>

locale syscall_registers =
  fixes view :: "'r \<Rightarrow> registers" and pc :: "'r \<Rightarrow> u64" and with_return :: "i64 \<Rightarrow> 'r \<Rightarrow> 'r"
    and forked :: "u64 \<Rightarrow> 'r \<Rightarrow> 'r" and insn_size :: u64
  assumes six_args: "length (sr_args (view r)) = 6"
    and return_seen: "sr_ret (view (with_return v r)) = v"
    and return_number: "sr_nr (view (with_return v r)) = sr_nr (view r)"
    and return_args: "tl (sr_args (view (with_return v r))) = tl (sr_args (view r))"
    and return_pc: "pc (with_return v r) = pc r"
    and return_last: "with_return v (with_return w r) = with_return v r"
    and fork_number: "sr_nr (view (forked n r)) = n"
    and fork_args: "take 2 (sr_args (view (forked n r))) = [SIGCHLD, 0]"
    and fork_pc: "pc (forked n r) = pc r - insn_size"
begin

text \<open>The forking instruction ends where the thread was stopped, whatever was injected before.\<close>

lemma fork_resumes: "pc (forked n (with_return v r)) + insn_size = pc r"
  by (simp add: fork_pc return_pc)

text \<open>Injecting into a prepared fork changes neither the call nor the instruction to run.\<close>

lemma return_keeps_fork:
  "sr_nr (view (with_return v (forked n r))) = n" "pc (with_return v (forked n r)) + insn_size = pc r"
  "sr_args (view (with_return v (forked n r))) ! 1 = 0"
proof -
  have "sr_args (view (forked n r)) ! 1 = 0" using fork_args [of n r] six_args [of "forked n r"]
    by (metis One_nat_def Suc_1 lessI nth_Cons_0 nth_Cons_Suc nth_take)
  moreover have "tl xs = tl ys \<Longrightarrow> length xs = 6 \<Longrightarrow> length ys = 6 \<Longrightarrow> xs ! 1 = ys ! 1" for xs ys :: "u64 list"
    by (cases xs; cases ys) auto
  ultimately show "sr_args (view (with_return v (forked n r))) ! 1 = 0" using return_args six_args by metis
qed (simp_all add: return_number fork_number return_pc fork_pc)

end

interpretation x86_64: syscall_registers regs_of_full fr_rip "\<lambda>ret r. r\<lparr>fr_rax := ret\<rparr>" prepare_fork 2
  by unfold_locales (simp_all add: regs_of_full_def prepare_fork_def)

interpretation aarch64: syscall_registers regs_of_arm ar_pc arm_with_return prepare_fork_aarch64 4
  by unfold_locales (simp_all add: regs_of_arm_def arm_with_return_def prepare_fork_aarch64_def)

subsection \<open>Injection and single steps\<close>

text \<open>
  On a kernel that keeps the registers it is given, a return value injected on aarch64 is read back, with
  the number and the other arguments as they were; the first argument shares its register with the result.
\<close>

lemma return_injected_aarch64:
  assumes get: "\<And>p o0. ao_getregset ao p o0 = (Ok (G o0 p), o0)" and set: "\<And>p r o0. ao_setregset ao p r o0 = (Ok (), S p r o0)"
    and GS: "\<And>p r o0. G (S p r o0) = (G o0)(p := r)"
  shows "\<exists>s'. set_return_aarch64 ao pid ret s = (Ok (), s')
    \<and> regs_read_aarch64 ao pid s' = (Ok \<lparr>sr_nr = ar_regs (G (rs_os s) pid) 8, sr_ret = ret,
         sr_args = ret # map (ar_regs (G (rs_os s) pid)) [1, 2, 3, 4, 5]\<rparr>, s')"
  by (simp add: set_return_aarch64_def regs_read_aarch64_def st_defs ros_do_def get set GS regs_of_arm_def arm_with_return_def)

text \<open>A step over a hit leaves the position of the session alone.\<close>

lemma step_over_keeps_position: "keeps same_pos (step_over_watch_aarch64 os ao pid)"
  unfolding step_over_watch_aarch64_def by (intro keeps_intros pos.keeps_bind pos.keeps_pure pos.keeps_ros_do)

lemma if_return_Ok: "(if c then st_return x else st_fail e) s = (Ok y, s') \<longleftrightarrow> c \<and> y = x \<and> s' = s"
  by (auto simp: st_return_def st_fail_def)

text \<open>A step over a hit that succeeds has executed one instruction with the watchpoint off and put it back.\<close>

lemma step_over_rearms:
  assumes step: "step_over_watch_aarch64 os ao pid s = (Ok (), s')" and wp: "rs_watchpoint s = Some wp"
  shows "\<exists>o1 o2 o3 p. disarm_aarch64 (ao_hw_watch ao pid) (rs_os s) = (Ok (), o1) \<and> po_step os pid o1 = (Ok (), o2)
    \<and> po_waitpid os WALL pid o2 = (Ok (Stopped p SIGTRAP), o3)
    \<and> arm_aarch64 (ao_hw_watch ao pid) (wp_addr wp) (wp_len wp) (wp_kind wp) o3 = (Ok (), rs_os s') \<and> rs_watchpoint s' = Some wp"
  using step unfolding step_over_watch_aarch64_def st_bind_Ok st_get_def prod.inject
  by (auto simp: wp st_bind_Ok ros_do_Ok if_return_Ok)

end
