(* ===== verification/PreemptTimer.thy ===== *)
theory PreemptTimer
  imports Scheduler
begin

text \<open>
  The preemption timer (\<open>recorder/src/capture/timer.rs\<close>) in detail: a POSIX timer that belongs to the
  scheduler's own thread. The scheduler knows it as two kernel calls (\<open>os_timer_install\<close>,
  \<open>os_timer_set\<close>); here they are what the source makes of them, over the timer calls of the kernel.

  Shown: the life of a timer from its creation to its deletion, and that no alarm is left over from one
  turn of the scheduler to the next, so that an interrupted wait always belongs to the turn that armed it.
\<close>

subsection \<open>Definitions\<close>

record duration =
  du_secs :: u64
  du_nanos :: u32

record timespec =
  tv_sec :: i64
  tv_nsec :: i64

record itimerspec =
  it_interval :: timespec
  it_value :: timespec

text \<open>The fields of \<open>sigevent\<close> that the source sets; the others are zero.\<close>

record sigevent =
  sigev_notify :: i32
  sigev_signo :: i32
  sigev_notify_thread_id :: pid

text \<open>\<open>to_sigaction restart\<close> installs the empty handler for \<open>SIGALRM\<close>, with \<open>SA_RESTART\<close> if \<open>restart\<close>.\<close>

record 'os timer_os =
  to_sigaction :: "bool \<Rightarrow> ('os, unit, errno) st"
  to_gettid :: "'os \<Rightarrow> pid"
  to_timer_create :: "sigevent \<Rightarrow> ('os, nat, errno) st"
  to_timer_settime :: "nat \<Rightarrow> itimerspec \<Rightarrow> ('os, unit, errno) st"
  to_timer_delete :: "nat \<Rightarrow> 'os \<Rightarrow> 'os"

record preemption_timer =
  pt_quantum :: duration
  pt_timer :: nat

definition SIGEV_THREAD_ID :: i32 where "SIGEV_THREAD_ID = 4"
definition SIGALRM :: i32 where "SIGALRM = 14"
definition DEFAULT_QUANTUM :: duration where "DEFAULT_QUANTUM = \<lparr>du_secs = 0, du_nanos = 10000000\<rparr>"
definition DURATION_ZERO :: duration where "DURATION_ZERO = \<lparr>du_secs = 0, du_nanos = 0\<rparr>"

definition timer_install :: "'os timer_os \<Rightarrow> duration \<Rightarrow> ('os, preemption_timer, errno) st" where
  "timer_install t quantum =
     st_bind (to_sigaction t False) (\<lambda>_.
     st_bind (st_get (to_gettid t)) (\<lambda>tid.
     st_bind (to_timer_create t \<lparr>sigev_notify = SIGEV_THREAD_ID, sigev_signo = SIGALRM, sigev_notify_thread_id = tid\<rparr>) (\<lambda>timer.
     st_return \<lparr>pt_quantum = quantum, pt_timer = timer\<rparr>)))"

definition set_interval :: "'os timer_os \<Rightarrow> preemption_timer \<Rightarrow> duration \<Rightarrow> ('os, unit, errno) st" where
  "set_interval t self dur =
     to_timer_settime t (pt_timer self)
       \<lparr>it_interval = \<lparr>tv_sec = 0, tv_nsec = 0\<rparr>, it_value = \<lparr>tv_sec = du_secs dur, tv_nsec = ucast (du_nanos dur)\<rparr>\<rparr>"

definition preemption_arm :: "'os timer_os \<Rightarrow> preemption_timer \<Rightarrow> ('os, unit, errno) st" where
  "preemption_arm t self = set_interval t self (pt_quantum self)"

definition preemption_disarm :: "'os timer_os \<Rightarrow> preemption_timer \<Rightarrow> ('os, unit, errno) st" where
  "preemption_disarm t self = set_interval t self DURATION_ZERO"

definition timer_drop :: "'os timer_os \<Rightarrow> preemption_timer \<Rightarrow> 'os \<Rightarrow> 'os" where
  "timer_drop t self = to_timer_delete t (pt_timer self)"

text \<open>The scheduler's kernel with its timer calls spelled out, for a scheduler that holds \<open>self\<close>.\<close>

definition timed :: "'os timer_os \<Rightarrow> preemption_timer \<Rightarrow> 'os tracer_os \<Rightarrow> 'os tracer_os" where
  "timed t self os = os\<lparr>
     os_timer_install := st_bind (timer_install t DEFAULT_QUANTUM) (\<lambda>_. st_return ()),
     os_timer_set := \<lambda>on. if on then preemption_arm t self else preemption_disarm t self\<rparr>"

subsection \<open>What the kernel promises of timers\<close>

text \<open>
  \<open>timers o id\<close>: the timer \<open>id\<close> of the process in state \<open>o\<close>, if there is one: where it reports, and the
  setting it is armed with.
\<close>

type_synonym 'os timer_table = "'os \<Rightarrow> nat \<Rightarrow> (sigevent \<times> itimerspec option) option"

definition timer_laws :: "'os timer_os \<Rightarrow> 'os timer_table \<Rightarrow> bool" where
  "timer_laws t timers \<longleftrightarrow>
     (\<forall>b o0. timers (snd (to_sigaction t b o0)) = timers o0)
   \<and> (\<forall>ev o0 o1 i. to_timer_create t ev o0 = (Ok i, o1) \<longrightarrow> timers o0 i = None \<and> timers o1 = (timers o0)(i \<mapsto> (ev, None)))
   \<and> (\<forall>i spec o0 o1. to_timer_settime t i spec o0 = (Ok (), o1) \<longrightarrow>
        timers o1 = (timers o0)(i := map_option (\<lambda>(ev, _).
          (ev, if it_value spec = \<lparr>tv_sec = 0, tv_nsec = 0\<rparr> then None else Some spec)) (timers o0 i)))
   \<and> (\<forall>i o0. timers (to_timer_delete t i o0) = (timers o0)(i := None))"

definition one_shot :: "duration \<Rightarrow> itimerspec" where
  "one_shot q = \<lparr>it_interval = \<lparr>tv_sec = 0, tv_nsec = 0\<rparr>, it_value = \<lparr>tv_sec = du_secs q, tv_nsec = ucast (du_nanos q)\<rparr>\<rparr>"

definition armed :: "'os timer_table \<Rightarrow> nat \<Rightarrow> 'os \<Rightarrow> bool" where
  "armed timers i o0 \<longleftrightarrow> (\<exists>ev spec. timers o0 i = Some (ev, Some spec))"

text \<open>The other calls of the scheduler never arm a timer; a wait may see it expire.\<close>

definition tracer_silent :: "'os tracer_os \<Rightarrow> ('os \<Rightarrow> bool) \<Rightarrow> bool" where
  "tracer_silent os on \<longleftrightarrow>
     (\<forall>o0. \<not> on o0 \<longrightarrow>
        (\<forall>p. \<not> on (snd (os_pin os p o0))) \<and> (\<forall>q. \<not> on (snd (os_waitpid os q o0)))
      \<and> (\<forall>p sig. \<not> on (snd (os_syscall os p sig o0))) \<and> (\<forall>p sig. \<not> on (snd (os_kill os p sig o0)))
      \<and> (\<forall>p. \<not> on (snd (os_regs os p o0))) \<and> (\<forall>p. \<not> on (snd (os_getevent os p o0)))
      \<and> (\<forall>p. \<not> on (snd (os_setoptions os p o0))))"

subsection \<open>The life of a timer\<close>

lemma ucast_zero: "(ucast (n :: u32) :: i64) = 0 \<longleftrightarrow> n = 0"
proof
  assume z: "(ucast n :: i64) = 0"
  have "(ucast (ucast n :: i64) :: u32) = n" by (rule ucast_up_ucast_id) (simp add: is_up.rep_eq)
  with z show "n = 0" by simp
qed simp

lemma set_interval_effect:
  assumes "timer_laws t timers" and "set_interval t self d a = (Ok (), b)"
  shows "timers b = (timers a)(pt_timer self := map_option (\<lambda>(ev, _).
    (ev, if d = DURATION_ZERO then None else Some (one_shot d))) (timers a (pt_timer self)))"
proof -
  have zero: "it_value (one_shot d) = \<lparr>tv_sec = 0, tv_nsec = 0\<rparr> \<longleftrightarrow> d = DURATION_ZERO"
    by (cases d) (simp add: one_shot_def DURATION_ZERO_def ucast_zero)
  from assms(2) have "to_timer_settime t (pt_timer self) (one_shot d) a = (Ok (), b)"
    by (simp add: set_interval_def one_shot_def)
  with assms(1) show ?thesis unfolding timer_laws_def zero [symmetric] by blast
qed

text \<open>
  From creation to deletion: a new timer is disarmed and reports \<open>SIGALRM\<close> to the thread that created it;
  armed with a quantum that is not zero it will go off once after that quantum; disarmed, or armed with a
  zero quantum, it will not; and after the timer is dropped the process has the timers it had before.
\<close>

theorem preemption_timer_lifecycle:
  assumes laws: "timer_laws t timers" and inst: "timer_install t q o0 = (Ok self, o1)"
  shows "\<exists>ev. sigev_signo ev = SIGALRM \<and> sigev_notify ev = SIGEV_THREAD_ID
    \<and> sigev_notify_thread_id ev = to_gettid t (snd (to_sigaction t False o0))
    \<and> pt_quantum self = q \<and> timers o1 = (timers o0)(pt_timer self \<mapsto> (ev, None)) \<and> timers o0 (pt_timer self) = None
    \<and> (\<forall>o2. preemption_arm t self o1 = (Ok (), o2) \<longrightarrow>
         timers o2 = (timers o0)(pt_timer self \<mapsto> (ev, if q = DURATION_ZERO then None else Some (one_shot q)))
       \<and> (\<forall>o3. preemption_disarm t self o2 = (Ok (), o3) \<longrightarrow> timers o3 = timers o1
            \<and> timers (timer_drop t self o3) = timers o0))"
proof -
  let ?ev = "\<lparr>sigev_notify = SIGEV_THREAD_ID, sigev_signo = SIGALRM, sigev_notify_thread_id = to_gettid t (snd (to_sigaction t False o0))\<rparr>"
  from inst obtain u where act: "to_sigaction t False o0 = (Ok (), u)" and q: "pt_quantum self = q"
    and new: "to_timer_create t \<lparr>sigev_notify = SIGEV_THREAD_ID, sigev_signo = SIGALRM, sigev_notify_thread_id = to_gettid t u\<rparr> u
      = (Ok (pt_timer self), o1)"
    by (auto simp: timer_install_def st_bind_Ok st_get_def st_return_def)
  from laws act have u: "timers u = timers o0" unfolding timer_laws_def by (metis snd_conv)
  from laws new u act have one: "timers o1 = (timers o0)(pt_timer self \<mapsto> (?ev, None))" "timers o0 (pt_timer self) = None"
    unfolding timer_laws_def by (metis snd_conv)+
  have del: "timers (to_timer_delete t i a) = (timers a)(i := None)" for i a
    using laws unfolding timer_laws_def by blast
  show ?thesis
    by (rule exI [of _ ?ev])
      (auto simp: one q preemption_arm_def preemption_disarm_def timer_drop_def del fun_upd_idem dest!: set_interval_effect [OF laws])
qed

subsection \<open>Between the turns of the scheduler\<close>

text \<open>An operation of the scheduler that never arms the timer.\<close>

definition unarming :: "('os \<Rightarrow> bool) \<Rightarrow> ('os, 'a) sched \<Rightarrow> bool" where
  "unarming on m \<longleftrightarrow> (\<forall>s. \<not> on (sch_os s) \<longrightarrow> \<not> on (sch_os (snd (m s))))"

named_theorems unarming_intros "operations that never arm the timer"

lemma unarming_bind [unarming_intros]: "unarming on m \<Longrightarrow> (\<And>x. unarming on (f x)) \<Longrightarrow> unarming on (st_bind m f)"
  unfolding unarming_def st_bind_def by (force split: prod.splits result.splits)

lemma unarming_pure [unarming_intros]:
  "unarming on (st_return x)" "unarming on (st_get g)" "unarming on (sched_now os)" "unarming on (requeue p)"
  "unarming on (clear_running p)" "unarming on (thread_update p h)" "unarming on (sched_append crc e)"
  "unarming on (\<lambda>s. (r s, s))"
  by (auto simp: unarming_def st_defs sched_now_def requeue_def clear_running_def thread_update_def sched_append_def
      split: option.splits prod.splits result.splits)

lemma unarming_modify: "(\<And>s. sch_os (f s) = sch_os s) \<Longrightarrow> unarming on (st_modify f)"
  by (simp add: unarming_def st_modify_def)

lemma unarming_if [unarming_intros]: "unarming on m \<Longrightarrow> unarming on n \<Longrightarrow> unarming on (if b then m else n)"
  by simp

lemma unarming_os_do: "(\<And>o0. \<not> on o0 \<Longrightarrow> \<not> on (snd (m o0))) \<Longrightarrow> unarming on (os_do f m)"
  by (force simp: unarming_def os_do_def split: prod.splits)

lemma unarming_apply: "unarming on m \<Longrightarrow> \<not> on (sch_os s) \<Longrightarrow> m s = (r, s') \<Longrightarrow> \<not> on (sch_os s')"
  by (metis snd_conv unarming_def)

lemma unarming_calls:
  assumes "tracer_silent os on"
  shows "unarming on (os_do f (os_pin os p))" "unarming on (os_do f (os_waitpid os q))" "unarming on (os_do f (os_syscall os p sig))"
    "unarming on (os_do f (os_regs os p))" "unarming on (os_do f (os_getevent os p))" "unarming on (os_do f (os_setoptions os p))"
  using assms by (auto intro!: unarming_os_do simp: tracer_silent_def)

lemma unarming_record_sched_switch [unarming_intros]: "unarming on (record_sched_switch os crc n)"
proof -
  have "unarming on (st_bind (st_modify (\<lambda>s. s\<lparr>sch_last_scheduled := Some n\<rparr>)) (\<lambda>_. st_bind (sched_now os) (\<lambda>ts.
      sched_append crc (event_new_with_tid SchedSwitch ts n (sched_switch_encode \<lparr>ss_tid = n\<rparr>)))))"
    by (intro unarming_intros unarming_modify) simp
  then show ?thesis by (simp add: unarming_def record_sched_switch_def st_bind_def st_modify_def)
qed

lemma unarming_resume_next:
  assumes "tracer_silent os on"
  shows "unarming on (resume_next os crc)"
proof -
  have "unarming on (st_bind (record_sched_switch os crc n) (\<lambda>_.
         st_bind (st_get (\<lambda>s. Option.bind (sch_threads s n) th_resume_signal)) (\<lambda>sig.
         st_bind (thread_update n (\<lambda>t. t\<lparr>th_resume_signal := None\<rparr>)) (\<lambda>_.
         st_bind (os_do Ptrace (os_syscall os n sig)) (\<lambda>_.
         st_modify (\<lambda>s. s\<lparr>sch_running := Some n\<rparr>))))))" for n
    by (intro unarming_intros unarming_modify unarming_calls [OF assms]) simp
  then show ?thesis
    unfolding unarming_def resume_next_def by (auto split: list.split)
qed

lemma unarming_handle:
  assumes "tracer_silent os on"
  shows "unarming on (handle os crc status)"
proof -
  note intros = unarming_intros unarming_calls [OF assms] unarming_modify
  have syscall: "unarming on (on_syscall os crc p)" for p
    unfolding on_syscall_def by (intro intros; simp split: option.split; intro conjI allI impI intros)
  have spawn: "unarming on (on_spawn os crc p)" for p
    unfolding on_spawn_def Let_def by (intro intros)
  have register: "unarming on (register_child os p)" for p
    unfolding register_child_def pin_to_serialization_cpu_def by (intro intros) simp
  have stopped: "unarming on (on_stopped os crc p sig)" for p sig
  proof -
    have "unarming on (st_bind (register_child os p) (\<lambda>_. requeue p))" by (intro intros register)
    moreover have "unarming on (st_bind (clear_running p) (\<lambda>_. st_bind (if sig \<noteq> SIGSTOP
        then st_bind (sched_now os) (\<lambda>ts. st_bind (sched_append crc (event_new_with_tid Signal ts p
          (signal_delivery_encode \<lparr>sd_signum = sig\<rparr>))) (\<lambda>_. thread_update p (\<lambda>t. t\<lparr>th_resume_signal := Some sig\<rparr>)))
        else st_return ()) (\<lambda>_. requeue p)))" by (intro intros)
    ultimately show ?thesis unfolding unarming_def on_stopped_def by presburger
  qed
  have exit: "unarming on (on_exit os crc p code)" for p code
    unfolding on_exit_def by (intro intros; simp split: option.split; intro conjI allI impI intros; simp)
  show ?thesis
    unfolding handle_def by (cases status) (auto intro!: intros syscall spawn stopped exit)
qed

lemma unarming_preempt:
  assumes silent: "tracer_silent os on"
  shows "unarming on (preempt os crc cur)"
proof -
  have go: "unarming on (st_bind (os_do Ptrace (os_waitpid os (Some cur))) (\<lambda>status. handle os crc status))"
    by (intro unarming_intros unarming_calls [OF silent] unarming_handle [OF silent])
  show ?thesis
    unfolding unarming_def
  proof (intro allI impI)
    fix s :: "'a scheduler"
    assume off: "\<not> on (sch_os s)"
    obtain r o' where k: "os_kill os cur SIGSTOP (sch_os s) = (r, o')" by force
    with silent off have "\<not> on o'" unfolding tracer_silent_def by (metis snd_conv)
    with go [unfolded unarming_def, rule_format, of "s\<lparr>sch_os := o'\<rparr>"]
    show "\<not> on (sch_os (snd (preempt os crc cur s)))" by (simp add: preempt_def k Let_def)
  qed
qed

lemma disarmed:
  assumes "timer_laws t timers" and "preemption_disarm t self a = (Ok (), b)"
  shows "\<not> armed timers (pt_timer self) b"
  using set_interval_effect [OF assms(1) assms(2) [unfolded preemption_disarm_def]] by (auto simp: armed_def)

lemma turn_disarms:
  assumes laws: "timer_laws t timers" and silent: "tracer_silent os (armed timers (pt_timer self))"
    and run: "run_body (timed t self os) crc s = (Ok True, s')"
  shows "\<not> armed timers (pt_timer self) (sch_os s')"
proof -
  let ?os = "timed t self os"
  have silent': "tracer_silent ?os (armed timers (pt_timer self))" using silent by (simp add: tracer_silent_def timed_def)
  from run obtain s1 where body: "(case os_waitpid ?os None (sch_os s1) of
      (Ok status, o') \<Rightarrow> st_bind (timer_disarm ?os) (\<lambda>_. st_bind (handle ?os crc status) (\<lambda>_. st_return True)) (s1\<lparr>sch_os := o'\<rparr>)
    | (Err e, o') \<Rightarrow> (let s' = s1\<lparr>sch_os := o'\<rparr> in
        if e = EINTR then st_bind (timer_disarm ?os) (\<lambda>_. (\<lambda>s. case sch_running s of
            Some cur \<Rightarrow> st_bind (preempt ?os crc cur) (\<lambda>_. st_return True) s | None \<Rightarrow> (Ok True, s))) s'
        else if e = ECHILD then (Ok False, s') else (Err (Ptrace e), s'))) = (Ok True, s')"
    unfolding run_body_def st_bind_Ok [of "\<lambda>s. if sch_running s = None then resume_next ?os crc s else (Ok (), s)"]
      st_bind_Ok [of "timer_arm ?os"] by blast
  obtain q o3 where w: "os_waitpid ?os None (sch_os s1) = (q, o3)" by force
  have dis: "\<exists>b. \<not> armed timers (pt_timer self) (sch_os b) \<and> f () b = (Ok True, s')"
    if "st_bind (timer_disarm ?os) f a = (Ok True, s')" for f a
  proof -
    from that obtain o4 where "preemption_disarm t self (sch_os a) = (Ok (), o4)" "f () (a\<lparr>sch_os := o4\<rparr>) = (Ok True, s')"
      by (auto simp: st_bind_Ok timer_disarm_def os_do_Ok timed_def)
    with disarmed [OF laws] show ?thesis by (intro exI [of _ "a\<lparr>sch_os := o4\<rparr>"]) simp
  qed
  show ?thesis
  proof (cases q)
    case (Ok status)
    with body w dis [of "\<lambda>_. st_bind (handle ?os crc status) (\<lambda>_. st_return True)" "s1\<lparr>sch_os := o3\<rparr>"]
    obtain b where "\<not> armed timers (pt_timer self) (sch_os b)" "handle ?os crc status b = (Ok (), s')"
      by (auto simp: st_bind_Ok [of "handle ?os crc status"] st_return_def)
    then show ?thesis using unarming_apply [OF unarming_handle [OF silent']] by blast
  next
    case (Err e)
    with body w have e: "e = EINTR" by (auto simp: Let_def split: if_splits)
    from body w Err dis [of "\<lambda>_. (\<lambda>s. case sch_running s of
        Some cur \<Rightarrow> st_bind (preempt ?os crc cur) (\<lambda>_. st_return True) s | None \<Rightarrow> (Ok True, s))" "s1\<lparr>sch_os := o3\<rparr>"]
    obtain b where off: "\<not> armed timers (pt_timer self) (sch_os b)"
      and "(case sch_running b of Some cur \<Rightarrow> st_bind (preempt ?os crc cur) (\<lambda>_. st_return True) b | None \<Rightarrow> (Ok True, b)) = (Ok True, s')"
      by (auto simp: e Let_def)
    then show ?thesis using unarming_apply [OF unarming_preempt [OF silent'] off]
      by (auto simp: st_bind_Ok st_return_def split: option.splits)
  qed
qed

text \<open>
  Alarms belong to one turn: from a scheduler whose timer is not armed, at the head of every later turn of
  its loop the timer is again not armed, and within a turn the wait for the running thread starts with the
  timer set to go off exactly once, after the whole quantum.
\<close>

theorem alarm_confined_to_turn:
  assumes laws: "timer_laws t timers" and silent: "tracer_silent os (armed timers (pt_timer self))"
    and off: "\<not> armed timers (pt_timer self) (sch_os s0)" and reach: "loop_state (timed t self os) crc s0 s"
  shows "\<not> armed timers (pt_timer self) (sch_os s)
    \<and> (\<forall>s1 s2 ev w. timer_arm (timed t self os) s1 = (Ok (), s2) \<and> timers (sch_os s1) (pt_timer self) = Some (ev, w)
         \<and> pt_quantum self \<noteq> DURATION_ZERO
         \<longrightarrow> timers (sch_os s2) (pt_timer self) = Some (ev, Some (one_shot (pt_quantum self))))"
proof -
  have "\<not> armed timers (pt_timer self) (sch_os s)" using reach off
    by induction (auto dest: turn_disarms [OF laws silent])
  moreover have "timer_arm (timed t self os) s1 = (Ok (), s2) \<Longrightarrow> preemption_arm t self (sch_os s1) = (Ok (), sch_os s2)" for s1 s2
    by (auto simp: timer_arm_def timed_def os_do_Ok)
  ultimately show ?thesis using set_interval_effect [OF laws] unfolding preemption_arm_def by fastforce
qed

end
