(* ===== verification/OutputDrain.thy ===== *)
theory OutputDrain
  imports Session
begin

text \<open>
  The output of the replayed target (\<open>replay/src/session.rs\<close>): the pipes that \<open>launch\<close> and \<open>respawn\<close> attach to
  its standard output and error, the threads that read them to their end, and \<open>read_stdout\<close> and
  \<open>read_stderr\<close>, which wait for such a thread. A pipe ends when no living process holds its writing side;
  until then a reader waits, which is the value \<open>None\<close>.
\<close>

subsection \<open>Definitions\<close>

text \<open>What can be read from a pipe, in the pieces in which it arrives, and the processes that hold its writing side.\<close>

record pipe =
  pp_incoming :: source
  pp_writers :: "pid list"

datatype drain = Draining pipe | DrainPanicked

record outputs =
  ou_stdout :: "drain option"
  ou_stderr :: "drain option"

text \<open>\<open>Read::read_to_end\<close>: interrupted reads are repeated, and a read of no bytes is the end.\<close>

fun read_to_end :: "source \<Rightarrow> bytes \<Rightarrow> (bytes, io_error) result" where
  "read_to_end [] buf = Ok buf"
| "read_to_end (IoFail e # cs) buf = (if e = Interrupted then read_to_end cs buf else Err e)"
| "read_to_end (Data bs # cs) buf = (if bs = [] then Ok buf else read_to_end cs (buf @ bs))"

definition drain_thread :: "pipe \<Rightarrow> drain" where
  "drain_thread p = Draining p"

text \<open>What a drain thread returns once it has ended, while \<open>alive\<close> says which processes exist.\<close>

definition drain_result :: "(pid \<Rightarrow> bool) \<Rightarrow> pipe \<Rightarrow> (bytes, io_error) result option" where
  "drain_result alive p = (case read_to_end (pp_incoming p) [] of
       Err e \<Rightarrow> Some (Err e)
     | Ok buf \<Rightarrow> if \<exists>w \<in> set (pp_writers p). alive w then None else Some (Ok buf))"

definition join_drain :: "(pid \<Rightarrow> bool) \<Rightarrow> drain option \<Rightarrow> (bytes, replay_error) result option" where
  "join_drain alive h = (case h of
       Some (Draining p) \<Rightarrow> map_option (map_err ReOutput) (drain_result alive p)
     | Some DrainPanicked \<Rightarrow> Some (Err (ReOutput (OtherIo 0)))
     | None \<Rightarrow> Some (Ok []))"

definition attach_drains :: "pipe option \<Rightarrow> pipe option \<Rightarrow> outputs" where
  "attach_drains out err = \<lparr>ou_stdout = map_option drain_thread out, ou_stderr = map_option drain_thread err\<rparr>"

definition read_stdout :: "(pid \<Rightarrow> bool) \<Rightarrow> outputs \<Rightarrow> ((bytes, replay_error) result \<times> outputs) option" where
  "read_stdout alive u = map_option (\<lambda>r. (r, u\<lparr>ou_stdout := None\<rparr>)) (join_drain alive (ou_stdout u))"

definition read_stderr :: "(pid \<Rightarrow> bool) \<Rightarrow> outputs \<Rightarrow> ((bytes, replay_error) result \<times> outputs) option" where
  "read_stderr alive u = map_option (\<lambda>r. (r, u\<lparr>ou_stderr := None\<rparr>)) (join_drain alive (ou_stderr u))"

text \<open>A fork copies the descriptors of the forking process, the pipes among them.\<close>

definition pipe_fork :: "pid \<Rightarrow> pid \<Rightarrow> pipe \<Rightarrow> pipe" where
  "pipe_fork parent child p = (if parent \<in> set (pp_writers p) then p\<lparr>pp_writers := child # pp_writers p\<rparr> else p)"

subsection \<open>What is collected\<close>

fun chunk_bytes :: "chunk \<Rightarrow> bytes" where
  "chunk_bytes (Data bs) = bs"
| "chunk_bytes (IoFail e) = []"

definition undisturbed :: "chunk \<Rightarrow> bool" where
  "undisturbed c \<longleftrightarrow> c = IoFail Interrupted \<or> (\<exists>bs. c = Data bs \<and> bs \<noteq> [])"

lemma read_to_end_undisturbed:
  "\<forall>c \<in> set cs. undisturbed c \<Longrightarrow> read_to_end cs buf = Ok (buf @ concat (map chunk_bytes cs))"
  by (induction cs buf rule: read_to_end.induct) (auto simp: undisturbed_def)

text \<open>
  Output is collected whole and once: after the last process that holds the pipe has ended, \<open>read_stdout\<close>
  returns every byte that was written, however the reads were split or interrupted, a second call returns
  nothing, and the other stream is left alone.
\<close>

theorem output_collected_once:
  assumes "\<forall>c \<in> set (pp_incoming p). undisturbed c" and "\<forall>w \<in> set (pp_writers p). \<not> alive w"
  shows "\<exists>u. read_stdout alive (attach_drains (Some p) err) = Some (Ok (concat (map chunk_bytes (pp_incoming p))), u)
    \<and> read_stdout alive u = Some (Ok [], u) \<and> ou_stderr u = map_option drain_thread err"
  using assms by (auto simp: read_stdout_def attach_drains_def drain_thread_def join_drain_def drain_result_def read_to_end_undisturbed)

text \<open>
  A checkpoint keeps the output open: a snapshot forked from the target holds the pipe as well, so while it
  lives \<open>read_stdout\<close> does not return, whatever became of the target.
\<close>

theorem snapshot_blocks_output:
  assumes "\<forall>c \<in> set (pp_incoming p). undisturbed c" and "target \<in> set (pp_writers p)" and "alive snapshot"
  shows "read_stdout alive (attach_drains (Some (pipe_fork target snapshot p)) err) = None"
  using assms by (simp add: read_stdout_def attach_drains_def drain_thread_def join_drain_def drain_result_def pipe_fork_def
      read_to_end_undisturbed)

end
