(* ===== verification/Fidelity.thy ===== *)
theory Fidelity
  imports ReplayPosition
begin

text \<open>
  Replay of a single-threaded target. A target is a deterministic computation between its system calls
  (\<open>user\<close>); an execution is the list of its calls, each with the state of the target at the entry and at the
  exit stop. On a kernel that runs the same target again, a session over the events of the execution never
  diverges, and at every exit it stops at, the target has the memory and the registers it had when the
  record was taken, whatever the system calls that are fed from the trace would return now. What replay
  leaves to the kernel (the calls it does not inject) is assumed to be repeatable, and an injected call is
  assumed to write nothing but the region the recorder captures.
\<close>

subsection \<open>Targets and their executions\<close>

record user_state =
  us_mem :: "u64 \<Rightarrow> u8"
  us_regs :: full_regs

text \<open>What the target itself can see: the number the kernel keeps for a pending call is not part of it.\<close>

definition visible :: "user_state \<Rightarrow> user_state" where
  "visible t = t\<lparr>us_regs := (us_regs t)\<lparr>fr_orig_rax := 0\<rparr>\<rparr>"

type_synonym execution = "(user_state \<times> user_state) list"

text \<open>From \<open>t\<close> the target enters and leaves its calls as listed, and then enters its last one.\<close>

fun execution_of :: "(user_state \<Rightarrow> user_state) \<Rightarrow> user_state \<Rightarrow> execution \<Rightarrow> user_state \<Rightarrow> bool" where
  "execution_of user t [] final \<longleftrightarrow> final = user (visible t)"
| "execution_of user t ((e, x) # rest) final \<longleftrightarrow> e = user (visible t) \<and> execution_of user x rest final"

definition regs_at :: "user_state \<Rightarrow> registers" where
  "regs_at t = regs_of_full (us_regs t)"

definition peek :: "(u64 \<Rightarrow> u8) \<Rightarrow> u64 \<Rightarrow> nat \<Rightarrow> bytes" where
  "peek mem a n = map (\<lambda>i. mem (a + of_nat i)) [0..<n]"

definition poke :: "u64 \<Rightarrow> bytes \<Rightarrow> (u64 \<Rightarrow> u8) \<Rightarrow> u64 \<Rightarrow> u8" where
  "poke a d mem = (\<lambda>x. if unat (x - a) < length d then d ! unat (x - a) else mem x)"

definition written_region :: "syscall_numbers \<Rightarrow> user_state \<times> user_state \<Rightarrow> (u64 \<times> nat) option" where
  "written_region abi c = kernel_written_region abi (sr_nr (regs_at (fst c))) (sr_args (regs_at (fst c))) (fr_rax (us_regs (snd c)))"

definition injected :: "syscall_numbers \<Rightarrow> user_state \<Rightarrow> bool" where
  "injected abi e \<longleftrightarrow> injection_addr abi (sr_nr (regs_at e)) (sr_args (regs_at e)) \<noteq> None"

text \<open>
  What is assumed of a call: its number is not that of a cancelled call, a transfer fits the format, and an
  injected call changes the target's registers as every call does (\<open>sysret\<close>) but for its result, and its
  memory in the captured region only.
\<close>

definition call_ok :: "syscall_numbers \<Rightarrow> (full_regs \<Rightarrow> full_regs) \<Rightarrow> user_state \<times> user_state \<Rightarrow> bool" where
  "call_ok abi sysret c \<longleftrightarrow> (case c of (e, x) \<Rightarrow>
     fr_orig_rax (us_regs e) \<noteq> - 1 \<and> ret_small (fr_rax (us_regs x))
   \<and> (injected abi e \<longrightarrow>
        us_regs (visible x) = (sysret (us_regs (visible e)))\<lparr>fr_rax := fr_rax (us_regs x), fr_orig_rax := 0\<rparr>
      \<and> us_mem x = (case written_region abi c of
           Some (a, n) \<Rightarrow> poke a (peek (us_mem x) a n) (us_mem e) | None \<Rightarrow> us_mem e)))"

definition last_ok :: "syscall_numbers \<Rightarrow> user_state \<Rightarrow> bool" where
  "last_ok abi e \<longleftrightarrow> fr_orig_rax (us_regs e) \<noteq> - 1 \<and> \<not> injected abi e"

text \<open>The events of an execution, at any times: what the recorder makes of the two stops of each call.\<close>

fun events_of :: "syscall_numbers \<Rightarrow> pid \<Rightarrow> execution \<Rightarrow> user_state \<Rightarrow> event list \<Rightarrow> bool" where
  "events_of abi p [] final es \<longleftrightarrow> (\<exists>ts. es = [enter_event ts p (regs_at final)])"
| "events_of abi p ((e, x) # rest) final es \<longleftrightarrow> (\<exists>ts ts' ex es'. es = enter_event ts p (regs_at e) # ex # es'
     \<and> exit_event abi (\<lambda>_ a n. Ok (peek (us_mem x) a n)) ts' p p (regs_at e) (fr_rax (us_regs x)) = Ok ex
     \<and> events_of abi p rest final es')"

subsection \<open>A kernel that runs the target under replay\<close>

datatype progress = Outside nat | Inside nat | Gone

text \<open>
  A target, its execution, and a kernel on which it is replayed. \<open>rx_view X o p\<close>: memory and registers of
  process \<open>p\<close> in kernel state \<open>o\<close>; \<open>rx_at X o p\<close>: how many of its calls have been completed, and whether it
  is inside the next one.
\<close>

record 'os rerun =
  rx_os :: "'os replay_os"
  rx_view :: "'os \<Rightarrow> pid \<Rightarrow> user_state"
  rx_at :: "'os \<Rightarrow> pid \<Rightarrow> progress"
  rx_user :: "user_state \<Rightarrow> user_state"
  rx_sysret :: "full_regs \<Rightarrow> full_regs"
  rx_init :: user_state
  rx_calls :: execution
  rx_final :: user_state
  rx_code :: i32

definition resumes :: "'os rerun \<Rightarrow> pid \<Rightarrow> 'os \<Rightarrow> wait_status \<Rightarrow> 'os \<Rightarrow> bool" where
  "resumes X p o0 st o2 \<longleftrightarrow>
     (\<exists>o1. po_syscall (rx_os X) p None o0 = (Ok (), o1) \<and> po_waitpid (rx_os X) no_flags p o1 = (Ok st, o2))"

definition entry_of :: "'os rerun \<Rightarrow> nat \<Rightarrow> user_state" where
  "entry_of X i = (if i < length (rx_calls X) then fst (rx_calls X ! i) else rx_final X)"

definition state_before :: "'os rerun \<Rightarrow> nat \<Rightarrow> user_state" where
  "state_before X i = (case i of 0 \<Rightarrow> rx_init X | Suc j \<Rightarrow> snd (rx_calls X ! j))"

definition keeps_others :: "'os rerun \<Rightarrow> pid \<Rightarrow> 'os \<Rightarrow> 'os \<Rightarrow> bool" where
  "keeps_others X p o0 o1 \<longleftrightarrow> (\<forall>p'. p' \<noteq> p \<longrightarrow> rx_view X o1 p' = rx_view X o0 p' \<and> rx_at X o1 p' = rx_at X o0 p')"

text \<open>
  A process is spawned in the initial state, with an id that was not in use, as long as there is one; it
  runs to its next call; a
  cancelled call returns without effect; any other call that replay leaves to the kernel does what it did
  in the execution; the last one ends the process. No process affects another one's memory or registers.
\<close>

definition runs_target :: "'os rerun \<Rightarrow> bool" where
  "runs_target X \<longleftrightarrow>
     (\<forall>cmd o0. (\<exists>p. rx_at X o0 p = Gone) \<longrightarrow> (\<exists>p o1 st o2 o3. po_spawn (rx_os X) cmd o0 = (Ok p, o1) \<and> po_waitpid (rx_os X) no_flags p o1 = (Ok st, o2)
        \<and> po_setoptions (rx_os X) p (PTRACE_O_TRACESYSGOOD OR PTRACE_O_EXITKILL OR PTRACE_O_TRACEFORK OR PTRACE_O_TRACEVFORK
            OR PTRACE_O_TRACECLONE) o2 = (Ok (), o3)
        \<and> rx_at X o0 p = Gone \<and> rx_view X o3 p = rx_init X \<and> rx_at X o3 p = Outside 0 \<and> keeps_others X p o0 o3))
   \<and> (\<forall>p i o0. rx_at X o0 p = Outside i \<longrightarrow> (\<exists>o2. resumes X p o0 (PtraceSyscall p) o2
        \<and> rx_view X o2 p = rx_user X (visible (rx_view X o0 p)) \<and> rx_at X o2 p = Inside i \<and> keeps_others X p o0 o2))
   \<and> (\<forall>p i o0. rx_at X o0 p = Inside i \<and> i < length (rx_calls X) \<and> fr_orig_rax (us_regs (rx_view X o0 p)) = - 1 \<longrightarrow>
        (\<exists>o2 r. resumes X p o0 (PtraceSyscall p) o2 \<and> rx_at X o2 p = Outside (Suc i) \<and> keeps_others X p o0 o2 \<and> rx_view X o2 p =
          (rx_view X o0 p)\<lparr>us_regs := (rx_sysret X (us_regs (visible (rx_view X o0 p))))\<lparr>fr_rax := r, fr_orig_rax := - 1\<rparr>\<rparr>))
   \<and> (\<forall>p i o0. rx_at X o0 p = Inside i \<and> i < length (rx_calls X) \<and> rx_view X o0 p = entry_of X i
        \<and> \<not> injected (po_abi (rx_os X)) (entry_of X i) \<longrightarrow> (\<exists>o2. resumes X p o0 (PtraceSyscall p) o2
          \<and> rx_at X o2 p = Outside (Suc i) \<and> visible (rx_view X o2 p) = visible (state_before X (Suc i)) \<and> keeps_others X p o0 o2))
   \<and> (\<forall>p o0. rx_at X o0 p = Inside (length (rx_calls X)) \<and> rx_view X o0 p = rx_final X \<longrightarrow>
        (\<exists>o2. resumes X p o0 (Exited p (rx_code X)) o2 \<and> rx_at X o2 p = Gone \<and> keeps_others X p o0 o2))"

text \<open>Registers and the captured regions of memory can be read and written while the process is stopped.\<close>

definition access_target :: "'os rerun \<Rightarrow> bool" where
  "access_target X \<longleftrightarrow>
     (\<forall>p o0. rx_at X o0 p \<noteq> Gone \<longrightarrow> (\<exists>o1. po_getregs (rx_os X) p o0 = (Ok (us_regs (rx_view X o0 p)), o1)
        \<and> rx_view X o1 p = rx_view X o0 p \<and> rx_at X o1 p = rx_at X o0 p \<and> keeps_others X p o0 o1))
   \<and> (\<forall>p r o0. rx_at X o0 p \<noteq> Gone \<longrightarrow> (\<exists>o1. po_setregs (rx_os X) p r o0 = (Ok (), o1)
        \<and> rx_view X o1 p = (rx_view X o0 p)\<lparr>us_regs := r\<rparr> \<and> rx_at X o1 p = rx_at X o0 p \<and> keeps_others X p o0 o1))
   \<and> (\<forall>p i d a o0. rx_at X o0 p = Outside (Suc i) \<and> i < length (rx_calls X)
        \<and> written_region (po_abi (rx_os X)) (rx_calls X ! i) = Some (a, length d) \<longrightarrow>
        (\<exists>o1. po_vm_writev (rx_os X) p a d o0 = (Ok (length d), o1)
          \<and> rx_view X o1 p = (rx_view X o0 p)\<lparr>us_mem := poke a d (us_mem (rx_view X o0 p))\<rparr> \<and> rx_at X o1 p = rx_at X o0 p
          \<and> keeps_others X p o0 o1))"

text \<open>
  Single-stepping a process whose registers ask for a \<open>clone\<close> makes a stopped copy of it, reported to the
  tracer, after which the process itself runs to the end of that call; a process that is killed and waited
  for is gone, and the others are as they were.
\<close>

definition forks_target :: "'os rerun \<Rightarrow> bool" where
  "forks_target X \<longleftrightarrow>
     (\<forall>p i r o0. rx_at X o0 p = Outside i \<and> us_regs (rx_view X o0 p) = prepare_fork (po_sys_clone (rx_os X)) r \<and> (\<exists>p'. rx_at X o0 p' = Gone) \<longrightarrow>
        (\<exists>o1 sig event o2 raw o3 sig' o4 o5 o6 o7. po_step (rx_os X) p o0 = (Ok (), o1)
          \<and> po_waitpid (rx_os X) no_flags p o1 = (Ok (PtraceEvent p sig event), o2) \<and> is_fork_event event
          \<and> po_getevent (rx_os X) p o2 = (Ok raw, o3) \<and> po_waitpid (rx_os X) no_flags (ucast raw) o3 = (Ok (Stopped (ucast raw) sig'), o4)
          \<and> po_setoptions (rx_os X) (ucast raw) (PTRACE_O_TRACESYSGOOD OR PTRACE_O_EXITKILL OR PTRACE_O_TRACEFORK OR PTRACE_O_TRACEVFORK
            OR PTRACE_O_TRACECLONE) o4 = (Ok (), o5) \<and> po_syscall (rx_os X) p None o5 = (Ok (), o6)
          \<and> po_waitpid (rx_os X) no_flags p o6 = (Ok (PtraceSyscall p), o7) \<and> rx_at X o0 (ucast raw) = Gone
          \<and> rx_at X o7 p = Outside i \<and> us_mem (rx_view X o7 p) = us_mem (rx_view X o0 p)
          \<and> rx_at X o7 (ucast raw) = Outside i \<and> us_mem (rx_view X o7 (ucast raw)) = us_mem (rx_view X o0 p)
          \<and> (\<forall>p'. p' \<noteq> p \<and> p' \<noteq> ucast raw \<longrightarrow> rx_view X o7 p' = rx_view X o0 p' \<and> rx_at X o7 p' = rx_at X o0 p')))
   \<and> (\<forall>p o0. rx_at X o0 p \<noteq> Gone \<longrightarrow> (\<exists>o2. snd (po_waitpid (rx_os X) no_flags p (snd (po_kill (rx_os X) p o0))) = o2
        \<and> rx_at X o2 p = Gone \<and> keeps_others X p o0 o2))"

definition replayable :: "'os rerun \<Rightarrow> bool" where
  "replayable X \<longleftrightarrow> runs_target X \<and> access_target X \<and> forks_target X \<and> execution_of (rx_user X) (rx_init X) (rx_calls X) (rx_final X)
     \<and> (\<forall>c \<in> set (rx_calls X). call_ok (po_abi (rx_os X)) (rx_sysret X) c) \<and> last_ok (po_abi (rx_os X)) (rx_final X)
     \<and> SYS_getrandom (po_abi (rx_os X)) \<noteq> SYS_clock_gettime (po_abi (rx_os X)) \<and> length (rx_calls X) < 2 ^ 62"

subsection \<open>The events and the states of an execution\<close>

lemma execution_entry:
  assumes "execution_of user t calls final" and "i \<le> length calls"
  shows "(if i < length calls then fst (calls ! i) else final) = user (visible (case i of 0 \<Rightarrow> t | Suc j \<Rightarrow> snd (calls ! j)))"
  using assms
proof (induction user t calls final arbitrary: i rule: execution_of.induct)
  case (2 user t e x rest final)
  then have ih: "j \<le> length rest \<Longrightarrow> (if j < length rest then fst (rest ! j) else final)
      = user (visible (case j of 0 \<Rightarrow> x | Suc k \<Rightarrow> snd (rest ! k)))" for j by simp
  from 2 ih [of "i - 1"] show ?case by (cases i; cases "i - 1") (auto split: nat.splits)
qed simp

lemma entry_is_next: "replayable X \<Longrightarrow> i \<le> length (rx_calls X) \<Longrightarrow> entry_of X i = rx_user X (visible (state_before X i))"
  using execution_entry unfolding replayable_def entry_of_def state_before_def by blast

lemma events_of_nth:
  assumes "events_of abi p calls final es"
  shows "length es = Suc (2 * length calls)"
    and "i \<le> length calls \<Longrightarrow> \<exists>ts. es ! (2 * i) = enter_event ts p (regs_at (if i < length calls then fst (calls ! i) else final))"
    and "i < length calls \<Longrightarrow> \<exists>ts. exit_event abi (\<lambda>_ a n. Ok (peek (us_mem (snd (calls ! i))) a n)) ts p p
      (regs_at (fst (calls ! i))) (fr_rax (us_regs (snd (calls ! i)))) = Ok (es ! Suc (2 * i))"
proof -
  have "length es = Suc (2 * length calls)
    \<and> (\<forall>i \<le> length calls. \<exists>ts. es ! (2 * i) = enter_event ts p (regs_at (if i < length calls then fst (calls ! i) else final)))
    \<and> (\<forall>i < length calls. \<exists>ts. exit_event abi (\<lambda>_ a n. Ok (peek (us_mem (snd (calls ! i))) a n)) ts p p
         (regs_at (fst (calls ! i))) (fr_rax (us_regs (snd (calls ! i)))) = Ok (es ! Suc (2 * i)))"
    using assms
  proof (induction abi p calls final es rule: events_of.induct)
    case (2 abi p e x rest final es)
    then obtain ts ts' ex es' where es: "es = enter_event ts p (regs_at e) # ex # es'"
      and ex: "exit_event abi (\<lambda>_ a n. Ok (peek (us_mem x) a n)) ts' p p (regs_at e) (fr_rax (us_regs x)) = Ok ex"
      and rest: "events_of abi p rest final es'" by auto
    note ih = 2(1) [OF rest]
    have "\<exists>ts. es ! (2 * i) = enter_event ts p (regs_at (if i < length ((e, x) # rest) then fst (((e, x) # rest) ! i) else final))"
      if "i \<le> length ((e, x) # rest)" for i
      using ih [THEN conjunct2, THEN conjunct1, rule_format, of "i - 1"] that by (cases i) (auto simp: es)
    moreover have "\<exists>ts. exit_event abi (\<lambda>_ a n. Ok (peek (us_mem (snd (((e, x) # rest) ! i))) a n)) ts p p
         (regs_at (fst (((e, x) # rest) ! i))) (fr_rax (us_regs (snd (((e, x) # rest) ! i)))) = Ok (es ! Suc (2 * i))"
      if "i < length ((e, x) # rest)" for i
      using ih [THEN conjunct2, THEN conjunct2, rule_format, of "i - 1"] that ex by (cases i) (auto simp: es)
    ultimately show ?case using ih by (simp add: es)
  qed auto
  then show "length es = Suc (2 * length calls)"
    and "i \<le> length calls \<Longrightarrow> \<exists>ts. es ! (2 * i) = enter_event ts p (regs_at (if i < length calls then fst (calls ! i) else final))"
    and "i < length calls \<Longrightarrow> \<exists>ts. exit_event abi (\<lambda>_ a n. Ok (peek (us_mem (snd (calls ! i))) a n)) ts p p
      (regs_at (fst (calls ! i))) (fr_rax (us_regs (snd (calls ! i)))) = Ok (es ! Suc (2 * i))"
    by blast+
qed

lemma nth_records_from: "k < length es \<Longrightarrow> records_from q es ! k = \<lparr>rec_seq = q + of_nat k, rec_event = event_norm (es ! k)\<rparr>"
proof (induction q es arbitrary: k rule: records_from.induct)
  case (2 q e es)
  then show ?case by (cases k) (simp_all add: add.assoc)
qed simp

definition recorded :: "'os rerun \<Rightarrow> event list \<Rightarrow> bool" where
  "recorded X es \<longleftrightarrow> (\<exists>tid. events_of (po_abi (rx_os X)) tid (rx_calls X) (rx_final X) es)"

lemma length_recorded: "recorded X es \<Longrightarrow> length es = Suc (2 * length (rx_calls X))"
  by (auto simp: recorded_def dest: events_of_nth(1))

lemma regs_at_simps [simp]: "sr_nr (regs_at t) = fr_orig_rax (us_regs t)" "sr_ret (regs_at t) = fr_rax (us_regs t)"
  by (simp_all add: regs_at_def regs_of_full_def)

lemma args6_regs_at [simp]: "args6 (sr_args (regs_at t))"
  by (simp add: regs_at_def regs_of_full_def args6_def)

lemma recorded_enter:
  assumes "recorded X es" and "i \<le> length (rx_calls X)"
  shows "ev_kind (es ! (2 * i)) = SyscallEnter"
    and "syscall_enter_decode (ev_payload (es ! (2 * i)))
      = Ok \<lparr>se_nr = fr_orig_rax (us_regs (entry_of X i)), se_args = sr_args (regs_at (entry_of X i))\<rparr>"
proof -
  from assms obtain ts tid where "es ! (2 * i) = enter_event ts tid (regs_at (entry_of X i))"
    unfolding recorded_def entry_of_def using events_of_nth(2) by blast
  then show "ev_kind (es ! (2 * i)) = SyscallEnter" "syscall_enter_decode (ev_payload (es ! (2 * i)))
      = Ok \<lparr>se_nr = fr_orig_rax (us_regs (entry_of X i)), se_args = sr_args (regs_at (entry_of X i))\<rparr>"
    using syscall_enter_codec.dec_enc [of "\<lparr>se_nr = fr_orig_rax (us_regs (entry_of X i)), se_args = sr_args (regs_at (entry_of X i))\<rparr>"]
    by (simp_all add: enter_event_def event_new_with_tid_def)
qed

definition written_data :: "'os rerun \<Rightarrow> nat \<Rightarrow> bytes" where
  "written_data X i = (case written_region (po_abi (rx_os X)) (rx_calls X ! i) of
       Some (a, n) \<Rightarrow> peek (us_mem (snd (rx_calls X ! i))) a n | None \<Rightarrow> [])"

lemma length_peek [simp]: "length (peek mem a n) = n"
  by (simp add: peek_def)

lemma recorded_exit:
  assumes "recorded X es" and "i < length (rx_calls X)" and "ret_small (fr_rax (us_regs (snd (rx_calls X ! i))))"
  shows "ev_kind (es ! Suc (2 * i)) = SyscallExit"
    and "syscall_exit_decode (ev_payload (es ! Suc (2 * i)))
      = Ok \<lparr>sx_nr = fr_orig_rax (us_regs (fst (rx_calls X ! i))), sx_ret = fr_rax (us_regs (snd (rx_calls X ! i))), sx_data = written_data X i\<rparr>"
proof -
  let ?x = "\<lparr>sx_nr = fr_orig_rax (us_regs (fst (rx_calls X ! i))), sx_ret = fr_rax (us_regs (snd (rx_calls X ! i))), sx_data = written_data X i\<rparr>"
  obtain ts tid where ex: "exit_event (po_abi (rx_os X)) (\<lambda>_ a n. Ok (peek (us_mem (snd (rx_calls X ! i))) a n)) ts tid tid
      (regs_at (fst (rx_calls X ! i))) (fr_rax (us_regs (snd (rx_calls X ! i)))) = Ok (es ! Suc (2 * i))"
    using assms events_of_nth(3) unfolding recorded_def by blast
  have "es ! Suc (2 * i) = event_new_with_tid SyscallExit ts tid (syscall_exit_encode ?x)"
    using ex by (auto simp: exit_event_def read_tracee_memory_def written_data_def written_region_def split: option.splits)
  moreover have "length (written_data X i) < 2 ^ 32"
    using kernel_written_region_len [OF _ assms(3)] by (auto simp: written_data_def written_region_def split: option.split)
  ultimately show "ev_kind (es ! Suc (2 * i)) = SyscallExit" "syscall_exit_decode (ev_payload (es ! Suc (2 * i))) = Ok ?x"
    using syscall_exit_codec.dec_enc [of ?x] by (simp_all add: event_new_with_tid_def)
qed

subsection \<open>One turn of the driver\<close>

text \<open>The session has consumed \<open>k\<close> records, and its process is where the execution was at that record.\<close>

definition snapshot_ok :: "'os rerun \<Rightarrow> 'os \<Rightarrow> pid \<Rightarrow> checkpoint_info \<Rightarrow> bool" where
  "snapshot_ok X o0 p cp \<longleftrightarrow> cp_snapshot cp \<noteq> p \<and> (\<exists>j. 0 < j \<and> j \<le> length (rx_calls X) \<and> cp_cursor cp = 2 * j
     \<and> cp_seq cp = of_nat (2 * j - 1) \<and> cp_current_seq cp = Some (of_nat (2 * j - 1))
     \<and> rx_at X o0 (cp_snapshot cp) = Outside j \<and> visible (rx_view X o0 (cp_snapshot cp)) = visible (state_before X j))"

text \<open>
  The processes that do not belong to the session. A session has one process of its own and at most one
  snapshot for each call of the target, so there is a free id whenever it needs one if there are few others.
\<close>

definition strangers :: "'os rerun \<Rightarrow> 'os \<Rightarrow> pid \<Rightarrow> checkpoint_info list \<Rightarrow> pid set" where
  "strangers X o0 p cps = {q. rx_at X o0 q \<noteq> Gone} - insert p (cp_snapshot ` set cps)"

definition roomy :: "'os rerun \<Rightarrow> pid set \<Rightarrow> bool" where
  "roomy X A \<longleftrightarrow> card A + length (rx_calls X) + 2 \<le> 2 ^ 32"

definition tracking :: "'os rerun \<Rightarrow> event list \<Rightarrow> 'os session \<Rightarrow> bool" where
  "tracking X es s \<longleftrightarrow> rs_records s = records_from 0 es \<and> \<not> rs_multithreaded s \<and> rs_resume_signal s = None \<and> rs_watchpoint s = None
     \<and> (\<forall>cp \<in> set (rs_checkpoints s). snapshot_ok X (rs_os s) (rs_pid s) cp) \<and> sorted_wrt (<) (map cp_seq (rs_checkpoints s))
     \<and> roomy X (strangers X (rs_os s) (rs_pid s) (rs_checkpoints s))"

lemma roomy_mono: "roomy X A \<Longrightarrow> B \<subseteq> A \<Longrightarrow> roomy X B"
  using card_mono [of A B] by (simp add: roomy_def)

lemma snapshots_few:
  assumes "\<forall>cp \<in> set cps. snapshot_ok X o0 p cp" and "sorted_wrt (<) (map cp_seq cps)"
  shows "length cps \<le> length (rx_calls X)"
proof -
  have "distinct (map cp_seq cps)" using assms(2) strict_sorted_iff by blast
  moreover have "set (map cp_seq cps) \<subseteq> (\<lambda>j. of_nat (2 * j - 1)) ` {1..length (rx_calls X)}"
    using assms(1) by (force simp: snapshot_ok_def)
  ultimately have "length (map cp_seq cps) \<le> card {1..length (rx_calls X)}"
    using surj_card_le [OF finite_atLeastAtMost] by (metis distinct_card)
  then show ?thesis by simp
qed

lemma free_id:
  assumes "tracking X es s"
  shows "\<exists>p. rx_at X (rs_os s) p = Gone"
proof (rule ccontr)
  let ?own = "insert (rs_pid s) (cp_snapshot ` set (rs_checkpoints s))"
  let ?others = "strangers X (rs_os s) (rs_pid s) (rs_checkpoints s)"
  assume "\<not> ?thesis"
  then have "UNIV = ?others \<union> ?own" by (auto simp: strangers_def)
  then have "card (UNIV :: pid set) \<le> card ?others + card ?own" by (metis card_Un_le)
  moreover have "card ?own \<le> Suc (length (rs_checkpoints s))"
    by (rule order.trans [OF card_insert_le_m1 [of "Suc (length (rs_checkpoints s))"]])
      (use card_image_le [of "set (rs_checkpoints s)" cp_snapshot] card_length [of "rs_checkpoints s"] in auto)
  moreover have "length (rs_checkpoints s) \<le> length (rx_calls X)" using assms snapshots_few by (auto simp: tracking_def)
  ultimately show False using assms by (simp add: tracking_def roomy_def card_word)
qed

lemma keeps_others_refl [simp]: "keeps_others X p o0 o0"
  by (simp add: keeps_others_def)

lemma keeps_others_trans [trans]: "keeps_others X p o0 o1 \<Longrightarrow> keeps_others X p o1 o2 \<Longrightarrow> keeps_others X p o0 o2"
  by (simp add: keeps_others_def)

lemma tracking_step:
  assumes "tracking X es s" and "keeps_others X (rs_pid s) (rs_os s) (rs_os t)" and "rs_records t = rs_records s"
    and "rs_multithreaded t = rs_multithreaded s" and "rs_resume_signal t = rs_resume_signal s" and "rs_watchpoint t = rs_watchpoint s"
    and "rs_checkpoints t = rs_checkpoints s" and "rs_pid t = rs_pid s"
  shows "tracking X es t"
proof -
  have "strangers X (rs_os t) (rs_pid t) (rs_checkpoints t) = strangers X (rs_os s) (rs_pid s) (rs_checkpoints s)"
    using assms(2,7,8) by (auto simp: strangers_def keeps_others_def)
  with assms show ?thesis by (auto simp: tracking_def snapshot_ok_def keeps_others_def)
qed

definition cancelled :: "user_state \<Rightarrow> user_state" where
  "cancelled t = t\<lparr>us_regs := (us_regs t)\<lparr>fr_orig_rax := - 1\<rparr>\<rparr>"

definition entered :: "'os rerun \<Rightarrow> nat \<Rightarrow> user_state" where
  "entered X i = (if injected (po_abi (rx_os X)) (entry_of X i) then cancelled (entry_of X i) else entry_of X i)"

definition inject_at :: "'os rerun \<Rightarrow> nat \<Rightarrow> u64 option" where
  "inject_at X i = injection_addr (po_abi (rx_os X)) (sr_nr (regs_at (entry_of X i))) (sr_args (regs_at (entry_of X i)))"

definition at_outside :: "'os rerun \<Rightarrow> event list \<Rightarrow> nat \<Rightarrow> 'os session \<Rightarrow> bool" where
  "at_outside X es i s \<longleftrightarrow> tracking X es s \<and> rs_finished s = None \<and> rs_cursor s = 2 * i
     \<and> rs_current_seq s = (if i = 0 then None else Some (of_nat (2 * i - 1))) \<and> rs_pending s = None
     \<and> rx_at X (rs_os s) (rs_pid s) = Outside i \<and> visible (rx_view X (rs_os s) (rs_pid s)) = visible (state_before X i)"

definition at_inside :: "'os rerun \<Rightarrow> event list \<Rightarrow> nat \<Rightarrow> 'os session \<Rightarrow> bool" where
  "at_inside X es i s \<longleftrightarrow> tracking X es s \<and> rs_finished s = None \<and> rs_cursor s = Suc (2 * i)
     \<and> rs_current_seq s = Some (of_nat (2 * i)) \<and> rs_pending s = Some \<lparr>pe_inject_addr = inject_at X i\<rparr>
     \<and> rx_at X (rs_os s) (rs_pid s) = Inside i \<and> rx_view X (rs_os s) (rs_pid s) = entered X i"

lemma turn_resumes:
  assumes "rs_resume_signal s = None" and "resumes X (rs_pid s) (rs_os s) st o2"
  shows "st_turn (rx_os X) s = st_dispatch (rx_os X) (rs_pid s) st (s\<lparr>rs_os := o2\<rparr>)"
  using assms by (cases s) (auto simp: st_turn_def resumes_def st_defs ros_do_def)

lemma next_is:
  assumes "rs_records s = records_from 0 es" and "rs_cursor s < length es" and "ev_kind (es ! rs_cursor s) \<noteq> Checkpoint"
  shows "next_record s = (Ok \<lparr>rec_seq = of_nat (rs_cursor s), rec_event = event_norm (es ! rs_cursor s)\<rparr>, s\<lparr>rs_cursor := Suc (rs_cursor s)\<rparr>)"
proof -
  have "skip_count (drop (rs_cursor s) (rs_records s)) = 0"
    using assms by (subst Cons_nth_drop_Suc [symmetric]) (simp_all add: nth_records_from event_norm_def)
  then show ?thesis using assms
    by (cases s) (simp add: next_record_def skip_checkpoints_def record_at_def st_defs nth_records_from)
qed

lemma read_regs_ok:
  assumes "access_target X" and "rx_at X (rs_os s) p \<noteq> Gone"
  shows "\<exists>o1. regs_read (rx_os X) p s = (Ok (regs_at (rx_view X (rs_os s) p)), s\<lparr>rs_os := o1\<rparr>)
    \<and> rx_view X o1 p = rx_view X (rs_os s) p \<and> rx_at X o1 p = rx_at X (rs_os s) p \<and> keeps_others X p (rs_os s) o1"
proof -
  from assms obtain o1 where "po_getregs (rx_os X) p (rs_os s) = (Ok (us_regs (rx_view X (rs_os s) p)), o1)"
    "rx_view X o1 p = rx_view X (rs_os s) p" "rx_at X o1 p = rx_at X (rs_os s) p" "keeps_others X p (rs_os s) o1"
    unfolding access_target_def by blast
  then show ?thesis by (intro exI [of _ o1]) (simp add: regs_read_def st_defs ros_do_def regs_at_def)
qed

lemma update_regs_ok:
  assumes "access_target X" and "rx_at X (rs_os s) p \<noteq> Gone"
  shows "\<exists>o1. st_bind (ros_do RePtrace (po_getregs (rx_os X) p)) (\<lambda>r. ros_do RePtrace (po_setregs (rx_os X) p (f r))) s = (Ok (), s\<lparr>rs_os := o1\<rparr>)
    \<and> rx_view X o1 p = (rx_view X (rs_os s) p)\<lparr>us_regs := f (us_regs (rx_view X (rs_os s) p))\<rparr> \<and> rx_at X o1 p = rx_at X (rs_os s) p
    \<and> keeps_others X p (rs_os s) o1"
proof -
  from assms obtain o1 where g: "po_getregs (rx_os X) p (rs_os s) = (Ok (us_regs (rx_view X (rs_os s) p)), o1)"
    "rx_view X o1 p = rx_view X (rs_os s) p" "rx_at X o1 p = rx_at X (rs_os s) p" "keeps_others X p (rs_os s) o1"
    unfolding access_target_def by blast
  with assms obtain o2 where "po_setregs (rx_os X) p (f (us_regs (rx_view X (rs_os s) p))) o1 = (Ok (), o2)"
    "rx_view X o2 p = (rx_view X o1 p)\<lparr>us_regs := f (us_regs (rx_view X (rs_os s) p))\<rparr>" "rx_at X o2 p = rx_at X o1 p"
    "keeps_others X p o1 o2"
    unfolding access_target_def by metis
  with g show ?thesis by (intro exI [of _ o2]) (auto simp: st_defs ros_do_def elim: keeps_others_trans)
qed

lemmas suppress_ok = update_regs_ok [where f = "\<lambda>r. r\<lparr>fr_orig_rax := - 1\<rparr>", folded suppress_syscall_def]
lemmas set_return_ok = update_regs_ok [where f = "\<lambda>r. r\<lparr>fr_rax := ret\<rparr>" for ret, folded set_return_def]

lemma entry_record_ok:
  assumes acc: "access_target X" and rec: "recorded X es" and tr: "tracking X es s" and i: "i \<le> length (rx_calls X)"
    and s: "rs_cursor s = 2 * i" "rs_finished s = None" "rx_at X (rs_os s) (rs_pid s) = Inside i"
      "rx_view X (rs_os s) (rs_pid s) = entry_of X i" "rs_pending s = None"
  shows "\<exists>s'. on_entry (rx_os X) (regs_at (entry_of X i)) s = (Ok (), s') \<and> at_inside X es i s'"
proof -
  let ?s1 = "s\<lparr>rs_cursor := Suc (2 * i), rs_current_seq := Some (of_nat (2 * i))\<rparr>"
  let ?m = "if inject_at X i \<noteq> None then st_bind (st_get rs_pid) (suppress_syscall (rx_os X)) else st_return ()"
  have "\<exists>o1. ?m ?s1 = (Ok (), ?s1\<lparr>rs_os := o1\<rparr>) \<and> rx_view X o1 (rs_pid s) = entered X i \<and> rx_at X o1 (rs_pid s) = Inside i
      \<and> keeps_others X (rs_pid s) (rs_os s) o1"
  proof (cases "inject_at X i = None")
    case True
    then show ?thesis using s by (intro exI [of _ "rs_os s"]) (simp add: st_defs entered_def injected_def inject_at_def)
  next
    case False
    with suppress_ok [OF acc, of ?s1 "rs_pid s"] s show ?thesis
      by (auto simp: st_defs entered_def injected_def inject_at_def cancelled_def)
  qed
  then obtain o1 where m: "?m ?s1 = (Ok (), ?s1\<lparr>rs_os := o1\<rparr>)" and o1: "rx_view X o1 (rs_pid s) = entered X i" "rx_at X o1 (rs_pid s) = Inside i"
    "keeps_others X (rs_pid s) (rs_os s) o1" by blast
  have nxt: "next_record s = (Ok \<lparr>rec_seq = of_nat (2 * i), rec_event = event_norm (es ! (2 * i))\<rparr>, s\<lparr>rs_cursor := Suc (2 * i)\<rparr>)"
    using next_is [of s es] tr s length_recorded [OF rec] i recorded_enter(1) [OF rec i] by (simp add: tracking_def)
  have "on_entry (rx_os X) (regs_at (entry_of X i)) s
      = (Ok (), ?s1\<lparr>rs_os := o1, rs_pending := Some \<lparr>pe_inject_addr = inject_at X i\<rparr>\<rparr>)"
    using m unfolding on_entry_def inject_at_def
    by (simp add: st_bind_def nxt event_norm_def recorded_enter [OF rec i] st_lift_def st_modify_def Let_def)
  then show ?thesis using o1 s tracking_step [OF tr] by (auto simp: at_inside_def)
qed

lemma write_memory_ok:
  assumes "access_target X" and "i < length (rx_calls X)" and "rx_at X (rs_os s) p = Outside (Suc i)"
    and "\<And>a n. written_region (po_abi (rx_os X)) (rx_calls X ! i) = Some (a, n) \<Longrightarrow> addr = a \<and> 0 < n"
  shows "\<exists>o1. write_memory (rx_os X) p addr (written_data X i) s = (Ok (), s\<lparr>rs_os := o1\<rparr>) \<and> rx_at X o1 p = Outside (Suc i)
    \<and> keeps_others X p (rs_os s) o1 \<and> rx_view X o1 p = (rx_view X (rs_os s) p)\<lparr>us_mem := (case written_region (po_abi (rx_os X)) (rx_calls X ! i) of
        Some (a, n) \<Rightarrow> poke a (written_data X i) (us_mem (rx_view X (rs_os s) p)) | None \<Rightarrow> us_mem (rx_view X (rs_os s) p))\<rparr>"
proof (cases "written_region (po_abi (rx_os X)) (rx_calls X ! i)")
  case None
  then show ?thesis using assms(3) by (intro exI [of _ "rs_os s"]) (simp add: write_memory_def written_data_def st_return_def)
next
  case (Some r)
  then obtain a n where r: "written_region (po_abi (rx_os X)) (rx_calls X ! i) = Some (a, n)" by (cases r) auto
  with assms(4) have addr: "addr = a" "0 < n" by blast+
  have d: "length (written_data X i) = n" by (simp add: written_data_def r)
  with assms(1-3) r obtain o1 where "po_vm_writev (rx_os X) p a (written_data X i) (rs_os s) = (Ok n, o1)"
    "rx_view X o1 p = (rx_view X (rs_os s) p)\<lparr>us_mem := poke a (written_data X i) (us_mem (rx_view X (rs_os s) p))\<rparr>"
    "rx_at X o1 p = Outside (Suc i)" "keeps_others X p (rs_os s) o1"
    unfolding access_target_def by metis
  with d addr r show ?thesis by (intro exI [of _ o1]) (auto simp: write_memory_def st_defs ros_do_def)
qed

lemma visible_cancelled [simp]: "visible (cancelled t) = visible t"
  by (simp add: visible_def cancelled_def)

lemma region_injected:
  assumes "replayable X" and "i < length (rx_calls X)" and "written_region (po_abi (rx_os X)) (rx_calls X ! i) = Some (a, n)"
  shows "inject_at X i = Some a" and "0 < n"
proof -
  from assms(1,2) have "call_ok (po_abi (rx_os X)) (rx_sysret X) (rx_calls X ! i)" by (simp add: replayable_def)
  then have small: "ret_small (fr_rax (us_regs (snd (rx_calls X ! i))))" by (auto simp: call_ok_def split: prod.splits)
  have neq: "SYS_getrandom (po_abi (rx_os X)) \<noteq> SYS_clock_gettime (po_abi (rx_os X))" using assms(1) by (simp add: replayable_def)
  show "inject_at X i = Some a" using injection_covers_capture [OF neq assms(3) [unfolded written_region_def]] assms(2)
    by (simp add: inject_at_def entry_of_def)
  show "0 < n" using assms(3) small unfolding written_region_def
    by (auto simp: kernel_written_region_def ret_small_def TIMESPEC_LEN_def word_sless_alt unat_gt_0 split: if_splits)
qed

text \<open>The stop after a call that was cancelled and has to be fed from the trace, or after any other call.\<close>

definition returned :: "'os rerun \<Rightarrow> nat \<Rightarrow> user_state \<Rightarrow> bool" where
  "returned X i v \<longleftrightarrow> (if injected (po_abi (rx_os X)) (entry_of X i)
     then \<exists>r. v = (entered X i)\<lparr>us_regs := (rx_sysret X (us_regs (visible (entry_of X i))))\<lparr>fr_rax := r, fr_orig_rax := - 1\<rparr>\<rparr>
     else visible v = visible (state_before X (Suc i)))"

lemma exit_record_ok:
  assumes X: "replayable X" and rec: "recorded X es" and tr: "tracking X es s" and i: "i < length (rx_calls X)"
    and s: "rs_cursor s = Suc (2 * i)" "rs_finished s = None" "rx_at X (rs_os s) (rs_pid s) = Outside (Suc i)"
      "returned X i (rx_view X (rs_os s) (rs_pid s))" "rs_pending s = None"
  shows "\<exists>s'. session_on_exit (rx_os X) \<lparr>pe_inject_addr = inject_at X i\<rparr> s = (Ok (), s') \<and> at_outside X es (Suc i) s'"
proof -
  let ?x = "snd (rx_calls X ! i)" and ?p = "rs_pid s"
  let ?s1 = "s\<lparr>rs_cursor := Suc (Suc (2 * i)), rs_current_seq := Some (of_nat (Suc (2 * i)))\<rparr>"
  have acc: "access_target X" using X by (simp add: replayable_def)
  from X i have ok: "call_ok (po_abi (rx_os X)) (rx_sysret X) (entry_of X i, ?x)" by (simp add: replayable_def entry_of_def)
  then have small: "ret_small (fr_rax (us_regs ?x))" by (simp add: call_ok_def)
  have nxt: "next_record s = (Ok \<lparr>rec_seq = of_nat (Suc (2 * i)), rec_event = event_norm (es ! Suc (2 * i))\<rparr>, s\<lparr>rs_cursor := Suc (Suc (2 * i))\<rparr>)"
    using next_is [of s es] tr s length_recorded [OF rec] i recorded_exit(1) [OF rec i small] by (simp add: tracking_def)
  let ?m = "case inject_at X i of Some addr \<Rightarrow> st_bind (st_get rs_pid) (\<lambda>pid. st_bind (write_memory (rx_os X) pid addr (written_data X i)) (\<lambda>_.
      set_return (rx_os X) pid (fr_rax (us_regs ?x)))) | None \<Rightarrow> st_return ()"
  have "\<exists>o1. ?m ?s1 = (Ok (), ?s1\<lparr>rs_os := o1\<rparr>) \<and> rx_at X o1 ?p = Outside (Suc i) \<and> visible (rx_view X o1 ?p) = visible ?x
      \<and> keeps_others X ?p (rs_os s) o1"
  proof (cases "inject_at X i")
    case None
    then have "visible (rx_view X (rs_os s) ?p) = visible ?x"
      using s(4) by (simp add: returned_def injected_def inject_at_def state_before_def)
    then show ?thesis using None s(3) by (intro exI [of _ "rs_os s"]) (simp add: st_return_def)
  next
    case (Some addr)
    then have inj: "injected (po_abi (rx_os X)) (entry_of X i)" by (simp add: injected_def inject_at_def)
    with s(4) obtain r where v: "rx_view X (rs_os s) ?p =
        (cancelled (entry_of X i))\<lparr>us_regs := (rx_sysret X (us_regs (visible (entry_of X i))))\<lparr>fr_rax := r, fr_orig_rax := - 1\<rparr>\<rparr>"
      by (auto simp: returned_def entered_def)
    have wr: "written_region (po_abi (rx_os X)) (rx_calls X ! i) = written_region (po_abi (rx_os X)) (entry_of X i, ?x)"
      using i by (simp add: entry_of_def)
    obtain o1 where w: "write_memory (rx_os X) ?p addr (written_data X i) ?s1 = (Ok (), ?s1\<lparr>rs_os := o1\<rparr>)"
      and a1: "rx_at X o1 ?p = Outside (Suc i)"
      and v1: "rx_view X o1 ?p = (rx_view X (rs_os s) ?p)\<lparr>us_mem := us_mem ?x\<rparr>" and k1: "keeps_others X ?p (rs_os s) o1"
      using write_memory_ok [OF acc i, of ?s1 ?p addr] region_injected [OF X i] s(3) Some ok inj v
      by (auto simp: call_ok_def wr written_data_def cancelled_def split: option.splits)
    obtain o2 where "set_return (rx_os X) ?p (fr_rax (us_regs ?x)) (?s1\<lparr>rs_os := o1\<rparr>) = (Ok (), ?s1\<lparr>rs_os := o2\<rparr>)"
      "rx_view X o2 ?p = (rx_view X o1 ?p)\<lparr>us_regs := (us_regs (rx_view X o1 ?p))\<lparr>fr_rax := fr_rax (us_regs ?x)\<rparr>\<rparr>"
      "rx_at X o2 ?p = Outside (Suc i)" "keeps_others X ?p o1 o2"
      using set_return_ok [OF acc, of "?s1\<lparr>rs_os := o1\<rparr>" ?p "fr_rax (us_regs ?x)"] a1 by auto
    with w v1 v ok inj Some show ?thesis
      by (intro exI [of _ o2]) (auto simp: st_defs call_ok_def visible_def intro: keeps_others_trans [OF k1])
  qed
  then obtain o1 where m: "?m ?s1 = (Ok (), ?s1\<lparr>rs_os := o1\<rparr>)"
    and o1: "rx_at X o1 ?p = Outside (Suc i)" "visible (rx_view X o1 ?p) = visible ?x" "keeps_others X ?p (rs_os s) o1" by blast
  have "session_on_exit (rx_os X) \<lparr>pe_inject_addr = inject_at X i\<rparr> s = (Ok (), ?s1\<lparr>rs_os := o1\<rparr>)"
    using m unfolding session_on_exit_def
    by (simp add: st_bind_def [of next_record] nxt event_norm_def recorded_exit [OF rec i small] st_lift_def st_modify_def st_bind_def
        split: option.splits)
  then show ?thesis using o1 s tracking_step [OF tr] by (auto simp: at_outside_def state_before_def)
qed

lemma setregs_ok:
  assumes "access_target X" and "rx_at X o0 p = Outside i"
  shows "\<exists>o1. po_setregs (rx_os X) p r o0 = (Ok (), o1) \<and> rx_view X o1 p = (rx_view X o0 p)\<lparr>us_regs := r\<rparr> \<and> rx_at X o1 p = Outside i
    \<and> keeps_others X p o0 o1"
  using assms(1) [unfolded access_target_def, THEN conjunct2, THEN conjunct1, rule_format, of o0 p r] assms(2) by simp

lemma fork_ok:
  assumes "replayable X" and "tracking X es s" and at: "rx_at X (rs_os s) p = Outside i"
  shows "\<exists>child o1. fork_snapshot (rx_os X) p s = (Ok child, s\<lparr>rs_os := o1\<rparr>) \<and> rx_at X (rs_os s) child = Gone
    \<and> rx_at X o1 p = Outside i \<and> rx_view X o1 p = rx_view X (rs_os s) p
    \<and> rx_at X o1 child = Outside i \<and> rx_view X o1 child = rx_view X (rs_os s) p
    \<and> (\<forall>p'. p' \<noteq> p \<and> p' \<noteq> child \<longrightarrow> rx_view X o1 p' = rx_view X (rs_os s) p' \<and> rx_at X o1 p' = rx_at X (rs_os s) p')"
proof -
  let ?r = "us_regs (rx_view X (rs_os s) p)" and ?os = "rx_os X"
  have acc: "access_target X" and forks: "forks_target X" using assms(1) by (simp_all add: replayable_def)
  from acc at obtain a where a: "po_getregs ?os p (rs_os s) = (Ok ?r, a)" "rx_view X a p = rx_view X (rs_os s) p"
    "rx_at X a p = Outside i" "keeps_others X p (rs_os s) a" unfolding access_target_def by (metis progress.distinct(3))
  obtain b where b: "po_setregs ?os p (prepare_fork (po_sys_clone ?os) ?r) a = (Ok (), b)"
    "rx_view X b p = (rx_view X (rs_os s) p)\<lparr>us_regs := prepare_fork (po_sys_clone ?os) ?r\<rparr>" "rx_at X b p = Outside i"
    "keeps_others X p a b" using setregs_ok [OF acc a(3)] by (auto simp: a(2))
  then have "us_regs (rx_view X b p) = prepare_fork (po_sys_clone ?os) ?r" by simp
  moreover have "\<exists>p'. rx_at X b p' = Gone"
    using free_id [OF assms(2)] a(3,4) b(3,4) at unfolding keeps_others_def by (metis progress.distinct(3))
  ultimately have "us_regs (rx_view X b p) = prepare_fork (po_sys_clone ?os) ?r \<and> (\<exists>p'. rx_at X b p' = Gone)" ..
  note fork = forks [unfolded forks_target_def, THEN conjunct1, rule_format, OF conjI, OF b(3) this]
  then obtain o1 sig event o2 raw o3 sig' o4 o5 o6 o7 where c: "po_step ?os p b = (Ok (), o1)"
    "po_waitpid ?os no_flags p o1 = (Ok (PtraceEvent p sig event), o2)" "is_fork_event event" "po_getevent ?os p o2 = (Ok raw, o3)"
    "po_waitpid ?os no_flags (ucast raw) o3 = (Ok (Stopped (ucast raw) sig'), o4)"
    "po_setoptions ?os (ucast raw) (PTRACE_O_TRACESYSGOOD OR PTRACE_O_EXITKILL OR PTRACE_O_TRACEFORK OR PTRACE_O_TRACEVFORK
            OR PTRACE_O_TRACECLONE) o4 = (Ok (), o5)" "po_syscall ?os p None o5 = (Ok (), o6)"
    "po_waitpid ?os no_flags p o6 = (Ok (PtraceSyscall p), o7)"
    and d: "rx_at X b (ucast raw) = Gone" "rx_at X o7 p = Outside i" "us_mem (rx_view X o7 p) = us_mem (rx_view X b p)"
    "rx_at X o7 (ucast raw) = Outside i" "us_mem (rx_view X o7 (ucast raw)) = us_mem (rx_view X b p)"
    "\<forall>p'. p' \<noteq> p \<and> p' \<noteq> ucast raw \<longrightarrow> rx_view X o7 p' = rx_view X b p' \<and> rx_at X o7 p' = rx_at X b p'"
    by (elim exE conjE) (rule that)
  let ?c = "ucast raw :: pid"
  have cp: "?c \<noteq> p" using b(3) d(1) by auto
  obtain e where e: "po_setregs ?os p ?r o7 = (Ok (), e)" "rx_view X e p = (rx_view X o7 p)\<lparr>us_regs := ?r\<rparr>"
    "rx_at X e p = Outside i" "keeps_others X p o7 e" using setregs_ok [OF acc d(2)] by blast
  have "rx_at X e ?c = Outside i" using d(4) e(4) cp by (simp add: keeps_others_def)
  from setregs_ok [OF acc this] obtain f where f: "po_setregs ?os ?c ?r e = (Ok (), f)" "rx_view X f ?c = (rx_view X e ?c)\<lparr>us_regs := ?r\<rparr>"
    "rx_at X f ?c = Outside i" "keeps_others X ?c e f" by blast
  have "fork_snapshot ?os p s = (Ok ?c, s\<lparr>rs_os := f\<rparr>)"
    using a(1) b(1) c e(1) f(1)
    by (simp add: fork_snapshot_def save_full_def restore_full_def wait_for_fork_child_def setup_options_def st_defs ros_do_def)
  moreover have "rx_view X f p = rx_view X (rs_os s) p" "rx_view X f ?c = rx_view X (rs_os s) p"
    using b(2) d e f cp by (simp_all add: keeps_others_def)
  moreover have "rx_at X (rs_os s) ?c = Gone" "rx_at X f p = Outside i"
    using a(4) b(4) d(1) e f cp by (auto simp: keeps_others_def)
  moreover have "rx_view X f p' = rx_view X (rs_os s) p' \<and> rx_at X f p' = rx_at X (rs_os s) p'" if "p' \<noteq> p" "p' \<noteq> ?c" for p'
    using that a(4) b(4) d(6) e(4) f(4) by (simp add: keeps_others_def)
  ultimately show ?thesis using f(3) by blast
qed

lemma seq_less:
  assumes "replayable X" and "q \<le> 2 * length (rx_calls X)" and "j < q"
  shows "(of_nat j :: u64) < of_nat q"
proof -
  have "q < 2 ^ 64" using assms(1,2) by (simp add: replayable_def)
  with assms(3) show ?thesis by (simp add: word_less_nat_alt unsigned_of_nat take_bit_nat_eq_self)
qed

lemma sorted_le_last:
  assumes "sorted_wrt (<) (map f xs)" and "x \<in> set xs"
  shows "(f x :: 'b::linorder) \<le> f (last xs)"
  using assms by (induction xs) (auto simp: order.strict_implies_order)

lemma checkpoint_ok:
  assumes X: "replayable X" and at: "at_outside X es i s" and i: "0 < i" "i \<le> length (rx_calls X)"
  shows "\<exists>s'. maybe_checkpoint (rx_os X) s = (Ok (), s') \<and> at_outside X es i s'"
proof -
  let ?p = "rs_pid s" and ?q = "of_nat (2 * i - 1) :: u64"
  have s: "\<not> rs_multithreaded s" "rs_pending s = None" "rs_current_seq s = Some ?q" "rs_cursor s = 2 * i"
    "rx_at X (rs_os s) ?p = Outside i" "visible (rx_view X (rs_os s) ?p) = visible (state_before X i)" and tr: "tracking X es s"
    using at i by (simp_all add: at_outside_def tracking_def)
  let ?prev = "if rs_checkpoints s = [] then None else Some (cp_seq (last (rs_checkpoints s)))"
  show ?thesis
  proof (cases "is_checkpoint_due ?prev ?q (rs_checkpoint_interval s)")
    case False
    then show ?thesis using s(1-3) at by (auto simp: maybe_checkpoint_def Let_def)
  next
    case True
    obtain child o1 where f: "fork_snapshot (rx_os X) ?p s = (Ok child, s\<lparr>rs_os := o1\<rparr>)"
      and fresh: "rx_at X (rs_os s) child = Gone" and o1: "rx_at X o1 ?p = Outside i" "rx_view X o1 ?p = rx_view X (rs_os s) ?p"
      "rx_at X o1 child = Outside i" "rx_view X o1 child = rx_view X (rs_os s) ?p"
      "\<forall>p'. p' \<noteq> ?p \<and> p' \<noteq> child \<longrightarrow> rx_view X o1 p' = rx_view X (rs_os s) p' \<and> rx_at X o1 p' = rx_at X (rs_os s) p'"
      using fork_ok [OF X tr s(5)] by blast
    let ?cp = "\<lparr>cp_seq = ?q, cp_cursor = rs_cursor s, cp_current_seq = rs_current_seq s, cp_last_regs = rs_last_regs s, cp_snapshot = child\<rparr>"
    let ?t = "s\<lparr>rs_os := o1, rs_checkpoints := rs_checkpoints s @ [?cp]\<rparr>"
    have "maybe_checkpoint (rx_os X) s = (Ok (), ?t)"
      using s(1-3) f True by (simp add: maybe_checkpoint_def Let_def st_bind_def st_modify_def)
    moreover have old: "snapshot_ok X o1 ?p cp" if "snapshot_ok X (rs_os s) ?p cp" for cp
      using that o1(5) fresh by (auto simp: snapshot_ok_def)
    moreover have "snapshot_ok X o1 ?p ?cp"
      using fresh s o1 i by (auto simp: snapshot_ok_def intro!: exI [of _ i])
    moreover have "sorted_wrt (<) (map cp_seq (rs_checkpoints ?t))"
    proof (cases "rs_checkpoints s = []")
      case False
      then have "snapshot_ok X (rs_os s) ?p (last (rs_checkpoints s))" using tr by (simp add: tracking_def)
      then obtain j where j: "0 < j" "j \<le> length (rx_calls X)" "cp_seq (last (rs_checkpoints s)) = of_nat (2 * j - 1)"
        unfolding snapshot_ok_def by blast
      have "cp_seq (last (rs_checkpoints s)) < of_nat (2 * j)"
        unfolding j(3) by (rule seq_less [OF X]) (use j in simp_all)
      then have "cp_seq (last (rs_checkpoints s)) \<noteq> - 1" by (metis leD word_order.extremum)
      then have "cp_seq (last (rs_checkpoints s)) < ?q" using True False checkpoint_due_after by auto
      moreover have "cp_seq cp \<le> cp_seq (last (rs_checkpoints s))" if "cp \<in> set (rs_checkpoints s)" for cp
        using sorted_le_last [OF _ that] tr by (auto simp: tracking_def)
      ultimately show ?thesis using tr by (fastforce simp: tracking_def sorted_wrt_append)
    qed simp
    moreover have "strangers X o1 ?p (rs_checkpoints ?t) \<subseteq> strangers X (rs_os s) ?p (rs_checkpoints s)"
      using o1(5) by (auto simp: strangers_def)
    ultimately show ?thesis using at o1(1,2) roomy_mono by (auto simp: at_outside_def tracking_def)
  qed
qed

lemma turn_enters:
  assumes X: "replayable X" and rec: "recorded X es" and at: "at_outside X es i s" and i: "i \<le> length (rx_calls X)"
  shows "\<exists>s'. st_turn (rx_os X) s = (Ok None, s') \<and> at_inside X es i s'"
proof -
  let ?p = "rs_pid s"
  have acc: "access_target X" and run: "runs_target X" using X by (simp_all add: replayable_def)
  have tr: "tracking X es s" using at by (simp add: at_outside_def)
  from at run obtain o2 where o2: "resumes X ?p (rs_os s) (PtraceSyscall ?p) o2"
    "rx_view X o2 ?p = entry_of X i" "rx_at X o2 ?p = Inside i" "keeps_others X ?p (rs_os s) o2"
    unfolding runs_target_def at_outside_def entry_is_next [OF X i] by metis
  from read_regs_ok [OF acc, of "s\<lparr>rs_os := o2\<rparr>" ?p] o2 obtain o3 where
    r: "regs_read (rx_os X) ?p (s\<lparr>rs_os := o2\<rparr>) = (Ok (regs_at (entry_of X i)), s\<lparr>rs_os := o3\<rparr>)"
    and o3: "rx_view X o3 ?p = entry_of X i" "rx_at X o3 ?p = Inside i" "keeps_others X ?p o2 o3" by auto
  let ?s = "s\<lparr>rs_os := o3, rs_last_regs := Some (regs_at (entry_of X i)), rs_pending := None\<rparr>"
  have "tracking X es ?s" by (rule tracking_step [OF tr]) (use keeps_others_trans [OF o2(4) o3(3)] in simp_all)
  then obtain s' where e: "on_entry (rx_os X) (regs_at (entry_of X i)) ?s = (Ok (), s')" and s': "at_inside X es i s'"
    using entry_record_ok [OF acc rec _ i, of ?s] at o3 by (auto simp: at_outside_def)
  have "maybe_checkpoint (rx_os X) s' = (Ok (), s')" using s' by (simp add: maybe_checkpoint_def at_inside_def)
  then have "st_dispatch (rx_os X) ?p (PtraceSyscall ?p) (s\<lparr>rs_os := o2\<rparr>) = (Ok None, s')"
    using r e at by (simp add: st_dispatch_def on_syscall_stop_def st_bind_def st_get_def st_modify_def st_return_def at_outside_def)
  moreover have "st_turn (rx_os X) s = st_dispatch (rx_os X) ?p (PtraceSyscall ?p) (s\<lparr>rs_os := o2\<rparr>)"
    by (rule turn_resumes [OF _ o2(1)]) (use tr in \<open>simp add: tracking_def\<close>)
  ultimately show ?thesis using s' by auto
qed

lemma call_returns:
  assumes X: "replayable X" and at: "at_inside X es i s" and i: "i < length (rx_calls X)"
  shows "\<exists>o2. resumes X (rs_pid s) (rs_os s) (PtraceSyscall (rs_pid s)) o2 \<and> rx_at X o2 (rs_pid s) = Outside (Suc i)
    \<and> returned X i (rx_view X o2 (rs_pid s)) \<and> keeps_others X (rs_pid s) (rs_os s) o2"
proof -
  let ?p = "rs_pid s"
  have run: "runs_target X" using X by (simp add: replayable_def)
  have v: "rx_view X (rs_os s) ?p = entered X i" "rx_at X (rs_os s) ?p = Inside i" using at by (simp_all add: at_inside_def)
  show ?thesis
  proof (cases "injected (po_abi (rx_os X)) (entry_of X i)")
    case True
    then have "fr_orig_rax (us_regs (rx_view X (rs_os s) ?p)) = - 1" "visible (rx_view X (rs_os s) ?p) = visible (entry_of X i)"
      by (simp_all add: v entered_def) (simp add: cancelled_def)
    with run v i obtain o2 r where "resumes X ?p (rs_os s) (PtraceSyscall ?p) o2" "rx_at X o2 ?p = Outside (Suc i)"
      "keeps_others X ?p (rs_os s) o2" "rx_view X o2 ?p = (entered X i)\<lparr>us_regs := (rx_sysret X (us_regs (visible (entry_of X i))))\<lparr>fr_rax := r, fr_orig_rax := - 1\<rparr>\<rparr>"
      unfolding runs_target_def by metis
    then show ?thesis using True by (auto simp: returned_def)
  next
    case False
    with v have "rx_view X (rs_os s) ?p = entry_of X i" by (simp add: entered_def)
    with run v i False obtain o2 where "resumes X ?p (rs_os s) (PtraceSyscall ?p) o2" "rx_at X o2 ?p = Outside (Suc i)"
      "visible (rx_view X o2 ?p) = visible (state_before X (Suc i))" "keeps_others X ?p (rs_os s) o2"
      unfolding runs_target_def by metis
    then show ?thesis using False by (auto simp: returned_def)
  qed
qed

lemma turn_leaves:
  assumes X: "replayable X" and rec: "recorded X es" and at: "at_inside X es i s" and i: "i < length (rx_calls X)"
  shows "\<exists>s'. st_turn (rx_os X) s = (Ok None, s') \<and> at_outside X es (Suc i) s'"
proof -
  let ?p = "rs_pid s"
  have acc: "access_target X" using X by (simp add: replayable_def)
  have tr: "tracking X es s" using at by (simp add: at_inside_def)
  obtain o2 where o2: "resumes X ?p (rs_os s) (PtraceSyscall ?p) o2" "rx_at X o2 ?p = Outside (Suc i)" "returned X i (rx_view X o2 ?p)"
    "keeps_others X ?p (rs_os s) o2" using call_returns [OF X at i] by blast
  from read_regs_ok [OF acc, of "s\<lparr>rs_os := o2\<rparr>" ?p] o2 obtain o3 regs where
    r: "regs_read (rx_os X) ?p (s\<lparr>rs_os := o2\<rparr>) = (Ok regs, s\<lparr>rs_os := o3\<rparr>)"
    and o3: "rx_view X o3 ?p = rx_view X o2 ?p" "rx_at X o3 ?p = Outside (Suc i)" "keeps_others X ?p o2 o3" by auto
  let ?s = "s\<lparr>rs_os := o3, rs_last_regs := Some regs, rs_pending := None\<rparr>"
  have "tracking X es ?s" by (rule tracking_step [OF tr]) (use keeps_others_trans [OF o2(4) o3(3)] in simp_all)
  then obtain t where e: "session_on_exit (rx_os X) \<lparr>pe_inject_addr = inject_at X i\<rparr> ?s = (Ok (), t)" and t: "at_outside X es (Suc i) t"
    using exit_record_ok [OF X rec _ i, of ?s] at o3 o2(3) by (auto simp: at_inside_def)
  obtain s' where "maybe_checkpoint (rx_os X) t = (Ok (), s')" and s': "at_outside X es (Suc i) s'"
    using checkpoint_ok [OF X t] i by auto
  then have "st_dispatch (rx_os X) ?p (PtraceSyscall ?p) (s\<lparr>rs_os := o2\<rparr>) = (Ok None, s')"
    using r e at by (simp add: st_dispatch_def on_syscall_stop_def st_bind_def st_get_def st_modify_def st_return_def at_inside_def)
  moreover have "st_turn (rx_os X) s = st_dispatch (rx_os X) ?p (PtraceSyscall ?p) (s\<lparr>rs_os := o2\<rparr>)"
    by (rule turn_resumes [OF _ o2(1)]) (use tr in \<open>simp add: tracking_def\<close>)
  ultimately show ?thesis using s' by auto
qed

text \<open>The session after the target has ended.\<close>

definition at_end :: "'os rerun \<Rightarrow> event list \<Rightarrow> 'os session \<Rightarrow> bool" where
  "at_end X es s \<longleftrightarrow> tracking X es s \<and> rs_finished s = Some (OutExited (rx_code X)) \<and> rs_cursor s = length es
     \<and> rs_current_seq s = Some (of_nat (2 * length (rx_calls X))) \<and> rx_at X (rs_os s) (rs_pid s) = Gone"

lemma turn_ends:
  assumes X: "replayable X" and rec: "recorded X es" and at: "at_inside X es (length (rx_calls X)) s"
  shows "\<exists>s'. st_turn (rx_os X) s = (Ok (Some (OutExited (rx_code X))), s') \<and> at_end X es s'"
proof -
  have "rx_view X (rs_os s) (rs_pid s) = rx_final X"
    using at X by (simp add: at_inside_def entered_def entry_of_def replayable_def last_ok_def)
  with X at obtain o2 where o2: "resumes X (rs_pid s) (rs_os s) (Exited (rs_pid s) (rx_code X)) o2"
    and k: "keeps_others X (rs_pid s) (rs_os s) o2" "rx_at X o2 (rs_pid s) = Gone"
    unfolding replayable_def runs_target_def at_inside_def by metis
  have "st_turn (rx_os X) s = st_dispatch (rx_os X) (rs_pid s) (Exited (rs_pid s) (rx_code X)) (s\<lparr>rs_os := o2\<rparr>)"
    by (rule turn_resumes [OF _ o2]) (use at in \<open>simp add: at_inside_def tracking_def\<close>)
  then show ?thesis using at length_recorded [OF rec] k
    by (auto simp: st_dispatch_def session_finish_def st_defs at_inside_def at_end_def elim!: tracking_step)
qed

subsection \<open>Driving to a record\<close>

definition at_record :: "'os rerun \<Rightarrow> event list \<Rightarrow> nat \<Rightarrow> 'os session \<Rightarrow> bool" where
  "at_record X es k s \<longleftrightarrow> (if even k then at_outside X es (k div 2) s else at_inside X es (k div 2) s)"

lemma at_record_facts:
  assumes "at_record X es k s"
  shows "tracking X es s" "rs_finished s = None" "rs_cursor s = k" "rs_current_seq s = (if k = 0 then None else Some (of_nat (k - 1)))"
  using assms by (cases "even k"; auto simp: at_record_def at_outside_def at_inside_def elim!: evenE oddE)+

lemma turn_advances:
  assumes "replayable X" and "recorded X es" and "at_record X es k s" and "k \<le> 2 * length (rx_calls X)"
  shows "\<exists>s'. st_turn (rx_os X) s = (Ok None, s') \<and> at_record X es (Suc k) s'"
proof (cases "even k")
  case True
  with assms turn_enters [OF assms(1,2), of "k div 2"] show ?thesis by (auto simp: at_record_def)
next
  case False
  then have "k div 2 < length (rx_calls X)" using assms(4) by (auto elim!: oddE)
  with False assms turn_leaves [OF assms(1,2), of "k div 2"] show ?thesis by (auto simp: at_record_def elim!: oddE)
qed

lemma loop_lands:
  assumes X: "replayable X" and rec: "recorded X es" and q: "q \<le> 2 * length (rx_calls X)"
  shows "at_record X es k s \<Longrightarrow> k \<le> Suc q \<Longrightarrow> Suc q - k < fuel \<Longrightarrow>
    \<exists>s'. st_loop (rx_os X) fuel (Some (of_nat q)) s = Some (Ok Running, s') \<and> at_record X es (Suc q) s'"
proof (induction "Suc q - k" arbitrary: k s fuel)
  case 0
  then have "k = Suc q" by simp
  with 0 at_record_facts(4) [of X es k s] show ?case by (cases fuel) (auto simp: reached_def)
next
  case (Suc d)
  then have k: "k \<le> q" by simp
  then obtain s' where t: "st_turn (rx_os X) s = (Ok None, s')" "at_record X es (Suc k) s'"
    using turn_advances [OF X rec Suc.prems(1)] q by auto
  have "\<not> reached (Some (of_nat q)) s"
    using at_record_facts(4) [OF Suc.prems(1)] seq_less [OF X q, of "k - 1"] k by (auto simp: reached_def not_le)
  moreover from Suc.prems obtain n where n: "fuel = Suc n" by (cases fuel) auto
  moreover have "\<exists>s''. st_loop (rx_os X) n (Some (of_nat q)) s' = Some (Ok Running, s'') \<and> at_record X es (Suc q) s''"
    using Suc.hyps(1) [of "Suc k" s' n] Suc.hyps(2) Suc.prems t(2) k n by simp
  ultimately show ?case using t(1) by simp
qed

lemma loop_ends:
  assumes X: "replayable X" and rec: "recorded X es"
  shows "at_record X es k s \<Longrightarrow> k \<le> Suc (2 * length (rx_calls X)) \<Longrightarrow> Suc (2 * length (rx_calls X)) - k < fuel \<Longrightarrow>
    \<exists>s'. st_loop (rx_os X) fuel None s = Some (Ok (OutExited (rx_code X)), s') \<and> at_end X es s'"
proof (induction "Suc (2 * length (rx_calls X)) - k" arbitrary: k s fuel)
  case 0
  then have "k = Suc (2 * length (rx_calls X))" by simp
  with 0 have "at_inside X es (length (rx_calls X)) s" by (simp add: at_record_def)
  with turn_ends [OF X rec] 0 show ?case by (cases fuel) (fastforce simp: reached_def)+
next
  case (Suc d)
  then have k: "k \<le> 2 * length (rx_calls X)" by simp
  then obtain s' where t: "st_turn (rx_os X) s = (Ok None, s')" "at_record X es (Suc k) s'"
    using turn_advances [OF X rec Suc.prems(1)] by auto
  moreover from Suc.prems obtain n where n: "fuel = Suc n" by (cases fuel) auto
  moreover have "\<exists>s''. st_loop (rx_os X) n None s' = Some (Ok (OutExited (rx_code X)), s'') \<and> at_end X es s''"
    using Suc.hyps(1) [of "Suc k" s' n] Suc.hyps(2) Suc.prems t(2) k n by simp
  ultimately show ?case by (simp add: reached_def)
qed

definition on_track :: "'os rerun \<Rightarrow> event list \<Rightarrow> 'os session \<Rightarrow> bool" where
  "on_track X es s \<longleftrightarrow> (\<exists>k \<le> Suc (2 * length (rx_calls X)). at_record X es k s) \<or> at_end X es s"

text \<open>A session has a live process of its own until the target has ended.\<close>

definition has_process :: "'os rerun \<Rightarrow> 'os session \<Rightarrow> bool" where
  "has_process X s \<longleftrightarrow> (rs_finished s = None \<longleftrightarrow> rx_at X (rs_os s) (rs_pid s) \<noteq> Gone)"

lemma kill_ok:
  assumes "replayable X" and "rs_finished s = None \<Longrightarrow> rx_at X (rs_os s) (rs_pid s) \<noteq> Gone"
  shows "\<exists>o1. kill_active (rx_os X) s = (Ok (), s\<lparr>rs_os := o1\<rparr>) \<and> keeps_others X (rs_pid s) (rs_os s) o1
    \<and> (if rs_finished s = None then rx_at X o1 (rs_pid s) = Gone else o1 = rs_os s)"
proof (cases "rs_finished s = None")
  case True
  let ?o1 = "snd (po_waitpid (rx_os X) no_flags (rs_pid s) (snd (po_kill (rx_os X) (rs_pid s) (rs_os s))))"
  have "kill_active (rx_os X) s = (Ok (), s\<lparr>rs_os := ?o1\<rparr>)"
    using True by (simp add: kill_active_def ros_ignore_def st_bind_def)
  moreover have "keeps_others X (rs_pid s) (rs_os s) ?o1" "rx_at X ?o1 (rs_pid s) = Gone"
    using assms True unfolding replayable_def forks_target_def by metis+
  ultimately show ?thesis using True by auto
next
  case False
  then show ?thesis by (intro exI [of _ "rs_os s"]) (auto simp: kill_active_def)
qed

lemma respawn_ok:
  assumes "replayable X" and "tracking X es s" and "has_process X s"
  shows "\<exists>s'. respawn (rx_os X) s = (Ok (), s') \<and> at_record X es 0 s'"
proof -
  obtain o1 where k: "kill_active (rx_os X) s = (Ok (), s\<lparr>rs_os := o1\<rparr>)" and o1: "keeps_others X (rs_pid s) (rs_os s) o1" "rx_at X o1 (rs_pid s) = Gone"
    using kill_ok [OF assms(1), of s] assms(3) by (auto simp: has_process_def split: if_splits)
  then have "\<exists>p. rx_at X o1 p = Gone" by blast
  with assms(1) obtain p o2 st o3 o4 where sp: "po_spawn (rx_os X) (rs_cmdline s) o1 = (Ok p, o2)" "po_waitpid (rx_os X) no_flags p o2 = (Ok st, o3)"
    "po_setoptions (rx_os X) p (PTRACE_O_TRACESYSGOOD OR PTRACE_O_EXITKILL OR PTRACE_O_TRACEFORK OR PTRACE_O_TRACEVFORK
            OR PTRACE_O_TRACECLONE) o3 = (Ok (), o4)"
    and p: "rx_at X o1 p = Gone" "rx_view X o4 p = rx_init X" "rx_at X o4 p = Outside 0" "keeps_others X p o1 o4"
    unfolding replayable_def runs_target_def by metis
  have "\<forall>cp \<in> set (rs_checkpoints s). snapshot_ok X o4 p cp"
    using assms(2) o1(1) p(1,4) unfolding tracking_def snapshot_ok_def keeps_others_def by (metis progress.distinct(3))
  moreover have "strangers X o4 p (rs_checkpoints s) \<subseteq> strangers X (rs_os s) (rs_pid s) (rs_checkpoints s)"
    using o1 p(4) by (fastforce simp: strangers_def keeps_others_def)
  then have "roomy X (strangers X o4 p (rs_checkpoints s))" using assms(2) roomy_mono by (auto simp: tracking_def)
  ultimately show ?thesis using assms(2) sp p
    by (simp add: respawn_def st_bind_def k session_spawn_def ros_do_def setup_options_def st_modify_def rearm_watchpoint_def
        tracking_def at_record_def at_outside_def state_before_def)
qed

lemma restore_ok:
  assumes X: "replayable X" and tr: "tracking X es s" and has: "has_process X s" and j: "j < length (rs_checkpoints s)"
  shows "\<exists>s' i. restore_to_checkpoint (rx_os X) j s = (Ok (), s') \<and> at_record X es (2 * i) s' \<and> 0 < i \<and> i \<le> length (rx_calls X)
    \<and> cp_seq (rs_checkpoints s ! j) = of_nat (2 * i - 1)"
proof -
  let ?cp = "rs_checkpoints s ! j" let ?n = "cp_snapshot ?cp"
  have "snapshot_ok X (rs_os s) (rs_pid s) ?cp" using tr j by (simp add: tracking_def)
  then obtain i where i: "0 < i" "i \<le> length (rx_calls X)" and c: "cp_cursor ?cp = 2 * i" "cp_seq ?cp = of_nat (2 * i - 1)"
    "cp_current_seq ?cp = Some (of_nat (2 * i - 1))" and v: "rx_at X (rs_os s) ?n = Outside i" "visible (rx_view X (rs_os s) ?n) = visible (state_before X i)"
    and n: "?n \<noteq> rs_pid s" unfolding snapshot_ok_def by blast
  obtain child o1 where f: "fork_snapshot (rx_os X) ?n s = (Ok child, s\<lparr>rs_os := o1\<rparr>)"
    and fresh: "rx_at X (rs_os s) child = Gone" and o1: "rx_at X o1 ?n = Outside i" "rx_view X o1 ?n = rx_view X (rs_os s) ?n"
    "rx_at X o1 child = Outside i" "rx_view X o1 child = rx_view X (rs_os s) ?n"
    "\<forall>p'. p' \<noteq> ?n \<and> p' \<noteq> child \<longrightarrow> rx_view X o1 p' = rx_view X (rs_os s) p' \<and> rx_at X o1 p' = rx_at X (rs_os s) p'"
    using fork_ok [OF X tr v(1)] by blast
  have live: "rx_at X o1 (rs_pid s) \<noteq> Gone" if "rs_finished s = None"
    using that has n fresh o1(5) unfolding has_process_def by metis
  obtain o2 where k: "kill_active (rx_os X) (s\<lparr>rs_os := o1\<rparr>) = (Ok (), s\<lparr>rs_os := o2\<rparr>)" and o2: "keeps_others X (rs_pid s) o1 o2"
    "if rs_finished s = None then rx_at X o2 (rs_pid s) = Gone else o2 = o1"
    using kill_ok [OF X, of "s\<lparr>rs_os := o1\<rparr>"] live by (cases "rs_finished s = None") auto
  have child: "rx_at X o2 child = Outside i" "rx_view X o2 child = rx_view X (rs_os s) ?n"
    using o1(3,4) o2 fresh has unfolding has_process_def keeps_others_def by (metis)+
  have "snapshot_ok X o2 child cp" if "cp \<in> set (rs_checkpoints s)" for cp
  proof -
    have ok: "snapshot_ok X (rs_os s) (rs_pid s) cp" using tr that by (simp add: tracking_def)
    then have "cp_snapshot cp \<noteq> child" using fresh by (auto simp: snapshot_ok_def)
    moreover have "rx_at X o2 (cp_snapshot cp) = rx_at X (rs_os s) (cp_snapshot cp)" "rx_view X o2 (cp_snapshot cp) = rx_view X (rs_os s) (cp_snapshot cp)"
      using ok o1 o2(1) v(1) calculation unfolding snapshot_ok_def keeps_others_def by metis+
    ultimately show ?thesis using ok by (simp add: snapshot_ok_def)
  qed
  moreover have "strangers X o2 child (rs_checkpoints s) \<subseteq> strangers X (rs_os s) (rs_pid s) (rs_checkpoints s)"
    using o1(5) o2 has j unfolding strangers_def keeps_others_def has_process_def
    by (auto split: if_splits) (metis image_eqI nth_mem)+
  then have "roomy X (strangers X o2 child (rs_checkpoints s))" using tr roomy_mono by (auto simp: tracking_def)
  ultimately have "\<exists>s'. restore_to_checkpoint (rx_os X) j s = (Ok (), s') \<and> at_record X es (2 * i) s'"
    using f k c i child v tr
    by (simp add: restore_to_checkpoint_def st_bind_def st_get_def st_modify_def rearm_watchpoint_def at_record_def at_outside_def tracking_def)
  then show ?thesis using i c(2) by blast
qed

lemma restart_ok:
  assumes X: "replayable X" and tr: "tracking X es s" and has: "has_process X s" and q: "q \<le> 2 * length (rx_calls X)"
  shows "\<exists>s' k. restart_at (rx_os X) (fst (plan_start (of_nat q) s)) s = (Ok (), s') \<and> at_record X es k s' \<and> k \<le> Suc q"
proof (cases "nearest_at_or_before (map cp_seq (rs_checkpoints s)) (of_nat q)")
  case None
  with respawn_ok [OF X tr has] show ?thesis by (auto simp: plan_start_def restart_at_def)
next
  case (Some j)
  from Some have j: "j < length (rs_checkpoints s)" "cp_seq (rs_checkpoints s ! j) \<le> of_nat q"
    by (auto simp: nearest_Some_iff)
  obtain s' i where s': "restore_to_checkpoint (rx_os X) j s = (Ok (), s')" "at_record X es (2 * i) s'"
    and i: "0 < i" "i \<le> length (rx_calls X)" "cp_seq (rs_checkpoints s ! j) = of_nat (2 * i - 1)"
    using restore_ok [OF X tr has j(1)] by blast
  have "2 * i - 1 \<le> q"
  proof (rule ccontr)
    assume "\<not> 2 * i - 1 \<le> q"
    then have "(of_nat q :: u64) < of_nat (2 * i - 1)" using seq_less [OF X, of "2 * i - 1" q] i(2) by simp
    with j(2) i(3) show False by simp
  qed
  then show ?thesis using s' Some by (intro exI [of _ s'] exI [of _ "2 * i"]) (simp add: plan_start_def restart_at_def)
qed

lemma drive_lands:
  assumes "replayable X" and "recorded X es" and "q \<le> 2 * length (rx_calls X)" and "at_record X es k s" and "k \<le> Suc q"
    and "2 * length (rx_calls X) + 2 \<le> fuel"
  shows "\<exists>s'. drive (rx_os X) fuel (Some (of_nat q)) s = Some (Ok Running, s') \<and> at_record X es (Suc q) s'"
  using loop_lands [OF assms(1-5), of fuel] at_record_facts [OF assms(4)] assms(3,6) by (simp add: drive_def tracking_def)

lemma on_track_facts:
  assumes "on_track X es s"
  shows "tracking X es s" and "has_process X s"
  using assms by (auto simp: on_track_def at_end_def has_process_def at_record_def at_outside_def at_inside_def split: if_splits)

lemma run_to_on_track:
  assumes X: "replayable X" and rec: "recorded X es" and q: "q \<le> 2 * length (rx_calls X)" and on: "on_track X es s"
    and fuel: "2 * length (rx_calls X) + 2 \<le> fuel"
  shows "\<exists>r s'. run_to (rx_os X) fuel (of_nat q) s = Some (Ok r, s') \<and> on_track X es s'
    \<and> (q < 2 * length (rx_calls X) \<longrightarrow> r = Running \<and> at_record X es (Suc q) s')"
proof -
  let ?plan = "plan_start (of_nat q) s"
  have land: "\<exists>s''. drive (rx_os X) fuel (Some (of_nat q)) s' = Some (Ok Running, s'') \<and> on_track X es s'' \<and> at_record X es (Suc q) s''"
    if "at_record X es k s'" "k \<le> Suc q" for k s'
    using drive_lands [OF X rec q that fuel] q by (auto simp: on_track_def intro!: exI [of _ "Suc q"])
  show ?thesis
  proof (cases "should_restart (rs_current_seq s) (snd ?plan) (of_nat q)")
    case True
    obtain s' k where "restart_at (rx_os X) (fst ?plan) s = (Ok (), s')" "at_record X es k s'" "k \<le> Suc q"
      using restart_ok [OF X on_track_facts [OF on] q] by blast
    with land [of k s'] True show ?thesis by (auto simp: run_to_def opt_bind_def opt_lift_def case_prod_beta)
  next
    case False
    from on consider k where "k \<le> Suc (2 * length (rx_calls X))" "at_record X es k s" | "at_end X es s" by (auto simp: on_track_def)
    then show ?thesis
    proof cases
      case 1
      have "k \<le> Suc q"
      proof (rule ccontr)
        assume "\<not> k \<le> Suc q"
        then have "(of_nat q :: u64) < of_nat (k - 1)" "rs_current_seq s = Some (of_nat (k - 1))"
          using seq_less [OF X, of "k - 1" q] 1(1) at_record_facts(4) [OF 1(2)] by (simp_all del: of_nat_diff)
        with False show False by (simp add: should_restart_def del: of_nat_diff)
      qed
      with land [OF 1(2)] False show ?thesis by (auto simp: run_to_def opt_bind_def opt_lift_def case_prod_beta)
    next
      case 2
      then have "\<not> q < 2 * length (rx_calls X)"
        using False seq_less [OF X order.refl, of q] by (auto simp: should_restart_def at_end_def)
      with 2 False show ?thesis by (auto simp: run_to_def opt_bind_def opt_lift_def case_prod_beta drive_def at_end_def on_track_def)
    qed
  qed
qed

subsection \<open>Debugging a recorded target\<close>

text \<open>
  The sessions a client can get to from a fresh one by asking for checkpoints at any interval and running
  to records, in any order and direction, and to the end of the target.
\<close>

inductive debugged :: "'os rerun \<Rightarrow> event list \<Rightarrow> nat \<Rightarrow> 'os session \<Rightarrow> bool" for X es fuel where
  fresh: "s = session_new p cmd (records_from 0 es) o0 \<Longrightarrow> rx_at X o0 p = Outside 0 \<Longrightarrow> rx_view X o0 p = rx_init X \<Longrightarrow>
    roomy X {q. q \<noteq> p \<and> rx_at X o0 q \<noteq> Gone} \<Longrightarrow> debugged X es fuel s"
| checkpointed: "debugged X es fuel s \<Longrightarrow> debugged X es fuel (set_checkpoint_interval n s)"
| moved_to: "debugged X es fuel s \<Longrightarrow> q < length es \<Longrightarrow> run_to (rx_os X) fuel (of_nat q) s = Some (r, s') \<Longrightarrow> debugged X es fuel s'"
| ended: "debugged X es fuel s \<Longrightarrow> run_to_end (rx_os X) fuel s = Some (r, s') \<Longrightarrow> debugged X es fuel s'"

lemma not_multithreaded:
  assumes "replayable X" and "recorded X es"
  shows "\<not> trace_is_multithreaded (records_from 0 es)"
proof -
  have "ev_kind (es ! k) \<in> {SyscallEnter, SyscallExit}" if "k < length es" for k
  proof (cases "even k")
    case True
    then show ?thesis using recorded_enter(1) [OF assms(2), of "k div 2"] length_recorded [OF assms(2)] that by (auto elim!: evenE)
  next
    case False
    then obtain i where k: "k = Suc (2 * i)" by (metis oddE add.commute plus_1_eq_Suc)
    then have i: "i < length (rx_calls X)" using that length_recorded [OF assms(2)] by simp
    with assms(1) have "call_ok (po_abi (rx_os X)) (rx_sysret X) (rx_calls X ! i)" by (simp add: replayable_def)
    then have "ret_small (fr_rax (us_regs (snd (rx_calls X ! i))))" by (auto simp: call_ok_def split: prod.splits)
    from recorded_exit(1) [OF assms(2) i this] show ?thesis by (simp add: k)
  qed
  then have "\<forall>k < length es. \<not> is_lifecycle_kind (ev_kind (es ! k))" by (fastforce simp: is_lifecycle_kind_def)
  then show ?thesis by (auto simp: trace_is_multithreaded_def list_ex_length nth_records_from event_norm_def)
qed

lemma run_to_end_on_track:
  assumes "replayable X" and "recorded X es" and "on_track X es s" and "2 * length (rx_calls X) + 2 \<le> fuel"
  shows "\<exists>s'. run_to_end (rx_os X) fuel s = Some (Ok (OutExited (rx_code X)), s') \<and> at_end X es s'"
  using assms(3) unfolding on_track_def
proof (elim disjE exE conjE)
  fix k assume k: "k \<le> Suc (2 * length (rx_calls X))" "at_record X es k s"
  with loop_ends [OF assms(1,2) k(2,1), of fuel] at_record_facts [OF k(2)] assms(4) show ?thesis
    by (simp add: run_to_end_def drive_def tracking_def)
qed (simp add: run_to_end_def drive_def at_end_def)

lemma interval_irrelevant:
  "at_outside X es i (set_checkpoint_interval n s) = at_outside X es i s" "at_inside X es i (set_checkpoint_interval n s) = at_inside X es i s"
  "at_end X es (set_checkpoint_interval n s) = at_end X es s"
  by (simp_all add: at_outside_def at_inside_def at_end_def tracking_def set_checkpoint_interval_def)

lemma debugged_on_track:
  assumes "replayable X" and "recorded X es" and "2 * length (rx_calls X) + 2 \<le> fuel" and "debugged X es fuel s"
  shows "on_track X es s"
  using assms(4)
proof induction
  case (fresh s p cmd o0)
  then have "at_record X es 0 s"
    using roomy_mono [of X "{q. q \<noteq> p \<and> rx_at X o0 q \<noteq> Gone}" "{q. rx_at X o0 q \<noteq> Gone} - {p}"]
    by (auto simp add: at_record_def at_outside_def tracking_def session_new_def state_before_def strangers_def not_multithreaded [OF assms(1,2)])
  then show ?case by (auto simp: on_track_def)
next
  case (checkpointed s n)
  show ?case using checkpointed.IH unfolding on_track_def at_record_def interval_irrelevant .
next
  case (moved_to s q r s')
  then have "q \<le> 2 * length (rx_calls X)" using length_recorded [OF assms(2)] by simp
  from run_to_on_track [OF assms(1,2) this moved_to.IH assms(3)] moved_to(3) show ?case by auto
next
  case (ended s r s')
  with run_to_end_on_track [OF assms(1,2) ended.IH assms(3)] show ?case by (auto simp: on_track_def)
qed

lemma run_to_exit:
  assumes "replayable X" and "recorded X es" and "2 * length (rx_calls X) + 2 \<le> fuel"
    and "debugged X es fuel s" and "i < length (rx_calls X)"
  shows "\<exists>s'. run_to (rx_os X) fuel (of_nat (2 * i + 1)) s = Some (Ok Running, s')
    \<and> rs_current_seq s' = Some (of_nat (2 * i + 1))
    \<and> visible (rx_view X (rs_os s') (rs_pid s')) = visible (snd (rx_calls X ! i))"
proof -
  have q: "2 * i + 1 < 2 * length (rx_calls X)" using assms(5) by simp
  from run_to_on_track [OF assms(1,2) less_imp_le [OF q] debugged_on_track [OF assms(1-4)] assms(3)] q
  obtain s' where "run_to (rx_os X) fuel (of_nat (2 * i + 1)) s = Some (Ok Running, s')" "at_record X es (Suc (2 * i + 1)) s'" by blast
  then show ?thesis by (auto simp: at_record_def at_outside_def state_before_def)
qed

text \<open>
  C4. Time travel shows the recorded target: in a session over the records of an execution, after any
  number of moves forward and back, running to the exit of the \<open>i\<close>-th system call always comes back,
  stopped exactly there, and the target then has the memory and the registers that it had at that point of
  the recorded execution.
\<close>

theorem time_travel_faithful:
  assumes "replayable X" and "recorded X es" and "2 * length (rx_calls X) + 2 \<le> fuel"
    and "debugged X es fuel s" and "i < length (rx_calls X)"
  shows "\<exists>s'. run_to (rx_os X) fuel (of_nat (2 * i + 1)) s = Some (Ok Running, s')
    \<and> rs_current_seq s' = Some (of_nat (2 * i + 1))
    \<and> visible (rx_view X (rs_os s') (rs_pid s')) = visible (snd (rx_calls X ! i))"
  by (rule run_to_exit [OF assms])

text \<open>
  C5. Replay never diverges from its own recording: from every session a client can get to, running to the
  end comes back with the exit code of the recorded execution, every record consumed.
\<close>

theorem replay_completes:
  assumes "replayable X" and "recorded X es" and "2 * length (rx_calls X) + 2 \<le> fuel" and "debugged X es fuel s"
  shows "\<exists>s'. run_to_end (rx_os X) fuel s = Some (Ok (OutExited (rx_code X)), s') \<and> rs_cursor s' = length (rs_records s')"
  using run_to_end_on_track [OF assms(1,2) debugged_on_track [OF assms(1-4)] assms(3)]
  by (auto simp: at_end_def tracking_def)

end
