(* ===== verification/EndToEnd.thy ===== *)
theory EndToEnd
  imports Fidelity RecordCommand
begin

text \<open>
  From the recorded process to the replayed one. On a kernel that runs a single-threaded target, the
  recorder's scheduler appends exactly the events of the target's execution, so the file that
  \<open>record_command\<close> leaves is read by \<open>launch\<close> into a session over that execution, to which the theorems of
  \<open>Fidelity\<close> apply. The target is assumed to make its calls within the scheduler's quantum and to receive
  no signals.
\<close>

subsection \<open>A kernel that runs the target under recording\<close>

record 'os taping =
  tp_os :: "'os tracer_os"
  tp_view :: "'os \<Rightarrow> user_state"
  tp_at :: "'os \<Rightarrow> progress"
  tp_pid :: pid

definition same_target :: "'os taping \<Rightarrow> 'os \<Rightarrow> 'os \<Rightarrow> bool" where
  "same_target T o0 o1 \<longleftrightarrow> tp_view T o1 = tp_view T o0 \<and> tp_at T o1 = tp_at T o0"

text \<open>What the calls of one turn of the scheduler do: resume the target, arm the timer, wait.\<close>

definition turn_calls :: "'os taping \<Rightarrow> 'os \<Rightarrow> wait_status \<Rightarrow> 'os \<Rightarrow> bool" where
  "turn_calls T o0 st o3 \<longleftrightarrow> (\<exists>o1 o2. os_syscall (tp_os T) (tp_pid T) None o0 = (Ok (), o1)
     \<and> os_timer_set (tp_os T) True o1 = (Ok (), o2) \<and> os_waitpid (tp_os T) None o2 = (Ok st, o3))"

definition tapes :: "'os taping \<Rightarrow> 'r rerun \<Rightarrow> bool" where
  "tapes T X \<longleftrightarrow>
     (\<forall>o0. \<exists>o1. os_pin (tp_os T) (tp_pid T) o0 = (Ok (), o1) \<and> same_target T o0 o1)
   \<and> (\<forall>o0. \<exists>o1. os_timer_install (tp_os T) o0 = (Ok (), o1) \<and> same_target T o0 o1)
   \<and> (\<forall>o0. \<exists>o1. os_timer_set (tp_os T) False o0 = (Ok (), o1) \<and> same_target T o0 o1)
   \<and> (\<forall>o0. tp_at T o0 \<noteq> Gone \<longrightarrow>
        (\<exists>o1. os_regs (tp_os T) (tp_pid T) o0 = (Ok (regs_at (tp_view T o0)), o1) \<and> same_target T o0 o1))
   \<and> (\<forall>o0 a n. os_vm_read (tp_os T) o0 (tp_pid T) a n = Ok (peek (us_mem (tp_view T o0)) a n))
   \<and> (\<forall>i o0. tp_at T o0 = Outside i \<longrightarrow> (\<exists>o3. turn_calls T o0 (PtraceSyscall (tp_pid T)) o3
        \<and> tp_view T o3 = rx_user X (visible (tp_view T o0)) \<and> tp_at T o3 = Inside i))
   \<and> (\<forall>i o0. tp_at T o0 = Inside i \<and> i < length (rx_calls X) \<and> tp_view T o0 = entry_of X i \<longrightarrow>
        (\<exists>o3. turn_calls T o0 (PtraceSyscall (tp_pid T)) o3 \<and> tp_view T o3 = state_before X (Suc i) \<and> tp_at T o3 = Outside (Suc i)))
   \<and> (\<forall>o0. tp_at T o0 = Inside (length (rx_calls X)) \<and> tp_view T o0 = rx_final X \<longrightarrow>
        (\<exists>o3. turn_calls T o0 (Exited (tp_pid T) (rx_code X)) o3 \<and> tp_at T o3 = Gone))"

subsection \<open>One turn of the scheduler\<close>

definition following :: "'os taping \<Rightarrow> syscall_regs option \<Rightarrow> 'os scheduler \<Rightarrow> bool" where
  "following T pending s \<longleftrightarrow> sch_threads s = [tp_pid T \<mapsto> \<lparr>th_pending_enter = pending, th_resume_signal = None\<rparr>]
     \<and> sch_ready s = [tp_pid T] \<and> sch_running s = None \<and> sch_last_scheduled s = Some (tp_pid T) \<and> sch_leader s = tp_pid T
     \<and> sch_threads_followed s = 1 \<and> sch_vfork_pending s = Map.empty \<and> sk_room (wr_inner (sch_writer s)) = None"

lemma append_ok:
  assumes "sk_room (wr_inner (sch_writer s)) = None"
  shows "\<exists>w n. sched_append crc e s = (Ok (), s\<lparr>sch_writer := w, sch_events_recorded := n\<rparr>) \<and> appended crc (sch_writer s) [e] w
    \<and> sk_room (wr_inner w) = None"
  using append_event_unbounded [OF assms, of crc e] assms
  by (auto simp: sched_append_def intro!: exI appended_one)

text \<open>A turn up to the stop of the target, after which only \<open>handle\<close> is left to do.\<close>

lemma turn_until_stop:
  assumes T: "tapes T X" and f: "following T pending s" and c: "turn_calls T (sch_os s) st o3"
  shows "\<exists>o4. same_target T o3 o4 \<and> run_body (tp_os T) crc s =
    st_bind (handle (tp_os T) crc st) (\<lambda>_. st_return True)
      (s\<lparr>sch_ready := [], sch_running := Some (tp_pid T), sch_os := o4\<rparr>)"
proof -
  from c obtain o1 o2 where c: "os_syscall (tp_os T) (tp_pid T) None (sch_os s) = (Ok (), o1)"
    "os_timer_set (tp_os T) True o1 = (Ok (), o2)" "os_waitpid (tp_os T) None o2 = (Ok st, o3)" by (auto simp: turn_calls_def)
  from T obtain o4 where d: "os_timer_set (tp_os T) False o3 = (Ok (), o4)" "same_target T o3 o4" unfolding tapes_def by metis
  have r: "resume_next (tp_os T) crc s = (Ok (), s\<lparr>sch_ready := [], sch_running := Some (tp_pid T), sch_os := o1\<rparr>)"
    using f c(1) by (cases s) (simp add: following_def resume_next_def record_sched_switch_def thread_update_def os_do_def st_defs)
  show ?thesis using f c d r
    by (intro exI [of _ o4]) (simp add: run_body_def timer_arm_def timer_disarm_def os_do_def st_bind_def [of "\<lambda>s. if _ s then _ s else _ s"]
        st_bind_def [of "\<lambda>s. (_, _)"] following_def st_bind_def)
qed

definition idle_at :: "'os taping \<Rightarrow> 'r rerun \<Rightarrow> nat \<Rightarrow> 'os scheduler \<Rightarrow> bool" where
  "idle_at T X i s \<longleftrightarrow> following T None s \<and> tp_at T (sch_os s) = Outside i \<and> tp_view T (sch_os s) = state_before X i"

definition busy_at :: "'os taping \<Rightarrow> 'r rerun \<Rightarrow> nat \<Rightarrow> 'os scheduler \<Rightarrow> bool" where
  "busy_at T X i s \<longleftrightarrow> following T (Some (regs_at (entry_of X i))) s \<and> tp_at T (sch_os s) = Inside i \<and> tp_view T (sch_os s) = entry_of X i"

lemma turn_records_entry:
  assumes T: "tapes T X" and X: "execution_of (rx_user X) (rx_init X) (rx_calls X) (rx_final X)" and i: "i \<le> length (rx_calls X)"
    and s: "idle_at T X i s"
  shows "\<exists>s' ts. run_body (tp_os T) crc s = (Ok True, s') \<and> busy_at T X i s'
    \<and> appended crc (sch_writer s) [enter_event ts (tp_pid T) (regs_at (entry_of X i))] (sch_writer s')"
proof -
  let ?p = "tp_pid T" and ?r = "regs_at (entry_of X i)"
  have entry: "entry_of X i = rx_user X (visible (state_before X i))"
    using execution_entry [OF X i] by (simp add: entry_of_def state_before_def)
  from T s obtain o3 where c: "turn_calls T (sch_os s) (PtraceSyscall ?p) o3" and o3: "tp_view T o3 = entry_of X i" "tp_at T o3 = Inside i"
    unfolding tapes_def idle_at_def entry by metis
  from s have f: "following T None s" by (simp add: idle_at_def)
  obtain o4 where o4: "same_target T o3 o4" and run: "run_body (tp_os T) crc s = st_bind (handle (tp_os T) crc (PtraceSyscall ?p)) (\<lambda>_. st_return True)
      (s\<lparr>sch_ready := [], sch_running := Some ?p, sch_os := o4\<rparr>)" using turn_until_stop [OF T f c] by blast
  from T o3 o4 obtain o5 where g: "os_regs (tp_os T) ?p o4 = (Ok ?r, o5)" "same_target T o4 o5"
    unfolding tapes_def same_target_def by (metis progress.distinct(5))
  let ?s = "s\<lparr>sch_ready := [], sch_running := None, sch_os := o5, sch_threads := [?p \<mapsto> \<lparr>th_pending_enter = None, th_resume_signal = None\<rparr>]\<rparr>"
  obtain w n where a: "sched_append crc (enter_event (os_now (tp_os T) o5) ?p ?r) ?s = (Ok (), ?s\<lparr>sch_writer := w, sch_events_recorded := n\<rparr>)"
    and w: "appended crc (sch_writer s) [enter_event (os_now (tp_os T) o5) ?p ?r] w" "sk_room (wr_inner w) = None"
    using append_ok [of ?s crc "enter_event (os_now (tp_os T) o5) ?p ?r"] f by (auto simp: following_def)
  let ?t = "?s\<lparr>sch_writer := w, sch_events_recorded := n, sch_threads := [?p \<mapsto> \<lparr>th_pending_enter = Some ?r, th_resume_signal = None\<rparr>], sch_ready := [?p]\<rparr>"
  have "run_body (tp_os T) crc s = (Ok True, ?t)"
    using f g a unfolding run
    by (simp add: handle_def clear_running_def on_syscall_def os_do_def sched_now_def thread_update_def requeue_def st_defs following_def)
  moreover have "busy_at T X i ?t" using f o3 o4 g(2) w(2) by (simp add: busy_at_def following_def same_target_def)
  ultimately show ?thesis using w(1) by (intro exI [of _ ?t] exI [of _ "os_now (tp_os T) o5"]) simp
qed

lemma turn_records_exit:
  assumes T: "tapes T X" and i: "i < length (rx_calls X)" and s: "busy_at T X i s"
  shows "\<exists>s' ts e. run_body (tp_os T) crc s = (Ok True, s') \<and> idle_at T X (Suc i) s' \<and> appended crc (sch_writer s) [e] (sch_writer s')
    \<and> exit_event (os_abi (tp_os T)) (\<lambda>_ a n. Ok (peek (us_mem (snd (rx_calls X ! i))) a n)) ts (tp_pid T) (tp_pid T)
        (regs_at (fst (rx_calls X ! i))) (fr_rax (us_regs (snd (rx_calls X ! i)))) = Ok e"
proof -
  let ?p = "tp_pid T" and ?x = "snd (rx_calls X ! i)"
  from T s i obtain o3 where c: "turn_calls T (sch_os s) (PtraceSyscall ?p) o3" and o3: "tp_view T o3 = ?x" "tp_at T o3 = Outside (Suc i)"
    unfolding tapes_def busy_at_def by (metis nat.case(2) state_before_def)
  from s have f: "following T (Some (regs_at (entry_of X i))) s" by (simp add: busy_at_def)
  obtain o4 where o4: "same_target T o3 o4" and run: "run_body (tp_os T) crc s = st_bind (handle (tp_os T) crc (PtraceSyscall ?p)) (\<lambda>_. st_return True)
      (s\<lparr>sch_ready := [], sch_running := Some ?p, sch_os := o4\<rparr>)" using turn_until_stop [OF T f c] by blast
  from T o3 o4 obtain o5 where g: "os_regs (tp_os T) ?p o4 = (Ok (regs_at ?x), o5)" "same_target T o4 o5"
    unfolding tapes_def same_target_def by (metis progress.distinct(3))
  have vm: "os_vm_read (tp_os T) o5 ?p a n = Ok (peek (us_mem ?x) a n)" for a n
    using T g(2) o3 o4 unfolding tapes_def same_target_def by metis
  have "\<exists>e. exit_event (os_abi (tp_os T)) (\<lambda>_ a n. Ok (peek (us_mem ?x) a n)) (os_now (tp_os T) o5) ?p ?p (regs_at (entry_of X i)) (fr_rax (us_regs ?x)) = Ok e"
    by (auto simp: exit_event_def read_tracee_memory_def split: option.split)
  then obtain e where e: "exit_event (os_abi (tp_os T)) (\<lambda>_ a n. Ok (peek (us_mem ?x) a n)) (os_now (tp_os T) o5) ?p ?p
      (regs_at (entry_of X i)) (fr_rax (us_regs ?x)) = Ok e" by blast
  then have e': "exit_event (os_abi (tp_os T)) (os_vm_read (tp_os T) o5) (os_now (tp_os T) o5) ?p ?p
      (regs_at (entry_of X i)) (fr_rax (us_regs ?x)) = Ok e"
  proof -
    have "read_tracee_memory (os_vm_read (tp_os T) o5) ?p a n = read_tracee_memory (\<lambda>_ a n. Ok (peek (us_mem ?x) a n)) ?p a n" for a n
      by (simp add: read_tracee_memory_def vm)
    then show ?thesis using e by (auto simp: exit_event_def split: option.splits)
  qed
  let ?s = "s\<lparr>sch_ready := [], sch_running := None, sch_os := o5, sch_threads := [?p \<mapsto> \<lparr>th_pending_enter = None, th_resume_signal = None\<rparr>]\<rparr>"
  obtain w n where a: "sched_append crc e ?s = (Ok (), ?s\<lparr>sch_writer := w, sch_events_recorded := n\<rparr>)"
    and w: "appended crc (sch_writer s) [e] w" "sk_room (wr_inner w) = None"
    using append_ok [of ?s crc e] f by (auto simp: following_def)
  let ?t = "?s\<lparr>sch_writer := w, sch_events_recorded := n, sch_ready := [?p]\<rparr>"
  have "run_body (tp_os T) crc s = (Ok True, ?t)"
    using f g a e' unfolding run
    by (simp add: handle_def clear_running_def on_syscall_def os_do_def sched_now_def thread_update_def requeue_def st_defs following_def thread_default_def)
  moreover have "idle_at T X (Suc i) ?t" using f o3 o4 g(2) w(2)
    by (simp add: idle_at_def following_def same_target_def thread_default_def state_before_def)
  ultimately show ?thesis using w(1) e i by (intro exI [of _ ?t] exI [of _ "os_now (tp_os T) o5"] exI [of _ e]) (simp add: entry_of_def)
qed

lemma turn_records_end:
  assumes T: "tapes T X" and s: "busy_at T X (length (rx_calls X)) s"
  shows "\<exists>s'. run_body (tp_os T) crc s = (Ok True, s') \<and> sch_threads s' = Map.empty \<and> sch_writer s' = sch_writer s
    \<and> sch_leader_exit s' = Some (rx_code X)"
proof -
  let ?p = "tp_pid T"
  have "tp_view T (sch_os s) = rx_final X" using s by (simp add: busy_at_def entry_of_def)
  with T s obtain o3 where c: "turn_calls T (sch_os s) (Exited ?p (rx_code X)) o3" unfolding tapes_def busy_at_def by metis
  from s have f: "following T (Some (regs_at (rx_final X))) s" by (simp add: busy_at_def entry_of_def)
  obtain o4 where run: "run_body (tp_os T) crc s = st_bind (handle (tp_os T) crc (Exited ?p (rx_code X))) (\<lambda>_. st_return True)
      (s\<lparr>sch_ready := [], sch_running := Some ?p, sch_os := o4\<rparr>)" using turn_until_stop [OF T f c] by blast
  show ?thesis using f unfolding run
    by (simp add: handle_def on_exit_def clear_running_def st_defs following_def)
qed

subsection \<open>The whole recording\<close>

lemma loop_records:
  assumes T: "tapes T X" and X: "execution_of (rx_user X) (rx_init X) (rx_calls X) (rx_final X)"
  shows "idle_at T X i s \<Longrightarrow> i \<le> length (rx_calls X) \<Longrightarrow> 2 * (length (rx_calls X) - i) + 3 \<le> fuel \<Longrightarrow>
    \<exists>out s' es. run_loop (tp_os T) crc fuel s = Some (Ok out, s') \<and> ro_exit_code out = Some (rx_code X)
      \<and> appended crc (sch_writer s) es (sch_writer s') \<and> events_of (os_abi (tp_os T)) (tp_pid T) (drop i (rx_calls X)) (rx_final X) es"
proof (induction "length (rx_calls X) - i" arbitrary: i s fuel)
  case 0
  then have i: "i = length (rx_calls X)" by simp
  obtain s1 ts where one: "run_body (tp_os T) crc s = (Ok True, s1)" "busy_at T X i s1"
    "appended crc (sch_writer s) [enter_event ts (tp_pid T) (regs_at (rx_final X))] (sch_writer s1)"
    using turn_records_entry [OF T X "0.prems"(2,1), of crc] by (auto simp: i entry_of_def)
  from turn_records_end [OF T, of s1 crc] one(2) i obtain s2 where two: "run_body (tp_os T) crc s1 = (Ok True, s2)"
    "sch_threads s2 = Map.empty" "sch_writer s2 = sch_writer s1" "sch_leader_exit s2 = Some (rx_code X)" by auto
  have "sch_threads s \<noteq> Map.empty" "sch_threads s1 \<noteq> Map.empty"
    using "0.prems"(1) one(2) by (simp_all add: idle_at_def busy_at_def following_def)
  moreover obtain n where "fuel = Suc (Suc (Suc n))" using "0.prems"(3) that [of "fuel - 3"] by linarith
  ultimately show ?case using one two i by (auto simp: sched_outcome_def)
next
  case (Suc d)
  then have i: "i < length (rx_calls X)" by simp
  obtain s1 ts where one: "run_body (tp_os T) crc s = (Ok True, s1)" "busy_at T X i s1"
    "appended crc (sch_writer s) [enter_event ts (tp_pid T) (regs_at (fst (rx_calls X ! i)))] (sch_writer s1)"
    using turn_records_entry [OF T X Suc.prems(2,1), of crc] i by (auto simp: entry_of_def)
  obtain s2 ts' e where two: "run_body (tp_os T) crc s1 = (Ok True, s2)" "idle_at T X (Suc i) s2" "appended crc (sch_writer s1) [e] (sch_writer s2)"
    "exit_event (os_abi (tp_os T)) (\<lambda>_ a n. Ok (peek (us_mem (snd (rx_calls X ! i))) a n)) ts' (tp_pid T) (tp_pid T)
        (regs_at (fst (rx_calls X ! i))) (fr_rax (us_regs (snd (rx_calls X ! i)))) = Ok e"
    using turn_records_exit [OF T i one(2)] by blast
  obtain n where n: "fuel = Suc (Suc n)" "2 * (length (rx_calls X) - Suc i) + 3 \<le> n"
    using Suc.prems(3) i that [of "fuel - 2"] by linarith
  have d: "d = length (rx_calls X) - Suc i" "Suc i \<le> length (rx_calls X)" using Suc.hyps(2) i by simp_all
  obtain out s' es where rest: "run_loop (tp_os T) crc n s2 = Some (Ok out, s')" "ro_exit_code out = Some (rx_code X)"
    "appended crc (sch_writer s2) es (sch_writer s')" "events_of (os_abi (tp_os T)) (tp_pid T) (drop (Suc i) (rx_calls X)) (rx_final X) es"
    using Suc.hyps(1) [OF d(1) two(2) d(2) n(2)] by blast
  have "sch_threads s \<noteq> Map.empty" "sch_threads s1 \<noteq> Map.empty"
    using Suc.prems(1) one(2) by (simp_all add: idle_at_def busy_at_def following_def)
  then have "run_loop (tp_os T) crc fuel s = Some (Ok out, s')" using n(1) one(1) two(1) rest(1) by simp
  moreover have "appended crc (sch_writer s) (enter_event ts (tp_pid T) (regs_at (fst (rx_calls X ! i))) # e # es) (sch_writer s')"
    using appended_trans [OF one(3) appended_trans [OF two(3) rest(3)]] by simp
  moreover have "drop i (rx_calls X) = (fst (rx_calls X ! i), snd (rx_calls X ! i)) # drop (Suc i) (rx_calls X)"
    using i by (simp add: Cons_nth_drop_Suc)
  ultimately show ?case using rest(2,4) two(4)
    by (intro exI [of _ out] exI [of _ s'] exI [of _ "enter_event ts (tp_pid T) (regs_at (fst (rx_calls X ! i))) # e # es"]) (auto simp del: prod.collapse)
qed

text \<open>The size of the largest transfer that still fits into a record.\<close>

definition transfers_fit :: "'r rerun \<Rightarrow> bool" where
  "transfers_fit X \<longleftrightarrow> (\<forall>c \<in> set (rx_calls X). \<forall>a n. written_region (po_abi (rx_os X)) c = Some (a, n) \<longrightarrow> n + 64 \<le> MAX_BODY_LEN)"

lemma enter_event_fits: "event_fits (enter_event ts p (regs_at t))"
  by (simp add: event_fits_def enter_event_def event_new_with_tid_def syscall_enter_encode_def regs_at_def regs_of_full_def format_consts)

lemma events_fit:
  assumes "events_of abi p calls final es" and "\<forall>c \<in> set calls. \<forall>a n. written_region abi c = Some (a, n) \<longrightarrow> n + 64 \<le> MAX_BODY_LEN"
  shows "\<forall>e \<in> set es. event_fits e"
  using assms
proof (induction abi p calls final es rule: events_of.induct)
  case (1 abi p final es)
  then show ?case by (auto simp: enter_event_fits)
next
  case (2 abi p e x rest final es)
  then obtain ts ts' ex es' where es: "es = enter_event ts p (regs_at e) # ex # es'"
    and ex: "exit_event abi (\<lambda>_ a n. Ok (peek (us_mem x) a n)) ts' p p (regs_at e) (fr_rax (us_regs x)) = Ok ex"
    and rest: "events_of abi p rest final es'" by auto
  from ex obtain data where "ex = event_new_with_tid SyscallExit ts' p
      (syscall_exit_encode \<lparr>sx_nr = sr_nr (regs_at e), sx_ret = fr_rax (us_regs x), sx_data = data\<rparr>)"
    and "length data = (case kernel_written_region abi (sr_nr (regs_at e)) (sr_args (regs_at e)) (fr_rax (us_regs x)) of
           Some (addr, len) \<Rightarrow> len | None \<Rightarrow> 0)" by (rule exit_event_payload)
  then have "event_fits ex" using "2.prems"(2)
    by (auto simp: event_fits_def event_new_with_tid_def syscall_exit_encode_def format_consts written_region_def split: option.splits)
  with "2.IH" [OF rest] "2.prems"(2) show ?case by (simp add: es enter_event_fits)
qed

text \<open>How \<open>record_command\<close> starts the target: the fork, its first stop, and the trace options.\<close>

definition starts_target :: "'os taping \<Rightarrow> 'r rerun \<Rightarrow> ('os, pid, capture_error) st \<Rightarrow> 'os \<Rightarrow> bool" where
  "starts_target T X spawn o0 \<longleftrightarrow> (\<exists>o1 st o2 o3. spawn o0 = (Ok (tp_pid T), o1)
     \<and> os_waitpid (tp_os T) (Some (tp_pid T)) o1 = (Ok st, o2) \<and> os_setoptions (tp_os T) (tp_pid T) o2 = (Ok (), o3)
     \<and> tp_view T o3 = rx_init X \<and> tp_at T o3 = Outside 0)"

lemma command_records:
  assumes T: "tapes T X" and X: "execution_of (rx_user X) (rx_init X) (rx_calls X) (rx_final X)"
    and st: "starts_target T X spawn o0" and k: "sk_bytes k = []" "sk_room k = None" and fuel: "2 * length (rx_calls X) + 3 \<le> fuel"
  shows "\<exists>out w es. record_command (tp_os T) crc fuel (Ok k) spawn prog args o0 = Some (Ok out, Some w) \<and> ro_exit_code out = Some (rx_code X)
    \<and> events_of (os_abi (tp_os T)) (tp_pid T) (rx_calls X) (rx_final X) es
    \<and> sk_bytes (into_inner w) = header_bytes (encode_cmdline prog args) @ frames crc 0 es"
proof -
  let ?p = "tp_pid T"
  obtain w0 where w0: "create_with_cmdline k prog args = Ok w0" "sk_room (wr_inner w0) = None"
    using write_header_unbounded [OF k(2)] k(2) by (simp add: create_with_cmdline_def)
  from st obtain o1 ws o2 o3 where s: "spawn o0 = (Ok ?p, o1)" "os_waitpid (tp_os T) (Some ?p) o1 = (Ok ws, o2)"
    "os_setoptions (tp_os T) ?p o2 = (Ok (), o3)" "tp_view T o3 = rx_init X" "tp_at T o3 = Outside 0"
    by (auto simp: starts_target_def)
  from T obtain o4 where pin: "os_pin (tp_os T) ?p o3 = (Ok (), o4)" "same_target T o3 o4" unfolding tapes_def by metis
  from T obtain o5 where tim: "os_timer_install (tp_os T) o4 = (Ok (), o5)" "same_target T o4 o5" unfolding tapes_def by metis
  obtain s0 where s0: "scheduler_new (tp_os T) w0 ?p o3 = Ok s0" "idle_at T X 0 s0" "sch_writer s0 = w0"
    using pin tim s(4,5) w0(2)
    by (auto simp: scheduler_new_def idle_at_def following_def thread_default_def same_target_def state_before_def)
  from loop_records [OF T X s0(2), of fuel crc] fuel obtain out s' es where
    run: "run_loop (tp_os T) crc fuel s0 = Some (Ok out, s')" "ro_exit_code out = Some (rx_code X)"
    and app: "appended crc w0 es (sch_writer s')" and ev: "events_of (os_abi (tp_os T)) ?p (rx_calls X) (rx_final X) es"
    by (auto simp: s0(3))
  from app obtain seqs where "append_all crc es w0 = (Ok seqs, sch_writer s')" by (auto simp: appended_def)
  from written_bytes [OF k(1) w0(1) this] have "sk_bytes (into_inner (sch_writer s')) = header_bytes (encode_cmdline prog args) @ frames crc 0 es"
    by simp
  then show ?thesis using w0 s s0 run ev by (auto simp: record_command_def)
qed

subsection \<open>Recording, then replaying\<close>

lemma launch_debugs:
  assumes X: "replayable X" and rec: "recorded X es" and fit: "\<forall>e \<in> set es. event_fits e"
    and cmd: "str_wf prog" "\<forall>a \<in> set args. str_wf a" "BASE_HEADER_LEN + length (encode_cmdline prog args) < 2 ^ 16"
    and src: "clean_source src" "source_bytes src = header_bytes (encode_cmdline prog args) @ frames crc 0 es"
    and room: "roomy X {p. rx_at X r0 p \<noteq> Gone}"
  shows "\<exists>s r1. launch crc (rx_os X) (Ok src) r0 = (Ok s, r1) \<and> debugged X es fuel s"
proof -
  have "length es \<le> 2 ^ 64" using X length_recorded [OF rec] by (simp add: replayable_def)
  from trace_readback [OF cmd fit this src] obtain rd where rd: "reader_open src = Ok rd"
    "rd_cmdline rd = Some \<lparr>cmd_program = prog, cmd_args = args\<rparr>" "read_all crc rd = map Ok (records_from 0 es)" by blast
  have "\<exists>p. rx_at X r0 p = Gone"
  proof (rule ccontr)
    assume "\<not> ?thesis"
    then have "{p. rx_at X r0 p \<noteq> Gone} = UNIV" by auto
    then show False using room by (simp add: roomy_def card_word)
  qed
  with X obtain p o1 st o2 o3 where k: "po_spawn (rx_os X) \<lparr>cmd_program = prog, cmd_args = args\<rparr> r0 = (Ok p, o1)"
    "po_waitpid (rx_os X) no_flags p o1 = (Ok st, o2)"
    "po_setoptions (rx_os X) p (PTRACE_O_TRACESYSGOOD OR PTRACE_O_EXITKILL OR PTRACE_O_TRACEFORK OR PTRACE_O_TRACEVFORK
            OR PTRACE_O_TRACECLONE) o2 = (Ok (), o3)" "rx_view X o3 p = rx_init X" "rx_at X o3 p = Outside 0" "keeps_others X p r0 o3"
    unfolding replayable_def runs_target_def by metis
  have "launch crc (rx_os X) (Ok src) r0 = (Ok (session_new p \<lparr>cmd_program = prog, cmd_args = args\<rparr> (records_from 0 es) o3), o3)"
    using rd k by (simp add: launch_def st_defs session_spawn_def os_lift_def)
  moreover have "debugged X es fuel (session_new p \<lparr>cmd_program = prog, cmd_args = args\<rparr> (records_from 0 es) o3)"
  proof (rule debugged.fresh)
    have "{q. q \<noteq> p \<and> rx_at X o3 q \<noteq> Gone} \<subseteq> {q. rx_at X r0 q \<noteq> Gone}" using k(6) by (auto simp: keeps_others_def)
    then show "roomy X {q. q \<noteq> p \<and> rx_at X o3 q \<noteq> Gone}" by (rule roomy_mono [OF room])
  qed (use k in simp_all)
  ultimately show ?thesis by blast
qed

text \<open>
  C3. What is recorded is what is replayed: for every single-threaded target, \<open>record_command\<close> comes back
  with the target's exit code, and \<open>launch\<close> on the file it wrote, however the file is read, gives a session
  that runs to the same exit code and, run to the exit of any of the target's calls, shows the memory and
  registers that the recorded process had there.
\<close>

theorem record_replay_faithful:
  assumes X: "replayable X" and T: "tapes T X" "os_abi (tp_os T) = po_abi (rx_os X)" and fit: "transfers_fit X"
    and st: "starts_target T X spawn o0" and k: "sk_bytes k = []" "sk_room k = None"
    and cmd: "str_wf prog" "\<forall>a \<in> set args. str_wf a" "BASE_HEADER_LEN + length (encode_cmdline prog args) < 2 ^ 16"
    and fuel: "2 * length (rx_calls X) + 3 \<le> fuel"
  shows "\<exists>out w. record_command (tp_os T) crc fuel (Ok k) spawn prog args o0 = Some (Ok out, Some w) \<and> ro_exit_code out = Some (rx_code X)
    \<and> (\<forall>src r0. clean_source src \<and> source_bytes src = sk_bytes (into_inner w) \<and> roomy X {p. rx_at X r0 p \<noteq> Gone} \<longrightarrow>
        (\<exists>s r1. launch crc (rx_os X) (Ok src) r0 = (Ok s, r1)
          \<and> (\<exists>s'. run_to_end (rx_os X) fuel s = Some (Ok (OutExited (rx_code X)), s'))
          \<and> (\<forall>i < length (rx_calls X). \<exists>s'. run_to (rx_os X) fuel (of_nat (2 * i + 1)) s = Some (Ok Running, s')
              \<and> visible (rx_view X (rs_os s') (rs_pid s')) = visible (snd (rx_calls X ! i)))))"
proof -
  have ex: "execution_of (rx_user X) (rx_init X) (rx_calls X) (rx_final X)" using X by (simp add: replayable_def)
  obtain out w es where run: "record_command (tp_os T) crc fuel (Ok k) spawn prog args o0 = Some (Ok out, Some w)" "ro_exit_code out = Some (rx_code X)"
    and ev: "events_of (po_abi (rx_os X)) (tp_pid T) (rx_calls X) (rx_final X) es"
    and bytes: "sk_bytes (into_inner w) = header_bytes (encode_cmdline prog args) @ frames crc 0 es"
    using command_records [OF T(1) ex st k fuel] T(2) by metis
  have rec: "recorded X es" using ev by (auto simp: recorded_def)
  have fits: "\<forall>e \<in> set es. event_fits e" using events_fit [OF ev] fit by (simp add: transfers_fit_def)
  have f: "2 * length (rx_calls X) + 2 \<le> fuel" using fuel by simp
  have "\<exists>s r1. launch crc (rx_os X) (Ok src) r0 = (Ok s, r1)
          \<and> (\<exists>s'. run_to_end (rx_os X) fuel s = Some (Ok (OutExited (rx_code X)), s'))
          \<and> (\<forall>i < length (rx_calls X). \<exists>s'. run_to (rx_os X) fuel (of_nat (2 * i + 1)) s = Some (Ok Running, s')
              \<and> visible (rx_view X (rs_os s') (rs_pid s')) = visible (snd (rx_calls X ! i)))"
    if src: "clean_source src" "source_bytes src = sk_bytes (into_inner w)" "roomy X {p. rx_at X r0 p \<noteq> Gone}" for src r0
  proof -
    obtain s r1 where l: "launch crc (rx_os X) (Ok src) r0 = (Ok s, r1)" and d: "debugged X es fuel s"
      using launch_debugs [OF X rec fits cmd src(1) src(2) [unfolded bytes] src(3)] by blast
    have on: "on_track X es s" by (rule debugged_on_track [OF X rec f d])
    from run_to_end_on_track [OF X rec on f] run_to_exit [OF X rec f d] l show ?thesis by blast
  qed
  with run show ?thesis by blast
qed

end
