(* ===== verification/TargetKernel.thy ===== *)
theory TargetKernel
  imports EndToEnd
begin

text \<open>
  Kernels for the theorems of \<open>Fidelity\<close> and \<open>EndToEnd\<close>: for every target there is one that replays it and
  one on which it is recorded, so what those theorems assume of a kernel can hold, whatever the target. The
  replaying kernel has a table of processes, gives out free ids, and copies a process on \<open>clone\<close>. The
  theorems are then applied to a target that asks for its id, reads four bytes and exits with the first.
\<close>

subsection \<open>A kernel that replays a target\<close>

record target_program =
  tg_abi :: syscall_numbers
  tg_user :: "user_state \<Rightarrow> user_state"
  tg_sysret :: "full_regs \<Rightarrow> full_regs"
  tg_init :: user_state
  tg_calls :: execution
  tg_final :: user_state
  tg_code :: i32

record proc =
  pr_view :: user_state
  pr_at :: progress
  pr_forking :: bool
  pr_status :: wait_status
  pr_event :: i64

type_synonym proc_table = "pid \<Rightarrow> proc"

definition proc_at :: "proc_table \<Rightarrow> pid \<Rightarrow> progress" where
  "proc_at m p = (if pr_forking (m p) then Gone else pr_at (m p))"

definition free_pid :: "proc_table \<Rightarrow> pid option" where
  "free_pid m = find (\<lambda>p. proc_at m p = Gone) (map of_nat [0..<2 ^ 32])"

definition resumed :: "target_program \<Rightarrow> pid \<Rightarrow> proc \<Rightarrow> proc" where
  "resumed tg p q = (if pr_forking q then q\<lparr>pr_forking := False, pr_status := PtraceSyscall p\<rparr>
     else case pr_at q of
       Outside i \<Rightarrow> q\<lparr>pr_view := tg_user tg (visible (pr_view q)), pr_at := Inside i, pr_status := PtraceSyscall p\<rparr>
     | Inside i \<Rightarrow> (if length (tg_calls tg) \<le> i then q\<lparr>pr_at := Gone, pr_status := Exited p (tg_code tg)\<rparr>
         else q\<lparr>pr_view := (if fr_orig_rax (us_regs (pr_view q)) = - 1
             then (pr_view q)\<lparr>us_regs := (tg_sysret tg (us_regs (visible (pr_view q))))\<lparr>fr_rax := - 38, fr_orig_rax := - 1\<rparr>\<rparr>
             else snd (tg_calls tg ! i)), pr_at := Outside (Suc i), pr_status := PtraceSyscall p\<rparr>)
     | Gone \<Rightarrow> q)"

definition table_spawn :: "target_program \<Rightarrow> (proc_table, pid, io_error) st" where
  "table_spawn tg m = (case free_pid m of
       None \<Rightarrow> (Err UnexpectedEof, m)
     | Some p \<Rightarrow> (Ok p, m(p := \<lparr>pr_view = tg_init tg, pr_at = Outside 0, pr_forking = False, pr_status = Stopped p 5, pr_event = 0\<rparr>)))"

definition table_step :: "pid \<Rightarrow> (proc_table, unit, errno) st" where
  "table_step p m = (case free_pid m of
       None \<Rightarrow> (Err 11, m)
     | Some c \<Rightarrow> (Ok (), m(c := (m p)\<lparr>pr_status := Stopped c 19\<rparr>,
         p := (m p)\<lparr>pr_forking := True, pr_status := PtraceEvent p SIGTRAP 1, pr_event := ucast c\<rparr>)))"

definition table_update :: "pid \<Rightarrow> (proc \<Rightarrow> proc) \<Rightarrow> 'a \<Rightarrow> (proc_table, 'a, 'e) st" where
  "table_update p f a m = (Ok a, m(p := f (m p)))"

definition table_read :: "(proc_table \<Rightarrow> 'a) \<Rightarrow> (proc_table, 'a, 'e) st" where
  "table_read f m = (Ok (f m), m)"

definition table_os :: "target_program \<Rightarrow> proc_table replay_os" where
  "table_os tg = \<lparr>po_abi = tg_abi tg, po_sys_clone = 56, po_spawn = \<lambda>cmd. table_spawn tg,
     po_waitpid = \<lambda>fl p. table_read (\<lambda>m. pr_status (m p)), po_setoptions = \<lambda>p opts. st_return (),
     po_syscall = \<lambda>p sig. table_update p (resumed tg p) (), po_step = table_step,
     po_kill = \<lambda>p. table_update p (\<lambda>q. q\<lparr>pr_at := Gone, pr_status := Signaled p 9\<rparr>) (),
     po_getregs = \<lambda>p. table_read (\<lambda>m. us_regs (pr_view (m p))),
     po_setregs = \<lambda>p r. table_update p (\<lambda>q. q\<lparr>pr_view := (pr_view q)\<lparr>us_regs := r\<rparr>\<rparr>) (),
     po_getevent = \<lambda>p. table_read (\<lambda>m. pr_event (m p)),
     po_vm_readv = \<lambda>p a n. table_read (\<lambda>m. peek (us_mem (pr_view (m p))) a n),
     po_vm_writev = \<lambda>p a d. table_update p (\<lambda>q. q\<lparr>pr_view := (pr_view q)\<lparr>us_mem := poke a d (us_mem (pr_view q))\<rparr>\<rparr>) (length d),
     po_pokeuser = \<lambda>p off v. st_return (), po_siginfo = \<lambda>p. st_return 0,
     po_unwinder_new = \<lambda>p. st_return (), po_backtrace = \<lambda>p. table_read (\<lambda>m. (fr_rip (us_regs (pr_view (m p))), []))\<rparr>"

definition table_rerun :: "target_program \<Rightarrow> proc_table rerun" where
  "table_rerun tg = \<lparr>rx_os = table_os tg, rx_view = \<lambda>m p. pr_view (m p), rx_at = proc_at, rx_user = tg_user tg,
     rx_sysret = tg_sysret tg, rx_init = tg_init tg, rx_calls = tg_calls tg, rx_final = tg_final tg, rx_code = tg_code tg\<rparr>"

lemma table_rerun_simps [simp]:
  "rx_os (table_rerun tg) = table_os tg" "rx_view (table_rerun tg) = (\<lambda>m p. pr_view (m p))" "rx_at (table_rerun tg) = proc_at"
  "rx_user (table_rerun tg) = tg_user tg" "rx_sysret (table_rerun tg) = tg_sysret tg" "rx_init (table_rerun tg) = tg_init tg"
  "rx_calls (table_rerun tg) = tg_calls tg" "rx_final (table_rerun tg) = tg_final tg" "rx_code (table_rerun tg) = tg_code tg"
  by (simp_all add: table_rerun_def)

lemma free_pid_ok:
  assumes "\<exists>p. proc_at m p = Gone"
  shows "\<exists>p. free_pid m = Some p \<and> proc_at m p = Gone"
proof -
  from assms obtain p where p: "proc_at m p = Gone" by blast
  have "unat p < 2 ^ 32" using unsigned_less [of p] by simp
  then have "p \<in> set (map of_nat [0..<2 ^ 32])" by (auto intro: image_eqI [of _ of_nat "unat p"])
  with p show ?thesis unfolding free_pid_def by (cases "find (\<lambda>p. proc_at m p = Gone) (map of_nat [0..<2 ^ 32])")
    (auto simp: find_None_iff find_Some_iff simp del: set_map)
qed

lemmas table_simps = table_os_def table_read_def table_update_def keeps_others_def proc_at_def resumes_def st_return_def

lemma table_runs:
  assumes "\<forall>c \<in> set (tg_calls tg). fr_orig_rax (us_regs (fst c)) \<noteq> - 1"
  shows "runs_target (table_rerun tg)"
proof -
  let ?X = "table_rerun tg"
  have spawn: "\<exists>p o1 st o2 o3. po_spawn (rx_os ?X) cmd o0 = (Ok p, o1) \<and> po_waitpid (rx_os ?X) no_flags p o1 = (Ok st, o2)
        \<and> po_setoptions (rx_os ?X) p (PTRACE_O_TRACESYSGOOD OR PTRACE_O_EXITKILL OR PTRACE_O_TRACEFORK OR PTRACE_O_TRACEVFORK
            OR PTRACE_O_TRACECLONE) o2 = (Ok (), o3)
        \<and> rx_at ?X o0 p = Gone \<and> rx_view ?X o3 p = rx_init ?X \<and> rx_at ?X o3 p = Outside 0 \<and> keeps_others ?X p o0 o3"
    if "\<exists>p. rx_at ?X o0 p = Gone" for cmd o0
  proof -
    from that free_pid_ok [of o0] obtain p where "free_pid o0 = Some p" "proc_at o0 p = Gone" by auto
    then show ?thesis by (simp add: table_simps table_spawn_def)
  qed
  have entry: "fr_orig_rax (us_regs (entry_of ?X i)) \<noteq> - 1" if "i < length (tg_calls tg)" for i
    using that assms by (simp add: entry_of_def)
  show ?thesis unfolding runs_target_def
    using spawn entry by (auto simp: table_simps resumed_def state_before_def)
qed

lemma table_access: "access_target (table_rerun tg)"
  unfolding access_target_def by (auto simp: table_simps)

lemma pid_of_event [simp]: "ucast (ucast c :: i64) = (c :: pid)"
  by (rule bit_word_eqI) (simp add: bit_simps)

lemma table_forks: "forks_target (table_rerun tg)"
  unfolding forks_target_def
proof (intro conjI allI impI)
  let ?X = "table_rerun tg"
  fix p i r and o0 :: proc_table
  assume a: "rx_at ?X o0 p = Outside i \<and> us_regs (rx_view ?X o0 p) = prepare_fork (po_sys_clone (rx_os ?X)) r \<and> (\<exists>p'. rx_at ?X o0 p' = Gone)"
  with free_pid_ok [of o0] obtain c where c: "free_pid o0 = Some c" "proc_at o0 c = Gone" by auto
  with a have "c \<noteq> p" "pr_forking (o0 p) = False" "pr_at (o0 p) = Outside i" by (auto simp: proc_at_def split: if_splits)
  with c show "\<exists>o1 sig event o2 raw o3 sig' o4 o5 o6 o7. po_step (rx_os ?X) p o0 = (Ok (), o1)
          \<and> po_waitpid (rx_os ?X) no_flags p o1 = (Ok (PtraceEvent p sig event), o2) \<and> is_fork_event event
          \<and> po_getevent (rx_os ?X) p o2 = (Ok raw, o3) \<and> po_waitpid (rx_os ?X) no_flags (ucast raw) o3 = (Ok (Stopped (ucast raw) sig'), o4)
          \<and> po_setoptions (rx_os ?X) (ucast raw) (PTRACE_O_TRACESYSGOOD OR PTRACE_O_EXITKILL OR PTRACE_O_TRACEFORK OR PTRACE_O_TRACEVFORK
            OR PTRACE_O_TRACECLONE) o4 = (Ok (), o5) \<and> po_syscall (rx_os ?X) p None o5 = (Ok (), o6)
          \<and> po_waitpid (rx_os ?X) no_flags p o6 = (Ok (PtraceSyscall p), o7) \<and> rx_at ?X o0 (ucast raw) = Gone
          \<and> rx_at ?X o7 p = Outside i \<and> us_mem (rx_view ?X o7 p) = us_mem (rx_view ?X o0 p)
          \<and> rx_at ?X o7 (ucast raw) = Outside i \<and> us_mem (rx_view ?X o7 (ucast raw)) = us_mem (rx_view ?X o0 p)
          \<and> (\<forall>p'. p' \<noteq> p \<and> p' \<noteq> ucast raw \<longrightarrow> rx_view ?X o7 p' = rx_view ?X o0 p' \<and> rx_at ?X o7 p' = rx_at ?X o0 p')"
    by (simp add: table_simps table_step_def resumed_def is_fork_event_def PTRACE_EVENT_FORK_def split: if_splits)
qed (auto simp: table_simps)

definition target_ok :: "target_program \<Rightarrow> bool" where
  "target_ok tg \<longleftrightarrow> execution_of (tg_user tg) (tg_init tg) (tg_calls tg) (tg_final tg)
     \<and> (\<forall>c \<in> set (tg_calls tg). call_ok (tg_abi tg) (tg_sysret tg) c) \<and> last_ok (tg_abi tg) (tg_final tg)
     \<and> SYS_getrandom (tg_abi tg) \<noteq> SYS_clock_gettime (tg_abi tg) \<and> length (tg_calls tg) < 2 ^ 31"

lemma table_replayable:
  assumes "target_ok tg"
  shows "replayable (table_rerun tg)"
proof -
  have "\<forall>c \<in> set (tg_calls tg). fr_orig_rax (us_regs (fst c)) \<noteq> - 1"
    using assms by (auto simp: target_ok_def call_ok_def split: prod.splits)
  then show ?thesis using assms table_runs table_access table_forks by (simp add: replayable_def target_ok_def table_os_def)
qed

definition blank_regs :: full_regs where
  "blank_regs = \<lparr>fr_rip = 0, fr_rax = 0, fr_orig_rax = 0, fr_rdi = 0, fr_rsi = 0, fr_rdx = 0, fr_r10 = 0, fr_r8 = 0, fr_r9 = 0, fr_others = []\<rparr>"

definition no_procs :: proc_table where
  "no_procs = (\<lambda>p. \<lparr>pr_view = \<lparr>us_mem = \<lambda>_. 0, us_regs = blank_regs\<rparr>, pr_at = Gone, pr_forking = False, pr_status = OtherStatus, pr_event = 0\<rparr>)"

lemma no_procs_roomy: "target_ok tg \<Longrightarrow> roomy (table_rerun tg) {p. rx_at (table_rerun tg) no_procs p \<noteq> Gone}"
  by (simp add: roomy_def no_procs_def proc_at_def target_ok_def)

subsection \<open>A kernel on which a target is recorded\<close>

record tape_state =
  ta_proc :: proc
  ta_clock :: u64

definition tape_os :: "target_program \<Rightarrow> tape_state tracer_os" where
  "tape_os tg = \<lparr>os_abi = tg_abi tg, os_pin = \<lambda>p. st_return (), os_timer_install = st_return (), os_timer_set = \<lambda>on. st_return (),
     os_waitpid = \<lambda>p s. (Ok (pr_status (ta_proc s)), s\<lparr>ta_clock := ta_clock s + 1\<rparr>),
     os_syscall = \<lambda>p sig s. (Ok (), s\<lparr>ta_proc := resumed tg p (ta_proc s)\<rparr>), os_kill = \<lambda>p sig. st_return (),
     os_regs = \<lambda>p s. (Ok (regs_at (pr_view (ta_proc s))), s), os_getevent = \<lambda>p. st_return 0, os_setoptions = \<lambda>p. st_return (),
     os_vm_read = \<lambda>s p a n. Ok (peek (us_mem (pr_view (ta_proc s))) a n), os_now = ta_clock\<rparr>"

definition tape :: "target_program \<Rightarrow> tape_state taping" where
  "tape tg = \<lparr>tp_os = tape_os tg, tp_view = \<lambda>s. pr_view (ta_proc s),
     tp_at = \<lambda>s. if pr_forking (ta_proc s) then Gone else pr_at (ta_proc s), tp_pid = 7\<rparr>"

definition tape_spawn :: "target_program \<Rightarrow> (tape_state, pid, capture_error) st" where
  "tape_spawn tg s = (Ok 7, s\<lparr>ta_proc := \<lparr>pr_view = tg_init tg, pr_at = Outside 0, pr_forking = False, pr_status = Stopped 7 5, pr_event = 0\<rparr>\<rparr>)"

lemma tape_tapes:
  assumes "\<forall>c \<in> set (tg_calls tg). fr_orig_rax (us_regs (fst c)) \<noteq> - 1"
  shows "tapes (tape tg) (table_rerun tg)"
proof -
  have "fr_orig_rax (us_regs (entry_of (table_rerun tg) i)) \<noteq> - 1" if "i < length (tg_calls tg)" for i
    using that assms by (simp add: entry_of_def)
  then show ?thesis unfolding tapes_def
    by (auto simp: tape_def tape_os_def st_return_def same_target_def turn_calls_def resumed_def state_before_def)
qed

lemma tape_starts: "starts_target (tape tg) X (tape_spawn tg) s \<longleftrightarrow> tg_init tg = rx_init X"
  by (simp add: starts_target_def tape_def tape_os_def tape_spawn_def st_return_def)

subsection \<open>A target that exits with what it reads\<close>

definition reader_user :: "user_state \<Rightarrow> user_state" where
  "reader_user t = t\<lparr>us_regs := (let r = us_regs t in
     if fr_rip r = 0 then r\<lparr>fr_rip := 2, fr_orig_rax := 39, fr_rax := - 38\<rparr>
     else if fr_rip r = 2 then r\<lparr>fr_rip := 4, fr_orig_rax := 0, fr_rax := - 38, fr_rdi := 0, fr_rsi := 0x1000, fr_rdx := 4\<rparr>
     else r\<lparr>fr_rip := 6, fr_orig_rax := 231, fr_rax := - 38, fr_rdi := ucast (us_mem t 0x1000)\<rparr>)\<rparr>"

definition reader_sysret :: "full_regs \<Rightarrow> full_regs" where
  "reader_sysret r = r\<lparr>fr_others := [fr_rip r]\<rparr>"

definition reader_return :: "u64 \<Rightarrow> bytes \<Rightarrow> user_state \<Rightarrow> user_state" where
  "reader_return ret d e = \<lparr>us_mem = poke 0x1000 d (us_mem e), us_regs = (reader_sysret (us_regs e))\<lparr>fr_rax := ret\<rparr>\<rparr>"

definition reader_init :: user_state where "reader_init = \<lparr>us_mem = \<lambda>_. 0, us_regs = blank_regs\<rparr>"
definition getpid_entry :: user_state where "getpid_entry = reader_user (visible reader_init)"
definition getpid_exit :: user_state where "getpid_exit = reader_return 7 [] getpid_entry"
definition read_entry :: user_state where "read_entry = reader_user (visible getpid_exit)"
definition read_exit :: user_state where "read_exit = reader_return 4 [3, 1, 4, 1] read_entry"

definition reader :: target_program where
  "reader = \<lparr>tg_abi = \<lparr>SYS_read = 0, SYS_pread64 = 17, SYS_recvfrom = 45, SYS_getrandom = 318, SYS_clock_gettime = 228\<rparr>,
     tg_user = reader_user, tg_sysret = reader_sysret, tg_init = reader_init,
     tg_calls = [(getpid_entry, getpid_exit), (read_entry, read_exit)], tg_final = reader_user (visible read_exit), tg_code = 3\<rparr>"

lemma reader_simps [simp]:
  "tg_calls reader = [(getpid_entry, getpid_exit), (read_entry, read_exit)]" "tg_code reader = 3" "tg_init reader = reader_init"
  by (simp_all add: reader_def)

definition reader_events :: "event list" where
  "reader_events = [enter_event 1 7 (regs_at getpid_entry),
     event_new_with_tid SyscallExit 2 7 (syscall_exit_encode \<lparr>sx_nr = 39, sx_ret = 7, sx_data = []\<rparr>),
     enter_event 3 7 (regs_at read_entry),
     event_new_with_tid SyscallExit 4 7 (syscall_exit_encode \<lparr>sx_nr = 0, sx_ret = 4, sx_data = [3, 1, 4, 1]\<rparr>),
     enter_event 5 7 (regs_at (reader_user (visible read_exit)))]"

lemma visible_mem: "visible t = visible u \<Longrightarrow> us_mem t = us_mem u"
  by (drule arg_cong [where f = us_mem]) (simp add: visible_def)

lemma peek_poke:
  assumes "length d < 2 ^ 64"
  shows "peek (poke a d mem) a (length d) = d"
proof (rule nth_equalityI)
  fix i assume "i < length (peek (poke a d mem) a (length d))"
  then have i: "i < length d" by simp
  then have "unat (of_nat i :: u64) = i" using assms by (simp add: unsigned_of_nat take_bit_nat_eq_self)
  then show "peek (poke a d mem) a (length d) ! i = d ! i" using i by (simp add: peek_def poke_def)
qed simp

lemmas reader_defs = reader_def reader_init_def getpid_entry_def getpid_exit_def read_entry_def read_exit_def reader_user_def
  reader_return_def reader_sysret_def blank_regs_def visible_def Let_def

lemma read_bytes: "peek (us_mem read_exit) 0x1000 4 = [3, 1, 4, 1]"
proof -
  have "peek (us_mem read_exit) 0x1000 (length [3 :: u8, 1, 4, 1]) = [3, 1, 4, 1]"
    unfolding read_exit_def reader_return_def user_state.simps by (rule peek_poke) simp
  moreover have "length [3 :: u8, 1, 4, 1] = 4" by simp
  ultimately show ?thesis by (simp only:)
qed

lemma reader_ok: "target_ok reader"
proof -
  have "poke 0x1000 [] (us_mem getpid_entry) = us_mem getpid_entry" by (simp add: poke_def)
  moreover have "call_ok (tg_abi reader) reader_sysret (read_entry, read_exit)"
    using read_bytes
    by (simp add: call_ok_def written_region_def kernel_written_region_def regs_at_def regs_of_full_def ret_small_def reader_defs word_sless_alt)
  moreover have "call_ok (tg_abi reader) reader_sysret (getpid_entry, getpid_exit)"
    by (simp add: call_ok_def injected_def injection_addr_def regs_at_def regs_of_full_def ret_small_def reader_defs)
  moreover have "last_ok (tg_abi reader) (tg_final reader)"
    by (simp add: last_ok_def injected_def injection_addr_def regs_at_def regs_of_full_def reader_defs)
  ultimately show ?thesis
    by (simp add: target_ok_def reader_def getpid_entry_def read_entry_def)
qed

lemma reader_recorded: "recorded (table_rerun reader) reader_events"
proof -
  have "written_region (tg_abi reader) (read_entry, read_exit) = Some (0x1000, 4)"
    by (simp add: written_region_def kernel_written_region_def regs_at_def regs_of_full_def reader_defs word_sless_alt)
  moreover have "written_region (tg_abi reader) (getpid_entry, getpid_exit) = None"
    by (simp add: written_region_def kernel_written_region_def regs_at_def regs_of_full_def reader_defs)
  moreover have "fr_orig_rax (us_regs getpid_entry) = 39" "fr_rax (us_regs getpid_exit) = 7"
    "fr_orig_rax (us_regs read_entry) = 0" "fr_rax (us_regs read_exit) = 4" by (simp_all add: reader_defs)
  ultimately have "events_of (tg_abi reader) 7 [(getpid_entry, getpid_exit), (read_entry, read_exit)] (reader_user (visible read_exit)) reader_events"
    using read_bytes by (auto simp: reader_events_def exit_event_def read_tracee_memory_def written_region_def)
  then show ?thesis unfolding recorded_def by (intro exI [of _ 7]) (simp add: table_os_def reader_def)
qed

definition reader_procs :: proc_table where
  "reader_procs = no_procs(7 := \<lparr>pr_view = reader_init, pr_at = Outside 0, pr_forking = False, pr_status = Stopped 7 5, pr_event = 0\<rparr>)"

definition reader_session :: "proc_table session" where
  "reader_session = set_checkpoint_interval 1 (session_new 7 \<lparr>cmd_program = [0x61], cmd_args = []\<rparr> (records_from 0 reader_events) reader_procs)"

lemma reader_debugged: "debugged (table_rerun reader) reader_events fuel reader_session"
  unfolding reader_session_def
proof (rule debugged.checkpointed, rule debugged.fresh [OF refl])
  have "{q. q \<noteq> 7 \<and> rx_at (table_rerun reader) reader_procs q \<noteq> Gone} = {}"
    by (auto simp: reader_procs_def no_procs_def proc_at_def)
  then show "roomy (table_rerun reader) {q. q \<noteq> 7 \<and> rx_at (table_rerun reader) reader_procs q \<noteq> Gone}"
    by (simp only:) (simp add: roomy_def reader_def)
qed (simp_all add: reader_procs_def proc_at_def reader_def)

text \<open>Forward past the \<open>read\<close>, where its bytes are in memory, and back to before it, where they are not.\<close>

theorem time_travel_faithful_witness:
  "\<exists>s1 s2. run_to (table_os reader) 6 3 reader_session = Some (Ok Running, s1) \<and> us_mem (pr_view (rs_os s1 (rs_pid s1))) 0x1000 = 3
    \<and> run_to (table_os reader) 6 1 s1 = Some (Ok Running, s2) \<and> us_mem (pr_view (rs_os s2 (rs_pid s2))) 0x1000 = 0"
proof -
  note faithful = time_travel_faithful [OF table_replayable [OF reader_ok] reader_recorded, of 6]
  obtain s1 where s1: "run_to (table_os reader) 6 3 reader_session = Some (Ok Running, s1)"
    "visible (pr_view (rs_os s1 (rs_pid s1))) = visible read_exit"
    using faithful [OF _ reader_debugged, of 1] by auto
  have "debugged (table_rerun reader) reader_events 6 s1"
    by (rule debugged.moved_to [OF reader_debugged, of 3 6 "Ok Running"]) (use s1(1) in \<open>simp_all add: reader_events_def\<close>)
  from faithful [OF _ this, of 0] obtain s2 where s2: "run_to (table_os reader) 6 1 s1 = Some (Ok Running, s2)"
    "visible (pr_view (rs_os s2 (rs_pid s2))) = visible getpid_exit" by auto
  have "us_mem read_exit 0x1000 = 3" "us_mem getpid_exit 0x1000 = 0" by (simp_all add: reader_defs poke_def)
  with s1 s2 show ?thesis using visible_mem [OF s1(2)] visible_mem [OF s2(2)] by auto
qed

theorem replay_completes_witness:
  "\<exists>s'. run_to_end (table_os reader) 6 reader_session = Some (Ok (OutExited 3), s') \<and> rs_cursor s' = length (rs_records s')"
  using replay_completes [OF table_replayable [OF reader_ok] reader_recorded _ reader_debugged, of 6] by simp

theorem record_replay_faithful_witness:
  "\<exists>out w. record_command (tape_os reader) demo_crc 7 (Ok demo_sink) (tape_spawn reader) [0x61] [] \<lparr>ta_proc = no_procs 7, ta_clock = 0\<rparr>
      = Some (Ok out, Some w) \<and> ro_exit_code out = Some 3
    \<and> (\<exists>s r1 s' s''. launch demo_crc (table_os reader) (Ok [Data (sk_bytes (into_inner w))]) no_procs = (Ok s, r1)
        \<and> run_to_end (table_os reader) 7 s = Some (Ok (OutExited 3), s')
        \<and> run_to (table_os reader) 7 3 s = Some (Ok Running, s'') \<and> us_mem (pr_view (rs_os s'' (rs_pid s''))) 0x1000 = 3)"
proof -
  let ?X = "table_rerun reader" and ?T = "tape reader" and ?o = "\<lparr>ta_proc = no_procs 7, ta_clock = 0\<rparr>"
  have X: "replayable ?X" by (rule table_replayable [OF reader_ok])
  have T: "tapes ?T ?X" by (rule tape_tapes) (simp add: reader_defs)
  have abi: "os_abi (tp_os ?T) = po_abi (rx_os ?X)" by (simp add: tape_def tape_os_def table_os_def)
  have fit: "transfers_fit ?X"
    by (auto simp: transfers_fit_def table_os_def written_region_def kernel_written_region_def regs_at_def regs_of_full_def reader_defs
        word_sless_alt format_consts split: if_splits)
  have st: "starts_target ?T ?X (tape_spawn reader) ?o" by (simp add: tape_starts)
  have k: "sk_bytes demo_sink = []" "sk_room demo_sink = None" by (simp_all add: demo_sink_def)
  have wf: "str_wf [0x61]" "\<forall>a \<in> set ([] :: bytes list). str_wf a" "BASE_HEADER_LEN + length (encode_cmdline [0x61] []) < 2 ^ 16"
    by (simp_all add: str_wf_def utf8_valid.simps encode_cmdline_def push_str_def format_consts)
  have os: "tp_os ?T = tape_os reader" by (simp add: tape_def)
  from record_replay_faithful [OF X T abi fit st k wf, of 7 demo_crc] obtain out w where
    run: "record_command (tape_os reader) demo_crc 7 (Ok demo_sink) (tape_spawn reader) [0x61] [] ?o = Some (Ok out, Some w)"
      "ro_exit_code out = Some 3"
    and replay: "\<And>src r0. clean_source src \<and> source_bytes src = sk_bytes (into_inner w) \<and> roomy ?X {p. rx_at ?X r0 p \<noteq> Gone} \<Longrightarrow>
        (\<exists>s r1. launch demo_crc (table_os reader) (Ok src) r0 = (Ok s, r1)
          \<and> (\<exists>s'. run_to_end (table_os reader) 7 s = Some (Ok (OutExited 3), s'))
          \<and> (\<forall>i < 2. \<exists>s'. run_to (table_os reader) 7 (of_nat (2 * i + 1)) s = Some (Ok Running, s')
              \<and> visible (pr_view (rs_os s' (rs_pid s'))) = visible (snd (tg_calls reader ! i))))"
    by (auto simp: os numeral_2_eq_2)
  have "execution_of (rx_user ?X) (rx_init ?X) (rx_calls ?X) (rx_final ?X)" using X by (simp add: replayable_def)
  from command_records [OF T this st k, of 7 demo_crc "[0x61]" "[]"] run(1) have "sk_bytes (into_inner w) \<noteq> []"
    by (auto simp: os header_bytes_def MAGIC_def)
  with replay [of "[Data (sk_bytes (into_inner w))]" no_procs] no_procs_roomy [OF reader_ok] obtain s r1 s' where
    l: "launch demo_crc (table_os reader) (Ok [Data (sk_bytes (into_inner w))]) no_procs = (Ok s, r1)"
      "run_to_end (table_os reader) 7 s = Some (Ok (OutExited 3), s')"
    and t: "\<forall>i < 2. \<exists>s'. run_to (table_os reader) 7 (of_nat (2 * i + 1)) s = Some (Ok Running, s')
              \<and> visible (pr_view (rs_os s' (rs_pid s'))) = visible (snd (tg_calls reader ! i))" by auto
  from t [rule_format, of 1] obtain s'' where r: "run_to (table_os reader) 7 3 s = Some (Ok Running, s'')"
    "visible (pr_view (rs_os s'' (rs_pid s''))) = visible read_exit" by auto
  have "us_mem read_exit 0x1000 = 3" by (simp add: reader_defs poke_def)
  then have "us_mem (pr_view (rs_os s'' (rs_pid s''))) 0x1000 = 3" using visible_mem [OF r(2)] by simp
  with run l r(1) show ?thesis by blast
qed

end
