(* ===== verification/TestKit.thy ===== *)
theory TestKit
  imports Payload "HOL-Library.Code_Target_Nat"
begin

text \<open>
  What the translations of the unit tests share. A test is a bool-valued definition, true when none of its
  assertions fails and nothing it unwraps is an error; that the model passes it is a lemma.
\<close>

text \<open>\<open>expect\<close> and \<open>unwrap\<close>: the test goes on with the value, or fails.\<close>

definition expect :: "('a, 'e) result \<Rightarrow> ('a \<Rightarrow> bool) \<Rightarrow> bool" where
  "expect r k = (case r of Ok x \<Rightarrow> k x | Err _ \<Rightarrow> False)"

definition expect_some :: "'a option \<Rightarrow> ('a \<Rightarrow> bool) \<Rightarrow> bool" where
  "expect_some r k = (case r of Some x \<Rightarrow> k x | None \<Rightarrow> False)"

lemma expect_simps [simp]:
  "expect (Ok x) k = k x" "expect (Err e) k = False" "expect_some (Some x) k = k x" "expect_some None k = False"
  by (simp_all add: expect_def expect_some_def)

named_theorems tests

end
