(* ===== verification/ReplayTests.thy ===== *)
theory ReplayTests
  imports TestKit ReplaySelect Watchpoint
begin

text \<open>
  The unit tests of \<open>replay/src/schedule.rs\<close>, \<open>checkpoint_select.rs\<close> and \<open>watchpoint.rs\<close>, translated one by
  one and run on the model.
\<close>

unbundle bit_operations_syntax

subsection \<open>The table of thread ids\<close>

definition binds_and_resolves_a_recorded_tid :: bool where [tests]:
  "binds_and_resolves_a_recorded_tid \<longleftrightarrow>
     (let m = tid_map_new in tid_map_is_empty m
      \<and> expect (tid_bind 1000 4242 m) (\<lambda>m. live_of m 1000 = Some 4242 \<and> \<not> tid_map_is_empty m))"

definition rebinding_the_same_pair_is_idempotent :: bool where [tests]:
  "rebinding_the_same_pair_is_idempotent \<longleftrightarrow>
     expect (tid_bind 1 100 tid_map_new) (\<lambda>m. expect (tid_bind 1 100 m) (\<lambda>m. live_of m 1 = Some 100))"

definition conflicting_recorded_binding_is_rejected :: bool where [tests]:
  "conflicting_recorded_binding_is_rejected \<longleftrightarrow>
     expect (tid_bind 1 100 tid_map_new) (\<lambda>m. tid_bind 1 200 m = Err (RecordedRebound 1 100 200))"

definition conflicting_live_binding_is_rejected :: bool where [tests]:
  "conflicting_live_binding_is_rejected \<longleftrightarrow>
     expect (tid_bind 1 100 tid_map_new) (\<lambda>m. tid_bind 2 100 m = Err (LiveRebound 100 1 2))"

definition unbind_forgets_both_directions :: bool where [tests]:
  "unbind_forgets_both_directions \<longleftrightarrow>
     expect (tid_bind 7 700 tid_map_new) (\<lambda>m. case unbind_recorded 7 m of (u, m) \<Rightarrow>
       u = Some 700 \<and> live_of m 7 = None \<and> expect (tid_bind 8 700 m) (\<lambda>m. fst (unbind_recorded 7 m) = None))"

definition test_record :: "u64 \<Rightarrow> event_kind \<Rightarrow> u32 \<Rightarrow> bytes \<Rightarrow> trace_record" where [tests]:
  "test_record seq kind tid payload = \<lparr>rec_seq = seq, rec_event = event_new_with_tid kind seq tid payload\<rparr>"

definition single_threaded_trace_scans_as_single_threaded :: bool where [tests]:
  "single_threaded_trace_scans_as_single_threaded \<longleftrightarrow> \<not> trace_is_multithreaded
     [test_record 1 SyscallEnter 5 (syscall_enter_encode \<lparr>se_nr = 0, se_args = replicate 6 0\<rparr>),
      test_record 2 SyscallExit 5 (replicate 20 0)]"

definition any_lifecycle_kind_marks_a_trace_multithreaded :: bool where [tests]:
  "any_lifecycle_kind_marks_a_trace_multithreaded \<longleftrightarrow>
     trace_is_multithreaded [test_record 1 SchedSwitch 9 (sched_switch_encode \<lparr>ss_tid = 9\<rparr>)]
   \<and> trace_is_multithreaded [test_record 1 ThreadSpawn 5 (thread_spawn_encode \<lparr>ts_parent_tid = 5, ts_child_tid = 6\<rparr>)]
   \<and> trace_is_multithreaded [test_record 1 ThreadExit 6 (le_u32 6)]"

lemma schedule_tests_pass:
  "binds_and_resolves_a_recorded_tid" "rebinding_the_same_pair_is_idempotent" "conflicting_recorded_binding_is_rejected"
  "conflicting_live_binding_is_rejected" "unbind_forgets_both_directions" "single_threaded_trace_scans_as_single_threaded"
  "any_lifecycle_kind_marks_a_trace_multithreaded"
  by (simp_all add: tests tid_map_is_empty_def tid_map_new_def tid_bind_def live_of_def unbind_recorded_def
      trace_is_multithreaded_def is_lifecycle_kind_def event_new_with_tid_def)

subsection \<open>Checkpoint selection\<close>

definition no_checkpoint_is_ever_due_when_interval_is_zero :: bool where [tests]:
  "no_checkpoint_is_ever_due_when_interval_is_zero \<longleftrightarrow> \<not> is_checkpoint_due None 1000 0 \<and> \<not> is_checkpoint_due (Some 10) 1000 0"

definition first_checkpoint_is_due_once_current_reaches_the_interval :: bool where [tests]:
  "first_checkpoint_is_due_once_current_reaches_the_interval \<longleftrightarrow>
     \<not> is_checkpoint_due None 3 4 \<and> is_checkpoint_due None 4 4 \<and> is_checkpoint_due None 9 4"

definition subsequent_checkpoints_wait_a_full_interval_past_the_last :: bool where [tests]:
  "subsequent_checkpoints_wait_a_full_interval_past_the_last \<longleftrightarrow>
     \<not> is_checkpoint_due (Some 8) 11 4 \<and> is_checkpoint_due (Some 8) 12 4 \<and> is_checkpoint_due (Some 8) 20 4"

definition interval_arithmetic_saturates_instead_of_overflowing :: bool where [tests]:
  "interval_arithmetic_saturates_instead_of_overflowing \<longleftrightarrow> \<not> is_checkpoint_due (Some (- 1 - 2)) 10 (- 1)"

definition nearest_picks_the_greatest_seq_at_or_before_the_target :: bool where [tests]:
  "nearest_picks_the_greatest_seq_at_or_before_the_target \<longleftrightarrow> (let seqs = [2, 6, 10, 14] in
     nearest_at_or_before seqs 11 = Some 2 \<and> nearest_at_or_before seqs 10 = Some 2
   \<and> nearest_at_or_before seqs 6 = Some 1 \<and> nearest_at_or_before seqs 100 = Some 3)"

definition nearest_is_none_when_all_checkpoints_are_after_the_target :: bool where [tests]:
  "nearest_is_none_when_all_checkpoints_are_after_the_target \<longleftrightarrow>
     nearest_at_or_before [6, 10, 14] 5 = None \<and> nearest_at_or_before [] 5 = None"

definition fresh_session_only_restarts_when_the_start_is_past_entry :: bool where [tests]:
  "fresh_session_only_restarts_when_the_start_is_past_entry \<longleftrightarrow> \<not> should_restart None 0 100 \<and> should_restart None 20 100"

definition running_session_restarts_to_go_backward_or_to_skip_ahead :: bool where [tests]:
  "running_session_restarts_to_go_backward_or_to_skip_ahead \<longleftrightarrow>
     should_restart (Some 50) 20 30 \<and> should_restart (Some 10) 40 60
   \<and> \<not> should_restart (Some 10) 10 60 \<and> \<not> should_restart (Some 10) 0 60"

lemma checkpoint_select_tests_pass:
  "no_checkpoint_is_ever_due_when_interval_is_zero" "first_checkpoint_is_due_once_current_reaches_the_interval"
  "subsequent_checkpoints_wait_a_full_interval_past_the_last" "interval_arithmetic_saturates_instead_of_overflowing"
  "nearest_picks_the_greatest_seq_at_or_before_the_target" "nearest_is_none_when_all_checkpoints_are_after_the_target"
  "fresh_session_only_restarts_when_the_start_is_past_entry" "running_session_restarts_to_go_backward_or_to_skip_ahead"
  by (simp_all add: tests is_checkpoint_due_def u64_saturating_add_def nearest_at_or_before_def should_restart_def
      word_order.extremum_unique unsigned_minus_1_eq_mask mask_eq_exp_minus_1)

subsection \<open>Watchpoints\<close>

definition validate_accepts_supported_lengths_when_aligned :: bool where [tests]:
  "validate_accepts_supported_lengths_when_aligned \<longleftrightarrow>
     is_ok (watch_validate 0x1000 1) \<and> is_ok (watch_validate 0x1000 2) \<and> is_ok (watch_validate 0x1000 4)
   \<and> is_ok (watch_validate 0x1000 8) \<and> is_ok (watch_validate 0x1004 4) \<and> is_ok (watch_validate 0x1002 2)"

definition validate_rejects_unsupported_lengths :: bool where [tests]:
  "validate_rejects_unsupported_lengths \<longleftrightarrow> watch_validate 0x1000 3 = Err (InvalidLen 3)
   \<and> watch_validate 0x1000 0 = Err (InvalidLen 0) \<and> watch_validate 0x1000 16 = Err (InvalidLen 16)"

definition validate_rejects_misaligned_addresses :: bool where [tests]:
  "validate_rejects_misaligned_addresses \<longleftrightarrow> watch_validate 0x1001 4 = Err (Misaligned 0x1001 4)
   \<and> watch_validate 0x1002 8 = Err (Misaligned 0x1002 8)"

definition fits_in_granule_matches_natural_alignment :: bool where [tests]:
  "fits_in_granule_matches_natural_alignment \<longleftrightarrow> fits_in_granule 0x1000 8 \<and> fits_in_granule 0x1004 4
   \<and> \<not> fits_in_granule 0x1005 4 \<and> \<not> fits_in_granule 0x1001 8"

definition x86_dr7_encodes_write_watch_of_eight_bytes :: bool where [tests]:
  "x86_dr7_encodes_write_watch_of_eight_bytes \<longleftrightarrow> expect (x86_dr7 WatchWrite 8) (\<lambda>dr7.
     dr7 = 1 OR push_bit 16 1 OR push_bit 18 2 \<and> dr7 = 0x90001)"

definition x86_dr7_encodes_readwrite_watch_of_four_bytes :: bool where [tests]:
  "x86_dr7_encodes_readwrite_watch_of_four_bytes \<longleftrightarrow> expect (x86_dr7 WatchReadWrite 4) (\<lambda>dr7.
     dr7 = 1 OR push_bit 16 3 OR push_bit 18 3 \<and> dr7 = 0xf0001)"

definition x86_dr7_rejects_bad_length :: bool where [tests]:
  "x86_dr7_rejects_bad_length \<longleftrightarrow> x86_dr7 WatchWrite 3 = Err (InvalidLen 3)"

definition aarch64_control_encodes_aligned_eight_byte_write :: bool where [tests]:
  "aarch64_control_encodes_aligned_eight_byte_write \<longleftrightarrow> expect (aarch64_control 0x4020 8 WatchWrite) (\<lambda>(aligned, ctrl).
     aligned = 0x4020 \<and> ctrl = 1 OR push_bit 1 2 OR push_bit 3 2 OR push_bit 5 0xff \<and> ctrl = 0x1ff5)"

definition aarch64_control_selects_sub_granule_bytes_via_bas :: bool where [tests]:
  "aarch64_control_selects_sub_granule_bytes_via_bas \<longleftrightarrow> expect (aarch64_control 0x4024 4 WatchReadWrite) (\<lambda>(aligned, ctrl).
     aligned = 0x4020 \<and> (let bas = push_bit 5 (push_bit 4 0xf) in ctrl = 1 OR push_bit 1 2 OR push_bit 3 3 OR bas))"

definition aarch64_control_rejects_bad_length :: bool where [tests]:
  "aarch64_control_rejects_bad_length \<longleftrightarrow> aarch64_control 0x4020 5 WatchWrite = Err (InvalidLen 5)"

lemma watchpoint_tests_pass:
  "validate_accepts_supported_lengths_when_aligned" "validate_rejects_unsupported_lengths" "validate_rejects_misaligned_addresses"
  "fits_in_granule_matches_natural_alignment" "x86_dr7_encodes_write_watch_of_eight_bytes"
  by code_simp+

lemma watchpoint_tests_pass_2:
  "x86_dr7_encodes_readwrite_watch_of_four_bytes" "x86_dr7_rejects_bad_length" "aarch64_control_encodes_aligned_eight_byte_write"
  "aarch64_control_selects_sub_granule_bytes_via_bas" "aarch64_control_rejects_bad_length"
  by code_simp+

end
