(* ===== verification/RecorderTests.thy ===== *)
theory RecorderTests
  imports TestKit
begin

text \<open>
  The unit tests of \<open>recorder/src/capture/payload.rs\<close> and \<open>recorder-ebpf-common/src/lib.rs\<close>, run on the
  model. A round trip is an instance of its codec's law, a rejection is computed from the lengths.
\<close>

subsection \<open>Payloads\<close>

definition syscall_enter_round_trips :: bool where [tests]:
  "syscall_enter_round_trips \<longleftrightarrow> (let enter = \<lparr>se_nr = 63, se_args = [3, 0x7fff0000, 4096, 0, - 1, 7]\<rparr> in
     expect (syscall_enter_decode (syscall_enter_encode enter)) (\<lambda>d. d = enter))"

definition syscall_exit_round_trips_with_captured_data :: bool where [tests]:
  "syscall_exit_round_trips_with_captured_data \<longleftrightarrow>
     (let exit = \<lparr>sx_nr = 63, sx_ret = 5, sx_data = [0xde, 0xad, 0xbe, 0xef, 0x00]\<rparr> in
      expect (syscall_exit_decode (syscall_exit_encode exit)) (\<lambda>d. d = exit))"

definition syscall_exit_round_trips_negative_errno_and_empty_data :: bool where [tests]:
  "syscall_exit_round_trips_negative_errno_and_empty_data \<longleftrightarrow> (let exit = \<lparr>sx_nr = 63, sx_ret = - 11, sx_data = []\<rparr> in
     expect (syscall_exit_decode (syscall_exit_encode exit)) (\<lambda>d. d = exit))"

definition is_too_short :: "('a, payload_error) result \<Rightarrow> bool" where [tests]:
  "is_too_short r \<longleftrightarrow> (case r of Err (TooShort _ _) \<Rightarrow> True | _ \<Rightarrow> False)"

definition rejects_short_enter_payload :: bool where [tests]:
  "rejects_short_enter_payload \<longleftrightarrow> is_too_short (syscall_enter_decode (replicate 10 0))"

definition sched_switch_round_trips :: bool where [tests]:
  "sched_switch_round_trips \<longleftrightarrow> (let ev = \<lparr>ss_tid = 4242\<rparr> in
     expect (sched_switch_decode (sched_switch_encode ev)) (\<lambda>d. d = ev))"

definition thread_spawn_round_trips :: bool where [tests]:
  "thread_spawn_round_trips \<longleftrightarrow> (let ev = \<lparr>ts_parent_tid = 1000, ts_child_tid = 1001\<rparr> in
     expect (thread_spawn_decode (thread_spawn_encode ev)) (\<lambda>d. d = ev))"

definition thread_exit_round_trips :: bool where [tests]:
  "thread_exit_round_trips \<longleftrightarrow> (let ev = \<lparr>te_tid = 1001\<rparr> in
     expect (thread_exit_decode (thread_exit_encode ev)) (\<lambda>d. d = ev))"

definition rejects_short_sched_payloads :: bool where [tests]:
  "rejects_short_sched_payloads \<longleftrightarrow>
     is_too_short (sched_switch_decode (replicate 2 0)) \<and> is_too_short (thread_spawn_decode (replicate 5 0))"

definition signal_delivery_round_trips :: bool where [tests]:
  "signal_delivery_round_trips \<longleftrightarrow> (let ev = \<lparr>sd_signum = 11\<rparr> in
     expect (signal_delivery_decode (signal_delivery_encode ev)) (\<lambda>d. d = ev))"

definition rejects_short_signal_payload :: bool where [tests]:
  "rejects_short_signal_payload \<longleftrightarrow> is_too_short (signal_delivery_decode (replicate 2 0))"

definition rejects_exit_payload_with_inconsistent_length :: bool where [tests]:
  "rejects_exit_payload_with_inconsistent_length \<longleftrightarrow>
     (let bytes = syscall_exit_encode \<lparr>sx_nr = 0, sx_ret = 4, sx_data = [1, 2, 3, 4]\<rparr> in
      syscall_exit_decode (take (length bytes - 1) bytes) = Err LengthMismatch)"

lemmas prefix_round_trips =
  sched_switch_codec.dec_prefix [where zs = "[]", simplified] thread_spawn_codec.dec_prefix [where zs = "[]", simplified]
  thread_exit_codec.dec_prefix [where zs = "[]", simplified] signal_delivery_codec.dec_prefix [where zs = "[]", simplified]

lemma syscall_payload_tests_pass:
  "syscall_enter_round_trips" "syscall_exit_round_trips_with_captured_data"
  "syscall_exit_round_trips_negative_errno_and_empty_data"
  by (simp_all add: tests Let_def syscall_enter_codec.dec_enc syscall_exit_codec.dec_enc args6_def)

lemma scheduling_payload_tests_pass:
  "sched_switch_round_trips" "thread_spawn_round_trips" "thread_exit_round_trips" "signal_delivery_round_trips"
  by (simp_all add: tests Let_def prefix_round_trips)

lemma payload_rejection_tests_pass:
  "rejects_short_enter_payload" "rejects_short_sched_payloads" "rejects_short_signal_payload"
  by (simp_all add: tests syscall_enter_decode_def ENTER_LEN_def codec_defs payload_read_u32_eq)

lemma payload_length_test_passes: "rejects_exit_payload_with_inconsistent_length"
  by (simp add: tests Let_def syscall_exit_encode_def syscall_exit_decode_def EXIT_PREFIX_LEN_def)

subsection \<open>The ring-buffer record\<close>

definition enter_event_round_trips :: bool where [tests]:
  "enter_event_round_trips \<longleftrightarrow> (let ev = \<lparr>raw_kind = KIND_ENTER, raw_tgid = 4242, raw_tid = 4243, raw_timestamp_ns = 123456789,
       raw_nr = 63, raw_args = [3, 0x7fff0000, 4096, 0, - 1, 7], raw_ret = 0\<rparr> in
     expect_some (raw_decode (raw_encode ev)) (\<lambda>d. d = ev))"

definition exit_event_round_trips_negative_ret :: bool where [tests]:
  "exit_event_round_trips_negative_ret \<longleftrightarrow> (let ev = \<lparr>raw_kind = KIND_EXIT, raw_tgid = 1, raw_tid = 1, raw_timestamp_ns = 42,
       raw_nr = 63, raw_args = replicate 6 0, raw_ret = - 11\<rparr> in
     expect_some (raw_decode (raw_encode ev)) (\<lambda>d. d = ev))"

definition decode_rejects_short_buffer :: bool where [tests]:
  "decode_rejects_short_buffer \<longleftrightarrow> raw_decode (replicate 10 0) = None"

definition encoded_len_matches_constant :: bool where [tests]:
  "encoded_len_matches_constant \<longleftrightarrow> (let ev = \<lparr>raw_kind = KIND_ENTER, raw_tgid = 0, raw_tid = 0, raw_timestamp_ns = 0,
       raw_nr = 0, raw_args = replicate 6 0, raw_ret = 0\<rparr> in length (raw_encode ev) = RAW_EVENT_LEN)"

lemma raw_round_trip_expected: "args6 (raw_args e) \<Longrightarrow> expect_some (raw_decode (raw_encode e)) (\<lambda>d. d = e)"
  using raw_event_codec.dec_prefix [of e "[]"] by (simp add: raw_decode_result_def split: option.splits)

lemma ring_buffer_tests_pass:
  "enter_event_round_trips" "exit_event_round_trips_negative_ret" "encoded_len_matches_constant"
  by (simp_all add: tests Let_def raw_round_trip_expected args6_def raw_event_codec.length_enc)

lemma ring_buffer_rejection_test_passes: "decode_rejects_short_buffer"
  by (simp add: tests raw_decode_def RAW_EVENT_LEN_def)

end
