(* ===== verification/ModelTests.thy ===== *)
theory ModelTests
  imports TestKit SemanticDecoder
begin

text \<open>
  The unit tests of the task model (\<open>decoder/src/model/{tree,frame,task,timeline,wake,variable}.rs\<close>) and of the
  decoder over OS threads (\<open>native.rs\<close>), run on the model.
\<close>

subsection \<open>The task tree\<close>

definition tree_test_node :: "u64 \<Rightarrow> u64 option \<Rightarrow> task_node" where
  "tree_test_node i parent = \<lparr>tn_id = i, tn_name = ''task-'' @ show_dec (unat i), tn_kind = AsyncTask, tn_state = Runnable,
     tn_parent = parent\<rparr>"

definition single_root_with_no_children :: bool where
  "single_root_with_no_children \<longleftrightarrow> expect (try_from_nodes [tree_test_node 1 None]) (\<lambda>tree.
     tt_roots tree = [1] \<and> tree_children tree 1 = [] \<and> tree_len tree = 1)"

definition join_fan_out_becomes_ordered_children :: bool where
  "join_fan_out_becomes_ordered_children \<longleftrightarrow>
     expect (try_from_nodes [tree_test_node 1 None, tree_test_node 2 (Some 1), tree_test_node 3 (Some 1)]) (\<lambda>tree.
       tt_roots tree = [1] \<and> tree_children tree 1 = [2, 3] \<and> flatten_preorder (tree_len tree) tree = Some [1, 2, 3])"

definition select_nested_branches_flatten_depth_first :: bool where
  "select_nested_branches_flatten_depth_first \<longleftrightarrow>
     expect (try_from_nodes [tree_test_node 1 None, tree_test_node 2 (Some 1), tree_test_node 3 (Some 1), tree_test_node 4 (Some 3),
       tree_test_node 5 (Some 3)]) (\<lambda>tree. flatten_preorder (tree_len tree) tree = Some [1, 2, 3, 4, 5])"

definition is_invalid_tree :: "('a, decoder_error) result \<Rightarrow> bool" where
  "is_invalid_tree r \<longleftrightarrow> (case r of Err (InvalidTaskTree _) \<Rightarrow> True | _ \<Rightarrow> False)"

definition rejects_duplicate_ids :: bool where
  "rejects_duplicate_ids \<longleftrightarrow> is_invalid_tree (try_from_nodes [tree_test_node 1 None, tree_test_node 1 None])"

definition rejects_dangling_parent :: bool where
  "rejects_dangling_parent \<longleftrightarrow> is_invalid_tree (try_from_nodes [tree_test_node 1 (Some 99)])"

definition unknown_id_lookups_return_empty_or_none :: bool where
  "unknown_id_lookups_return_empty_or_none \<longleftrightarrow> expect (try_from_nodes [tree_test_node 1 None]) (\<lambda>tree.
     tree_node tree 404 = None \<and> tree_children tree 404 = [])"

definition empty_tree_is_empty :: bool where
  "empty_tree_is_empty \<longleftrightarrow> expect (try_from_nodes []) (\<lambda>tree. tree_is_empty tree \<and> flatten_preorder (tree_len tree) tree = Some [])"

lemma tree_tests_pass:
  "single_root_with_no_children" "join_fan_out_becomes_ordered_children" "select_nested_branches_flatten_depth_first"
  "rejects_duplicate_ids"
  by code_simp+

lemma tree_tests_pass_2:
  "rejects_dangling_parent" "unknown_id_lookups_return_empty_or_none" "empty_tree_is_empty"
  by code_simp+

subsection \<open>Frames, nodes, timelines and wake causes\<close>

definition from_physical_uses_pc_when_name_missing :: bool where
  "from_physical_uses_pc_when_name_missing \<longleftrightarrow>
     (let frame = from_physical \<lparr>pf_pc = 0xdeadbeef, pf_sp = 0, pf_function_name = None, pf_location = None\<rparr> in
      lf_display_name frame = ''0xdeadbeef'' \<and> lf_origin frame = Physical \<and> lf_suspend frame = None)"

definition from_physical_prefers_function_name :: bool where
  "from_physical_prefers_function_name \<longleftrightarrow>
     lf_display_name (from_physical \<lparr>pf_pc = 1, pf_sp = 0, pf_function_name = Some ''main'', pf_location = None\<rparr>) = ''main''"

definition describe_suspend_composes_kind_and_detail :: bool where
  "describe_suspend_composes_kind_and_detail \<longleftrightarrow>
     describe_suspend \<lparr>lf_display_name = ''poll'', lf_location = None,
       lf_suspend = Some \<lparr>sp_kind = ChannelRecv, sp_detail = Some ''#4''\<rparr>, lf_origin = Synthesized\<rparr>
     = Some ''awaiting: recv on channel #4''"

definition describe_suspend_without_detail :: bool where
  "describe_suspend_without_detail \<longleftrightarrow>
     describe_suspend \<lparr>lf_display_name = ''poll'', lf_location = None, lf_suspend = Some \<lparr>sp_kind = SuspendTimer, sp_detail = None\<rparr>,
       lf_origin = Synthesized\<rparr> = Some ''awaiting: timer''"

definition describe_suspend_none_when_not_suspended :: bool where
  "describe_suspend_none_when_not_suspended \<longleftrightarrow>
     describe_suspend \<lparr>lf_display_name = ''main'', lf_location = None, lf_suspend = None, lf_origin = Physical\<rparr> = None"

definition root_constructor_has_no_parent :: bool where
  "root_constructor_has_no_parent \<longleftrightarrow> (let node = node_root 1 ''main'' Thread Running in
     tn_parent node = None \<and> tn_name node = ''main'')"

definition child_constructor_records_parent :: bool where
  "child_constructor_records_parent \<longleftrightarrow> tn_parent (node_child 2 ''select branch 0'' AsyncTask Runnable 1) = Some 1"

definition timeline_test_event :: "u64 \<Rightarrow> u64 \<Rightarrow> timeline_event" where
  "timeline_test_event start stop = \<lparr>te_task = 1, te_seq_start = start, te_seq_end = stop, te_from_state = Running,
     te_to_state = Blocked BlockTimer\<rparr>"

definition covers_is_inclusive_start_exclusive_end :: bool where
  "covers_is_inclusive_start_exclusive_end \<longleftrightarrow> (let event = timeline_test_event 100 200 in
     timeline_covers event 100 \<and> timeline_covers event 150 \<and> \<not> timeline_covers event 200 \<and> \<not> timeline_covers event 99)"

definition io_wake_cause_carries_fd_and_description :: bool where
  "io_wake_cause_carries_fd_and_description \<longleftrightarrow>
     (case WakeIo \<lparr>iw_fd = Some 4, iw_description = Some ''socket readable''\<rparr> of
        WakeIo detail \<Rightarrow> iw_fd detail = Some 4 \<and> iw_description detail = Some ''socket readable''
      | _ \<Rightarrow> False)"

definition new_has_no_type_hint :: bool where
  "new_has_no_type_hint \<longleftrightarrow> va_type_hint (variable_new ''x'' ''42'') = None"

definition with_type_carries_hint :: bool where
  "with_type_carries_hint \<longleftrightarrow> va_type_hint (variable_with_type ''x'' ''42'' ''i32'') = Some ''i32''"

lemma frame_tests_pass:
  "from_physical_uses_pc_when_name_missing" "from_physical_prefers_function_name" "describe_suspend_composes_kind_and_detail"
  "describe_suspend_without_detail"
  by code_simp+

lemma frame_tests_pass_2:
  "describe_suspend_none_when_not_suspended" "root_constructor_has_no_parent" "child_constructor_records_parent"
  "covers_is_inclusive_start_exclusive_end"
  by code_simp+

lemma frame_tests_pass_3:
  "io_wake_cause_carries_fd_and_description" "new_has_no_type_hint" "with_type_carries_hint"
  by code_simp+

subsection \<open>The decoder over OS threads\<close>

definition single_thread_view :: "thread_id \<Rightarrow> physical_frame list \<Rightarrow> process_view" where
  "single_thread_view own frames = \<lparr>pv_thread_ids = [own],
     pv_registers = \<lambda>thread. if thread = own then Ok \<lparr>tr_pc = 0, tr_sp = 0\<rparr> else Err (UnknownThread thread),
     pv_read_memory = \<lambda>addr len. Ok (replicate len 0),
     pv_physical_frames = \<lambda>thread. if thread = own then Ok frames else Err (UnknownThread thread),
     pv_thread_pointer = \<lambda>thread. Ok None, pv_executable_base = None\<rparr>"

definition native_test_view :: process_view where
  "native_test_view = single_thread_view 1 [\<lparr>pf_pc = 0x1000, pf_sp = 0x7fff, pf_function_name = Some ''main'', pf_location = None\<rparr>]"

definition decode_tasks_maps_one_thread_to_one_root_task :: bool where
  "decode_tasks_maps_one_thread_to_one_root_task \<longleftrightarrow> expect (native_decode_tasks native_test_view) (\<lambda>tree.
     tt_roots tree = [1] \<and> expect_some (tree_node tree 1) (\<lambda>node. tn_kind node = Thread) \<and> tree_children tree 1 = [])"

definition logical_stack_copies_physical_frames_marked_physical :: bool where
  "logical_stack_copies_physical_frames_marked_physical \<longleftrightarrow> expect (native_logical_stack native_test_view 1) (\<lambda>stack.
     length stack = 1 \<and> lf_display_name (stack ! 0) = ''main'' \<and> lf_origin (stack ! 0) = Physical)"

definition logical_stack_unknown_task_errors :: bool where
  "logical_stack_unknown_task_errors \<longleftrightarrow> (case native_logical_stack native_test_view 404 of Err (UnknownTask _) \<Rightarrow> True | _ \<Rightarrow> False)"

definition wake_cause_is_honestly_unknown :: bool where
  "wake_cause_is_honestly_unknown \<longleftrightarrow> expect (native_wake_cause native_test_view 1) (\<lambda>cause. cause = WakeUnknown)"

definition locals_at_is_empty_for_native_threads :: bool where
  "locals_at_is_empty_for_native_threads \<longleftrightarrow> expect (native_logical_stack native_test_view 1) (\<lambda>stack.
     expect (native_locals_at native_test_view 1 (stack ! 0)) (\<lambda>locals. locals = []))"

lemma native_tests_pass:
  "decode_tasks_maps_one_thread_to_one_root_task" "logical_stack_copies_physical_frames_marked_physical"
  "logical_stack_unknown_task_errors" "wake_cause_is_honestly_unknown" "locals_at_is_empty_for_native_threads"
  by code_simp+

end
