(* ===== verification/LayoutTests.thy ===== *)
theory LayoutTests
  imports TestKit GoDecoder TokioEnumerate
begin

text \<open>
  The unit tests of the decoders' layouts, versions and states (\<open>decoder/src/async_rust/{state,layout,rustc_version,
  roots}.rs\<close>, \<open>async_rust/enumerate/{tls,layout,dwarf}.rs\<close> and \<open>go/{status,version,offsets}.rs\<close>), run on the model.
\<close>

unbundle bit_operations_syntax

subsection \<open>State words and leaf futures\<close>

definition running_bit_is_running :: bool where
  "running_bit_is_running \<longleftrightarrow> classify_header_state (RUNNING OR push_bit 6 3) = Running"

definition complete_and_cancelled_are_completed :: bool where
  "complete_and_cancelled_are_completed \<longleftrightarrow> classify_header_state COMPLETE = Completed \<and> classify_header_state CANCELLED = Completed"

definition notified_only_is_runnable :: bool where
  "notified_only_is_runnable \<longleftrightarrow> classify_header_state (NOTIFIED OR JOIN_INTEREST OR push_bit 6 3) = Runnable"

definition idle_is_blocked_unknown :: bool where
  "idle_is_blocked_unknown \<longleftrightarrow> classify_header_state (JOIN_INTEREST OR push_bit 6 2) = Blocked BlockUnknown"

definition ref_count_reads_high_bits :: bool where
  "ref_count_reads_high_bits \<longleftrightarrow> ref_count (push_bit 6 3 OR NOTIFIED) = 3"

definition variant_maps_to_state :: bool where
  "variant_maps_to_state \<longleftrightarrow> state_from_variant Unresumed = Runnable \<and> state_from_variant Returned = Completed
   \<and> state_from_variant (Suspend 0) = Blocked BlockUnknown"

definition classifies_sleep_as_timer :: bool where
  "classifies_sleep_as_timer \<longleftrightarrow> (let c = classify_leaf ''tokio::time::sleep::Sleep'' in
     lc_suspend c = SuspendTimer \<and> lc_wake c = WakeTimer \<and> lc_block c = BlockTimer)"

definition classifies_channel_recv :: bool where
  "classifies_channel_recv \<longleftrightarrow> (let c = classify_leaf ''tokio::sync::mpsc::bounded::Recv<u32>'' in
     lc_suspend c = ChannelRecv \<and> (case lc_block c of BlockChannel _ \<Rightarrow> True | _ \<Rightarrow> False)
   \<and> (case lc_wake c of WakeChannel _ \<Rightarrow> True | _ \<Rightarrow> False))"

definition unrecognized_leaf_is_honestly_unknown :: bool where
  "unrecognized_leaf_is_honestly_unknown \<longleftrightarrow> (let c = classify_leaf ''my_crate::CustomFuture'' in
     lc_suspend c = SuspendOther \<and> lc_wake c = WakeUnknown \<and> lc_block c = BlockUnknown)"

definition short_name_strips_path_and_generics :: bool where
  "short_name_strips_path_and_generics \<longleftrightarrow> short_type ''tokio::sync::mpsc::Recv<u32>'' = ''Recv''"

lemma state_tests_pass:
  "running_bit_is_running" "complete_and_cancelled_are_completed" "notified_only_is_runnable" "idle_is_blocked_unknown"
  "ref_count_reads_high_bits"
  by code_simp+

lemma state_tests_pass_2:
  "variant_maps_to_state" "classifies_sleep_as_timer" "classifies_channel_recv" "unrecognized_leaf_is_honestly_unknown"
  "short_name_strips_path_and_generics"
  by code_simp+

subsection \<open>Coroutine layouts\<close>

definition parses_variant_kinds :: bool where
  "parses_variant_kinds \<longleftrightarrow> from_struct_name ''Unresumed'' = Some Unresumed \<and> from_struct_name ''Returned'' = Some Returned
   \<and> from_struct_name ''Panicked'' = Some Panicked \<and> from_struct_name ''Suspend0'' = Some (Suspend 0)
   \<and> from_struct_name ''Suspend7'' = Some (Suspend 7) \<and> from_struct_name ''Nonsense'' = None"

definition suspend_predicate :: bool where
  "suspend_predicate \<longleftrightarrow> is_suspend (Suspend 2) \<and> \<not> is_suspend Returned"

definition selects_variant_by_discriminant :: bool where
  "selects_variant_by_discriminant \<longleftrightarrow>
     (let variants = bt_insert 3 (variant_terminal (Suspend 0)) (bt_insert 0 (variant_terminal Unresumed) []);
          layout = \<lparr>al_type_name = ''probe::sleeper::{async_fn_env#0}'', al_byte_size = 128, al_discr_offset = 120, al_discr_size = 1,
            al_variants = variants\<rparr> in
      expect_some (variant_for layout 3) (\<lambda>v. vi_kind v = Suspend 0) \<and> variant_for layout 9 = None
    \<and> layout_short_name layout = ''sleeper'')"

definition registry_lookup_and_membership :: bool where
  "registry_lookup_and_membership \<longleftrightarrow>
     (let layouts = layouts_insert \<lparr>al_type_name = ''a::b::{async_fn_env#0}'', al_byte_size = 8, al_discr_offset = 0, al_discr_size = 1,
            al_variants = []\<rparr> Map.empty in
      is_coroutine layouts ''a::b::{async_fn_env#0}'' \<and> \<not> is_coroutine layouts ''tokio::time::Sleep''
    \<and> layouts ''a::b::{async_fn_env#0}'' \<noteq> None)"

definition parses_canonical_producer :: bool where
  "parses_canonical_producer \<longleftrightarrow>
     parse_producer ''clang LLVM (rustc version 1.85.1 (4eb161250 2025-03-15))'' = Some (rustc_version_new 1 85 1)"

definition parses_major_minor_only_producer :: bool where
  "parses_major_minor_only_producer \<longleftrightarrow>
     parse_producer ''clang LLVM (rustc version 1.90 (abcdef 2026-01-01))'' = Some (rustc_version_new 1 90 0)"

definition parses_nightly_suffix :: bool where
  "parses_nightly_suffix \<longleftrightarrow>
     parse_producer ''clang LLVM (rustc version 1.94.0-nightly (deadbeef 2026-03-02))'' = Some (rustc_version_new 1 94 0)"

definition rejects_non_rustc_producer :: bool where
  "rejects_non_rustc_producer \<longleftrightarrow> parse_producer ''GNU C17 13.2.0'' = None \<and> parse_producer '''' = None"

definition support_window_gates_versions :: bool where
  "support_window_gates_versions \<longleftrightarrow> is_supported (rustc_version_new 1 85 1) \<and> is_supported (rustc_version_new 1 63 0)
   \<and> \<not> is_supported (rustc_version_new 1 62 0) \<and> \<not> is_supported (rustc_version_new 2 0 0)"

definition builder_sets_fields :: bool where
  "builder_sets_fields \<longleftrightarrow> (let r = with_header (task_root_new 7 0x1000 ''probe::sleeper::{async_fn_env#0}'') 0x9000 in
     ro_id r = 7 \<and> ro_base r = 0x1000 \<and> ro_header_addr r = Some 0x9000 \<and> ro_type_name r = ''probe::sleeper::{async_fn_env#0}'')"

lemma layout_tests_pass:
  "parses_variant_kinds" "suspend_predicate" "selects_variant_by_discriminant" "registry_lookup_and_membership"
  "parses_canonical_producer"
  by code_simp+

lemma layout_tests_pass_2:
  "parses_major_minor_only_producer" "parses_nightly_suffix" "rejects_non_rustc_producer" "support_window_gates_versions"
  "builder_sets_fields"
  by code_simp+

subsection \<open>Enumerating a Tokio runtime\<close>

definition aligns_up_to_power_of_two :: bool where
  "aligns_up_to_power_of_two \<longleftrightarrow> align_up 16 8 = 16 \<and> align_up 16 32 = 32 \<and> align_up 17 16 = 32 \<and> align_up 5 1 = 5"

definition variant_i_matches_measured_aarch64_tokio_target :: bool where
  "variant_i_matches_measured_aarch64_tokio_target \<longleftrightarrow> static_tls_address VariantI 0xffff841bd760 0 8 72 = 0xffff841bd770"

definition variant_i_respects_large_tls_alignment :: bool where
  "variant_i_respects_large_tls_alignment \<longleftrightarrow> static_tls_address VariantI 0x1000 8 64 128 = 0x1000 + 64 + 8"

definition variant_ii_places_block_below_tp :: bool where
  "variant_ii_places_block_below_tp \<longleftrightarrow> static_tls_address VariantII 0x10000 8 16 72 = 0x10000 - 80 + 8"

definition detects_embedded_tokio_version :: bool where
  "detects_embedded_tokio_version \<longleftrightarrow>
     tokio_detect_in_bytes (str_bytes ''junk'' @ [0] @ str_bytes ''/root/.cargo/registry/src/index/tokio-1.44.2/src/lib.rs'' @ [0] @ str_bytes ''more'')
     = Some \<lparr>tv_major = 1, tv_minor = 44, tv_patch = 2\<rparr>"

definition returns_none_without_a_version_string :: bool where
  "returns_none_without_a_version_string \<longleftrightarrow> tokio_detect_in_bytes (str_bytes ''no version here'') = None"

definition vendored_1_44_has_verified_offsets :: bool where
  "vendored_1_44_has_verified_offsets \<longleftrightarrow> expect (tokio_vendored \<lparr>tv_major = 1, tv_minor = 44, tv_patch = 2\<rparr>) (\<lambda>l.
     tl_shared_owned l = 104 \<and> tl_vtable_trailer_offset l = 56 \<and> tl_future_offset l = 56 \<and> tl_shard_stride l = 24)"

definition unverified_version_declines :: bool where
  "unverified_version_declines \<longleftrightarrow>
     (case tokio_vendored \<lparr>tv_major = 1, tv_minor = 30, tv_patch = 0\<rparr> of Err (UnsupportedTokioVersion _) \<Rightarrow> True | _ \<Rightarrow> False)"

definition version_displays_as_triple :: bool where
  "version_displays_as_triple \<longleftrightarrow> tokio_version_display \<lparr>tv_major = 1, tv_minor = 44, tv_patch = 2\<rparr> = ''1.44.2''"

definition extracts_first_generic_arg :: bool where
  "extracts_first_generic_arg \<longleftrightarrow> first_generic_arg ''poll<tokfix::sleeper::{async_fn_env#0}, alloc::sync::Arc<H>>''
     = Some ''tokfix::sleeper::{async_fn_env#0}''"

definition preserves_nested_generics_in_first_arg :: bool where
  "preserves_nested_generics_in_first_arg \<longleftrightarrow>
     first_generic_arg ''poll<core::pin::Pin<Box<F, G>>, S>'' = Some ''core::pin::Pin<Box<F, G>>''"

definition ignores_non_poll_names :: bool where
  "ignores_non_poll_names \<longleftrightarrow> first_generic_arg ''poll_future<F, S>'' = None"

definition recognizes_context_symbol_forms :: bool where
  "recognizes_context_symbol_forms \<longleftrightarrow> is_context_symbol ''_ZN5tokio7runtime7context7CONTEXT29foo''
   \<and> is_context_symbol ''tokio..runtime..context..CONTEXT..bar'' \<and> \<not> is_context_symbol ''_ZN5tokio7runtime7context11set_current''"

definition rejects_non_elf_geometry :: bool where
  "rejects_non_elf_geometry \<longleftrightarrow> (case elf_geometry (str_bytes ''not an elf'') of Err (EnumParse _) \<Rightarrow> True | _ \<Rightarrow> False)"

lemma bytes_str_of [simp]: "bytes_str (map of_char s) = s"
proof -
  have "char_of (unat (of_char c :: u8)) = c" for c
  proof -
    have "(of_char c :: u8) = of_nat (of_char c)" by (simp only: of_nat_of_char)
    then have "unat (of_char c :: u8) = of_char c"
      using nat_of_char_less_256 [of c] by (simp only: unat_of_nat) simp
    then show ?thesis by simp
  qed
  then show ?thesis by (simp add: bytes_str_def comp_def)
qed

lemma trim_none:
  assumes "s \<noteq> []" and "\<forall>w \<in> set WHITE_SPACE. hd w \<noteq> of_char (hd s) \<and> last w \<noteq> of_char (last s)"
  shows "trim s = s"
proof -
  let ?b = "map of_char s :: bytes"
  have "rev ?b = of_char (last s) # rev (map of_char (butlast s))"
    by (subst append_butlast_last_id [OF assms(1), symmetric]) simp
  then have "strip_any (map rev WHITE_SPACE) (rev ?b) = rev ?b"
    using strip_any_stop [of "map rev WHITE_SPACE" "of_char (last s)"] assms(2) by (simp add: hd_rev)
  then have "trim_end ?b = ?b" by (simp add: trim_end_def)
  moreover have "?b = of_char (hd s) # map of_char (tl s)" using assms(1) by (cases s) simp_all
  then have "trim_start ?b = ?b" using strip_any_stop [of WHITE_SPACE "of_char (hd s)"] assms(2) by (simp add: trim_start_def)
  ultimately show ?thesis by (simp add: trim_def trim_both_def)
qed

lemma generic_arg_tests_pass: "extracts_first_generic_arg" "preserves_nested_generics_in_first_arg"
  by (simp_all add: extracts_first_generic_arg_def preserves_nested_generics_in_first_arg_def first_generic_arg_def starts_with_def
      trim_none WHITE_SPACE_def)

lemma enumerate_tests_pass:
  "aligns_up_to_power_of_two" "variant_i_matches_measured_aarch64_tokio_target" "variant_i_respects_large_tls_alignment"
  "variant_ii_places_block_below_tp"
  by code_simp+

lemma enumerate_tests_pass_2:
  "detects_embedded_tokio_version" "returns_none_without_a_version_string" "vendored_1_44_has_verified_offsets"
  "unverified_version_declines"
  by code_simp+

lemma enumerate_tests_pass_3:
  "version_displays_as_triple" "ignores_non_poll_names" "recognizes_context_symbol_forms" "rejects_non_elf_geometry"
  by code_simp+

subsection \<open>Go versions, offsets and states\<close>

definition decodes_base_statuses :: bool where
  "decodes_base_statuses \<longleftrightarrow> status_from_raw 2 = GRunning \<and> status_from_raw 4 = GWaiting \<and> status_from_raw 9 = GPreempted"

definition masks_scan_bit :: bool where
  "masks_scan_bit \<longleftrightarrow> status_from_raw (G_SCAN OR 2) = GRunning \<and> status_from_raw (G_SCAN OR 4) = GWaiting"

definition dead_and_reserved_are_dead :: bool where
  "dead_and_reserved_are_dead \<longleftrightarrow> is_dead (status_from_raw 6) \<and> is_dead (status_from_raw 5) \<and> is_dead (status_from_raw 7)
   \<and> \<not> is_dead (status_from_raw 4)"

definition running_and_syscall_map_to_running :: bool where
  "running_and_syscall_map_to_running \<longleftrightarrow> to_task_state GRunning 0 = Running \<and> to_task_state GSyscall 0 = Running"

definition waiting_carries_block_reason :: bool where
  "waiting_carries_block_reason \<longleftrightarrow> to_task_state GWaiting 14 = Blocked (BlockChannel (Some ''chan receive''))"

definition sleep_reason_is_timer :: bool where
  "sleep_reason_is_timer \<longleftrightarrow> go_block_reason 19 = BlockTimer \<and> go_wake_cause 19 = WakeTimer"

definition mutex_reason_is_lock :: bool where
  "mutex_reason_is_lock \<longleftrightarrow> go_block_reason 21 = BlockLock (Some ''sync.Mutex.Lock'')"

definition out_of_range_wait_reason_is_unknown_not_panic :: bool where
  "out_of_range_wait_reason_is_unknown_not_panic \<longleftrightarrow> wait_reason_str 250 = ''?'' \<and> go_block_reason 250 = BlockUnknown
   \<and> go_wake_cause 250 = WakeUnknown"

definition wait_reason_strings_cover_known_indices :: bool where
  "wait_reason_strings_cover_known_indices \<longleftrightarrow> wait_reason_str 0 = '''' \<and> wait_reason_str 2 = ''IO wait'' \<and> wait_reason_str 19 = ''sleep''"

definition parses_full_go_version :: bool where
  "parses_full_go_version \<longleftrightarrow> go_version_parse (str_bytes ''go1.24.13'') = Some (go_version_new 1 24 13)"

definition parses_major_minor_only :: bool where
  "parses_major_minor_only \<longleftrightarrow> go_version_parse (str_bytes ''go1.24'') = Some (go_version_new 1 24 0)"

definition parses_bare_number :: bool where
  "parses_bare_number \<longleftrightarrow> go_version_parse (str_bytes ''1.21.0'') = Some (go_version_new 1 21 0)"

definition rejects_non_version :: bool where
  "rejects_non_version \<longleftrightarrow> go_version_parse (str_bytes ''golang'') = None \<and> go_version_parse (str_bytes ''gofmt'') = None"

definition detects_embedded_build_version :: bool where
  "detects_embedded_build_version \<longleftrightarrow>
     detect_in_bytes ([0, 0] @ str_bytes ''some rodata go1.24.13 padding'' @ [0]) = Some (go_version_new 1 24 13)"

definition detect_returns_none_without_marker :: bool where
  "detect_returns_none_without_marker \<longleftrightarrow> detect_in_bytes (str_bytes ''no version here'') = None"

definition vendored_go_124_has_known_offsets :: bool where
  "vendored_go_124_has_known_offsets \<longleftrightarrow> expect_some (vendored (go_version_new 1 24 0)) (\<lambda>off.
     go_goid off = 160 \<and> go_atomicstatus off = 152 \<and> go_sched_sp off = 56 \<and> go_sched_pc off = 64 \<and> go_parent_goid off = Some 280)"

definition unknown_version_declines :: bool where
  "unknown_version_declines \<longleftrightarrow> vendored (go_version_new 1 30 0) = None"

definition slice_len_offset_follows_ptr_size :: bool where
  "slice_len_offset_follows_ptr_size \<longleftrightarrow> expect_some (vendored (go_version_new 1 24 0)) (\<lambda>g.
     slice_len_offset \<lparr>gl_ptr_size = 8, gl_allgs_addr = 0x1000, gl_allglen_addr = None, gl_load_bias = 0, gl_g = g,
       gl_m_procid = Some 72, gl_source = Vendored (go_version_new 1 24 0)\<rparr> = 8)"

lemma go_layout_tests_pass:
  "decodes_base_statuses" "masks_scan_bit" "dead_and_reserved_are_dead" "running_and_syscall_map_to_running"
  "waiting_carries_block_reason"
  by code_simp+

lemma go_layout_tests_pass_2:
  "sleep_reason_is_timer" "mutex_reason_is_lock" "out_of_range_wait_reason_is_unknown_not_panic"
  "wait_reason_strings_cover_known_indices" "parses_full_go_version"
  by code_simp+

lemma go_layout_tests_pass_3:
  "parses_major_minor_only" "parses_bare_number" "rejects_non_version" "detects_embedded_build_version"
  "detect_returns_none_without_marker"
  by code_simp+

lemma go_layout_tests_pass_4:
  "vendored_go_124_has_known_offsets" "unknown_version_declines" "slice_len_offset_follows_ptr_size"
  by code_simp+

end
