(* ===== verification/DecoderTests.thy ===== *)
theory DecoderTests
  imports TestKit TokioDecoder
begin

text \<open>
  The unit tests of the decoders over a fake process image (\<open>decoder/src/async_rust/{decode,decoder}.rs\<close>,
  \<open>async_rust/enumerate/walk.rs\<close>), run on the model.
\<close>

subsection \<open>A fake process image\<close>

text \<open>
  \<open>FakeMemory\<close>: the writes so far, the last one first; a byte that was never written is unmapped, and a read
  fails if one of its bytes is.
\<close>

type_synonym fake_memory = "(u64 \<times> bytes) list"

fun fake_get :: "fake_memory \<Rightarrow> u64 \<Rightarrow> u8 option" where
  "fake_get [] a = None"
| "fake_get ((base, bs) # m) a = (let i = unat (a - base) in if i < length bs then Some (bs ! i) else fake_get m a)"

definition put_u64 :: "u64 \<Rightarrow> u64 \<Rightarrow> fake_memory \<Rightarrow> fake_memory" where
  "put_u64 a v m = (a, le_u64 v) # m"

definition put_u32 :: "u64 \<Rightarrow> u32 \<Rightarrow> fake_memory \<Rightarrow> fake_memory" where
  "put_u32 a v m = (a, le_u32 v) # m"

definition put_u8 :: "u64 \<Rightarrow> u8 \<Rightarrow> fake_memory \<Rightarrow> fake_memory" where
  "put_u8 a v m = (a, [v]) # m"

definition fake_read :: "fake_memory \<Rightarrow> u64 \<Rightarrow> nat \<Rightarrow> (bytes, decoder_error) result" where
  "fake_read m a n = ok_or (MemoryReadFailed a n ''unmapped'') (those (map (\<lambda>i. fake_get m (a + of_nat i)) [0..<n]))"

definition fake_view :: "thread_id list \<Rightarrow> (thread_id \<Rightarrow> (physical_frame list, decoder_error) result) \<Rightarrow> fake_memory \<Rightarrow> process_view" where
  "fake_view tids frames m = \<lparr>pv_thread_ids = tids, pv_registers = \<lambda>t. Ok \<lparr>tr_pc = 0, tr_sp = 0\<rparr>, pv_read_memory = fake_read m,
     pv_physical_frames = frames, pv_thread_pointer = \<lambda>t. Ok None, pv_executable_base = None\<rparr>"

abbreviation fake :: "fake_memory \<Rightarrow> process_view" where
  "fake m \<equiv> fake_view [] (\<lambda>t. Ok []) m"

text \<open>A read sees the last write at its address, and nothing of writes elsewhere.\<close>

lemma fake_get_other:
  assumes "n \<le> unat (b - a)" and "length bs \<le> unat (a - b)" and "i < n"
  shows "fake_get ((b, bs) # m) (a + of_nat i) = fake_get m (a + of_nat i)"
proof -
  let ?d = "a - b"
  have width: "LENGTH(64) = 64" by simp
  have "?d \<noteq> 0" using assms by auto
  then have "uint ?d \<noteq> 0" by (simp only: uint_0_iff not_False_eq_True)
  moreover have "uint ?d mod 2 ^ 64 = uint ?d" by (rule mod_pos_pos_trivial) (use uint_lt2p [of ?d] in simp_all)
  ultimately have "- uint ?d mod 2 ^ 64 = 2 ^ 64 - uint ?d" by (simp only: zmod_zminus1_eq_if if_False)
  moreover have "uint (b - a) = - uint ?d mod 2 ^ 64" using uint_word_ariths(4) [of ?d] by (simp only: minus_diff_eq width)
  ultimately have "uint (b - a) + uint ?d = 2 ^ 64" by linarith
  moreover have "nat (uint (b - a)) + nat (uint ?d) = nat (uint (b - a) + uint ?d)" by (rule nat_add_distrib [symmetric]) simp_all
  ultimately have "unat (b - a) + unat ?d = nat (2 ^ 64)" by (simp only: unat_eq_nat_uint)
  then have sum: "unat ?d + i < 2 ^ 64" using assms(1,3) by simp
  have i: "unat (of_nat i :: u64) = i" using sum by (simp add: unsigned_of_nat take_bit_nat_eq_self)
  have "a + of_nat i - b = ?d + of_nat i" by simp
  then have "unat (a + of_nat i - b) = unat ?d + i" using sum i by (simp only: unat_word_ariths) simp
  then show ?thesis using assms(2) by (simp add: Let_def)
qed

lemma fake_read_other:
  assumes "n \<le> unat (b - a)" and "length bs \<le> unat (a - b)"
  shows "fake_read ((b, bs) # m) a n = fake_read m a n"
  unfolding fake_read_def using fake_get_other [OF assms] by (intro arg_cong [where f = "\<lambda>x. ok_or _ (those x)"] map_cong) auto

lemma fake_read_here: "fake_read ((a, bs) # m) a (length bs) = Ok bs" if "length bs < 2 ^ 64"
proof -
  have "map (\<lambda>i. fake_get ((a, bs) # m) (a + of_nat i)) [0..<length bs] = map Some bs"
    using that by (intro nth_equalityI) (auto simp: unsigned_of_nat take_bit_nat_eq_self)
  moreover have "those (map Some bs) = Some bs" by (induction bs) auto
  ultimately show ?thesis by (simp add: fake_read_def)
qed

lemma walk_read_put:
  "walk_read_u64 (fake_view tids frames (put_u64 a v m)) a = Ok v"
  "8 \<le> b - a \<Longrightarrow> 8 \<le> a - b \<Longrightarrow> walk_read_u64 (fake_view tids frames (put_u64 b v m)) a = walk_read_u64 (fake_view tids frames m) a"
  using fake_read_here [of "le_u64 v" a m]
  by (simp_all add: walk_read_u64_def fake_view_def put_u64_def fake_read_other word_le_nat_alt)

subsection \<open>Reading coroutines\<close>

definition test_loc :: "u32 \<Rightarrow> source_location" where
  "test_loc line = \<lparr>sl_path = ''src/main.rs'', sl_line = line, sl_column = 0\<rparr>"

definition sleeper_layout :: async_fn_layout where
  "sleeper_layout = \<lparr>al_type_name = ''probe::sleeper::{async_fn_env#0}'', al_byte_size = 128, al_discr_offset = 120, al_discr_size = 1,
     al_variants = bt_insert 3 \<lparr>vi_kind = Suspend 0, vi_await_location = Some (test_loc 20),
         vi_awaitee = Some \<lparr>cr_offset = 8, cr_type_name = ''tokio::time::sleep::Sleep''\<rparr>, vi_children = []\<rparr>
       (bt_insert 2 (variant_terminal Panicked) (bt_insert 1 (variant_terminal Returned) (bt_insert 0 (variant_terminal Unresumed) [])))\<rparr>"

definition inner_leaf_layout :: async_fn_layout where
  "inner_leaf_layout = \<lparr>al_type_name = ''probe::inner_leaf::{async_fn_env#0}'', al_byte_size = 48, al_discr_offset = 40, al_discr_size = 1,
     al_variants = bt_insert 3 \<lparr>vi_kind = Suspend 0, vi_await_location = Some (test_loc 5),
         vi_awaitee = Some \<lparr>cr_offset = 16, cr_type_name = ''tokio::sync::mpsc::bounded::Recv<u32>''\<rparr>, vi_children = []\<rparr>
       (bt_insert 0 (variant_terminal Unresumed) [])\<rparr>"

definition nested_parent_layout :: async_fn_layout where
  "nested_parent_layout = \<lparr>al_type_name = ''probe::nested_parent::{async_fn_env#0}'', al_byte_size = 64, al_discr_offset = 56,
     al_discr_size = 1,
     al_variants = bt_insert 3 \<lparr>vi_kind = Suspend 0, vi_await_location = Some (test_loc 10),
         vi_awaitee = Some \<lparr>cr_offset = 8, cr_type_name = ''probe::inner_leaf::{async_fn_env#0}''\<rparr>, vi_children = []\<rparr>
       (bt_insert 0 (variant_terminal Unresumed) [])\<rparr>"

definition joiner_layout :: async_fn_layout where
  "joiner_layout = \<lparr>al_type_name = ''probe::joiner::{async_fn_env#0}'', al_byte_size = 296, al_discr_offset = 288, al_discr_size = 1,
     al_variants = bt_insert 3 \<lparr>vi_kind = Suspend 0, vi_await_location = Some (test_loc 18),
         vi_awaitee = Some \<lparr>cr_offset = 272, cr_type_name = ''core::future::poll_fn::PollFn''\<rparr>,
         vi_children = [\<lparr>cr_offset = 0, cr_type_name = ''probe::sleeper::{async_fn_env#0}''\<rparr>,
           \<lparr>cr_offset = 128, cr_type_name = ''probe::sleeper::{async_fn_env#0}''\<rparr>]\<rparr>
       (bt_insert 0 (variant_terminal Unresumed) [])\<rparr>"

definition test_layouts :: async_layouts where
  "test_layouts = layouts_insert joiner_layout (layouts_insert nested_parent_layout (layouts_insert inner_leaf_layout
     (layouts_insert sleeper_layout Map.empty)))"

definition reads_discriminant_and_selects_suspend_variant :: bool where
  "reads_discriminant_and_selects_suspend_variant \<longleftrightarrow>
     expect (active_variant (fake (put_u8 (0x1000 + 120) 3 [])) 0x1000 sleeper_layout) (\<lambda>(discr, variant).
       discr = 3 \<and> vi_kind variant = Suspend 0)"

definition unknown_discriminant_declines :: bool where
  "unknown_discriminant_declines \<longleftrightarrow>
     (case active_variant (fake (put_u8 (0x1000 + 120) 9 [])) 0x1000 sleeper_layout of Err (NotApplicable _) \<Rightarrow> True | _ \<Rightarrow> False)"

definition sleeper_leaf_is_the_timer :: bool where
  "sleeper_leaf_is_the_timer \<longleftrightarrow>
     expect (leaf_type (fake (put_u8 (0x1000 + 120) 3 [])) 0x1000 sleeper_layout test_layouts) (\<lambda>leaf.
       expect_some leaf (\<lambda>l. str_contains l ''Sleep''))"

definition nested_stack_names_both_async_fns_and_leaf :: bool where
  "nested_stack_names_both_async_fns_and_leaf \<longleftrightarrow>
     (let mem = put_u8 (0x2000 + 8 + 40) 3 (put_u8 (0x2000 + 56) 3 []) in
      expect (async_logical_stack (fake mem) 0x2000 ''probe::nested_parent::{async_fn_env#0}'' test_layouts) (\<lambda>frames.
        let names = map lf_display_name frames in
        ''nested_parent'' \<in> set names \<and> ''inner_leaf'' \<in> set names \<and> frames \<noteq> []
      \<and> expect_some (lf_suspend (last frames)) (\<lambda>s. sp_kind s = ChannelRecv)
      \<and> expect_some (lf_location (frames ! 0)) (\<lambda>l. sl_line l = 10)))"

definition state_of_parked_sleeper_is_timer_blocked :: bool where
  "state_of_parked_sleeper_is_timer_blocked \<longleftrightarrow>
     expect (async_task_state (fake (put_u8 (0x1000 + 120) 3 [])) 0x1000 sleeper_layout test_layouts None) (\<lambda>st. st = Blocked BlockTimer)"

definition state_uses_header_bits_when_available :: bool where
  "state_uses_header_bits_when_available \<longleftrightarrow>
     (let mem = fold (\<lambda>i. put_u8 (0x9000 + i) 0) [1, 2, 3, 4, 5, 6, 7] (put_u8 0x9000 (ucast COMPLETE) (put_u8 (0x1000 + 120) 3 [])) in
      expect (async_task_state (fake mem) 0x1000 sleeper_layout test_layouts (Some 0x9000)) (\<lambda>st. st = Completed))"

definition wake_cause_of_sleeper_is_timer :: bool where
  "wake_cause_of_sleeper_is_timer \<longleftrightarrow>
     expect (async_wake_cause (fake (put_u8 (0x1000 + 120) 3 [])) 0x1000 sleeper_layout test_layouts) (\<lambda>wc. wc = WakeTimer)"

definition joiner_fans_out_to_two_children :: bool where
  "joiner_fans_out_to_two_children \<longleftrightarrow>
     expect (fan_out_children (fake (put_u8 (0x3000 + 288) 3 [])) 0x3000 joiner_layout) (\<lambda>children.
       length children = 2 \<and> children ! 0 = (0x3000, ''probe::sleeper::{async_fn_env#0}'')
     \<and> children ! 1 = (0x3000 + 128, ''probe::sleeper::{async_fn_env#0}''))"

definition unresumed_task_is_runnable_with_single_frame :: bool where
  "unresumed_task_is_runnable_with_single_frame \<longleftrightarrow> (let mem = put_u8 (0x1000 + 120) 0 [] in
     expect (async_task_state (fake mem) 0x1000 sleeper_layout test_layouts None) (\<lambda>st. st = Runnable)
   \<and> expect (async_logical_stack (fake mem) 0x1000 ''probe::sleeper::{async_fn_env#0}'' test_layouts) (\<lambda>frames. length frames = 1))"

text \<open>Recursion on a numeral, and the leaf futures of the tests.\<close>

lemmas numeral_steps = leaf_type_n.simps(2) [of "pred_numeral k" for k, folded numeral_eq_Suc]
  async_stack_n.simps(2) [of "pred_numeral k" for k, folded numeral_eq_Suc]
  expand.simps(2) [of "pred_numeral k" for k, folded numeral_eq_Suc]

lemma leaf_classes:
  "classify_leaf ''tokio::time::sleep::Sleep'' = \<lparr>lc_suspend = SuspendTimer, lc_wake = WakeTimer, lc_block = BlockTimer\<rparr>"
  "classify_leaf ''tokio::time::Sleep'' = \<lparr>lc_suspend = SuspendTimer, lc_wake = WakeTimer, lc_block = BlockTimer\<rparr>"
  "classify_leaf ''tokio::sync::mpsc::bounded::Recv<u32>''
     = \<lparr>lc_suspend = ChannelRecv, lc_wake = WakeChannel (Some ''Recv''), lc_block = BlockChannel (Some ''Recv'')\<rparr>"
  "classify_leaf ''core::future::poll_fn::PollFn'' = \<lparr>lc_suspend = SuspendOther, lc_wake = WakeUnknown, lc_block = BlockUnknown\<rparr>"
  by code_simp+

lemma short_types:
  "short_type ''tokio::sync::mpsc::bounded::Recv<u32>'' = ''Recv''" "short_type ''tokio::time::sleep::Sleep'' = ''Sleep''"
  "short_type ''tokio::time::Sleep'' = ''Sleep''"
  by code_simp+

lemma short_names:
  "async_short_name ''probe::nested_parent::{async_fn_env#0}'' = ''nested_parent''"
  "async_short_name ''probe::inner_leaf::{async_fn_env#0}'' = ''inner_leaf''"
  "async_short_name ''probe::sleeper::{async_fn_env#0}'' = ''sleeper''"
  "async_short_name ''p::sleeper::{async_fn_env#0}'' = ''sleeper''" "async_short_name ''p::joiner::{async_fn_env#0}'' = ''joiner''"
  by code_simp+

lemmas fake_simps = fake_view_def fake_read_def put_u64_def put_u32_def put_u8_def le_value_def upt_rec Let_def unat_gt_0

lemmas coroutine_simps = fake_simps numeral_steps leaf_classes short_types short_names active_variant_def read_discriminant_def variant_for_def bt_get_def
  leaf_type_def async_logical_stack_def MAX_AWAIT_DEPTH_def async_task_state_def async_wake_cause_def fan_out_children_def
  classify_header_state_def read_usize_def COMPLETE_def CANCELLED_def variant_terminal_def layouts_insert_def coroutine_frame_def
  layout_short_name_def leaf_frame_def leaf_suspend_def is_coroutine_def test_loc_def

lemmas test_layout_simps = test_layouts_def sleeper_layout_def inner_leaf_layout_def nested_parent_layout_def joiner_layout_def

lemma decode_tests_pass:
  "reads_discriminant_and_selects_suspend_variant" "unknown_discriminant_declines" "sleeper_leaf_is_the_timer"
  "joiner_fans_out_to_two_children"
  by code_simp+

lemma decode_chain_tests_pass:
  "nested_stack_names_both_async_fns_and_leaf"
  "state_of_parked_sleeper_is_timer_blocked"
  "state_uses_header_bits_when_available"
  "wake_cause_of_sleeper_is_timer"
  "unresumed_task_is_runnable_with_single_frame"
  by (simp_all add: coroutine_simps test_layout_simps
    nested_stack_names_both_async_fns_and_leaf_def
    state_of_parked_sleeper_is_timer_blocked_def
    state_uses_header_bits_when_available_def
    wake_cause_of_sleeper_is_timer_def
    unresumed_task_is_runnable_with_single_frame_def)

subsection \<open>The Tokio decoder\<close>

definition suspended :: "child_ref \<Rightarrow> child_ref list \<Rightarrow> variant_info" where
  "suspended awaitee children = \<lparr>vi_kind = Suspend 0, vi_await_location = Some (test_loc 1), vi_awaitee = Some awaitee,
     vi_children = children\<rparr>"

definition one_suspend_layout :: "string \<Rightarrow> u64 \<Rightarrow> u64 \<Rightarrow> child_ref \<Rightarrow> child_ref list \<Rightarrow> async_fn_layout" where
  "one_suspend_layout name byte_size discr_offset awaitee children = \<lparr>al_type_name = name, al_byte_size = byte_size,
     al_discr_offset = discr_offset, al_discr_size = 1,
     al_variants = bt_insert 3 (suspended awaitee children) (bt_insert 0 (variant_terminal Unresumed) [])\<rparr>"

definition tokio_test_layouts :: async_layouts where
  "tokio_test_layouts = layouts_insert (one_suspend_layout ''p::joiner::{async_fn_env#0}'' 296 288
       \<lparr>cr_offset = 272, cr_type_name = ''core::future::poll_fn::PollFn''\<rparr>
       [\<lparr>cr_offset = 0, cr_type_name = ''p::sleeper::{async_fn_env#0}''\<rparr>, \<lparr>cr_offset = 128, cr_type_name = ''p::sleeper::{async_fn_env#0}''\<rparr>])
     (layouts_insert (one_suspend_layout ''p::sleeper::{async_fn_env#0}'' 128 120
       \<lparr>cr_offset = 8, cr_type_name = ''tokio::time::Sleep''\<rparr> []) Map.empty)"

definition test_decoder :: "task_root list \<Rightarrow> tokio_decoder" where
  "test_decoder roots = tokio_from_parts tokio_test_layouts (rustc_version_new 1 85 1) roots"

definition sleeper_decoder :: tokio_decoder where
  "sleeper_decoder = test_decoder [task_root_new 1 0x1000 ''p::sleeper::{async_fn_env#0}'']"

definition empty_roots_decline :: bool where
  "empty_roots_decline \<longleftrightarrow>
     (case tokio_decode_tasks VariantII (test_decoder []) (fake []) of Err (NotApplicable _) \<Rightarrow> True | _ \<Rightarrow> False)"

definition decodes_two_root_tasks_with_states :: bool where
  "decodes_two_root_tasks_with_states \<longleftrightarrow>
     (let mem = put_u8 (0x2000 + 128 + 120) 3 (put_u8 (0x2000 + 120) 3 (put_u8 (0x2000 + 288) 3 (put_u8 (0x1000 + 120) 3 [])));
          dec = test_decoder [task_root_new 1 0x1000 ''p::sleeper::{async_fn_env#0}'', task_root_new 2 0x2000 ''p::joiner::{async_fn_env#0}''] in
      expect (tokio_decode_tasks VariantII dec (fake mem)) (\<lambda>tree.
        tree_len tree = 4 \<and> tt_roots tree = [1, 2] \<and> length (tree_children tree 2) = 2
      \<and> expect_some (tree_node tree 1) (\<lambda>n. tn_state n = Blocked BlockTimer \<and> tn_name n = ''sleeper'')))"

definition logical_stack_and_wake_for_known_task :: bool where
  "logical_stack_and_wake_for_known_task \<longleftrightarrow> (let mem = put_u8 (0x1000 + 120) 3 [] in
     expect (tokio_logical_stack VariantII sleeper_decoder (fake mem) 1) (\<lambda>stack. stack \<noteq> [])
   \<and> expect (tokio_wake_cause VariantII sleeper_decoder (fake mem) 1) (\<lambda>wake. wake = WakeTimer))"

definition tokio_unknown_task_errors :: bool where
  "tokio_unknown_task_errors \<longleftrightarrow> (let mem = put_u8 (0x1000 + 120) 3 [] in
     case tokio_logical_stack VariantII sleeper_decoder (fake mem) 99 of Err (UnknownTask _) \<Rightarrow> True | _ \<Rightarrow> False)"

definition locals_validate_task_but_are_empty :: bool where
  "locals_validate_task_but_are_empty \<longleftrightarrow> (let mem = put_u8 (0x1000 + 120) 3 [] in
     expect (tokio_logical_stack VariantII sleeper_decoder (fake mem) 1) (\<lambda>stack.
       expect (tokio_locals_at VariantII sleeper_decoder (fake mem) 1 (stack ! 0)) (\<lambda>locals. locals = [])))"

lemma tokio_decoder_tests_pass:
  "empty_roots_decline" "decodes_two_root_tasks_with_states" "logical_stack_and_wake_for_known_task" "tokio_unknown_task_errors"
  "locals_validate_task_but_are_empty"
  by (simp_all add: coroutine_simps tokio_decode_tasks_def tokio_nodes_def tokio_enumerate_def effective_roots_def tokio_logical_stack_def
      tokio_wake_cause_def tokio_locals_at_def tokio_node_for_def test_decoder_def sleeper_decoder_def tokio_from_parts_def task_root_new_def
      tokio_test_layouts_def one_suspend_layout_def suspended_def MAX_TASKS_def decoded_task_def try_from_nodes_def tree_len_def
      tree_children_def tree_node_def push_child_def
    empty_roots_decline_def decodes_two_root_tasks_with_states_def logical_stack_and_wake_for_known_task_def tokio_unknown_task_errors_def locals_validate_task_but_are_empty_def)

subsection \<open>Walking a Tokio runtime\<close>

text \<open>
  A runtime whose \<open>CONTEXT\<close> is at \<open>ctx\<close>, with \<open>shard_count\<close> shards and each task (header, vtable, shard) chained
  into the list of its shard.
\<close>

definition chain_task :: "tokio_runtime_layout \<Rightarrow> u64 \<times> u64 \<times> nat \<Rightarrow> fake_memory \<times> u64 list \<times> u64 list
    \<Rightarrow> fake_memory \<times> u64 list \<times> u64 list" where
  "chain_task l = (\<lambda>(header, vtable, s) (mem, heads, prevs).
     let trailer_offset = 0x400;
         mem = put_u64 (header + tl_header_vtable l) vtable mem;
         mem = put_u64 (vtable + tl_vtable_poll l) (0xAAAA0000 + header) mem;
         mem = put_u64 (vtable + tl_vtable_trailer_offset l) trailer_offset mem;
         (mem, heads) = (if heads ! s = 0 then (mem, heads[s := header])
           else (put_u64 (prevs ! s + trailer_offset + tl_trailer_owned_next l) header mem, heads));
         mem = put_u64 (header + trailer_offset + tl_trailer_owned_next l) 0 mem
     in (mem, heads, prevs[s := header]))"

definition build_runtime :: "tokio_runtime_layout \<Rightarrow> u64 \<Rightarrow> (u64 \<times> u64 \<times> nat) list \<Rightarrow> nat \<Rightarrow> fake_memory \<Rightarrow> fake_memory" where
  "build_runtime l ctx tasks shard_count mem =
     (let arc = 0x5000;
          mem = put_u64 (ctx + tl_context_current l + tl_handle_cell_value l) arc mem;
          owned = arc + tl_arc_data l + tl_handle_shared l + tl_shared_owned l;
          data_ptr = 0x6000;
          mem = put_u64 (owned + tl_owned_list l + tl_sharded_lists l) data_ptr mem;
          mem = put_u64 (owned + tl_owned_list l + tl_sharded_lists l + 8) (of_nat shard_count) mem;
          (mem, heads, prevs) = fold (chain_task l) tasks (mem, replicate shard_count 0, replicate shard_count 0)
      in fold (\<lambda>(s, head). put_u64 (data_ptr + of_nat s * tl_shard_stride l + tl_mutex_data l + tl_list_head l) head)
           (enumerate 0 heads) mem)"

definition walks_two_tasks_in_separate_shards :: bool where
  "walks_two_tasks_in_separate_shards \<longleftrightarrow> expect (tokio_vendored \<lparr>tv_major = 1, tv_minor = 44, tv_patch = 2\<rparr>) (\<lambda>l.
     expect (walk_context (fake (build_runtime l 0x1000 [(0x10000, 0x9000, 0), (0x20000, 0x9000, 1)] 4 [])) 0x1000 l []) (\<lambda>(found, out).
       found \<and> length out = 2 \<and> list_ex (\<lambda>t. rt_header t = 0x10000 \<and> rt_future t = 0x10000 + tl_future_offset l) out
     \<and> list_ex (\<lambda>t. rt_header t = 0x20000) out))"

definition walks_multiple_tasks_in_one_shard :: bool where
  "walks_multiple_tasks_in_one_shard \<longleftrightarrow> expect (tokio_vendored \<lparr>tv_major = 1, tv_minor = 44, tv_patch = 2\<rparr>) (\<lambda>l.
     expect (walk_context (fake (build_runtime l 0x1000 [(0x20000, 0x9000, 0), (0x21000, 0x9000, 0), (0x22000, 0x9000, 0)] 1 []))
         0x1000 l []) (\<lambda>(found, out). length out = 3))"

definition null_handle_reports_no_runtime :: bool where
  "null_handle_reports_no_runtime \<longleftrightarrow> expect (tokio_vendored \<lparr>tv_major = 1, tv_minor = 44, tv_patch = 2\<rparr>) (\<lambda>l.
     expect (walk_context (fake (put_u64 (0x1000 + tl_context_current l + tl_handle_cell_value l) 0 [])) 0x1000 l []) (\<lambda>(found, out).
       \<not> found \<and> out = []))"

definition rejects_implausible_shard_count :: bool where
  "rejects_implausible_shard_count \<longleftrightarrow> expect (tokio_vendored \<lparr>tv_major = 1, tv_minor = 44, tv_patch = 2\<rparr>) (\<lambda>l.
     let arc = 0x5000;
         mem = put_u64 (0x1000 + tl_context_current l + tl_handle_cell_value l) arc [];
         owned = arc + tl_arc_data l + tl_handle_shared l + tl_shared_owned l;
         mem = put_u64 (owned + tl_owned_list l + tl_sharded_lists l) 0x6000 mem;
         mem = put_u64 (owned + tl_owned_list l + tl_sharded_lists l + 8) (MAX_SHARDS + 1) mem
     in case walk_context (fake mem) 0x1000 l [] of Err (Implausible _) \<Rightarrow> True | _ \<Rightarrow> False)"

lemma shard_step: "node \<noteq> 0 \<Longrightarrow> length out < ENUM_MAX_TASKS \<Longrightarrow> walk_shard view node layout out = (case read_node view node layout of
    Err e \<Rightarrow> Err e | Ok (task, following) \<Rightarrow> walk_shard view following layout (out @ [task]))" "walk_shard view 0 layout out = Ok out"
  by (simp_all add: walk_shard.simps)

lemma walk_tests_pass:
  "walks_two_tasks_in_separate_shards" "walks_multiple_tasks_in_one_shard" "null_handle_reports_no_runtime"
  "rejects_implausible_shard_count"
proof -
  have four: "replicate 4 x = [x, x, x, x]" for x :: u64 by (simp add: numeral_eq_Suc)
  note simps = tokio_vendored_def build_runtime_def chain_task_def walk_context_def owned_tasks_addr_def collect_from_owned_def walk_read_def
    walk_read_put read_node_def shard_step ENUM_MAX_TASKS_def MAX_SHARDS_def Let_def upt_rec four
  show "walks_two_tasks_in_separate_shards" by (simp add: walks_two_tasks_in_separate_shards_def simps)
  show "walks_multiple_tasks_in_one_shard" by (simp add: walks_multiple_tasks_in_one_shard_def simps)
  show "null_handle_reports_no_runtime" by (simp add: null_handle_reports_no_runtime_def simps)
  show "rejects_implausible_shard_count" by (simp add: rejects_implausible_shard_count_def simps)
qed

end
