(* ===== verification/GoTests.thy ===== *)
theory GoTests
  imports DecoderTests
begin

text \<open>
  The unit tests of the goroutine walk and of the Go decoder (\<open>decoder/src/go/{gwalk,decoder}.rs\<close>), run on the
  model over the fake process image of \<open>DecoderTests\<close>.
\<close>

subsection \<open>Reading the fake image\<close>

text \<open>Like \<open>walk_read_put\<close>, for the three widths in which the walk over the goroutines reads.\<close>

lemma go_read_here:
  "read_u64 (fake_view tids frames (put_u64 a v m)) a = Ok v"
  "read_u32 (fake_view tids frames (put_u32 a w m)) a = Ok w"
  "read_u8 (fake_view tids frames (put_u8 a b m)) a = Ok b"
  using fake_read_here [of "le_u64 v" a m] fake_read_here [of "le_u32 w" a m] fake_read_here [of "[b]" a m]
  by (simp_all add: read_u64_def read_u32_def read_u8_def fake_view_def put_u64_def put_u32_def put_u8_def)

lemma unat_diff_pos: "a \<noteq> b \<Longrightarrow> Suc 0 \<le> unat (a - b :: u64)"
  by (simp add: Suc_le_eq unat_gt_0)

lemma go_read_u64_other:
  "8 \<le> b - a \<Longrightarrow> 8 \<le> a - b \<Longrightarrow> read_u64 (fake_view tids frames (put_u64 b v m)) a = read_u64 (fake_view tids frames m) a"
  "8 \<le> b - a \<Longrightarrow> 4 \<le> a - b \<Longrightarrow> read_u64 (fake_view tids frames (put_u32 b w m)) a = read_u64 (fake_view tids frames m) a"
  "8 \<le> b - a \<Longrightarrow> a \<noteq> b \<Longrightarrow> read_u64 (fake_view tids frames (put_u8 b c m)) a = read_u64 (fake_view tids frames m) a"
  by (simp_all add: read_u64_def fake_view_def put_u64_def put_u32_def put_u8_def fake_read_other word_le_nat_alt unat_diff_pos)

lemma go_read_u32_other:
  "4 \<le> b - a \<Longrightarrow> 8 \<le> a - b \<Longrightarrow> read_u32 (fake_view tids frames (put_u64 b v m)) a = read_u32 (fake_view tids frames m) a"
  "4 \<le> b - a \<Longrightarrow> 4 \<le> a - b \<Longrightarrow> read_u32 (fake_view tids frames (put_u32 b w m)) a = read_u32 (fake_view tids frames m) a"
  "4 \<le> b - a \<Longrightarrow> a \<noteq> b \<Longrightarrow> read_u32 (fake_view tids frames (put_u8 b c m)) a = read_u32 (fake_view tids frames m) a"
  by (simp_all add: read_u32_def fake_view_def put_u64_def put_u32_def put_u8_def fake_read_other word_le_nat_alt unat_diff_pos)

lemma go_read_u8_other:
  "b \<noteq> a \<Longrightarrow> 8 \<le> a - b \<Longrightarrow> read_u8 (fake_view tids frames (put_u64 b v m)) a = read_u8 (fake_view tids frames m) a"
  "b \<noteq> a \<Longrightarrow> 4 \<le> a - b \<Longrightarrow> read_u8 (fake_view tids frames (put_u32 b w m)) a = read_u8 (fake_view tids frames m) a"
  "a \<noteq> b \<Longrightarrow> read_u8 (fake_view tids frames (put_u8 b c m)) a = read_u8 (fake_view tids frames m) a"
  by (simp_all add: read_u8_def fake_view_def put_u64_def put_u32_def put_u8_def fake_read_other word_le_nat_alt unat_diff_pos)

lemmas go_reads = go_read_here go_read_u64_other go_read_u32_other go_read_u8_other

text \<open>A goroutine's structure reaches from its address to 312 bytes above it; reads outside do not see it.\<close>

lemma clear_of_field:
  fixes a gp off :: u64
  assumes "312 \<le> a - gp" and "8 \<le> gp - a" and "off \<le> 304"
  shows "8 \<le> gp + off - a" "8 \<le> a - (gp + off)" "4 \<le> gp + off - a" "4 \<le> a - (gp + off)" "a \<noteq> gp + off" "gp + off \<noteq> a"
  using assms by uint_arith+

subsection \<open>Walking goroutines\<close>

definition go_test_layout :: go_layout where
  "go_test_layout = \<lparr>gl_ptr_size = 8, gl_allgs_addr = 0x10000, gl_allglen_addr = None, gl_load_bias = 0,
     gl_g = the (vendored (go_version_new 1 24 0)), gl_m_procid = Some 72, gl_source = Vendored (go_version_new 1 24 0)\<rparr>"

definition build_slice :: "go_layout \<Rightarrow> u64 list \<Rightarrow> fake_memory \<Rightarrow> fake_memory" where
  "build_slice layout g_addrs mem =
     (let mem = put_u64 (gl_allgs_addr layout) 0x20000 mem;
          mem = put_u64 (gl_allgs_addr layout + 8) (of_nat (length g_addrs)) mem
      in fold (\<lambda>(i, gp). put_u64 (0x20000 + of_nat i * 8) gp) (enumerate 0 g_addrs) mem)"

definition write_g :: "go_layout \<Rightarrow> u64 \<Rightarrow> i64 \<Rightarrow> u32 \<Rightarrow> u8 \<Rightarrow> i64 \<Rightarrow> fake_memory \<Rightarrow> fake_memory" where
  "write_g layout gp goid status waitreason parent mem =
     (let g = gl_g layout;
          mem = put_u64 (gp + go_goid g) goid mem;
          mem = put_u32 (gp + go_atomicstatus g) status mem;
          mem = put_u8 (gp + go_waitreason g) waitreason mem;
          mem = put_u64 (gp + go_gopc g) (0xAAAA + goid) mem;
          mem = put_u64 (gp + go_startpc g) (0xBBBB + goid) mem;
          mem = put_u64 (gp + go_sched_pc g) (0xCCCC + goid) mem;
          mem = put_u64 (gp + go_sched_sp g) (0xDDDD + goid) mem;
          mem = put_u64 (gp + go_stack_lo g) 0x7000 mem;
          mem = put_u64 (gp + go_stack_hi g) 0x8000 mem;
          mem = put_u64 (gp + go_m g) 0 mem
      in case go_parent_goid g of Some off \<Rightarrow> put_u64 (gp + off) parent mem | None \<Rightarrow> mem)"

definition walks_three_goroutines_in_distinct_states :: bool where
  "walks_three_goroutines_in_distinct_states \<longleftrightarrow>
     (let layout = go_test_layout;
          mem = build_slice layout [0x100000, 0x100400, 0x100800] [];
          mem = write_g layout 0x100000 1 2 0 0 mem;
          mem = write_g layout 0x100400 2 4 14 1 mem;
          mem = write_g layout 0x100800 3 4 19 1 mem
      in expect (walk_goroutines (fake_view [4242] (\<lambda>t. Ok []) mem) layout) (\<lambda>gs.
           length gs = 3 \<and> gi_goid (gs ! 0) = 1 \<and> gi_state (gs ! 0) = Running
           \<and> gi_state (gs ! 1) = Blocked (BlockChannel (Some ''chan receive''))
           \<and> gi_state (gs ! 2) = Blocked BlockTimer
           \<and> gi_parent_goid (gs ! 1) = Some 1 \<and> gi_wait_reason_str (gs ! 2) = ''sleep''))"

definition skips_dead_and_null_slots :: bool where
  "skips_dead_and_null_slots \<longleftrightarrow>
     (let layout = go_test_layout;
          mem = put_u64 (gl_allgs_addr layout) 0x20000 [];
          mem = put_u64 (gl_allgs_addr layout + 8) 3 mem;
          mem = put_u64 0x20000 0 mem;
          mem = put_u64 (0x20000 + 8) 0x100400 mem;
          mem = put_u64 (0x20000 + 16) 0x100800 mem;
          mem = write_g layout 0x100400 5 6 0 0 mem;
          mem = write_g layout 0x100800 7 1 0 0 mem
      in expect (walk_goroutines (fake_view [4242] (\<lambda>t. Ok []) mem) layout) (\<lambda>gs.
           length gs = 1 \<and> gi_goid (gs ! 0) = 7 \<and> gi_state (gs ! 0) = Runnable))"

definition resolves_running_goroutine_thread_via_procid :: bool where
  "resolves_running_goroutine_thread_via_procid \<longleftrightarrow>
     (let layout = go_test_layout;
          mem = build_slice layout [0x100000] [];
          mem = write_g layout 0x100000 1 2 0 0 mem;
          mem = put_u64 (0x100000 + go_m (gl_g layout)) 0x300000 mem;
          mem = put_u64 (0x300000 + 72) 4242 mem
      in expect (walk_goroutines (fake_view [4242] (\<lambda>t. Ok []) mem) layout) (\<lambda>gs. gi_thread (gs ! 0) = Some 4242))"

definition rejects_implausible_slice_length :: bool where
  "rejects_implausible_slice_length \<longleftrightarrow>
     (let layout = go_test_layout;
          mem = put_u64 (gl_allgs_addr layout) 0x20000 [];
          mem = put_u64 (gl_allgs_addr layout + 8) (MAX_GOROUTINES + 1) mem
      in case walk_goroutines (fake_view [4242] (\<lambda>t. Ok []) mem) layout of Err (NotApplicable _) \<Rightarrow> True | _ \<Rightarrow> False)"

lemmas go_layout_simps = go_test_layout_def vendored_def go_version_new_def Let_def

lemma write_g_frame:
  assumes "312 \<le> a - gp" and "8 \<le> gp - a"
  shows "read_u64 (fake_view tids frames (write_g go_test_layout gp goid st wr par mem)) a = read_u64 (fake_view tids frames mem) a"
    "read_u32 (fake_view tids frames (write_g go_test_layout gp goid st wr par mem)) a = read_u32 (fake_view tids frames mem) a"
    "read_u8 (fake_view tids frames (write_g go_test_layout gp goid st wr par mem)) a = read_u8 (fake_view tids frames mem) a"
  using clear_of_field [OF assms] clear_of_field [OF assms, of 0]
  by (simp_all add: write_g_def go_layout_simps go_reads)

lemma write_g_fields:
  "a = gp + 160 \<Longrightarrow> read_u64 (fake_view tids frames (write_g go_test_layout gp goid st wr par mem)) a = Ok goid"
  "a = gp + 152 \<Longrightarrow> read_u32 (fake_view tids frames (write_g go_test_layout gp goid st wr par mem)) a = Ok st"
  "a = gp + 184 \<Longrightarrow> read_u8 (fake_view tids frames (write_g go_test_layout gp goid st wr par mem)) a = Ok wr"
  "a = gp + 288 \<Longrightarrow> read_u64 (fake_view tids frames (write_g go_test_layout gp goid st wr par mem)) a = Ok (0xAAAA + goid)"
  "a = gp + 304 \<Longrightarrow> read_u64 (fake_view tids frames (write_g go_test_layout gp goid st wr par mem)) a = Ok (0xBBBB + goid)"
  "a = gp + 64 \<Longrightarrow> read_u64 (fake_view tids frames (write_g go_test_layout gp goid st wr par mem)) a = Ok (0xCCCC + goid)"
  "a = gp + 56 \<Longrightarrow> read_u64 (fake_view tids frames (write_g go_test_layout gp goid st wr par mem)) a = Ok (0xDDDD + goid)"
  "a = gp \<Longrightarrow> read_u64 (fake_view tids frames (write_g go_test_layout gp goid st wr par mem)) a = Ok 0x7000"
  "a = gp + 8 \<Longrightarrow> read_u64 (fake_view tids frames (write_g go_test_layout gp goid st wr par mem)) a = Ok 0x8000"
  "a = gp + 48 \<Longrightarrow> read_u64 (fake_view tids frames (write_g go_test_layout gp goid st wr par mem)) a = Ok 0"
  "a = gp + 280 \<Longrightarrow> read_u64 (fake_view tids frames (write_g go_test_layout gp goid st wr par mem)) a = Ok par"
  by (simp_all add: write_g_def go_layout_simps go_reads)

lemma test_statuses:
  "status_from_raw 1 = GRunnable" "status_from_raw 2 = GRunning" "status_from_raw 3 = GSyscall" "status_from_raw 4 = GWaiting"
  "status_from_raw 6 = GDead" "\<not> is_dead GRunnable" "\<not> is_dead GRunning" "\<not> is_dead GSyscall" "\<not> is_dead GWaiting" "is_dead GDead"
  by code_simp+

lemma test_wait_reasons:
  "wait_reason_str 14 = ''chan receive''" "wait_reason_str 19 = ''sleep''" "go_block_reason 19 = BlockTimer"
  "go_block_reason 14 = BlockChannel (Some ''chan receive'')"
  by code_simp+

lemma go_test_offsets:
  "gl_allgs_addr go_test_layout = 0x10000" "gl_load_bias go_test_layout = 0" "gl_ptr_size go_test_layout = 8"
  "gl_m_procid go_test_layout = Some 72" "gl_g go_test_layout = \<lparr>go_goid = 160, go_atomicstatus = 152, go_waitreason = 184, go_stack_lo = 0,
     go_stack_hi = 8, go_sched_pc = 64, go_sched_sp = 56, go_gopc = 288, go_startpc = 304, go_m = 48, go_parent_goid = Some 280\<rparr>"
  by (simp_all add: go_layout_simps)

lemmas go_test_simps = go_test_offsets build_slice_def walk_goroutines_def read_allgs_header_def slice_len_offset_def
  read_goroutine_def resolve_thread_def MAX_GOROUTINES_def go_reads write_g_frame write_g_fields test_statuses test_wait_reasons
  Let_def upt_rec

lemma gwalk_three: "walks_three_goroutines_in_distinct_states"
  by (simp add: walks_three_goroutines_in_distinct_states_def go_test_simps)

lemma gwalk_skips: "skips_dead_and_null_slots"
  by (simp add: skips_dead_and_null_slots_def go_test_simps)

lemma gwalk_thread: "resolves_running_goroutine_thread_via_procid"
  by (simp add: resolves_running_goroutine_thread_via_procid_def go_test_simps)

lemma gwalk_length: "rejects_implausible_slice_length"
  by (simp add: rejects_implausible_slice_length_def go_test_simps)

subsection \<open>The Go decoder\<close>

definition go_scenario_write_g :: "go_layout \<Rightarrow> u64 \<Rightarrow> i64 \<Rightarrow> u32 \<Rightarrow> u8 \<Rightarrow> i64 \<Rightarrow> fake_memory \<Rightarrow> fake_memory" where
  "go_scenario_write_g layout gp goid status waitreason parent mem =
     (let g = gl_g layout;
          mem = put_u64 (gp + go_goid g) goid mem;
          mem = put_u32 (gp + go_atomicstatus g) status mem;
          mem = put_u8 (gp + go_waitreason g) waitreason mem;
          mem = put_u64 (gp + go_gopc g) 0xAAAA mem;
          mem = put_u64 (gp + go_startpc g) 0xBBBB mem;
          mem = put_u64 (gp + go_sched_pc g) (0xC0DE + goid) mem;
          mem = put_u64 (gp + go_sched_sp g) 0xDDDD mem;
          mem = put_u64 (gp + go_stack_lo g) 0x7000 mem;
          mem = put_u64 (gp + go_stack_hi g) 0x8000 mem;
          mem = put_u64 (gp + go_m g) 0 mem
      in case go_parent_goid g of Some off \<Rightarrow> put_u64 (gp + off) parent mem | None \<Rightarrow> mem)"

lemma scenario_write_g_frame:
  assumes "312 \<le> a - gp" and "8 \<le> gp - a"
  shows "read_u64 (fake_view tids frames (go_scenario_write_g go_test_layout gp goid st wr par mem)) a = read_u64 (fake_view tids frames mem) a"
    "read_u32 (fake_view tids frames (go_scenario_write_g go_test_layout gp goid st wr par mem)) a = read_u32 (fake_view tids frames mem) a"
    "read_u8 (fake_view tids frames (go_scenario_write_g go_test_layout gp goid st wr par mem)) a = read_u8 (fake_view tids frames mem) a"
  using clear_of_field [OF assms] clear_of_field [OF assms, of 0]
  by (simp_all add: go_scenario_write_g_def go_layout_simps go_reads)

lemma scenario_write_g_fields:
  "a = gp + 160 \<Longrightarrow> read_u64 (fake_view tids frames (go_scenario_write_g go_test_layout gp goid st wr par mem)) a = Ok goid"
  "a = gp + 152 \<Longrightarrow> read_u32 (fake_view tids frames (go_scenario_write_g go_test_layout gp goid st wr par mem)) a = Ok st"
  "a = gp + 184 \<Longrightarrow> read_u8 (fake_view tids frames (go_scenario_write_g go_test_layout gp goid st wr par mem)) a = Ok wr"
  "a = gp + 288 \<Longrightarrow> read_u64 (fake_view tids frames (go_scenario_write_g go_test_layout gp goid st wr par mem)) a = Ok 0xAAAA"
  "a = gp + 304 \<Longrightarrow> read_u64 (fake_view tids frames (go_scenario_write_g go_test_layout gp goid st wr par mem)) a = Ok 0xBBBB"
  "a = gp + 64 \<Longrightarrow> read_u64 (fake_view tids frames (go_scenario_write_g go_test_layout gp goid st wr par mem)) a = Ok (0xC0DE + goid)"
  "a = gp + 56 \<Longrightarrow> read_u64 (fake_view tids frames (go_scenario_write_g go_test_layout gp goid st wr par mem)) a = Ok 0xDDDD"
  "a = gp \<Longrightarrow> read_u64 (fake_view tids frames (go_scenario_write_g go_test_layout gp goid st wr par mem)) a = Ok 0x7000"
  "a = gp + 8 \<Longrightarrow> read_u64 (fake_view tids frames (go_scenario_write_g go_test_layout gp goid st wr par mem)) a = Ok 0x8000"
  "a = gp + 48 \<Longrightarrow> read_u64 (fake_view tids frames (go_scenario_write_g go_test_layout gp goid st wr par mem)) a = Ok 0"
  "a = gp + 280 \<Longrightarrow> read_u64 (fake_view tids frames (go_scenario_write_g go_test_layout gp goid st wr par mem)) a = Ok par"
  by (simp_all add: go_scenario_write_g_def go_layout_simps go_reads)

definition go_scenario :: process_view where
  "go_scenario =
     (let layout = go_test_layout; addrs = [0x100000, 0x100400, 0x100800, 0x100c00];
          mem = put_u64 (gl_allgs_addr layout) 0x20000 [];
          mem = put_u64 (gl_allgs_addr layout + 8) (of_nat (length addrs)) mem;
          mem = fold (\<lambda>(i, a). put_u64 (0x20000 + of_nat i * 8) a) (enumerate 0 addrs) mem;
          mem = go_scenario_write_g layout (addrs ! 0) 1 2 0 0 mem;
          mem = put_u64 (addrs ! 0 + go_m (gl_g layout)) 0x300000 mem;
          mem = put_u64 (0x300000 + 72) 4242 mem;
          mem = go_scenario_write_g layout (addrs ! 1) 2 4 14 1 mem;
          mem = go_scenario_write_g layout (addrs ! 2) 3 4 19 1 mem;
          mem = go_scenario_write_g layout (addrs ! 3) 0 3 0 0 mem
      in fake_view [4242] (\<lambda>t. if t = 4242
           then Ok [\<lparr>pf_pc = 0x1234, pf_sp = 0x7fff, pf_function_name = Some ''main.spinForever'', pf_location = None\<rparr>]
           else Err (UnknownThread t)) mem)"

definition decode_tasks_builds_goroutine_tree_with_parent_edges :: bool where
  "decode_tasks_builds_goroutine_tree_with_parent_edges \<longleftrightarrow> expect (go_decode_tasks go_test_layout go_scenario) (\<lambda>tree.
     tree_len tree = 3 \<and> tt_roots tree = [1] \<and> tree_children tree 1 = [2, 3]
   \<and> expect_some (tree_node tree 1) (\<lambda>main. tn_kind main = Goroutine \<and> tn_state main = Running))"

definition blocked_states_carry_reasons :: bool where
  "blocked_states_carry_reasons \<longleftrightarrow> expect (go_decode_tasks go_test_layout go_scenario) (\<lambda>tree.
     expect_some (tree_node tree 2) (\<lambda>n. tn_state n = Blocked (BlockChannel (Some ''chan receive'')))
   \<and> expect_some (tree_node tree 3) (\<lambda>n. tn_state n = Blocked BlockTimer))"

definition logical_stack_of_running_goroutine_is_thread_stack :: bool where
  "logical_stack_of_running_goroutine_is_thread_stack \<longleftrightarrow> expect (go_logical_stack go_test_layout go_scenario 1) (\<lambda>stack.
     length stack = 1 \<and> lf_display_name (stack ! 0) = ''main.spinForever'' \<and> lf_origin (stack ! 0) = Physical)"

definition logical_stack_of_parked_goroutine_is_synthesized_start :: bool where
  "logical_stack_of_parked_goroutine_is_synthesized_start \<longleftrightarrow> expect (go_logical_stack go_test_layout go_scenario 2) (\<lambda>stack.
     length stack = 1 \<and> lf_origin (stack ! 0) = Synthesized \<and> str_contains (lf_display_name (stack ! 0)) ''parked''
   \<and> map_option sp_kind (lf_suspend (stack ! 0)) = Some ChannelRecv)"

definition wake_cause_reflects_wait_reason :: bool where
  "wake_cause_reflects_wait_reason \<longleftrightarrow>
     expect (go_wake_cause_of go_test_layout go_scenario 3) (\<lambda>cause. cause = WakeTimer)
   \<and> expect (go_wake_cause_of go_test_layout go_scenario 1) (\<lambda>cause. cause = WakeUnknown)"

definition unknown_task_errors :: bool where
  "unknown_task_errors \<longleftrightarrow> (case go_logical_stack go_test_layout go_scenario 999 of Err (UnknownTask _) \<Rightarrow> True | _ \<Rightarrow> False)"

definition locals_are_empty_but_validate_task :: bool where
  "locals_are_empty_but_validate_task \<longleftrightarrow> expect (go_locals_at go_test_layout go_scenario 1
     \<lparr>lf_display_name = ''x'', lf_location = None, lf_suspend = None, lf_origin = Synthesized\<rparr>) (\<lambda>locals. locals = [])"

text \<open>What the walk finds in the scenario: the three goroutines and the system goroutine of id 0.\<close>

definition scenario_g :: "i64 \<Rightarrow> u32 \<Rightarrow> u8 \<Rightarrow> u64 \<Rightarrow> i64 \<Rightarrow> thread_id option \<Rightarrow> goroutine_info" where
  "scenario_g goid status waitreason m parent thread = \<lparr>gi_goid = goid, gi_raw_status = status, gi_status = status_from_raw status,
     gi_state = to_task_state (status_from_raw status) waitreason, gi_wait_reason = waitreason,
     gi_wait_reason_str = wait_reason_str waitreason, gi_gopc = 0xAAAA, gi_startpc = 0xBBBB, gi_sched_pc = 0xC0DE + goid,
     gi_sched_sp = 0xDDDD, gi_stack_lo = 0x7000, gi_stack_hi = 0x8000, gi_m_ptr = m, gi_parent_goid = Some parent, gi_thread = thread\<rparr>"

lemma scenario_walk: "walk_goroutines go_scenario go_test_layout
  = Ok [scenario_g 1 2 0 0x300000 0 (Some 4242), scenario_g 2 4 14 0 1 None, scenario_g 3 4 19 0 1 None, scenario_g 0 3 0 0 0 None]"
  by (simp add: go_scenario_def scenario_write_g_frame scenario_write_g_fields scenario_g_def go_test_simps)

lemma signed_ids: "0 <s (1 :: i64)" "0 <s (2 :: i64)" "0 <s (3 :: i64)" "\<not> 0 <s (0 :: i64)"
  "\<not> (1 :: i64) \<le>s 0" "\<not> (2 :: i64) \<le>s 0" "\<not> (3 :: i64) \<le>s 0" "(0 :: i64) \<le>s 0"
  by code_simp+

lemmas go_decoder_simps = go_decode_tasks_def go_logical_stack_def go_wake_cause_of_def go_locals_at_def go_find_def scenario_walk
  scenario_g_def test_statuses test_wait_reasons Let_def

lemma go_tree_tests_pass: "decode_tasks_builds_goroutine_tree_with_parent_edges" "blocked_states_carry_reasons"
  by (simp_all add: decode_tasks_builds_goroutine_tree_with_parent_edges_def blocked_states_carry_reasons_def go_decoder_simps
      signed_ids node_for_def try_from_nodes_def push_child_def tree_len_def tree_children_def tree_node_def
      bt_get_def)

lemma scenario_frames: "pv_physical_frames go_scenario 4242
  = Ok [\<lparr>pf_pc = 0x1234, pf_sp = 0x7fff, pf_function_name = Some ''main.spinForever'', pf_location = None\<rparr>]"
  by (simp add: go_scenario_def fake_view_def Let_def)

lemma go_stack_tests_pass: "logical_stack_of_running_goroutine_is_thread_stack" "unknown_task_errors"
  by (simp_all add: logical_stack_of_running_goroutine_is_thread_stack_def unknown_task_errors_def go_decoder_simps running_stack_def
      scenario_frames from_physical_def)

lemma parked_name: "str_contains (''goroutine '' @ show_i64 2 @ '' (parked @ 0x'' @ show_hex 49376 @ '')'') ''parked''"
  by code_simp

lemma go_parked_test_passes: "logical_stack_of_parked_goroutine_is_synthesized_start"
  using parked_name
  by (simp add: logical_stack_of_parked_goroutine_is_synthesized_start_def go_decoder_simps parked_start_frame_def)

lemma go_wake_tests_pass: "wake_cause_reflects_wait_reason" "locals_are_empty_but_validate_task"
  by (simp_all add: wake_cause_reflects_wait_reason_def locals_are_empty_but_validate_task_def go_decoder_simps go_wake_cause_def)

end
