(* ===== verification/MapsTests.thy ===== *)
theory MapsTests
  imports TestKit Unwind
begin

text \<open>
  The unit tests of the reader of \<open>/proc/<pid>/maps\<close> (\<open>unwind/src/maps.rs\<close>), run on the model.
\<close>

definition text_of :: "string \<Rightarrow> bytes" where [tests]:
  "text_of s = map of_char s"

definition newline :: bytes where [tests]:
  "newline = [10]"

definition maps_sample :: bytes where [tests]:
  "maps_sample =
     text_of ''55e6c0e2a000-55e6c0e2b000 r--p 00000000 08:01 100  /usr/bin/app'' @ newline
   @ text_of ''55e6c0e2b000-55e6c0e2f000 r-xp 00001000 08:01 100  /usr/bin/app'' @ newline
   @ text_of ''7f0000000000-7f0000021000 r--p 00000000 08:01 200  /lib/libc.so.6'' @ newline
   @ text_of ''7f0000021000-7f00000a5000 r-xp 00021000 08:01 200  /lib/libc.so.6'' @ newline
   @ text_of ''7ffca1b2c000-7ffca1b4d000 rw-p 00000000 00:00 0    [stack]'' @ newline
   @ text_of ''7ffca1bd0000-7ffca1bd4000 r-xp 00000000 00:00 0    [vdso]'' @ newline
   @ text_of ''ffffffffff600000-ffffffffff601000 --xp 00000000 00:00 0  [vsyscall]''"

definition keeps_one_entry_per_file_at_its_offset_zero_base :: bool where [tests]:
  "keeps_one_entry_per_file_at_its_offset_zero_base \<longleftrightarrow> parse_maps maps_sample =
     [\<lparr>mm_path = text_of ''/usr/bin/app'', mm_base = 0x55e6c0e2a000\<rparr>, \<lparr>mm_path = text_of ''/lib/libc.so.6'', mm_base = 0x7f0000000000\<rparr>]"

fun contains_bytes :: "bytes \<Rightarrow> bytes \<Rightarrow> bool" where
  "contains_bytes [] pat \<longleftrightarrow> pat = []"
| "contains_bytes (b # bs) pat \<longleftrightarrow> take (length pat) (b # bs) = pat \<or> contains_bytes bs pat"

definition ignores_anonymous_and_pseudo_mappings :: bool where
  "ignores_anonymous_and_pseudo_mappings \<longleftrightarrow> (let modules = parse_maps maps_sample in
     list_all (\<lambda>m. take 1 (mm_path m) = text_of ''/'') modules
   \<and> \<not> list_ex (\<lambda>m. contains_bytes (mm_path m) (text_of ''stack'')) modules
   \<and> \<not> list_ex (\<lambda>m. contains_bytes (mm_path m) (text_of ''vdso'')) modules)"

definition skips_mappings_without_an_offset_zero_entry :: bool where [tests]:
  "skips_mappings_without_an_offset_zero_entry \<longleftrightarrow>
     parse_maps (text_of ''7f0000021000-7f00000a5000 r-xp 00021000 08:01 200  /lib/only.so'') = []"

definition takes_the_lowest_start_when_offset_zero_repeats :: bool where [tests]:
  "takes_the_lowest_start_when_offset_zero_repeats \<longleftrightarrow>
     mm_base (parse_maps (text_of ''0000000000020000-0000000000021000 r--p 00000000 08:01 5  /lib/x.so'' @ newline
       @ text_of ''0000000000010000-0000000000011000 r--p 00000000 08:01 5  /lib/x.so'') ! 0) = 0x10000"

definition skips_malformed_lines :: bool where [tests]:
  "skips_malformed_lines \<longleftrightarrow> parse_maps (text_of ''garbage'' @ newline @ newline @ text_of ''not a maps line'') = []"

definition handles_paths_containing_spaces :: bool where [tests]:
  "handles_paths_containing_spaces \<longleftrightarrow>
     mm_path (parse_maps (text_of ''10000-11000 r--p 00000000 08:01 5  /opt/my app/bin'') ! 0) = text_of ''/opt/my app/bin''"

lemmas maps_simps = parse_maps_def str_lines.simps strip_cr_def parse_line_def split_whitespace_def ws_length_plain ws_length_blank
  join_blank_def parse_u64_def parse_unsigned_def digit_value_def digits_value_def Let_def

lemma maps_sample_read: "keeps_one_entry_per_file_at_its_offset_zero_base"
  by (simp add: tests maps_simps)

lemma maps_pseudo_test_passes: "ignores_anonymous_and_pseudo_mappings"
  using maps_sample_read
  by (simp add: ignores_anonymous_and_pseudo_mappings_def keeps_one_entry_per_file_at_its_offset_zero_base_def text_of_def)

lemma maps_line_tests_pass:
  "skips_mappings_without_an_offset_zero_entry" "takes_the_lowest_start_when_offset_zero_repeats" "skips_malformed_lines"
  "handles_paths_containing_spaces"
  by (simp_all add: tests maps_simps)

end
