(* ===== verification/Spec2Isabelle.thy ===== *)
theory Spec2Isabelle
  imports RecordReplay CoroutineDwarf PtraceView Cli ArmReplay PreemptTimer OutputDrain TargetKernel
    ReplayTests RecorderTests ModelTests LayoutTests GoTests MapsTests
begin

text \<open>
  Mirrorscope, a time-travel debugger for Linux programs: a recorder writes what the kernel did for a
  target into a trace, a replayer runs the target again from that trace and stops anywhere in it, a
  decoder turns the memory of the stopped target into a tree of logical tasks, and a debug adapter
  offers all of this to an editor. This library models the Rust sources under \<open>src/crates\<close> and proves
  what makes them correct. All paths below are relative to that directory.

  \<^bold>\<open>How the parts interact.\<close> The recorder's scheduler (\<open>recorder/src/capture/sched.rs\<close>) drives ptraced
  threads one at a time and hands every event to the trace writer; the eBPF collector
  (\<open>recorder-ebpf\<close>) is the other source of the same file format. \<open>ReplaySession\<close>
  (\<open>replay/src/session.rs\<close>, \<open>mt.rs\<close>) reads the trace back, suppresses the target's syscalls and injects
  the recorded results; its fork snapshots and watchpoints make the position movable in both directions.
  The debug adapter (\<open>dap\<close>) owns a session through its replay target, and asks the decoder
  (\<open>decoder\<close>) for tasks and stacks of the stopped process. Both read native stacks through \<open>unwind\<close>, and
  the command line (\<open>mirrorscope-cli\<close>) puts the recorder, the replayer and the debug adapter behind one
  program.

  \<^bold>\<open>Shared vocabulary.\<close> \<open>Prelude\<close>: words for the fixed-width integers (a signed type is read by \<open>sint\<close>),
  \<open>nat\<close> for \<open>usize\<close>, \<open>result\<close> with \<open>and_then\<close> for \<open>?\<close>, state-and-error sequencing for methods on
  \<open>&mut self\<close>, little-endian codecs, UTF-8. \<open>OrdMap\<close>: \<open>BTreeMap\<close> as a sorted association list, with the
  locale \<open>ordered_map\<close> and its interpretation. \<open>TextParse\<close>: the parsing and printing of texts that the
  standard library does. Arithmetic that Rust checks only in debug builds wraps,
  as in a release build, and the statements say where that matters.

  \<^bold>\<open>Recording.\<close>
  \<^item> \<open>TraceFormat\<close>, \<open>TraceLog\<close> (\<open>recorder/src/trace/{format,writer,reader}.rs\<close>): records, header, checksum,
    the writer and the reader as operations on a byte sequence. A written trace reads back exactly, any
    truncation of it reads back as its complete records and at most one error, damage is detected, and
    an over-long command line breaks the header.
  \<^item> \<open>Payload\<close> (\<open>capture/payload.rs\<close>, \<open>recorder-ebpf-common\<close>): every payload codec, as interpretations
    of the locales \<open>byte_codec\<close>, \<open>canonical_codec\<close> and \<open>prefix_codec\<close>.
  \<^item> \<open>SyscallCapture\<close>, \<open>Scheduler\<close> (\<open>capture/{syscall,sched,affinity,timer,error}.rs\<close>): the scheduler's
    state is a record, the kernel is an abstract machine with a state of its own that answers \<open>waitpid\<close>
    and the ptrace requests in any way; the loop carries fuel. At most one thread is ever running and
    the emitted events are a well-formed schedule, an abstract specification of who is on the CPU.
  \<^item> \<open>PreemptTimer\<close> (\<open>capture/timer.rs\<close>): the preemption timer over the kernel's timer calls; its life from
    creation to deletion, and that no alarm outlives the turn of the scheduler that armed it.
  \<^item> \<open>RecordCommand\<close> (\<open>capture/ptrace.rs\<close>): the whole command, from the header to the summary; what it
    leaves on disk reads back as the schedule it recorded. A syscall with 16 MiB of data makes the rest of
    the file unreadable.
  \<^item> \<open>EbpfCapture\<close> (\<open>recorder-ebpf-programs\<close>, \<open>recorder-ebpf\<close>): the in-kernel programs over their maps and
    ring buffer, and the collector; exact when nothing is dropped, wrong after a lost entry record.

  \<^bold>\<open>Replaying.\<close>
  \<^item> \<open>ReplaySelect\<close>, \<open>Watchpoint\<close> (\<open>replay/src/{schedule,checkpoint_select,watchpoint,watchpoint_hw}.rs\<close>): the
    table of thread ids (locale \<open>binding_table\<close>), the choice of a snapshot, and the encoding of watchpoints
    in the debug registers of both architectures, shown to watch exactly the requested bytes.
  \<^item> \<open>ReplayCore\<close>, \<open>Session\<close>, \<open>MtReplay\<close> (\<open>session.rs\<close>, \<open>mt.rs\<close>, \<open>inject.rs\<close>, \<open>checkpoint.rs\<close>, \<open>regs.rs\<close>,
    \<open>scan.rs\<close>): the session record and every operation on it, over the same kind of abstract kernel. The
    drivers that wait for the kernel return an option: \<open>None\<close> is a run that has not come back within its
    fuel.
  \<^item> \<open>ArmReplay\<close> (\<open>regs.rs\<close> and the single step of \<open>session.rs\<close> on aarch64): what the engine needs of an
    architecture's registers is the locale \<open>syscall_registers\<close>, interpreted for x86-64 and aarch64; a step
    over a watchpoint hit runs one instruction with the watchpoint off and puts it back.
  \<^item> \<open>OutputDrain\<close> (\<open>session.rs\<close>): the pipes of the target's output and the threads that read them. Output
    is collected whole and once; a live snapshot keeps the pipe open and the reader waiting.
  \<^item> \<open>ReplayFrame\<close>, \<open>ReplayPosition\<close>, \<open>ReplayReach\<close>, \<open>ReplaySchedule\<close>: frame reasoning (locale
    \<open>replay_frame\<close>, interpreted for the position, the thread table and the driver state), the meaning of
    \<open>run_to\<close> and \<open>run_to_prev\<close>, the states a client can reach, and the schedule invariant of the
    multi-threaded driver.
  \<^item> \<open>RecordReplay\<close>: both sides together. The recorder's schedules pass the replayer's check, injected
    results reproduce the recorded memory, the driver ends, divergence is reported, and a recording with a
    thread that died as a bystander cannot be replayed to its end.

  \<^item> \<open>Fidelity\<close>: a deterministic target with a single thread and the list of its system calls, each with the
    memory and registers at its entry and exit, and what a kernel that runs it again promises. A session over the
    events of that execution never diverges, comes back from every move, and shows the recorded
    memory and registers at every exit it stops at, through respawns, fork snapshots and restores. Assumed are: no signals;
    the calls that replay leaves to the kernel do what they did; an injected call writes the captured region
    only; there are free process ids for a process and a snapshot per call.
  \<^item> \<open>EndToEnd\<close>: the recorder on a kernel that runs the same target, within the scheduler's quantum, appends
    exactly these events; so what \<open>record_command\<close> writes, \<open>launch\<close> replays to the same states and exit code.
  \<^item> \<open>TargetKernel\<close>: for every such target, a kernel with a process table that replays it and one on which it
    is recorded, shown to keep these promises; the theorems are applied to a target that exits with what it
    reads.

  \<^bold>\<open>Decoding.\<close>
  \<^item> \<open>TaskModel\<close>, \<open>SemanticDecoder\<close> (\<open>decoder/src/model\<close>, \<open>process_view.rs\<close>, \<open>decoder_trait.rs\<close>,
    \<open>native.rs\<close>): tasks and their tree; the contract of a decoder is the locale \<open>semantic_decoder\<close>, and
    each decoder is an interpretation of it.
  \<^item> \<open>GoLayout\<close>, \<open>GoDecoder\<close> (\<open>decoder/src/go\<close>): how the layout of the Go runtime is found and how
    goroutines are read with it.
  \<^item> \<open>AsyncState\<close>, \<open>TokioEnumerate\<close>, \<open>TokioDecoder\<close> (\<open>decoder/src/async_rust\<close>, \<open>registry.rs\<close>): coroutine
    layouts and state words, finding the live tasks of a runtime, expanding them into a tree, and the
    choice of a decoder for a binary.
  \<^item> \<open>CoroutineDwarf\<close> (\<open>async_rust/{dwarf,mod,error}.rs\<close>): extracting coroutine layouts from debugging
    entries. Extracted layouts are well formed, the bounded search for inline children finds exactly the
    nested coroutines, the order of a hash set does not matter, and a parked task is explained by the
    leaf future at the end of its await chain.
  \<^item> \<open>PtraceView\<close> (\<open>ptrace_view.rs\<close>): the process view of a live process, shown to give the decoders what
    they rely on.

  \<^bold>\<open>Native stacks.\<close>
  \<^item> \<open>Unwind\<close> (crate \<open>unwind\<close>): the kernel's listing of mappings, the load bias and range of a module, the
    tables of the unwinder and the symbolizer, remote memory, and backtraces. The listing is read exactly,
    addresses are translated without wrap-around, both tables agree, and a backtrace accounts for every
    address the unwinding library recovers.

  \<^bold>\<open>Debug adapter.\<close>
  \<^item> \<open>DapProtocol\<close> (\<open>dap/src/{transport,protocol}.rs\<close>): JSON values and the Content-Length framing.
  \<^item> \<open>DapServer\<close> (\<open>backend.rs\<close>, \<open>stub.rs\<close>, \<open>server.rs\<close>): the interface of debug targets, the stub target,
    and the request loop with an abstract specification of its replies that the loop refines. The
    contract \<open>inspectable_target\<close> is a locale.
  \<^item> \<open>ReplayBackend\<close> (\<open>replay_backend.rs\<close>): the target driven by a replay session; stepping lands on the
    neighbouring events, stepping back undoes stepping forward, and a stopped target can be inspected.

  \<^bold>\<open>Command line.\<close>
  \<^item> \<open>Cli\<close> (\<open>mirrorscope-cli/src/main.rs\<close>): argument parsers, subcommands over the models above, and printed
    texts. Arguments and values are read back from their printed form, and a watch request that the debug
    registers cannot hold is refused.

  \<^bold>\<open>Conformance.\<close> The unit tests that the sources carry for these parts, translated one by one under their own
  names (prefixed where two files share one) and run on the model: \<open>TestKit\<close> (what they share), \<open>ReplayTests\<close>,
  \<open>RecorderTests\<close>, \<open>ModelTests\<close>, \<open>LayoutTests\<close>, \<open>DecoderTests\<close>, \<open>GoTests\<close> and \<open>MapsTests\<close>. A definition there is a test; that the
  model passes it is a lemma. Left out are the tests that need a live process, a compiled binary or the JSON library.

  \<^bold>\<open>Fuel and bounds.\<close> A loop that the source bounds by a constant recurses on that constant. A loop that
  waits for the kernel takes fuel, and every claim that it answers is proved as such: the multi-threaded
  driver with fuel one more than its remaining records, the expansion of async tasks with \<open>MAX_TASKS\<close> nested
  calls, flattening a tree with as many nested calls as it has tasks; a target with \<open>n\<close> calls
  is recorded with fuel \<open>2 n + 3\<close> and replayed from any position with fuel \<open>2 n + 2\<close>, one unit per stop.

  \<^bold>\<open>Parameters.\<close> The kernel, the object-file, DWARF and JSON libraries, and the unwinding library are
  arguments of the definitions that call them; what a theorem needs of them is a named hypothesis, and its
  witness instantiates it.

  \<^bold>\<open>Not modelled.\<close> The glue that hands sections of an object file to the DWARF library (its answers are the
  parameters), the reader of the own process's memory that only tests use, the stand-ins of other operating
  systems that print a refusal, module declarations, unit tests that look at the
  running process or at nothing but a constructor, and the integration tests with their target programs.
\<close>

end
